(* ===== verification/Prelude.thy ===== *)
theory Prelude
  imports Main "HOL-Library.Multiset" "HOL-Library.Word" "HOL-Library.More_List"
begin

text \<open>
  What every component of the development shares: the ways a C function can go
  wrong (\<open>fault\<close>), the sequencing of computations that may go wrong (\<open>bindO\<close>),
  generic facts on lists updated by index, and the exchange sort that the server
  writes out by hand three times (\<open>card.c\<close> sorts a hand, \<open>poker.c\<close> sorts the players
  by position and the showdown ranks). The sort is verified once, in the locale
  \<open>exchange_order\<close>, for any strict weak order; the components interpret the locale
  on the comparison that their loop body writes out.
\<close>

named_theorems outcome_simps "evaluation of computations that may fault"
named_theorems wf_intros "introduction rules for well-formedness invariants"
named_theorems wf_dests "what a well-formedness invariant gives"

section \<open>Faults and outcomes\<close>

text \<open>
  Behaviour that C leaves undefined, or that never returns, is a value of the model:
  a dereferenced null pointer, a read of memory that was never written, an index
  outside an array, a use of an object that has been freed, a call through a null function
  pointer, a division by zero, an overflow of signed
  arithmetic, a \<open>free\<close> of memory that did not come from \<open>malloc\<close>, and a loop that is still
  running when its fuel or its random draws are used up.
\<close>

datatype fault = NullDeref | UninitRead | OutOfRange | UseAfterFree | NullCall | DivByZero | BadFree
  | SignedOverflow | Diverges | OutOfDraws

type_synonym 'a outcome = "fault + 'a"

definition bindO :: "'a outcome \<Rightarrow> ('a \<Rightarrow> 'b outcome) \<Rightarrow> 'b outcome" where
  "bindO m f = (case m of Inl e \<Rightarrow> Inl e | Inr x \<Rightarrow> f x)"

lemma bindO_Inl [simp, outcome_simps]: "bindO (Inl e) f = Inl e"
  by (simp add: bindO_def)

lemma bindO_Inr [simp, outcome_simps]: "bindO (Inr x) f = f x"
  by (simp add: bindO_def)

lemma bindO_eq_Inr [simp, outcome_simps]:
  "bindO m f = Inr y \<longleftrightarrow> (\<exists>x. m = Inr x \<and> f x = Inr y)"
  by (cases m) simp_all

lemma bindO_eq_Inl [outcome_simps]:
  "bindO m f = Inl e \<longleftrightarrow> m = Inl e \<or> (\<exists>x. m = Inr x \<and> f x = Inl e)"
  by (cases m) auto

lemma bindO_assoc: "bindO (bindO m f) g = bindO m (\<lambda>x. bindO (f x) g)"
  by (cases m) simp_all

definition deref :: "'a option \<Rightarrow> 'a outcome" where
  "deref p = (case p of None \<Rightarrow> Inl NullDeref | Some x \<Rightarrow> Inr x)"

lemma deref_simps [simp, outcome_simps]:
  "deref None = Inl NullDeref" "deref (Some x) = Inr x"
  by (simp_all add: deref_def)

lemma deref_eq_Inr [simp]: "deref p = Inr x \<longleftrightarrow> p = Some x"
  by (cases p) simp_all

text \<open>A test on the result of a computation, for evaluation on concrete inputs.\<close>

definition succeeds :: "'a outcome \<Rightarrow> ('a \<Rightarrow> bool) \<Rightarrow> bool" where
  "succeeds m P = (case m of Inl e \<Rightarrow> False | Inr x \<Rightarrow> P x)"

lemma succeeds_iff: "succeeds m P \<longleftrightarrow> (\<exists>x. m = Inr x \<and> P x)"
  by (cases m) (simp_all add: succeeds_def)

section \<open>Lists updated by index\<close>

lemma swap_list_update_mset:
  assumes "i < length xs" "j < length xs"
  shows "mset (xs[i := xs ! j, j := xs ! i]) = mset xs"
  using assms mset_swap [of j xs i] by (metis list_update_swap)

lemma sum_list_map_pointwise:
  fixes f g :: "'a \<Rightarrow> 'b::ab_group_add"
  assumes "distinct xs" "p \<in> set xs" "\<And>q. q \<in> set xs \<Longrightarrow> q \<noteq> p \<Longrightarrow> f q = g q"
  shows "sum_list (map f xs) = sum_list (map g xs) + f p - g p"
  using assms
proof (induction xs)
  case (Cons x xs)
  show ?case
  proof (cases "x = p")
    case True
    then have "map f xs = map g xs" using Cons.prems by auto
    then have "sum_list (map f xs) = sum_list (map g xs)" by (rule arg_cong)
    then show ?thesis using True by (simp add: algebra_simps)
  next
    case False
    then show ?thesis using Cons by (simp add: algebra_simps)
  qed
qed simp

lemma find_append: "List.find P (xs @ ys) = (case List.find P xs of None \<Rightarrow> List.find P ys | Some x \<Rightarrow> Some x)"
  by (induction xs) auto

lemma list_length_five:
  "length xs = 5 \<longleftrightarrow> (\<exists>a b c d e. xs = [a, b, c, d, e])"
  by (auto simp: eval_nat_numeral length_Suc_conv)

lemma list_length_seven:
  "length xs = 7 \<longleftrightarrow> (\<exists>a b c d e f g. xs = [a, b, c, d, e, f, g])"
  by (auto simp: eval_nat_numeral length_Suc_conv)

section \<open>The exchange sort\<close>

text \<open>
  The loop \<open>for i < n, for j < n: if (swaps xs[i] xs[j]) exchange xs[i] and xs[j]\<close>.
  The inner loop always runs from 0, so the first pass brings an extreme element to
  index 0 and each later pass inserts element \<open>i\<close> into the sorted prefix.
\<close>

definition swap_if :: "('a \<Rightarrow> 'a \<Rightarrow> bool) \<Rightarrow> nat \<Rightarrow> nat \<Rightarrow> 'a list \<Rightarrow> 'a list" where
  "swap_if swaps i j xs = (if swaps (xs ! i) (xs ! j) then xs[i := xs ! j, j := xs ! i] else xs)"

definition exchange_row :: "('a \<Rightarrow> 'a \<Rightarrow> bool) \<Rightarrow> nat \<Rightarrow> nat \<Rightarrow> 'a list \<Rightarrow> 'a list" where
  "exchange_row swaps n i xs = fold (swap_if swaps i) [0..<n] xs"

definition exchange_sort :: "('a \<Rightarrow> 'a \<Rightarrow> bool) \<Rightarrow> nat \<Rightarrow> 'a list \<Rightarrow> 'a list" where
  "exchange_sort swaps n xs = fold (exchange_row swaps n) [0..<n] xs"

lemma length_swap_if [simp]: "length (swap_if swaps i j xs) = length xs"
  by (simp add: swap_if_def)

lemma mset_swap_if [simp]:
  "i < length xs \<Longrightarrow> j < length xs \<Longrightarrow> mset (swap_if swaps i j xs) = mset xs"
  by (simp add: swap_if_def swap_list_update_mset)

lemma fold_swap_if_mset:
  assumes "i < length xs" "\<forall>j \<in> set js. j < length xs"
  shows "length (fold (swap_if swaps i) js xs) = length xs
    \<and> mset (fold (swap_if swaps i) js xs) = mset xs"
  using assms by (induction js arbitrary: xs) simp_all

lemma exchange_row_mset:
  assumes "i < length xs" "n \<le> length xs"
  shows "length (exchange_row swaps n i xs) = length xs"
    and "mset (exchange_row swaps n i xs) = mset xs"
  using fold_swap_if_mset [of i xs "[0..<n]" swaps] assms
  by (auto simp: exchange_row_def)

lemma fold_exchange_row_mset:
  assumes "\<forall>i \<in> set is. i < length xs" "n \<le> length xs"
  shows "length (fold (exchange_row swaps n) is xs) = length xs
    \<and> mset (fold (exchange_row swaps n) is xs) = mset xs"
  using assms by (induction "is" arbitrary: xs) (simp_all add: exchange_row_mset)

lemma exchange_sort_mset:
  assumes "n \<le> length xs"
  shows "length (exchange_sort swaps n xs) = length xs"
    and "mset (exchange_sort swaps n xs) = mset xs"
  using fold_exchange_row_mset [of "[0..<n]" xs n swaps] assms
  by (auto simp: exchange_sort_def)

locale exchange_order =
  fixes swaps :: "'a \<Rightarrow> 'a \<Rightarrow> bool"
  assumes swaps_asym: "swaps a b \<Longrightarrow> \<not> swaps b a"
    and swaps_ntrans: "swaps a c \<Longrightarrow> swaps a b \<or> swaps b c"
begin

definition le :: "'a \<Rightarrow> 'a \<Rightarrow> bool" where
  "le a b \<longleftrightarrow> \<not> swaps b a"

lemma le_refl [simp]: "le a a"
  using swaps_asym le_def by blast

lemma le_trans: "le a b \<Longrightarrow> le b c \<Longrightarrow> le a c"
  using swaps_ntrans le_def by blast

lemma swaps_le: "swaps a b \<Longrightarrow> le a b"
  using swaps_asym le_def by blast

lemma not_swaps_le: "\<not> swaps a b \<Longrightarrow> le b a"
  by (simp add: le_def)

definition max_at :: "nat \<Rightarrow> nat \<Rightarrow> 'a list \<Rightarrow> bool" where
  "max_at n m xs \<longleftrightarrow> (\<forall>k<n. le (xs ! k) (xs ! m))"

definition ordered_to :: "nat \<Rightarrow> 'a list \<Rightarrow> bool" where
  "ordered_to m xs \<longleftrightarrow> (\<forall>a b. a < b \<longrightarrow> b < m \<longrightarrow> le (xs ! a) (xs ! b))"

definition row_inv :: "nat \<Rightarrow> nat \<Rightarrow> nat \<Rightarrow> 'a list \<Rightarrow> bool" where
  "row_inv n i j xs \<longleftrightarrow> length xs = n \<and> ordered_to i xs \<and> max_at j i xs
     \<and> (if j < i then max_at n (i - 1) xs else i = 0 \<or> max_at n i xs)"

lemma row_inv_below:
  assumes inv: "row_inv n i j xs" and ji: "j < i" and "i < n"
  shows "row_inv n i (Suc j) (swap_if swaps i j xs)"
proof (cases "swaps (xs ! i) (xs ! j)")
  case True
  have ord: "\<And>a b. a < b \<Longrightarrow> b < i \<Longrightarrow> le (xs ! a) (xs ! b)"
    and below: "\<And>k. k < j \<Longrightarrow> le (xs ! k) (xs ! i)"
    and top: "\<And>k. k < n \<Longrightarrow> le (xs ! k) (xs ! (i - 1))"
    using inv ji by (auto simp: row_inv_def ordered_to_def max_at_def)
  have ij: "le (xs ! i) (xs ! j)" using True by (rule swaps_le)
  have above: "le (xs ! i) (xs ! b)" if "j < b" "b < i" for b
    using le_trans [OF ij ord [OF that]] .
  have len: "length xs = n" using inv by (simp add: row_inv_def)
  let ?ys = "xs[i := xs ! j, j := xs ! i]"
  have "ordered_to i ?ys"
    using ji ord below above \<open>i < n\<close> len by (auto simp: ordered_to_def nth_list_update)
  moreover have "max_at (Suc j) i ?ys"
    using ji ord ij \<open>i < n\<close> len by (auto simp: max_at_def nth_list_update less_Suc_eq)
  moreover have "max_at n (i - 1) ?ys" if "Suc j < i"
    using that top \<open>i < n\<close> len ji by (auto simp: max_at_def nth_list_update)
  moreover have "max_at n i ?ys" if "\<not> Suc j < i"
  proof -
    have "j = i - 1" using that ji by simp
    then show ?thesis using top \<open>i < n\<close> len ji by (auto simp: max_at_def nth_list_update)
  qed
  ultimately show ?thesis using True len by (simp add: row_inv_def swap_if_def)
next
  case False
  then have "le (xs ! j) (xs ! i)" by (rule not_swaps_le)
  moreover have "i - 1 = j" if "\<not> Suc j < i" using that ji by simp
  ultimately show ?thesis
    using False inv ji le_trans
    by (auto simp: row_inv_def swap_if_def max_at_def less_Suc_eq)
qed

lemma row_inv_above:
  assumes inv: "row_inv n i j xs" and "i \<le> j" "j < n"
  shows "row_inv n i (Suc j) (swap_if swaps i j xs)"
proof (cases "swaps (xs ! i) (xs ! j)")
  case True
  then have ij: "le (xs ! i) (xs ! j)" and nle: "\<not> le (xs ! j) (xs ! i)"
    by (rule swaps_le) (simp add: le_def True)
  have "i = 0" using inv assms nle by (auto simp: row_inv_def max_at_def split: if_splits)
  have "j \<noteq> i" using nle by auto
  show ?thesis
    using True inv \<open>i = 0\<close> \<open>j \<noteq> i\<close> \<open>j < n\<close> ij le_trans [OF _ ij]
    by (auto simp: row_inv_def swap_if_def max_at_def ordered_to_def less_Suc_eq nth_list_update)
next
  case False
  then have "le (xs ! j) (xs ! i)" by (rule not_swaps_le)
  then show ?thesis using False inv assms
    by (auto simp: row_inv_def swap_if_def max_at_def less_Suc_eq)
qed

lemma row_inv_step:
  assumes "row_inv n i j xs" "i < n" "j < n"
  shows "row_inv n i (Suc j) (swap_if swaps i j xs)"
  using assms row_inv_below row_inv_above by (cases "j < i") auto

lemma row_inv_loop:
  assumes "row_inv n i 0 xs" "i < n" "j \<le> n"
  shows "row_inv n i j (fold (swap_if swaps i) [0..<j] xs)"
  using assms(3) by (induction j) (simp_all add: assms(1,2) row_inv_step)

lemma exchange_row_step:
  assumes "length xs = n" "i < n" "ordered_to i xs" "i = 0 \<or> max_at n (i - 1) xs"
  shows "ordered_to (Suc i) (exchange_row swaps n i xs) \<and> max_at n i (exchange_row swaps n i xs)"
proof -
  have "row_inv n i 0 xs" using assms by (auto simp: row_inv_def max_at_def)
  from row_inv_loop [OF this \<open>i < n\<close>, of n] have "row_inv n i n (exchange_row swaps n i xs)"
    by (simp add: exchange_row_def)
  then show ?thesis using \<open>i < n\<close>
    by (auto simp: row_inv_def ordered_to_def max_at_def less_Suc_eq)
qed

lemma exchange_loop:
  assumes "length xs = n" "i \<le> n"
  shows "ordered_to i (fold (exchange_row swaps n) [0..<i] xs)
    \<and> (i = 0 \<or> max_at n (i - 1) (fold (exchange_row swaps n) [0..<i] xs))"
  using assms(2)
proof (induction i)
  case (Suc i)
  have "length (fold (exchange_row swaps n) [0..<i] xs) = n"
    using fold_exchange_row_mset [of "[0..<i]" xs n swaps] assms Suc.prems by auto
  with Suc show ?case using exchange_row_step [of "fold (exchange_row swaps n) [0..<i] xs" n i] by auto
qed (simp add: ordered_to_def)

theorem sorted_exchange_sort:
  "sorted_wrt le (exchange_sort swaps (length xs) xs)"
  using exchange_loop [of xs "length xs" "length xs"] exchange_sort_mset(1) [of "length xs" xs swaps]
  by (simp add: exchange_sort_def ordered_to_def sorted_wrt_iff_nth_less)

end

text \<open>Any key into a linear order gives the two directions of the loop.\<close>

lemma exchange_order_ascending:
  fixes key :: "'a \<Rightarrow> 'k::linorder"
  shows "exchange_order (\<lambda>a b. key a < key b)"
  by unfold_locales auto

lemma exchange_order_descending:
  fixes key :: "'a \<Rightarrow> 'k::linorder"
  shows "exchange_order (\<lambda>a b. key b < key a)"
  by unfold_locales auto

end
