(* ===== verification/Card.thy ===== *)
theory Card
  imports Prelude
begin

text \<open>
  \<open>src/src/card.c\<close> and \<open>src/include/card.h\<close>: cards, the draw of a fresh card, the sort
  of the seven cards of a player, the enumeration of the twenty-one hands of five, the
  ten hand checks, the score of a hand and the choice of the best hand; and
  \<open>pkrsrv_random_range\<close> of \<open>src/src/random.c\<close>, whose arithmetic the draw rests on.

  A C array of cards is a list (\<open>fives\<close> and the \<open>cards\<close> of a result have length 5,
  \<open>sevens\<close> length 7, the history length 52). C's zero initialisation of a struct is
  \<open>zero_check\<close>. The values of \<open>rand()\<close> are an explicit list of draws, two per attempt;
  a draw that is still looking for a fresh card when the list ends is the fault
  \<open>OutOfDraws\<close>.
\<close>

section \<open>Data\<close>

record card =
  card_index :: int
  card_kind :: int

record check_result =
  cr_exists :: bool
  cr_rank :: int
  cr_cards :: "card list"

record score_result =
  is_high_card :: bool
  is_pair :: bool
  is_two_pair :: bool
  is_three_kind :: bool
  is_straight :: bool
  is_flush :: bool
  is_full_house :: bool
  is_quad :: bool
  is_straight_flush :: bool
  is_royal_flush :: bool
  sr_check :: check_result
  sr_cards :: "card list"

definition RANK_HIGH_CARD :: int where "RANK_HIGH_CARD = 1000000"
definition RANK_PAIR :: int where "RANK_PAIR = 2000000"
definition RANK_TWO_PAIR :: int where "RANK_TWO_PAIR = 3000000"
definition RANK_THREE_KIND :: int where "RANK_THREE_KIND = 4000000"
definition RANK_STRAIGHT :: int where "RANK_STRAIGHT = 5000000"
definition RANK_FLUSH :: int where "RANK_FLUSH = 6000000"
definition RANK_FULL_HOUSE :: int where "RANK_FULL_HOUSE = 7000000"
definition RANK_QUAD :: int where "RANK_QUAD = 8000000"
definition RANK_STRAIGHT_FLUSH :: int where "RANK_STRAIGHT_FLUSH = 9000000"
definition RANK_ROYAL_FLUSH :: int where "RANK_ROYAL_FLUSH = 10000000"

lemmas rank_defs = RANK_HIGH_CARD_def RANK_PAIR_def RANK_TWO_PAIR_def RANK_THREE_KIND_def
  RANK_STRAIGHT_def RANK_FLUSH_def RANK_FULL_HOUSE_def RANK_QUAD_def
  RANK_STRAIGHT_FLUSH_def RANK_ROYAL_FLUSH_def

definition FIVES_INDEXES :: "nat list" where
  "FIVES_INDEXES = [
    0, 1, 2, 3, 4,
    0, 1, 2, 3, 5,
    0, 1, 2, 3, 6,
    0, 1, 2, 4, 5,
    0, 1, 2, 4, 6,
    0, 1, 2, 5, 6,
    0, 1, 3, 4, 5,
    0, 1, 3, 4, 6,
    0, 1, 3, 5, 6,
    0, 1, 4, 5, 6,
    0, 2, 3, 4, 5,
    0, 2, 3, 4, 6,
    0, 2, 3, 5, 6,
    0, 2, 4, 5, 6,
    0, 3, 4, 5, 6,
    1, 2, 3, 4, 5,
    1, 2, 3, 4, 6,
    1, 2, 3, 5, 6,
    1, 2, 4, 5, 6,
    1, 3, 4, 5, 6,
    2, 3, 4, 5, 6]"

definition zero_card :: card where
  "zero_card = \<lparr>card_index = 0, card_kind = 0\<rparr>"

definition zero_check :: check_result where
  "zero_check = \<lparr>cr_exists = False, cr_rank = 0, cr_cards = replicate 5 zero_card\<rparr>"

definition zero_score :: score_result where
  "zero_score = \<lparr>is_high_card = False, is_pair = False, is_two_pair = False,
     is_three_kind = False, is_straight = False, is_flush = False, is_full_house = False,
     is_quad = False, is_straight_flush = False, is_royal_flush = False,
     sr_check = zero_check, sr_cards = replicate 5 zero_card\<rparr>"

section \<open>Drawing a fresh card\<close>

text \<open>\<open>min + (rand() % max - min)\<close>: the subtraction is inside the parentheses, so the
  lower bound cancels and the result ranges over \<open>0 .. max - 1\<close>.\<close>

definition random_range :: "int \<Rightarrow> int \<Rightarrow> int \<Rightarrow> int" where
  "random_range mn mx r = mn + (r mod mx - mn)"

text \<open>The scan of the history: \<open>None\<close> is the jump back to \<open>GENERATE\<close>, \<open>Some i\<close> the value
  of \<open>current_i\<close> after the loop, which stays on the last slot when no slot is free.\<close>

fun scan_history :: "card \<Rightarrow> card list \<Rightarrow> nat \<Rightarrow> nat option" where
  "scan_history g [] i = Some i"
| "scan_history g (p # ps) i =
    (if card_index p < 0 then Some i
     else if card_index p = card_index g \<and> card_kind p = card_kind g then None
     else if ps = [] then Some i
     else scan_history g ps (Suc i))"

fun get_random :: "int list \<Rightarrow> card list \<Rightarrow> (card \<times> card list \<times> int list) outcome" where
  "get_random (a # b # rs) history =
    (let generated = \<lparr>card_index = random_range 0 13 a, card_kind = random_range 0 3 b\<rparr>
     in case scan_history generated history 0 of
          None \<Rightarrow> get_random rs history
        | Some current_i \<Rightarrow> Inr (generated, history[current_i := generated], rs))"
| "get_random _ history = Inl OutOfDraws"

section \<open>Sorting the seven cards and enumerating the hands of five\<close>

definition sevens_swaps :: "card \<Rightarrow> card \<Rightarrow> bool" where
  "sevens_swaps a b \<longleftrightarrow> card_index a > card_index b"

definition sort_sevens :: "card list \<Rightarrow> card list" where
  "sort_sevens sevens = exchange_sort sevens_swaps 7 sevens"

definition five_at :: "card list \<Rightarrow> nat \<Rightarrow> card list" where
  "five_at sevens i = map (\<lambda>j. sevens ! (FIVES_INDEXES ! (i * 5 + j))) [0..<5]"

definition get_fives :: "card list \<Rightarrow> card list list" where
  "get_fives sevens = map (five_at sevens) [0..<21]"

section \<open>The hand checks\<close>

definition same_index :: "card list \<Rightarrow> nat \<Rightarrow> nat \<Rightarrow> bool" where
  "same_index h i j \<longleftrightarrow> card_index (h ! i) = card_index (h ! j)"

definition same_kind :: "card list \<Rightarrow> nat \<Rightarrow> nat \<Rightarrow> bool" where
  "same_kind h i j \<longleftrightarrow> card_kind (h ! i) = card_kind (h ! j)"

definition next_index :: "card list \<Rightarrow> nat \<Rightarrow> nat \<Rightarrow> bool" where
  "next_index h i j \<longleftrightarrow> card_index (h ! i) = card_index (h ! j) - 1"

definition pick :: "card list \<Rightarrow> nat list \<Rightarrow> card list" where
  "pick h is = map (\<lambda>i. h ! i) is"

definition found :: "int \<Rightarrow> card list \<Rightarrow> check_result" where
  "found rank cs = \<lparr>cr_exists = True, cr_rank = rank, cr_cards = cs\<rparr>"

definition not_found :: "int \<Rightarrow> check_result" where
  "not_found rank = zero_check\<lparr>cr_rank := rank\<rparr>"

definition check_high_card :: "card list \<Rightarrow> check_result" where
  "check_high_card h =
    \<lparr>cr_exists = False, cr_rank = RANK_HIGH_CARD, cr_cards = pick h [0, 1, 2, 3, 4]\<rparr>"

definition check_two_pair :: "card list \<Rightarrow> check_result" where
  "check_two_pair h =
    (if same_index h 0 1 \<and> same_index h 2 3 then found RANK_TWO_PAIR (pick h [0, 1, 2, 3, 4])
     else if same_index h 0 1 \<and> same_index h 3 4 then found RANK_TWO_PAIR (pick h [0, 1, 3, 4, 2])
     else if same_index h 1 2 \<and> same_index h 3 4 then found RANK_TWO_PAIR (pick h [1, 2, 3, 4, 0])
     else not_found RANK_TWO_PAIR)"

definition check_pair :: "card list \<Rightarrow> check_result" where
  "check_pair h =
    (if same_index h 0 1 then found RANK_PAIR (pick h [0, 1, 2, 3, 4])
     else if same_index h 1 2 then found RANK_PAIR (pick h [1, 2, 0, 3, 4])
     else if same_index h 2 3 then found RANK_PAIR (pick h [2, 3, 0, 1, 4])
     else if same_index h 3 4 then found RANK_PAIR (pick h [3, 4, 0, 1, 2])
     else not_found RANK_PAIR)"

definition check_three_kind :: "card list \<Rightarrow> check_result" where
  "check_three_kind h =
    (if same_index h 0 1 \<and> same_index h 1 2 then found RANK_THREE_KIND (pick h [0, 1, 2, 3, 4])
     else if same_index h 1 2 \<and> same_index h 2 3 then found RANK_THREE_KIND (pick h [1, 2, 3, 0, 4])
     else if same_index h 2 3 \<and> same_index h 3 4 then found RANK_THREE_KIND (pick h [2, 3, 4, 0, 1])
     else not_found RANK_THREE_KIND)"

definition check_straight :: "card list \<Rightarrow> check_result" where
  "check_straight h =
    (if next_index h 0 1 \<and> next_index h 1 2 \<and> next_index h 2 3 \<and> next_index h 3 4
     then found RANK_STRAIGHT (pick h [0, 1, 2, 3, 4])
     else not_found RANK_STRAIGHT)"

definition check_flush :: "card list \<Rightarrow> check_result" where
  "check_flush h =
    (if same_kind h 0 1 \<and> same_kind h 1 2 \<and> same_kind h 2 3 \<and> same_kind h 3 4
     then found RANK_FLUSH (pick h [0, 1, 2, 3, 4])
     else not_found RANK_FLUSH)"

definition check_full_house :: "card list \<Rightarrow> check_result" where
  "check_full_house h =
    (if same_index h 0 1 \<and> same_index h 1 2 \<and> same_index h 3 4
     then found RANK_FULL_HOUSE (pick h [0, 1, 2, 3, 4])
     else if same_index h 0 1 \<and> same_index h 2 3 \<and> same_index h 3 4
     then found RANK_FULL_HOUSE (pick h [2, 3, 4, 0, 1])
     else not_found RANK_FULL_HOUSE)"

definition check_quad :: "card list \<Rightarrow> check_result" where
  "check_quad h =
    (if same_index h 0 1 \<and> same_index h 1 2 \<and> same_index h 2 3
     then found RANK_QUAD (pick h [0, 1, 2, 3, 4])
     else if same_index h 1 2 \<and> same_index h 2 3 \<and> same_index h 3 4
     then found RANK_QUAD (pick h [1, 2, 3, 4, 0])
     else not_found RANK_QUAD)"

definition check_straight_flush :: "card list \<Rightarrow> check_result" where
  "check_straight_flush h =
    (if \<not> (next_index h 0 1 \<and> next_index h 1 2 \<and> next_index h 2 3 \<and> next_index h 3 4)
     then not_found RANK_STRAIGHT_FLUSH
     else if same_kind h 0 1 \<and> same_kind h 1 2 \<and> same_kind h 2 3 \<and> same_kind h 3 4
     then found RANK_STRAIGHT_FLUSH (pick h [0, 1, 2, 3, 4])
     else not_found RANK_STRAIGHT_FLUSH)"

text \<open>Every path of the royal flush check, the last one included, returns the result with
  \<open>is_exists\<close> still false.\<close>

definition check_royal_flush :: "card list \<Rightarrow> check_result" where
  "check_royal_flush h =
    (let result = not_found RANK_ROYAL_FLUSH;
         straight = next_index h 0 1 \<and> next_index h 1 2 \<and> next_index h 2 3 \<and> next_index h 3 4;
         one_kind = same_kind h 0 1 \<and> same_kind h 1 2 \<and> same_kind h 2 3 \<and> same_kind h 3 4;
         royal = card_index (h ! 0) = 12 \<and> card_index (h ! 1) = 11 \<and> card_index (h ! 2) = 10
           \<and> card_index (h ! 3) = 9 \<and> card_index (h ! 4) = 8
     in if \<not> straight then result
        else if one_kind then result
        else if \<not> royal then result
        else result)"

section \<open>The score of a hand\<close>

definition fives_result :: "card list \<Rightarrow> score_result" where
  "fives_result h =
    (if cr_exists (check_royal_flush h)
     then zero_score\<lparr>is_royal_flush := True, sr_check := check_royal_flush h\<rparr>
     else if cr_exists (check_straight_flush h)
     then zero_score\<lparr>is_straight_flush := True, sr_check := check_straight_flush h\<rparr>
     else if cr_exists (check_quad h)
     then zero_score\<lparr>is_quad := True, sr_check := check_quad h\<rparr>
     else if cr_exists (check_full_house h)
     then zero_score\<lparr>is_full_house := True, sr_check := check_full_house h\<rparr>
     else if cr_exists (check_flush h)
     then zero_score\<lparr>is_flush := True, sr_check := check_flush h\<rparr>
     else if cr_exists (check_straight h)
     then zero_score\<lparr>is_straight := True, sr_check := check_straight h\<rparr>
     else if cr_exists (check_three_kind h)
     then zero_score\<lparr>is_three_kind := True, sr_check := check_three_kind h\<rparr>
     else if cr_exists (check_two_pair h)
     then zero_score\<lparr>is_two_pair := True, sr_check := check_two_pair h\<rparr>
     else if cr_exists (check_pair h)
     then zero_score\<lparr>is_pair := True, sr_check := check_pair h\<rparr>
     else zero_score\<lparr>is_high_card := True, sr_check := check_high_card h\<rparr>)"

definition kicker :: "score_result \<Rightarrow> nat \<Rightarrow> int" where
  "kicker r k = card_index (cr_cards (sr_check r) ! k) + 1"

definition rank_bonus :: "score_result \<Rightarrow> int" where
  "rank_bonus r =
    (if is_royal_flush r then 0
     else if is_straight_flush r then kicker r 4 * 10000
     else if is_quad r then kicker r 0 * 10000 + kicker r 4 * 100
     else if is_full_house r then kicker r 0 * 10000 + kicker r 4
     else if is_flush r then kicker r 0 * 10000
     else if is_straight r then kicker r 4 * 10000
     else if is_three_kind r then kicker r 0 * 10000 + kicker r 4
     else if is_two_pair r then kicker r 2 * 10000 + kicker r 0 * 100 + kicker r 4
     else if is_pair r then kicker r 0 * 10000 + kicker r 4
     else kicker r 4 * 10000)"

definition get_fives_score :: "card list \<Rightarrow> score_result" where
  "get_fives_score h =
    (let r = fives_result h
     in r\<lparr>sr_check := (sr_check r)\<lparr>cr_rank := cr_rank (sr_check r) + rank_bonus r\<rparr>\<rparr>)"

definition score_rank :: "score_result \<Rightarrow> int" where
  "score_rank r = cr_rank (sr_check r)"

definition better_score :: "score_result \<Rightarrow> score_result \<Rightarrow> score_result" where
  "better_score score highest =
    (if score_rank score > score_rank highest then score else highest)"

definition best_score :: "score_result list \<Rightarrow> score_result" where
  "best_score ss = fold better_score ss zero_score"

text \<open>The caller's array is sorted in place; the second component is that array.\<close>

definition get_best_fives_score :: "card list \<Rightarrow> score_result \<times> card list" where
  "get_best_fives_score sevens =
    (let sorted = sort_sevens sevens
     in (best_score (map get_fives_score (get_fives sorted)), sorted))"

end
