(* ===== verification/Card_Hands.thy ===== *)
theory Card_Hands
  imports Card "HOL-Library.Sublist"
begin

text \<open>
  Correctness of the evaluation of hands: the sort, the enumeration of the hands of five,
  the category each check decides compared with the rules of poker (\<open>ref_category\<close>, stated
  by counting equal indexes), the rank bands, the choice of the best of the twenty-one
  hands, and what the descending sort means for straights and for high cards.
\<close>

section \<open>Sorting and enumerating\<close>

definition descending :: "card list \<Rightarrow> bool" where
  "descending h \<longleftrightarrow> sorted_wrt (\<lambda>a b. card_index b \<le> card_index a) h"

interpretation sevens: exchange_order sevens_swaps
  by unfold_locales (auto simp: sevens_swaps_def)

lemma sevens_le: "sevens.le = (\<lambda>a b. card_index b \<le> card_index a)"
  by (auto simp: fun_eq_iff sevens.le_def sevens_swaps_def)

lemma length_sort_sevens: "length s = 7 \<Longrightarrow> length (sort_sevens s) = 7"
  by (simp add: sort_sevens_def exchange_sort_mset)

lemma mset_sort_sevens: "length s = 7 \<Longrightarrow> mset (sort_sevens s) = mset s"
  by (simp add: sort_sevens_def exchange_sort_mset)

lemma descending_sort_sevens: "length s = 7 \<Longrightarrow> descending (sort_sevens s)"
  using sevens.sorted_exchange_sort [of s]
  by (simp add: sort_sevens_def descending_def sevens_le)

lemma get_fives_subseqs:
  "length s = 7 \<Longrightarrow> get_fives s = filter (\<lambda>h. length h = 5) (subseqs s)"
  by (auto simp: list_length_seven get_fives_def five_at_def FIVES_INDEXES_def upt_rec Let_def)

lemma length_get_fives: "length (get_fives s) = 21"
  by (simp add: get_fives_def)

text \<open>The sort of the seven cards is a permutation of them in descending order of index.\<close>

theorem sort_sevens_correct:
  assumes "length s = 7"
  shows "mset (sort_sevens s) = mset s \<and> descending (sort_sevens s)"
  using assms mset_sort_sevens descending_sort_sevens by blast

definition seven_of :: "int list \<Rightarrow> int list \<Rightarrow> card list" where
  "seven_of is ks = map2 (\<lambda>i k. \<lparr>card_index = i, card_kind = k\<rparr>) is ks"

theorem sort_sevens_correct_witness:
  "mset (sort_sevens (seven_of [3, 12, 0, 7, 7, 1, 9] [0, 1, 2, 0, 1, 2, 0]))
    = mset (seven_of [3, 12, 0, 7, 7, 1, 9] [0, 1, 2, 0, 1, 2, 0])"
  using sort_sevens_correct [of "seven_of [3, 12, 0, 7, 7, 1, 9] [0, 1, 2, 0, 1, 2, 0]"]
  by (simp add: seven_of_def)

text \<open>The table of indexes enumerates exactly the five-card subsequences of the seven
  cards, each choice of positions once, in the order of the choices.\<close>

theorem get_fives_enumerates:
  assumes "length s = 7"
  shows "get_fives s = filter (\<lambda>h. length h = 5) (subseqs s) \<and> length (get_fives s) = 21"
  using get_fives_subseqs [OF assms] length_get_fives by metis

theorem get_fives_enumerates_witness:
  "get_fives (seven_of [6, 5, 4, 3, 2, 1, 0] [0, 0, 0, 0, 0, 0, 0]) ! 20
    = seven_of [4, 3, 2, 1, 0] [0, 0, 0, 0, 0]
   \<and> length (get_fives (seven_of [6, 5, 4, 3, 2, 1, 0] [0, 0, 0, 0, 0, 0, 0])) = 21"
  using get_fives_enumerates [of "seven_of [6, 5, 4, 3, 2, 1, 0] [0, 0, 0, 0, 0, 0, 0]"]
  by (simp add: seven_of_def)

lemma sorted_wrt_subseq: "subseq xs ys \<Longrightarrow> sorted_wrt P ys \<Longrightarrow> sorted_wrt P xs"
proof (induction rule: list_emb.induct)
  case (list_emb_Cons2 x y xs ys)
  then show ?case using list_emb_set [of "(=)" xs ys] by fastforce
qed simp_all

lemma get_fives_memberD:
  assumes "length s = 7" "h \<in> set (get_fives s)"
  shows "length h = 5" "set h \<subseteq> set s" "descending s \<Longrightarrow> descending h" "distinct s \<Longrightarrow> distinct h"
proof -
  have sub: "subseq h s" and "length h = 5"
    using assms by (simp_all add: get_fives_subseqs)
  then show "length h = 5" "set h \<subseteq> set s" by (auto dest: list_emb_set)
  show "descending s \<Longrightarrow> descending h"
    using sub sorted_wrt_subseq unfolding descending_def by blast
  show "distinct s \<Longrightarrow> distinct h"
    using sub by (metis distinct_nthsI subseq_conv_nths)
qed

section \<open>The interface of a hand check\<close>

text \<open>
  What the scoring relies on: every check carries a fixed base rank, and where it applies
  its result is a rearrangement of the five cards, so that the kickers read from the result
  are indexes of cards of the hand.
\<close>

locale hand_check =
  fixes check :: "card list \<Rightarrow> check_result"
    and base :: int
    and applies :: "card list \<Rightarrow> bool"
  assumes check_rank: "cr_rank (check h) = base"
    and check_cards: "length h = 5 \<Longrightarrow> applies h \<Longrightarrow> mset (cr_cards (check h)) = mset h"
begin

lemma check_length: "length h = 5 \<Longrightarrow> applies h \<Longrightarrow> length (cr_cards (check h)) = 5"
  using check_cards mset_eq_length by metis

lemma check_nth_mem:
  "length h = 5 \<Longrightarrow> applies h \<Longrightarrow> k < 5 \<Longrightarrow> cr_cards (check h) ! k \<in> set h"
  using check_length check_cards nth_mem mset_eq_setD by metis

lemma check_kicker:
  assumes "length h = 5" "applies h" "k < 5" "\<forall>c\<in>set h. 0 \<le> card_index c \<and> card_index c < 13"
  shows "1 \<le> card_index (cr_cards (check h) ! k) + 1" "card_index (cr_cards (check h) ! k) + 1 \<le> 13"
  using check_nth_mem [OF assms(1-3)] assms(4) by force+

end

lemmas check_defs = check_high_card_def check_two_pair_def check_pair_def check_three_kind_def
  check_straight_def check_flush_def check_full_house_def check_quad_def
  check_straight_flush_def check_royal_flush_def

lemmas check_result_simps = found_def not_found_def zero_check_def pick_def

interpretation high_card: hand_check check_high_card RANK_HIGH_CARD "\<lambda>h. True"
  by unfold_locales (auto simp: check_defs check_result_simps list_length_five)

interpretation two_pair: hand_check check_two_pair RANK_TWO_PAIR "\<lambda>h. cr_exists (check_two_pair h)"
  by unfold_locales (auto simp: check_defs check_result_simps list_length_five split: if_splits)

interpretation pair: hand_check check_pair RANK_PAIR "\<lambda>h. cr_exists (check_pair h)"
  by unfold_locales (auto simp: check_defs check_result_simps list_length_five split: if_splits)

interpretation three_kind: hand_check check_three_kind RANK_THREE_KIND
    "\<lambda>h. cr_exists (check_three_kind h)"
  by unfold_locales (auto simp: check_defs check_result_simps list_length_five split: if_splits)

interpretation straight: hand_check check_straight RANK_STRAIGHT "\<lambda>h. cr_exists (check_straight h)"
  by unfold_locales (auto simp: check_defs check_result_simps list_length_five split: if_splits)

interpretation flush: hand_check check_flush RANK_FLUSH "\<lambda>h. cr_exists (check_flush h)"
  by unfold_locales (auto simp: check_defs check_result_simps list_length_five split: if_splits)

interpretation full_house: hand_check check_full_house RANK_FULL_HOUSE
    "\<lambda>h. cr_exists (check_full_house h)"
  by unfold_locales (auto simp: check_defs check_result_simps list_length_five split: if_splits)

interpretation quad: hand_check check_quad RANK_QUAD "\<lambda>h. cr_exists (check_quad h)"
  by unfold_locales (auto simp: check_defs check_result_simps list_length_five split: if_splits)

interpretation straight_flush: hand_check check_straight_flush RANK_STRAIGHT_FLUSH
    "\<lambda>h. cr_exists (check_straight_flush h)"
  by unfold_locales (auto simp: check_defs check_result_simps list_length_five split: if_splits)

interpretation royal_flush: hand_check check_royal_flush RANK_ROYAL_FLUSH
    "\<lambda>h. cr_exists (check_royal_flush h)"
  by unfold_locales (auto simp: check_defs check_result_simps Let_def)

lemma not_royal_flush [simp]: "\<not> cr_exists (check_royal_flush h)"
  by (simp add: check_royal_flush_def Let_def check_result_simps)

section \<open>Categories of hands\<close>

datatype hand_category = HighCard | Pair | TwoPair | ThreeKind | Straight | Flush
  | FullHouse | Quad | StraightFlush | RoyalFlush

definition category_base :: "hand_category \<Rightarrow> int" where
  "category_base c = (case c of
     HighCard \<Rightarrow> RANK_HIGH_CARD | Pair \<Rightarrow> RANK_PAIR | TwoPair \<Rightarrow> RANK_TWO_PAIR
   | ThreeKind \<Rightarrow> RANK_THREE_KIND | Straight \<Rightarrow> RANK_STRAIGHT | Flush \<Rightarrow> RANK_FLUSH
   | FullHouse \<Rightarrow> RANK_FULL_HOUSE | Quad \<Rightarrow> RANK_QUAD | StraightFlush \<Rightarrow> RANK_STRAIGHT_FLUSH
   | RoyalFlush \<Rightarrow> RANK_ROYAL_FLUSH)"

lemma category_base_inj: "category_base a = category_base b \<longleftrightarrow> a = b"
  by (cases a; cases b; simp add: category_base_def rank_defs)

instantiation hand_category :: linorder
begin

definition less_eq_hand_category :: "hand_category \<Rightarrow> hand_category \<Rightarrow> bool" where
  "less_eq_hand_category a b \<longleftrightarrow> category_base a \<le> category_base b"

definition less_hand_category :: "hand_category \<Rightarrow> hand_category \<Rightarrow> bool" where
  "less_hand_category a b \<longleftrightarrow> category_base a < category_base b"

instance
  by standard (auto simp: less_eq_hand_category_def less_hand_category_def category_base_inj)

end

text \<open>The category that the flags of a score name.\<close>

definition score_category :: "score_result \<Rightarrow> hand_category" where
  "score_category r =
    (if is_royal_flush r then RoyalFlush else if is_straight_flush r then StraightFlush
     else if is_quad r then Quad else if is_full_house r then FullHouse
     else if is_flush r then Flush else if is_straight r then Straight
     else if is_three_kind r then ThreeKind else if is_two_pair r then TwoPair
     else if is_pair r then Pair else HighCard)"

text \<open>The rules of poker, by counting: \<open>copies\<close> is how many cards of the hand share an index.\<close>

definition copies :: "card list \<Rightarrow> int \<Rightarrow> nat" where
  "copies h v = length (filter (\<lambda>c. card_index c = v) h)"

definition has_group :: "card list \<Rightarrow> nat \<Rightarrow> bool" where
  "has_group h n \<longleftrightarrow> list_ex (\<lambda>c. n \<le> copies h (card_index c)) h"

definition has_two_groups :: "card list \<Rightarrow> nat \<Rightarrow> nat \<Rightarrow> bool" where
  "has_two_groups h m n \<longleftrightarrow> list_ex (\<lambda>c. list_ex (\<lambda>d. card_index c \<noteq> card_index d
     \<and> m \<le> copies h (card_index c) \<and> n \<le> copies h (card_index d)) h) h"

definition all_one_kind :: "card list \<Rightarrow> bool" where
  "all_one_kind h \<longleftrightarrow> list_all (\<lambda>c. card_kind c = card_kind (hd h)) h"

definition consecutive :: "card list \<Rightarrow> bool" where
  "consecutive h \<longleftrightarrow> list_ex (\<lambda>c. list_all (\<lambda>k. list_ex (\<lambda>d. card_index d = card_index c + k) h) [0, 1, 2, 3, 4]) h"

definition ref_category :: "card list \<Rightarrow> hand_category" where
  "ref_category h =
    (if consecutive h \<and> all_one_kind h then
       (if list_ex (\<lambda>c. card_index c = 12) h then RoyalFlush else StraightFlush)
     else if has_group h 4 then Quad
     else if has_two_groups h 3 2 then FullHouse
     else if all_one_kind h then Flush
     else if consecutive h then Straight
     else if has_group h 3 then ThreeKind
     else if has_two_groups h 2 2 then TwoPair
     else if has_group h 2 then Pair
     else HighCard)"

lemma score_category_fives:
  "score_category (get_fives_score h) =
    (if cr_exists (check_straight_flush h) then StraightFlush
     else if cr_exists (check_quad h) then Quad
     else if cr_exists (check_full_house h) then FullHouse
     else if cr_exists (check_flush h) then Flush
     else if cr_exists (check_straight h) then Straight
     else if cr_exists (check_three_kind h) then ThreeKind
     else if cr_exists (check_two_pair h) then TwoPair
     else if cr_exists (check_pair h) then Pair else HighCard)"
  by (simp add: get_fives_score_def Let_def fives_result_def score_category_def zero_score_def)

lemma exists_iff:
  "cr_exists (check_quad h) \<longleftrightarrow> same_index h 1 2 \<and> same_index h 2 3 \<and> (same_index h 0 1 \<or> same_index h 3 4)"
  "cr_exists (check_full_house h) \<longleftrightarrow> same_index h 0 1 \<and> same_index h 3 4 \<and> (same_index h 1 2 \<or> same_index h 2 3)"
  "cr_exists (check_flush h) \<longleftrightarrow> same_kind h 0 1 \<and> same_kind h 1 2 \<and> same_kind h 2 3 \<and> same_kind h 3 4"
  "cr_exists (check_straight h) \<longleftrightarrow> next_index h 0 1 \<and> next_index h 1 2 \<and> next_index h 2 3 \<and> next_index h 3 4"
  "cr_exists (check_straight_flush h) \<longleftrightarrow> cr_exists (check_straight h) \<and> cr_exists (check_flush h)"
  "cr_exists (check_three_kind h) \<longleftrightarrow> same_index h 0 1 \<and> same_index h 1 2
     \<or> same_index h 1 2 \<and> same_index h 2 3 \<or> same_index h 2 3 \<and> same_index h 3 4"
  "cr_exists (check_two_pair h) \<longleftrightarrow> same_index h 0 1 \<and> same_index h 2 3
     \<or> same_index h 0 1 \<and> same_index h 3 4 \<or> same_index h 1 2 \<and> same_index h 3 4"
  "cr_exists (check_pair h) \<longleftrightarrow> same_index h 0 1 \<or> same_index h 1 2 \<or> same_index h 2 3 \<or> same_index h 3 4"
  by (auto simp: check_defs check_result_simps)

lemma descending_five:
  "descending [a, b, c, d, e] \<longleftrightarrow> card_index b \<le> card_index a \<and> card_index c \<le> card_index b
     \<and> card_index d \<le> card_index c \<and> card_index e \<le> card_index d"
  by (auto simp: descending_def)

lemma descending_not_straight:
  "length h = 5 \<Longrightarrow> descending h \<Longrightarrow> \<not> cr_exists (check_straight h)"
  by (auto simp: list_length_five descending_five exists_iff next_index_def)

section \<open>Categories decided by the code\<close>

lemma all_one_kind_iff:
  assumes "length h = 5"
  shows "cr_exists (check_flush h) \<longleftrightarrow> all_one_kind h"
proof -
  obtain a b c d e where h: "h = [a, b, c, d, e]" using iffD1 [OF list_length_five assms(1)] by blast
  show ?thesis unfolding h exists_iff same_kind_def all_one_kind_def by simp metis
qed

lemma groups_iff:
  assumes "length h = 5" "descending h" "\<not> has_group h 5"
  shows "cr_exists (check_quad h) \<longleftrightarrow> has_group h 4"
    and "cr_exists (check_full_house h) \<longleftrightarrow> has_two_groups h 3 2"
    and "cr_exists (check_three_kind h) \<longleftrightarrow> has_group h 3"
    and "\<not> has_group h 3 \<Longrightarrow> cr_exists (check_two_pair h) \<longleftrightarrow> has_two_groups h 2 2"
    and "cr_exists (check_pair h) \<longleftrightarrow> has_group h 2"
proof -
  obtain a b c d e where h: "h = [a, b, c, d, e]" using iffD1 [OF list_length_five assms(1)] by blast
  have ord: "card_index a = card_index b \<or> card_index b < card_index a"
    "card_index b = card_index c \<or> card_index c < card_index b"
    "card_index c = card_index d \<or> card_index d < card_index c"
    "card_index d = card_index e \<or> card_index e < card_index d"
    using assms(2) by (auto simp: h descending_five)
  note defs = h exists_iff same_index_def has_group_def has_two_groups_def copies_def
  show "cr_exists (check_quad h) \<longleftrightarrow> has_group h 4"
    using ord by (elim disjE) (simp_all add: defs)
  show "cr_exists (check_full_house h) \<longleftrightarrow> has_two_groups h 3 2"
    using ord assms(3) by (elim disjE) (simp_all add: defs)
  show "cr_exists (check_three_kind h) \<longleftrightarrow> has_group h 3"
    using ord by (elim disjE) (simp_all add: defs)
  show "cr_exists (check_two_pair h) \<longleftrightarrow> has_two_groups h 2 2" if "\<not> has_group h 3"
    using ord that by (elim disjE) (simp_all add: defs)
  show "cr_exists (check_pair h) \<longleftrightarrow> has_group h 2"
    using ord by (elim disjE) (simp_all add: defs)
qed

text \<open>C28: On a hand sorted in descending order that is not a straight, the score names the
  category that the rules of poker give by counting equal indexes and kinds.\<close>

theorem score_category_correct:
  assumes "length h = 5" "descending h" "\<not> has_group h 5" "\<not> consecutive h"
  shows "score_category (get_fives_score h) = ref_category h"
  using groups_iff [OF assms(1-3)] descending_not_straight [OF assms(1,2)] assms(4)
    all_one_kind_iff [OF assms(1)]
  by (simp add: score_category_fives ref_category_def exists_iff(5))

theorem score_category_correct_witness:
  "score_category (get_fives_score (seven_of [9, 9, 4, 4, 4] [0, 1, 0, 1, 2])) = FullHouse"
  using score_category_correct [of "seven_of [9, 9, 4, 4, 4] [0, 1, 0, 1, 2]"]
  by (simp add: seven_of_def descending_five has_group_def has_two_groups_def copies_def
      consecutive_def ref_category_def all_one_kind_def)

lemma consecutive_no_groups:
  assumes "length h = 5" "descending h" "consecutive h"
  shows "\<not> has_group h 2"
proof -
  obtain a b c d e where h: "h = [a, b, c, d, e]" using iffD1 [OF list_length_five assms(1)] by blast
  have "card_index b \<le> card_index a" "card_index c \<le> card_index b"
    "card_index d \<le> card_index c" "card_index e \<le> card_index d"
    using assms(2) by (auto simp: h descending_five)
  then have "card_index d = card_index e + 1 \<and> card_index c = card_index e + 2
      \<and> card_index b = card_index e + 3 \<and> card_index a = card_index e + 4"
    using assms(3) by (simp add: h consecutive_def) (elim disjE conjE; linarith)
  then show ?thesis by (simp add: h has_group_def copies_def)
qed

lemma has_group_mono: "has_group h n \<Longrightarrow> m \<le> n \<Longrightarrow> has_group h m"
  using order_trans by (fastforce simp: has_group_def list_ex_iff)

lemma has_two_groups_group: "has_two_groups h m n \<Longrightarrow> has_group h m"
  by (auto simp: has_group_def has_two_groups_def list_ex_iff)

text \<open>A straight is never recognised in a hand sorted the way \<open>sort_sevens\<close> sorts: the
  test looks for ascending indexes in a descending hand, so a straight is scored as a high
  card and a straight or royal flush as a plain flush.\<close>

theorem straights_are_missed:
  assumes "length h = 5" "descending h" "consecutive h"
  shows "score_category (get_fives_score h) = (if all_one_kind h then Flush else HighCard)"
proof -
  have no: "\<not> has_group h 2" using consecutive_no_groups [OF assms] .
  then have "\<not> has_group h n" if "2 \<le> n" for n using has_group_mono that by blast
  moreover have "\<not> has_two_groups h m n" if "2 \<le> m" for m n
    using has_two_groups_group calculation that by blast
  ultimately show ?thesis
    using groups_iff [OF assms(1,2)] descending_not_straight [OF assms(1,2)]
      all_one_kind_iff [OF assms(1)]
    by (simp add: score_category_fives exists_iff(5))
qed

theorem straights_are_missed_witness:
  "score_category (get_fives_score (seven_of [12, 11, 10, 9, 8] [2, 2, 2, 2, 2])) = Flush
   \<and> ref_category (seven_of [12, 11, 10, 9, 8] [2, 2, 2, 2, 2]) = RoyalFlush"
  using straights_are_missed [of "seven_of [12, 11, 10, 9, 8] [2, 2, 2, 2, 2]"]
  by (simp add: seven_of_def descending_five consecutive_def ref_category_def all_one_kind_def)

end
