(* ===== verification/Card_Draw.thy ===== *)
theory Card_Draw
  imports Card
begin

text \<open>
  Correctness of the draw of a card (\<open>pkrsrv_card_get_random\<close>): the history invariant
  \<open>wf_history\<close> (the dealt cards are a prefix without duplicates, the rest of the array
  still holds the negative marker), its preservation, freshness of every drawn card, and
  the size of the deck that the two calls of \<open>pkrsrv_random_range\<close> really give.
\<close>

definition dealt :: "card list \<Rightarrow> card list" where
  "dealt h = takeWhile (\<lambda>c. 0 \<le> card_index c) h"

definition undealt :: "card list \<Rightarrow> card list" where
  "undealt h = dropWhile (\<lambda>c. 0 \<le> card_index c) h"

definition deck_card :: "card \<Rightarrow> bool" where
  "deck_card c \<longleftrightarrow> 0 \<le> card_index c \<and> card_index c < 13 \<and> 0 \<le> card_kind c \<and> card_kind c < 3"

definition wf_history :: "card list \<Rightarrow> bool" where
  "wf_history h \<longleftrightarrow> length h = 52 \<and> distinct (dealt h) \<and> list_all deck_card (dealt h)
     \<and> list_all (\<lambda>c. card_index c < 0) (undealt h)"

lemma dealt_append_undealt: "dealt h @ undealt h = h"
  by (simp add: dealt_def undealt_def)

lemma random_range_eq_mod: "random_range mn mx r = r mod mx"
  by (simp add: random_range_def)

lemma drawn_deck_card:
  "deck_card \<lparr>card_index = random_range 0 13 a, card_kind = random_range 0 3 b\<rparr>"
  by (simp add: deck_card_def random_range_eq_mod)

definition deck :: "card list" where
  "deck = [\<lparr>card_index = int i, card_kind = int k\<rparr>. i \<leftarrow> [0..<13], k \<leftarrow> [0..<3]]"

lemma deck_card_in_deck: "deck_card c \<longleftrightarrow> c \<in> set deck"
proof
  assume c: "deck_card c"
  obtain i where i: "card_index c = int i" "i < 13"
    using c zero_le_imp_eq_int [of "card_index c"] by (auto simp: deck_card_def)
  obtain k where k: "card_kind c = int k" "k < 3"
    using c zero_le_imp_eq_int [of "card_kind c"] by (auto simp: deck_card_def)
  have "c = \<lparr>card_index = int i, card_kind = int k\<rparr>" using i k by (simp add: card.equality)
  moreover have "i \<in> set [0..<13]" "k \<in> set [0..<3]" using i k by (simp_all del: upt_rec_numeral)
  ultimately show "c \<in> set deck"
    unfolding deck_def by (simp del: upt_rec_numeral set_upt) blast
qed (auto simp: deck_def deck_card_def simp del: upt_rec_numeral)

lemma card_deck: "Finite_Set.card (set deck) = 39"
  by (simp add: deck_def upt_rec)

lemma dealt_le_39:
  assumes "wf_history h"
  shows "length (dealt h) \<le> 39"
proof -
  have sub: "set (dealt h) \<subseteq> set deck"
    using assms by (auto simp: wf_history_def list_all_iff deck_card_in_deck)
  have "Finite_Set.card (set (dealt h)) \<le> 39"
    using card_mono [OF _ sub] card_deck by simp
  then show ?thesis using assms by (simp add: wf_history_def distinct_card)
qed

lemma scan_history_split:
  assumes "list_all (\<lambda>c. 0 \<le> card_index c) ds" "list_all (\<lambda>c. card_index c < 0) us" "us \<noteq> []"
  shows "scan_history g (ds @ us) i = (if g \<in> set ds then None else Some (i + length ds))"
  using assms
proof (induction ds arbitrary: i)
  case Nil
  then show ?case by (cases us) auto
next
  case (Cons d ds)
  have "card_index d = card_index g \<and> card_kind d = card_kind g \<longleftrightarrow> d = g"
    by (auto intro: card.equality)
  with Cons show ?case by auto
qed

lemma undealt_nonempty:
  assumes "wf_history h"
  shows "undealt h \<noteq> []"
proof
  assume "undealt h = []"
  then have "length (dealt h) = 52"
    using assms dealt_append_undealt [of h] by (simp add: wf_history_def)
  then show False using dealt_le_39 [OF assms] by simp
qed

lemma scan_wf:
  assumes "wf_history h"
  shows "scan_history g h 0 = (if g \<in> set (dealt h) then None else Some (length (dealt h)))"
proof -
  have "list_all (\<lambda>c. 0 \<le> card_index c) (dealt h)"
    using assms by (auto simp: wf_history_def list_all_iff deck_card_def)
  then show ?thesis
    using scan_history_split [of "dealt h" "undealt h" g 0] assms undealt_nonempty [OF assms]
    by (simp add: dealt_append_undealt wf_history_def)
qed

lemma dealt_update:
  assumes wf: "wf_history h" and g: "deck_card g" "g \<notin> set (dealt h)"
  shows "dealt (h[length (dealt h) := g]) = dealt h @ [g]"
    and "wf_history (h[length (dealt h) := g])"
proof -
  obtain u us where u: "undealt h = u # us" using undealt_nonempty [OF wf] by (cases "undealt h") auto
  have "h[length (dealt h) := g] = (dealt h @ u # us)[length (dealt h) := g]"
    using dealt_append_undealt [of h] u by simp
  then have h': "h[length (dealt h) := g] = dealt h @ g # us" by simp
  have pos: "\<forall>c\<in>set (dealt h). 0 \<le> card_index c" and neg: "\<forall>c\<in>set us. card_index c < 0"
    using wf u by (auto simp: wf_history_def list_all_iff deck_card_def)
  have "takeWhile (\<lambda>c. 0 \<le> card_index c) us = []" "dropWhile (\<lambda>c. 0 \<le> card_index c) us = us"
    using neg by (cases us; force)+
  moreover have "length (dealt h) + length us = 51"
    using arg_cong [OF dealt_append_undealt [of h], of length] u wf by (simp add: wf_history_def)
  ultimately show "dealt (h[length (dealt h) := g]) = dealt h @ [g]"
    and "wf_history (h[length (dealt h) := g])"
    unfolding h' using pos g wf u
    by (auto simp: dealt_def [of "dealt h @ g # us"] undealt_def [of "dealt h @ g # us"]
        wf_history_def deck_card_def list_all_iff takeWhile_append2 dropWhile_append2 neg)
qed

lemma get_random_cases:
  assumes "wf_history h" "get_random rs h = Inr (g, h', rs')"
  shows "deck_card g \<and> g \<notin> set (dealt h) \<and> h' = h[length (dealt h) := g]"
  using assms
proof (induction rs h rule: get_random.induct)
  case (1 a b rs h)
  then show ?case
    by (auto simp: Let_def scan_wf drawn_deck_card split: if_splits)
qed simp_all

lemma get_random_wf:
  assumes "wf_history h" "get_random rs h = Inr (g, h', rs')"
  shows "wf_history h'" and "dealt h' = dealt h @ [g]"
  using get_random_cases [OF assms] dealt_update [OF assms(1)] by auto

text \<open>A drawn card is a card of the deck that was not dealt before in this round; it is
  appended to the dealt cards and the history stays well formed.\<close>

theorem get_random_fresh:
  assumes "wf_history h" "get_random rs h = Inr (g, h', rs')"
  shows "deck_card g \<and> g \<notin> set (dealt h) \<and> dealt h' = dealt h @ [g] \<and> wf_history h'"
  using get_random_cases [OF assms] get_random_wf [OF assms] by blast

definition empty_history :: "card list" where
  "empty_history = replicate 52 \<lparr>card_index = -1, card_kind = -1\<rparr>"

lemma wf_empty_history: "wf_history empty_history" "dealt empty_history = []"
  by (simp_all add: empty_history_def wf_history_def dealt_def undealt_def list_all_iff
      takeWhile_replicate dropWhile_replicate)

lemma get_random_empty:
  "get_random (a # b # rs) empty_history
    = (let g = \<lparr>card_index = a mod 13, card_kind = b mod 3\<rparr> in Inr (g, empty_history[0 := g], rs))"
  by (simp add: Let_def scan_wf wf_empty_history random_range_eq_mod)

theorem get_random_fresh_witness:
  "deck_card \<lparr>card_index = 4, card_kind = 2\<rparr>
    \<and> dealt (empty_history[0 := \<lparr>card_index = 4, card_kind = 2\<rparr>]) = [\<lparr>card_index = 4, card_kind = 2\<rparr>]"
  using get_random_fresh [of empty_history "[17, 5]" "\<lparr>card_index = 4, card_kind = 2\<rparr>"
      "empty_history[0 := \<lparr>card_index = 4, card_kind = 2\<rparr>]" "[]"]
  by (simp add: wf_empty_history get_random_empty Let_def del: get_random.simps)

lemma get_random_retries:
  assumes "wf_history h" "\<forall>c. deck_card c \<longrightarrow> c \<in> set (dealt h)"
  shows "get_random rs h = Inl OutOfDraws"
  using assms
  by (induction rs h rule: get_random.induct) (simp_all add: Let_def scan_wf drawn_deck_card)

lemma all_dealt:
  assumes "wf_history h" "length (dealt h) = 39" "deck_card c"
  shows "c \<in> set (dealt h)"
proof -
  have "set (dealt h) \<subseteq> set deck" "Finite_Set.card (set (dealt h)) = Finite_Set.card (set deck)"
    using assms by (auto simp: wf_history_def list_all_iff deck_card_in_deck distinct_card card_deck)
  then have "set (dealt h) = set deck" by (intro card_subset_eq) auto
  then show ?thesis using assms(3) deck_card_in_deck by simp
qed

text \<open>The deck has 39 cards and not 52. The second argument of the call that draws the
  kind is 3, and the result ranges below it, so kind 3 (the letter S) is never drawn: a
  history never holds more than 39 cards, and once it holds 39 the draw retries for ever,
  whatever the random values are.\<close>

theorem deck_has_39_cards:
  assumes "wf_history h"
  shows "length (dealt h) \<le> 39 \<and> (length (dealt h) = 39 \<longrightarrow> get_random rs h = Inl OutOfDraws)"
  using dealt_le_39 [OF assms] get_random_retries [OF assms] all_dealt [OF assms] by blast

definition full_history :: "card list" where
  "full_history = deck @ replicate 13 \<lparr>card_index = -1, card_kind = -1\<rparr>"

lemma wf_full_history: "wf_history full_history \<and> length (dealt full_history) = 39"
proof -
  have pos: "\<forall>c\<in>set deck. 0 \<le> card_index c" by (auto simp: deck_card_in_deck [symmetric] deck_card_def)
  have d: "dealt full_history = deck" and u: "undealt full_history = replicate 13 \<lparr>card_index = -1, card_kind = -1\<rparr>"
    using pos by (simp_all add: full_history_def dealt_def undealt_def takeWhile_append2 dropWhile_append2
        takeWhile_replicate dropWhile_replicate)
  have "length deck = 39" by (simp add: deck_def upt_rec)
  moreover from this have "distinct deck" using card_deck card_distinct by metis
  ultimately show ?thesis
    unfolding wf_history_def d u
    by (simp add: list_all_iff deck_card_in_deck) (simp add: full_history_def)
qed

theorem deck_has_39_cards_witness:
  "get_random [7, 3, 12, 1] full_history = Inl OutOfDraws"
  using deck_has_39_cards [of full_history "[7, 3, 12, 1]"] wf_full_history by blast

text \<open>While the deck is not exhausted a draw can succeed: random values that spell a card
  that is not dealt yet yield that card in one attempt.\<close>

theorem get_random_takes_fresh:
  assumes "wf_history h" "deck_card c" "c \<notin> set (dealt h)"
  shows "get_random (card_index c # card_kind c # rs) h = Inr (c, h[length (dealt h) := c], rs)"
proof -
  have "\<lparr>card_index = random_range 0 13 (card_index c), card_kind = random_range 0 3 (card_kind c)\<rparr> = c"
    using assms(2) by (simp add: deck_card_def random_range_eq_mod)
  then show ?thesis using assms by (simp add: Let_def scan_wf)
qed

theorem get_random_takes_fresh_witness:
  "get_random [3, 1, 9] empty_history
    = Inr (\<lparr>card_index = 3, card_kind = 1\<rparr>, empty_history[0 := \<lparr>card_index = 3, card_kind = 1\<rparr>], [9])"
  using get_random_takes_fresh [of empty_history "\<lparr>card_index = 3, card_kind = 1\<rparr>" "[9]"]
  by (simp add: wf_empty_history deck_card_def del: get_random.simps)

end
