(* ===== verification/Card_Best.thy ===== *)
theory Card_Best
  imports Card_Hands Card_Draw
begin

text \<open>
  The rank of a hand and the best of the twenty-one hands of five: the rank bands of the
  categories do not overlap, so a better category always outranks a worse one; the chosen
  hand is one of the twenty-one and none outranks it; and the consequences for the game of
  the defects of the hand checks (no straight, no royal flush, no four of a kind, high
  cards compared by their lowest card).
\<close>

definition valid_hand :: "card list \<Rightarrow> bool" where
  "valid_hand h \<longleftrightarrow> length h = 5 \<and> list_all (\<lambda>c. 0 \<le> card_index c \<and> card_index c < 13) h"

lemmas check_ranks = high_card.check_rank pair.check_rank two_pair.check_rank
  three_kind.check_rank straight.check_rank flush.check_rank full_house.check_rank
  quad.check_rank straight_flush.check_rank

lemmas check_kickers = high_card.check_kicker pair.check_kicker two_pair.check_kicker
  three_kind.check_kicker straight.check_kicker flush.check_kicker full_house.check_kicker
  quad.check_kicker straight_flush.check_kicker

lemma score_rank_split:
  "score_rank (get_fives_score h)
    = category_base (score_category (get_fives_score h)) + rank_bonus (fives_result h)"
proof -
  have "cr_rank (sr_check (fives_result h)) = category_base (score_category (get_fives_score h))"
    by (simp add: score_category_fives fives_result_def category_base_def check_ranks)
  then show ?thesis by (simp add: score_rank_def get_fives_score_def Let_def)
qed

lemma kicker_bounds:
  assumes "valid_hand h" "k < 5"
  shows "1 \<le> kicker (fives_result h) k" "kicker (fives_result h) k \<le> 13"
proof -
  have len: "length h = 5" and idx: "\<forall>c\<in>set h. 0 \<le> card_index c \<and> card_index c < 13"
    using assms(1) by (auto simp: valid_hand_def list_all_iff)
  show "1 \<le> kicker (fives_result h) k" "kicker (fives_result h) k \<le> 13"
    using check_kickers [OF len _ assms(2) idx] by (simp_all add: kicker_def fives_result_def)
qed

lemma rank_bonus_bounds:
  assumes "valid_hand h"
  shows "10000 \<le> rank_bonus (fives_result h)" "rank_bonus (fives_result h) \<le> 131313"
proof -
  have "\<not> is_royal_flush (fives_result h)" by (simp add: fives_result_def zero_score_def)
  then show "10000 \<le> rank_bonus (fives_result h)" "rank_bonus (fives_result h) \<le> 131313"
    using kicker_bounds [OF assms, of 0] kicker_bounds [OF assms, of 2] kicker_bounds [OF assms, of 4]
    by (auto simp: rank_bonus_def)
qed

lemma category_base_step:
  "a < b \<Longrightarrow> category_base a + 1000000 \<le> category_base b"
  by (cases a; cases b; simp add: less_hand_category_def category_base_def rank_defs)

lemma category_base_pos: "0 < category_base c"
  by (cases c) (simp_all add: category_base_def rank_defs)

lemma score_rank_pos: "valid_hand h \<Longrightarrow> 0 < score_rank (get_fives_score h)"
  using rank_bonus_bounds(1) [of h] category_base_pos [of "score_category (get_fives_score h)"]
  by (simp add: score_rank_split)

text \<open>The rank bands do not overlap: of two hands of valid cards, the one whose score names
  the better category has the higher rank, whatever the kickers are.\<close>

theorem better_category_outranks:
  assumes "valid_hand g" "valid_hand h"
    and "score_category (get_fives_score g) < score_category (get_fives_score h)"
  shows "score_rank (get_fives_score g) < score_rank (get_fives_score h)"
  using category_base_step [OF assms(3)] rank_bonus_bounds [OF assms(1)] rank_bonus_bounds [OF assms(2)]
  unfolding score_rank_split by linarith

lemmas hand_eval_simps = seven_of_def score_category_fives exists_iff same_index_def same_kind_def
  next_index_def

theorem better_category_outranks_witness:
  "score_rank (get_fives_score (seven_of [12, 12, 11, 10, 9] [0, 1, 2, 1, 1]))
    < score_rank (get_fives_score (seven_of [1, 1, 0, 0, 2] [0, 1, 2, 1, 1]))"
  using better_category_outranks [of "seven_of [12, 12, 11, 10, 9] [0, 1, 2, 1, 1]"
      "seven_of [1, 1, 0, 0, 2] [0, 1, 2, 1, 1]"]
  by (simp add: hand_eval_simps valid_hand_def less_hand_category_def category_base_def rank_defs)

section \<open>The best of the hands\<close>

lemma fold_better_score:
  "score_rank (fold better_score ss z) = fold max (map score_rank ss) (score_rank z)
    \<and> fold better_score ss z \<in> insert z (set ss)"
proof (induction ss arbitrary: z)
  case (Cons s ss)
  then show ?case using Cons [of "better_score s z"]
    by (auto simp: better_score_def max_def)
qed simp

lemma best_score_max:
  assumes "ss \<noteq> []" "\<forall>s\<in>set ss. 0 < score_rank s"
  shows "best_score ss \<in> set ss \<and> (\<forall>s\<in>set ss. score_rank s \<le> score_rank (best_score ss))"
proof -
  have z: "score_rank zero_score = 0"
    by (simp add: score_rank_def zero_score_def zero_check_def)
  have rank: "score_rank (best_score ss) = Max (set (0 # map score_rank ss))"
    using fold_better_score [of ss zero_score]
    by (simp add: best_score_def z Max.set_eq_fold [symmetric] del: set_simps)
  have ge: "score_rank s \<le> score_rank (best_score ss)" if "s \<in> set ss" for s
    unfolding rank using that by (intro Max_ge) auto
  have "best_score ss \<noteq> zero_score"
    using ge [of "hd ss"] assms z by (auto simp: neq_Nil_conv)
  then show ?thesis
    using ge fold_better_score [of ss zero_score] by (auto simp: best_score_def)
qed

definition valid_seven :: "card list \<Rightarrow> bool" where
  "valid_seven s \<longleftrightarrow> length s = 7 \<and> list_all (\<lambda>c. 0 \<le> card_index c \<and> card_index c < 13) s"

lemma valid_seven_fives:
  assumes "valid_seven s" "h \<in> set (get_fives (sort_sevens s))"
  shows "valid_hand h" "descending h" "set h \<subseteq> set s" "length h = 5"
    "distinct s \<Longrightarrow> distinct h"
proof -
  have len: "length s = 7" using assms(1) by (simp add: valid_seven_def)
  note sub = get_fives_memberD [OF length_sort_sevens [OF len] assms(2)]
  have set: "set (sort_sevens s) = set s" using mset_sort_sevens [OF len] mset_eq_setD by blast
  show "length h = 5" "descending h" "set h \<subseteq> set s"
    using sub descending_sort_sevens [OF len] set by auto
  then show "valid_hand h" using assms(1)
    by (auto simp: valid_hand_def valid_seven_def list_all_iff)
  show "distinct s \<Longrightarrow> distinct h"
    using sub(4) mset_sort_sevens [OF len] mset_eq_imp_distinct_iff by blast
qed

lemma best_fives_cases:
  assumes "valid_seven s"
  obtains h where "h \<in> set (get_fives (sort_sevens s))"
    and "fst (get_best_fives_score s) = get_fives_score h"
    and "\<forall>g\<in>set (get_fives (sort_sevens s)).
      score_rank (get_fives_score g) \<le> score_rank (get_fives_score h)"
proof -
  let ?ss = "map get_fives_score (get_fives (sort_sevens s))"
  have "?ss \<noteq> []" using length_get_fives [of "sort_sevens s"] by auto
  moreover have "\<forall>x\<in>set ?ss. 0 < score_rank x"
    using valid_seven_fives(1) [OF assms] score_rank_pos by auto
  ultimately have best: "best_score ?ss \<in> set ?ss \<and> (\<forall>x\<in>set ?ss. score_rank x \<le> score_rank (best_score ?ss))"
    by (rule best_score_max)
  then obtain h where "h \<in> set (get_fives (sort_sevens s))" "best_score ?ss = get_fives_score h"
    by auto
  then show ?thesis using best that [of h] by (auto simp: get_best_fives_score_def Let_def)
qed

text \<open>The best score of seven valid cards is the score of one of their twenty-one hands of
  five, taken from the cards of the player, and no hand among the twenty-one outranks it.\<close>

theorem best_fives_is_maximum:
  assumes "valid_seven s"
  shows "\<exists>h \<in> set (get_fives (sort_sevens s)).
    set h \<subseteq> set s \<and> fst (get_best_fives_score s) = get_fives_score h
    \<and> (\<forall>g \<in> set (get_fives (sort_sevens s)).
          score_rank (get_fives_score g) \<le> score_rank (get_fives_score h))"
  using best_fives_cases [OF assms] valid_seven_fives(3) [OF assms] by metis

theorem best_fives_is_maximum_witness:
  "\<exists>h \<in> set (get_fives (sort_sevens (seven_of [5, 3, 5, 1, 12, 0, 3] [0, 1, 1, 0, 2, 2, 0]))).
    fst (get_best_fives_score (seven_of [5, 3, 5, 1, 12, 0, 3] [0, 1, 1, 0, 2, 2, 0])) = get_fives_score h"
  using best_fives_is_maximum [of "seven_of [5, 3, 5, 1, 12, 0, 3] [0, 1, 1, 0, 2, 2, 0]"]
  by (auto simp: valid_seven_def seven_of_def)

section \<open>What the game never awards\<close>

lemma no_quad_of_three_kinds:
  assumes "length h = 5" "distinct h" "list_all deck_card h"
  shows "\<not> has_group h 4"
proof
  assume "has_group h 4"
  then obtain v where v: "4 \<le> copies h v" by (auto simp: has_group_def list_ex_iff)
  let ?g = "filter (\<lambda>c. card_index c = v) h"
  have "inj_on card_kind (set ?g)"
    by (auto simp: inj_on_def intro: card.equality)
  then have "Finite_Set.card (card_kind ` set ?g) = length ?g"
    using distinct_card [of ?g] assms(2) by (simp only: card_image distinct_filter)
  moreover have "Finite_Set.card (card_kind ` set ?g) \<le> 3"
  proof -
    have sub: "card_kind ` set ?g \<subseteq> {0..2}"
      using assms(3) by (auto simp: list_all_iff deck_card_def)
    show ?thesis using card_mono [OF _ sub] by simp
  qed
  ultimately show False using v by (simp add: copies_def)
qed

text \<open>Seven distinct cards of the deck that the server deals are never scored as a
  straight, four of a kind, a straight flush or a royal flush.\<close>

theorem never_awarded:
  assumes "length s = 7" "distinct s" "list_all deck_card s"
  shows "score_category (fst (get_best_fives_score s)) \<in> {HighCard, Pair, TwoPair, ThreeKind, Flush, FullHouse}"
proof -
  have valid: "valid_seven s"
    using assms by (auto simp: valid_seven_def list_all_iff deck_card_def)
  obtain h where h: "h \<in> set (get_fives (sort_sevens s))"
    and best: "fst (get_best_fives_score s) = get_fives_score h"
    using best_fives_cases [OF valid] by blast
  note v = valid_seven_fives [OF valid h]
  have "list_all deck_card h" using v(3) assms(3) by (auto simp: list_all_iff)
  then have "\<not> has_group h 4" using v assms(2) no_quad_of_three_kinds by blast
  moreover from this have "\<not> has_group h 5" using has_group_mono by force
  ultimately have "\<not> cr_exists (check_quad h)" using groups_iff(1) v by blast
  then show ?thesis
    using descending_not_straight [OF v(4) v(2)]
    by (simp add: best score_category_fives exists_iff(5))
qed

theorem never_awarded_witness:
  "score_category (fst (get_best_fives_score (seven_of [12, 11, 10, 9, 8, 12, 12] [2, 2, 2, 2, 2, 1, 0])))
    \<in> {HighCard, Pair, TwoPair, ThreeKind, Flush, FullHouse}"
  using never_awarded [of "seven_of [12, 11, 10, 9, 8, 12, 12] [2, 2, 2, 2, 2, 1, 0]"]
  by (simp add: seven_of_def deck_card_def)

section \<open>High cards\<close>

lemma high_card_score:
  assumes "score_category (get_fives_score h) = HighCard"
  shows "score_rank (get_fives_score h) = RANK_HIGH_CARD + (card_index (h ! 4) + 1) * 10000"
proof -
  have "fives_result h = zero_score\<lparr>is_high_card := True, sr_check := check_high_card h\<rparr>"
    using assms by (simp add: score_category_fives fives_result_def split: if_splits)
  then show ?thesis
    using assms unfolding score_rank_split
    by (simp add: category_base_def rank_bonus_def kicker_def check_high_card_def pick_def zero_score_def)
qed

lemma get_fives_hd: "length s = 7 \<Longrightarrow> get_fives s ! 0 = take 5 s"
  by (auto simp: list_length_seven get_fives_def five_at_def FIVES_INDEXES_def upt_rec)

lemma get_fives_last_le:
  assumes "length s = 7" "descending s" "h \<in> set (get_fives s)"
  shows "card_index (h ! 4) \<le> card_index (s ! 4)"
proof -
  obtain a b c d e f g where s: "s = [a, b, c, d, e, f, g]"
    using iffD1 [OF list_length_seven assms(1)] by blast
  have "card_index e \<le> card_index d" "card_index f \<le> card_index e" "card_index g \<le> card_index f"
    using assms(2) by (auto simp: s descending_def)
  then show ?thesis using assms(3)
    by (auto simp: s get_fives_def five_at_def FIVES_INDEXES_def upt_rec)
qed

text \<open>When no hand of five of a player is better than a high card, the rank depends only on
  the fifth highest of the seven cards: the highest four cards count for nothing.\<close>

theorem high_card_ranked_by_fifth:
  assumes "valid_seven s"
    and "\<forall>h \<in> set (get_fives (sort_sevens s)). score_category (get_fives_score h) = HighCard"
  shows "score_rank (fst (get_best_fives_score s))
    = RANK_HIGH_CARD + (card_index (sort_sevens s ! 4) + 1) * 10000"
proof -
  have len: "length s = 7" using assms(1) by (simp add: valid_seven_def)
  have len': "length (sort_sevens s) = 7" using length_sort_sevens [OF len] .
  obtain h where h: "h \<in> set (get_fives (sort_sevens s))"
    and best: "fst (get_best_fives_score s) = get_fives_score h"
    and top: "\<forall>g\<in>set (get_fives (sort_sevens s)). score_rank (get_fives_score g) \<le> score_rank (get_fives_score h)"
    using best_fives_cases [OF assms(1)] by blast
  have first: "take 5 (sort_sevens s) \<in> set (get_fives (sort_sevens s))"
    using get_fives_hd [OF len'] length_get_fives nth_mem by (metis zero_less_numeral)
  have "card_index (sort_sevens s ! 4) \<le> card_index (h ! 4)"
    using top first h assms(2) high_card_score by fastforce
  moreover have "card_index (h ! 4) \<le> card_index (sort_sevens s ! 4)"
    using get_fives_last_le [OF len' descending_sort_sevens [OF len] h] .
  ultimately show ?thesis using best high_card_score assms(2) h by simp
qed

lemma sort_concrete:
  "sort_sevens (seven_of [12, 11, 9, 7, 3, 1, 0] [0, 1, 2, 0, 1, 2, 0])
    = seven_of [12, 11, 9, 7, 3, 1, 0] [0, 1, 2, 0, 1, 2, 0]"
  "sort_sevens (seven_of [10, 9, 7, 6, 4, 1, 0] [0, 1, 2, 0, 1, 2, 0])
    = seven_of [10, 9, 7, 6, 4, 1, 0] [0, 1, 2, 0, 1, 2, 0]"
  by (simp_all add: seven_of_def sort_sevens_def exchange_sort_def exchange_row_def swap_if_def
      sevens_swaps_def upt_rec)

lemma high_cards_concrete:
  "list_all (\<lambda>h. score_category (get_fives_score h) = HighCard)
    (get_fives (seven_of [12, 11, 9, 7, 3, 1, 0] [0, 1, 2, 0, 1, 2, 0]))"
  "list_all (\<lambda>h. score_category (get_fives_score h) = HighCard)
    (get_fives (seven_of [10, 9, 7, 6, 4, 1, 0] [0, 1, 2, 0, 1, 2, 0]))"
  by (simp_all add: get_fives_def five_at_def FIVES_INDEXES_def upt_rec hand_eval_simps)

theorem high_card_ranked_by_fifth_witness:
  "score_rank (fst (get_best_fives_score (seven_of [12, 11, 9, 7, 3, 1, 0] [0, 1, 2, 0, 1, 2, 0])))
    < score_rank (fst (get_best_fives_score (seven_of [10, 9, 7, 6, 4, 1, 0] [0, 1, 2, 0, 1, 2, 0])))"
  using high_card_ranked_by_fifth [of "seven_of [12, 11, 9, 7, 3, 1, 0] [0, 1, 2, 0, 1, 2, 0]"]
    high_card_ranked_by_fifth [of "seven_of [10, 9, 7, 6, 4, 1, 0] [0, 1, 2, 0, 1, 2, 0]"]
    high_cards_concrete
  by (simp add: sort_concrete list_all_iff) (simp add: valid_seven_def seven_of_def)

end
