(* ===== verification/RefCount.thy ===== *)
theory RefCount
  imports Prelude
begin

text \<open>
  \<open>src/src/ref.c\<close>: the reference counter embedded in every shared object. The counter is
  the C \<open>int\<close>; \<open>rc_frees\<close> counts the calls of the destructor \<open>free_f\<close> on the object. Every
  operation of the source runs under the counter's mutex, so an interleaving of threads is a
  sequence of these operations. The assertion macro of the server only prints, so leaving a
  counter that is already 0 makes it negative and frees nothing.
\<close>

record ref_counted =
  rc_count :: int
  rc_frees :: nat

definition ref_counted_init :: ref_counted where
  "ref_counted_init = \<lparr>rc_count = 0, rc_frees = 0\<rparr>"

definition ref_counted_use :: "ref_counted \<Rightarrow> ref_counted" where
  "ref_counted_use r = r\<lparr>rc_count := rc_count r + 1\<rparr>"

definition ref_counted_leave :: "ref_counted \<Rightarrow> ref_counted" where
  "ref_counted_leave r =
    (let count = rc_count r - 1
     in if count = 0 then r\<lparr>rc_count := count, rc_frees := rc_frees r + 1\<rparr>
        else r\<lparr>rc_count := count\<rparr>)"

text \<open>
  The second layer of \<open>ref.c\<close>, a counted alias of a counted object: \<open>rf_obj\<close> names the
  object, whose counter lives in a store.
\<close>

record ref =
  rf_count :: int
  rf_obj :: nat
  rf_freed :: bool

type_synonym counters = "nat \<Rightarrow> ref_counted"

definition ref_new :: "nat \<Rightarrow> ref" where
  "ref_new obj = \<lparr>rf_count = 0, rf_obj = obj, rf_freed = False\<rparr>"

definition ref_use :: "ref \<times> counters \<Rightarrow> ref \<times> counters" where
  "ref_use = (\<lambda>(r, cs). (r\<lparr>rf_count := rf_count r + 1\<rparr>, cs(rf_obj r := ref_counted_use (cs (rf_obj r)))))"

definition ref_leave :: "ref \<times> counters \<Rightarrow> ref \<times> counters" where
  "ref_leave = (\<lambda>(r, cs).
    let cs' = cs(rf_obj r := ref_counted_leave (cs (rf_obj r)));
        count = rf_count r - 1
    in (r\<lparr>rf_count := count, rf_freed := rf_freed r \<or> count = 0\<rparr>, cs'))"

text \<open>\<open>pkrsrv_ref_assign\<close> moves the uses counted by the alias \<open>dst\<close> to the object of
  \<open>src\<close>, frees the old object when its count reaches 0 and returns \<open>src\<close> as the new
  alias. It writes both counters without taking their mutexes.\<close>

definition ref_assign :: "ref \<Rightarrow> ref \<Rightarrow> counters \<Rightarrow> ref \<times> counters" where
  "ref_assign dst src cs =
    (let cs1 = cs(rf_obj dst := (cs (rf_obj dst))\<lparr>rc_count := rc_count (cs (rf_obj dst)) - rf_count dst\<rparr>);
         cs2 = cs1(rf_obj src := (cs1 (rf_obj src))\<lparr>rc_count := rc_count (cs1 (rf_obj src)) + rf_count dst\<rparr>);
         d = cs2 (rf_obj dst);
         cs3 = (if rc_count d = 0 then cs2(rf_obj dst := d\<lparr>rc_frees := rc_frees d + 1\<rparr>) else cs2)
     in (src\<lparr>rf_count := rf_count dst\<rparr>, cs3))"

datatype ref_op = Use | Leave

fun ref_step :: "ref_op \<Rightarrow> ref_counted \<Rightarrow> ref_counted" where
  "ref_step Use r = ref_counted_use r"
| "ref_step Leave r = ref_counted_leave r"

definition ref_run :: "ref_op list \<Rightarrow> ref_counted \<Rightarrow> ref_counted" where
  "ref_run ops r = fold ref_step ops r"

text \<open>The balance of a sequence of operations, and the discipline its callers follow: no
  owner leaves that did not enter, and nothing enters once the last owner has left.\<close>

fun balance_of :: "ref_op list \<Rightarrow> int" where
  "balance_of [] = 0"
| "balance_of (Use # ops) = balance_of ops + 1"
| "balance_of (Leave # ops) = balance_of ops - 1"

lemma balance_of_append [simp]: "balance_of (xs @ ys) = balance_of xs + balance_of ys"
  by (induction xs rule: balance_of.induct) simp_all

definition disciplined :: "ref_op list \<Rightarrow> bool" where
  "disciplined ops \<longleftrightarrow> list_all (\<lambda>n. 0 < balance_of (take n ops)) [1..<length ops]
     \<and> 0 \<le> balance_of ops"

lemma ref_run_count: "rc_count (ref_run ops r) = rc_count r + balance_of ops"
proof (induction ops arbitrary: r rule: balance_of.induct)
qed (simp_all add: ref_run_def ref_counted_use_def ref_counted_leave_def Let_def)

lemma ref_run_snoc: "ref_run (ops @ [x]) r = ref_step x (ref_run ops r)"
  by (simp add: ref_run_def)

lemma ref_run_alive:
  assumes "\<forall>n\<in>{1..length ops}. 0 < balance_of (take n ops)"
  shows "rc_frees (ref_run ops ref_counted_init) = 0"
  using assms
proof (induction ops rule: rev_induct)
  case (snoc x ops)
  have "\<forall>n\<in>{1..length ops}. 0 < balance_of (take n ops)"
    using snoc.prems by (auto dest!: bspec)
  then have IH: "rc_frees (ref_run ops ref_counted_init) = 0" by (rule snoc.IH)
  have "0 < balance_of (ops @ [x])"
    using snoc.prems by (auto dest!: bspec [of _ _ "Suc (length ops)"])
  then show ?case
    using IH ref_run_count [of ops ref_counted_init]
    by (cases x) (simp_all add: ref_run_snoc ref_counted_use_def ref_counted_leave_def Let_def
        ref_counted_init_def)
qed (simp add: ref_run_def ref_counted_init_def)

text \<open>Under the discipline, whatever the interleaving of the owners, the destructor runs
  exactly once if the last owner has left and not at all while an owner remains, and the
  counter is the number of owners.\<close>

theorem ref_freed_exactly_once:
  assumes "disciplined ops" "ops \<noteq> []"
  shows "rc_count (ref_run ops ref_counted_init) = balance_of ops
    \<and> rc_frees (ref_run ops ref_counted_init) = (if balance_of ops = 0 then 1 else 0)"
proof -
  obtain init x where ops: "ops = init @ [x]" using assms(2) by (metis append_butlast_last_id)
  have pos: "\<forall>n\<in>{1..length init}. 0 < balance_of (take n init)"
    using assms(1) by (auto simp: disciplined_def list_all_iff ops dest!: bspec)
  have frees: "rc_frees (ref_run init ref_counted_init) = 0" by (rule ref_run_alive [OF pos])
  have count: "rc_count (ref_run init ref_counted_init) = balance_of init"
    by (simp add: ref_run_count ref_counted_init_def)
  have nonneg: "0 \<le> balance_of init"
  proof (cases init)
    case (Cons y ys)
    then have "length init \<in> {1..length init}" by simp
    with pos have "0 < balance_of (take (length init) init)" by blast
    then show ?thesis by simp
  qed simp
  show ?thesis
    using frees count nonneg
    by (cases x) (simp_all add: ops ref_run_snoc ref_counted_use_def ref_counted_leave_def Let_def)
qed

theorem ref_freed_exactly_once_witness:
  "rc_frees (ref_run [Use, Use, Leave, Use, Leave, Leave] ref_counted_init) = 1"
  using ref_freed_exactly_once [of "[Use, Use, Leave, Use, Leave, Leave]"]
  by (simp add: disciplined_def upt_rec)

end
