(* ===== verification/Table.thy ===== *)
theory Table
  imports RefCount
begin

text \<open>
  The table of a game (\<open>src/include/table.h\<close>, \<open>src/src/table.c\<close>): its record, its
  constructor with the defaults, and the construction from the columns of a database row
  (text columns already read by \<open>atoi\<close>/\<open>atoll\<close>). Names are byte strings. The queries
  themselves belong to the database client and are not modelled; the counters that the
  updates keep in memory and send as an increment are.
\<close>

definition MAX_PLAYERS :: int where "MAX_PLAYERS = 10"
definition ACTION_TIMEOUT :: int where "ACTION_TIMEOUT = 10000"

record table =
  tb_ref :: ref_counted
  tb_id :: "64 word"
  tb_big_blind :: "64 word"
  tb_small_blind :: "64 word"
  tb_max_players :: int
  tb_action_timeout :: int
  tb_name :: "8 word list"
  tb_enterance_min :: "64 word"
  tb_enterance_max :: "64 word"
  tb_players_count :: int
  tb_watchers_count :: int

record table_params =
  tp_id :: "64 word"
  tp_big_blind :: "64 word"
  tp_small_blind :: "64 word"
  tp_max_players :: int
  tp_action_timeout :: int
  tp_name :: "8 word list"
  tp_enterance_min :: "64 word"
  tp_enterance_max :: "64 word"
  tp_players_count :: int
  tp_watchers_count :: int

definition table_new :: "table_params \<Rightarrow> table" where
  "table_new ps = \<lparr>tb_ref = ref_counted_init, tb_id = tp_id ps,
     tb_big_blind = tp_big_blind ps, tb_small_blind = tp_small_blind ps,
     tb_max_players = (if tp_max_players ps \<noteq> 0 then tp_max_players ps else MAX_PLAYERS),
     tb_action_timeout = (if tp_action_timeout ps \<noteq> 0 then tp_action_timeout ps else ACTION_TIMEOUT),
     tb_name = tp_name ps, tb_enterance_min = tp_enterance_min ps,
     tb_enterance_max = tp_enterance_max ps, tb_players_count = tp_players_count ps,
     tb_watchers_count = tp_watchers_count ps\<rparr>"

text \<open>The columns of a row, as the queries of \<open>pkrsrv_table_get\<close> and
  \<open>pkrsrv_table_get_list\<close> select them; the timeout column is in seconds.\<close>

record table_row =
  tr_id :: int
  tr_name :: "8 word list"
  tr_sb :: int
  tr_bb :: int
  tr_action_timeout :: int
  tr_max_players :: int
  tr_enterance_min :: int
  tr_enterance_max :: int
  tr_players_count :: int
  tr_watchers_count :: int

definition table_of_row :: "table_row \<Rightarrow> table" where
  "table_of_row r = table_new \<lparr>tp_id = of_int (tr_id r), tp_big_blind = of_int (tr_bb r),
     tp_small_blind = of_int (tr_sb r), tp_max_players = tr_max_players r,
     tp_action_timeout = tr_action_timeout r * 1000, tp_name = tr_name r,
     tp_enterance_min = of_int (tr_enterance_min r), tp_enterance_max = of_int (tr_enterance_max r),
     tp_players_count = tr_players_count r, tp_watchers_count = tr_watchers_count r\<rparr>"

lemma table_new_max_players: "tb_max_players (table_new ps) = 0 \<Longrightarrow> False"
  by (simp add: table_new_def MAX_PLAYERS_def split: if_splits)

end
