(* ===== verification/Poker.thy ===== *)
theory Poker
  imports Card Table "HOL-Library.Signed_Division"
begin

text \<open>
  The state of a game (\<open>src/include/poker.h\<close>) and the operations on players, balances,
  hands and cards of \<open>src/src/poker.c\<close> that the betting rounds are built from.

  Pointers to players are identifiers (\<open>pid\<close>) into the store \<open>pk_store\<close>; the intrusive list
  of players is the list \<open>pk_players\<close> of their identifiers, \<open>pk_sorted\<close> is the array that
  \<open>pkrsrv_poker_players_get_sorted\<close> fills, and a null pointer is \<open>None\<close>. Chips are
  \<open>uint64_t\<close>, so they wrap as \<open>64 word\<close>. The tasks posted to the event loop by \<open>on_action\<close> are recorded in
  \<open>pk_posted\<close>, and \<open>pk_draws\<close> is the supply of random values. Actions are stored with
  their kind and amount; the copy of the account that an action carries is not read.
\<close>

type_synonym pid = nat
type_synonym chips = "64 word"

section \<open>Data\<close>

datatype poker_state = CREATED | W4P | STARTING | SMALL_BLIND | BIG_BLIND | PREFLOP | FLOP
  | TURN | RIVER | DONE

datatype hand_kind = HAND_PREFLOP | HAND_FLOP | HAND_TURN | HAND_RIVER

text \<open>An action kind arrives from the network as a number, so any other value is possible.\<close>

datatype action_kind = ActSmallBlind | ActBigBlind | ActRaise | ActCheck | ActFold | ActOther nat

record action =
  act_kind :: action_kind
  act_amount :: chips

record hand =
  hd_cards :: "card list"
  hd_checked :: bool
  hd_actions :: "(action \<times> pid) list"
  hd_raised :: bool

record player =
  pl_ref :: ref_counted
  pl_account :: "64 word"
  pl_cards :: "card list"
  pl_playing :: bool
  pl_dealt :: bool
  pl_folded :: bool
  pl_left :: bool
  pl_allin :: bool
  pl_position :: int
  pl_enterance_balance :: chips
  pl_balance :: chips
  pl_bet :: chips

record poker =
  pk_table :: table
  pk_players :: "pid list"
  pk_store :: "pid \<Rightarrow> player"
  pk_sorted :: "pid list"
  pk_state :: poker_state
  pk_hands :: "hand_kind \<Rightarrow> hand"
  pk_hand_kind :: hand_kind
  pk_action_time :: "64 word"
  pk_proceed_time :: "64 word"
  pk_starting_time :: "64 word"
  pk_history :: "card list"
  pk_current_raise :: chips
  pk_current_raise_total :: chips
  pk_current_bet :: chips
  pk_playing_position :: int
  pk_pot :: chips
  pk_starter_num :: int
  pk_last_raised_pos :: int
  pk_last_pos_before_raise :: int
  pk_synced :: int
  pk_playing_last :: bool
  pk_sb_must_call :: bool
  pk_winner :: "pid option"
  pk_scores :: "(pid \<times> chips) list"
  pk_sb :: "pid option"
  pk_bb :: "pid option"
  pk_button :: int
  pk_is_dealt :: bool
  pk_posted :: "(pid \<times> action) list"
  pk_draws :: "int list"

text \<open>The enumeration of the states is ordered: the code compares states with \<open><\<close> and \<open>\<le>\<close>.\<close>

definition state_index :: "poker_state \<Rightarrow> nat" where
  "state_index s = (case s of CREATED \<Rightarrow> 0 | W4P \<Rightarrow> 1 | STARTING \<Rightarrow> 2 | SMALL_BLIND \<Rightarrow> 3
     | BIG_BLIND \<Rightarrow> 4 | PREFLOP \<Rightarrow> 5 | FLOP \<Rightarrow> 6 | TURN \<Rightarrow> 7 | RIVER \<Rightarrow> 8 | DONE \<Rightarrow> 9)"

lemma state_index_inj: "state_index a = state_index b \<longleftrightarrow> a = b"
  by (cases a; cases b; simp add: state_index_def)

instantiation poker_state :: linorder
begin

definition less_eq_poker_state :: "poker_state \<Rightarrow> poker_state \<Rightarrow> bool" where
  "less_eq_poker_state a b \<longleftrightarrow> state_index a \<le> state_index b"

definition less_poker_state :: "poker_state \<Rightarrow> poker_state \<Rightarrow> bool" where
  "less_poker_state a b \<longleftrightarrow> state_index a < state_index b"

instance
  by standard (auto simp: less_eq_poker_state_def less_poker_state_def state_index_inj)

end

lemmas state_less_simps = less_eq_poker_state_def less_poker_state_def state_index_def

section \<open>Access to players\<close>

definition upd_player :: "pid \<Rightarrow> (player \<Rightarrow> player) \<Rightarrow> poker \<Rightarrow> poker" where
  "upd_player i f p = p\<lparr>pk_store := (pk_store p)(i := f (pk_store p i))\<rparr>"

definition the_player :: "poker \<Rightarrow> pid \<Rightarrow> player" where
  "the_player p i = pk_store p i"

definition no_card :: card where
  "no_card = \<lparr>card_index = -1, card_kind = -1\<rparr>"

definition player_new :: "64 word \<Rightarrow> player" where
  "player_new account = \<lparr>pl_ref = ref_counted_init, pl_account = account,
     pl_cards = [no_card, no_card], pl_playing = False, pl_dealt = False, pl_folded = False,
     pl_left = False, pl_allin = False, pl_position = -1, pl_enterance_balance = 0,
     pl_balance = 0, pl_bet = 0\<rparr>"

definition getby_index :: "poker \<Rightarrow> nat \<Rightarrow> pid option" where
  "getby_index p k = (if k < length (pk_players p) then Some (pk_players p ! k) else None)"

definition getby_id :: "poker \<Rightarrow> 64 word \<Rightarrow> pid option" where
  "getby_id p a = List.find (\<lambda>i. pl_account (the_player p i) = a) (pk_players p)"

definition getby_position :: "poker \<Rightarrow> int \<Rightarrow> pid option" where
  "getby_position p pos = List.find (\<lambda>i. pl_position (the_player p i) = pos) (pk_players p)"

definition getby_position_in_sorted :: "poker \<Rightarrow> pid list \<Rightarrow> int \<Rightarrow> pid option" where
  "getby_position_in_sorted p arr pos =
     List.find (\<lambda>i. pl_position (the_player p i) = pos) (take (length (pk_players p)) arr)"

definition playable_count :: "poker \<Rightarrow> int" where
  "playable_count p = int (length (filter (\<lambda>i. \<not> pl_left (the_player p i)) (pk_players p)))"

definition player_is_playing :: "player \<Rightarrow> bool" where
  "player_is_playing pl \<longleftrightarrow> pl_playing pl \<and> \<not> pl_folded pl \<and> \<not> pl_allin pl"

definition playing_count :: "poker \<Rightarrow> int" where
  "playing_count p = int (length (filter (\<lambda>i. player_is_playing (the_player p i)) (pk_players p)))"

definition player_ingame :: "player \<Rightarrow> bool" where
  "player_ingame pl \<longleftrightarrow> pl_playing pl \<and> \<not> pl_folded pl"

definition ingame_count :: "poker \<Rightarrow> int" where
  "ingame_count p = int (length (filter (\<lambda>i. player_ingame (the_player p i)) (pk_players p)))"

definition must_play :: "poker \<Rightarrow> player \<Rightarrow> bool" where
  "must_play p pl \<longleftrightarrow> pl_playing pl \<and> \<not> pl_left pl \<and> \<not> pl_folded pl \<and> \<not> pl_allin pl
     \<and> pl_bet pl < pk_current_bet p"

definition mustplay_count :: "poker \<Rightarrow> int" where
  "mustplay_count p = int (length (filter (\<lambda>i. must_play p (the_player p i)) (pk_players p)))"

section \<open>The players of a game\<close>

definition position_swaps :: "poker \<Rightarrow> pid \<Rightarrow> pid \<Rightarrow> bool" where
  "position_swaps p a b \<longleftrightarrow> pl_position (the_player p b) > pl_position (the_player p a)"

definition players_get_sorted :: "poker \<Rightarrow> pid list" where
  "players_get_sorted p =
     exchange_sort (position_swaps p) (length (pk_players p)) (pk_players p)"

text \<open>The bound is tested before the player is added, so one player more than
  \<open>max_players\<close> is let in. The new player joins the running round only before the blinds.\<close>

definition players_add :: "poker \<Rightarrow> pid \<Rightarrow> poker \<times> bool" where
  "players_add p i =
    (if tb_max_players (pk_table p) < int (length (pk_players p)) then (p, False)
     else
       let p = upd_player i (\<lambda>pl. pl\<lparr>pl_ref := ref_counted_use (pl_ref pl)\<rparr>) p;
           p = upd_player i (\<lambda>pl. pl\<lparr>pl_playing := pk_state p < SMALL_BLIND\<rparr>) p;
           p = p\<lparr>pk_players := pk_players p @ [i]\<rparr>;
           p = (if pk_sb p = None
                then p\<lparr>pk_playing_position := pl_position (the_player p i), pk_sb := Some i\<rparr>
                else if pk_bb p = None then p\<lparr>pk_bb := Some i\<rparr> else p)
       in (p\<lparr>pk_sorted := players_get_sorted p\<rparr>, True))"

text \<open>\<open>LIST_REMOVE\<close> unlinks one node of the list, the one the pointer names.\<close>

definition players_remove :: "poker \<Rightarrow> pid \<Rightarrow> poker" where
  "players_remove p i =
    (let p = p\<lparr>pk_players := remove1 i (pk_players p)\<rparr>;
         p = p\<lparr>pk_sorted := players_get_sorted p\<rparr>
     in upd_player i (\<lambda>pl. pl\<lparr>pl_ref := ref_counted_leave (pl_ref pl)\<rparr>) p)"

text \<open>\<open>fresh\<close> is the address that \<open>malloc\<close> returns for the new player; \<open>smod\<close> is C's
  remainder, which keeps the sign of the position the client sent.\<close>

definition players_addby_account :: "poker \<Rightarrow> pid \<Rightarrow> 64 word \<Rightarrow> int \<Rightarrow> poker \<times> pid option" where
  "players_addby_account p fresh account position =
    (if tb_max_players (pk_table p) < int (length (pk_players p)) then (p, None)
     else
       let p = upd_player fresh (\<lambda>_. (player_new account)
                 \<lparr>pl_position := position smod tb_max_players (pk_table p), pl_playing := pk_state p \<le> W4P\<rparr>) p
       in (fst (players_add p fresh), Some fresh))"

section \<open>Balances\<close>

definition player_set_balance :: "player \<Rightarrow> chips \<Rightarrow> player" where
  "player_set_balance pl amount = pl\<lparr>pl_balance := amount\<rparr>"

definition player_remove_balance :: "player \<Rightarrow> chips \<Rightarrow> player option" where
  "player_remove_balance pl amount =
    (if pl_balance pl < amount then None
     else Some (player_set_balance pl (pl_balance pl - amount)))"

definition player_add_balance :: "player \<Rightarrow> chips \<Rightarrow> player" where
  "player_add_balance pl amount = pl\<lparr>pl_balance := pl_balance pl + amount\<rparr>"

section \<open>Hands and actions\<close>

text \<open>The pointer to the current hand is the kind of the hand; it is null when done.\<close>

definition get_current_hand :: "poker \<Rightarrow> hand_kind option" where
  "get_current_hand p =
    (if pk_state p = FLOP then Some HAND_FLOP
     else if pk_state p = TURN then Some HAND_TURN
     else if pk_state p = RIVER then Some HAND_RIVER
     else if pk_state p \<le> PREFLOP then Some HAND_PREFLOP
     else None)"

definition upd_hand :: "hand_kind \<Rightarrow> (hand \<Rightarrow> hand) \<Rightarrow> poker \<Rightarrow> poker" where
  "upd_hand k f p = p\<lparr>pk_hands := (pk_hands p)(k := f (pk_hands p k))\<rparr>"

definition actions_add :: "hand_kind \<Rightarrow> action \<Rightarrow> pid \<Rightarrow> poker \<Rightarrow> poker" where
  "actions_add k a i = upd_hand k (\<lambda>h. h\<lparr>hd_actions := hd_actions h @ [(a, i)]\<rparr>)"

definition get_last_action :: "poker \<Rightarrow> (action \<times> pid) option" where
  "get_last_action p = (case get_current_hand p of
      None \<Rightarrow> None
    | Some k \<Rightarrow> (let as = hd_actions (pk_hands p k) in if as = [] then None else Some (last as)))"

section \<open>Dealing\<close>

definition draw_card :: "poker \<Rightarrow> (card \<times> poker) outcome" where
  "draw_card p = bindO (get_random (pk_draws p) (pk_history p))
     (\<lambda>(c, history, draws). Inr (c, p\<lparr>pk_history := history, pk_draws := draws\<rparr>))"

definition player_deal :: "pid \<Rightarrow> poker \<Rightarrow> poker outcome" where
  "player_deal i p =
    (let p = upd_player i (\<lambda>pl. pl\<lparr>pl_dealt := True\<rparr>) p
     in bindO (draw_card p) (\<lambda>(c, p).
        let p = upd_player i (\<lambda>pl. pl\<lparr>pl_cards := (pl_cards pl)[0 := c]\<rparr>) p
        in bindO (draw_card p) (\<lambda>(c, p).
           Inr (upd_player i (\<lambda>pl. pl\<lparr>pl_cards := (pl_cards pl)[1 := c]\<rparr>) p))))"

fun deal_all :: "pid list \<Rightarrow> poker \<Rightarrow> poker outcome" where
  "deal_all [] p = Inr p"
| "deal_all (i # is) p = bindO (player_deal i p) (deal_all is)"

definition players_deal :: "poker \<Rightarrow> poker outcome" where
  "players_deal p = bindO (deal_all (pk_players p) p) (\<lambda>p. Inr (p\<lparr>pk_is_dealt := True\<rparr>))"

text \<open>The card of slot \<open>k\<close> of a hand on the table.\<close>

definition deal_to_hand :: "hand_kind \<Rightarrow> nat \<Rightarrow> poker \<Rightarrow> poker outcome" where
  "deal_to_hand h k p = bindO (draw_card p) (\<lambda>(c, p).
     Inr (upd_hand h (\<lambda>hd. hd\<lparr>hd_cards := (hd_cards hd)[k := c]\<rparr>) p))"

definition deal_flop :: "poker \<Rightarrow> poker outcome" where
  "deal_flop p = bindO (deal_to_hand HAND_FLOP 0 p)
     (\<lambda>p. bindO (deal_to_hand HAND_FLOP 1 p) (deal_to_hand HAND_FLOP 2))"

definition deal_turn :: "poker \<Rightarrow> poker outcome" where
  "deal_turn = deal_to_hand HAND_TURN 0"

definition deal_river :: "poker \<Rightarrow> poker outcome" where
  "deal_river = deal_to_hand HAND_RIVER 0"

section \<open>Frame lemmas\<close>

lemma the_player_upd [simp]:
  "the_player (upd_player i f p) j = (if j = i then f (the_player p i) else the_player p j)"
  by (simp add: the_player_def upd_player_def)

lemma upd_player_fields [simp]:
  "pk_table (upd_player i f p) = pk_table p"
  "pk_players (upd_player i f p) = pk_players p" "pk_sorted (upd_player i f p) = pk_sorted p"
  "pk_state (upd_player i f p) = pk_state p" "pk_hands (upd_player i f p) = pk_hands p"
  "pk_history (upd_player i f p) = pk_history p" "pk_current_raise (upd_player i f p) = pk_current_raise p"
  "pk_current_bet (upd_player i f p) = pk_current_bet p" "pk_pot (upd_player i f p) = pk_pot p"
  "pk_playing_position (upd_player i f p) = pk_playing_position p" "pk_sb (upd_player i f p) = pk_sb p"
  "pk_bb (upd_player i f p) = pk_bb p" "pk_starter_num (upd_player i f p) = pk_starter_num p"
  "pk_last_raised_pos (upd_player i f p) = pk_last_raised_pos p" "pk_synced (upd_player i f p) = pk_synced p"
  "pk_playing_last (upd_player i f p) = pk_playing_last p" "pk_sb_must_call (upd_player i f p) = pk_sb_must_call p"
  "pk_draws (upd_player i f p) = pk_draws p" "pk_posted (upd_player i f p) = pk_posted p"
  "pk_last_pos_before_raise (upd_player i f p) = pk_last_pos_before_raise p" "pk_scores (upd_player i f p) = pk_scores p"
  "pk_current_raise_total (upd_player i f p) = pk_current_raise_total p"
  "pk_button (upd_player i f p) = pk_button p"
  by (simp_all add: upd_player_def)

lemma upd_hand_fields [simp]:
  "pk_table (upd_hand k g p) = pk_table p"
  "pk_players (upd_hand k g p) = pk_players p" "pk_sorted (upd_hand k g p) = pk_sorted p"
  "pk_state (upd_hand k g p) = pk_state p" "pk_store (upd_hand k g p) = pk_store p"
  "pk_history (upd_hand k g p) = pk_history p" "pk_current_raise (upd_hand k g p) = pk_current_raise p"
  "pk_current_bet (upd_hand k g p) = pk_current_bet p" "pk_pot (upd_hand k g p) = pk_pot p"
  "pk_playing_position (upd_hand k g p) = pk_playing_position p" "pk_sb (upd_hand k g p) = pk_sb p"
  "pk_bb (upd_hand k g p) = pk_bb p" "pk_starter_num (upd_hand k g p) = pk_starter_num p"
  "pk_last_raised_pos (upd_hand k g p) = pk_last_raised_pos p" "pk_synced (upd_hand k g p) = pk_synced p"
  "pk_playing_last (upd_hand k g p) = pk_playing_last p" "pk_sb_must_call (upd_hand k g p) = pk_sb_must_call p"
  "pk_draws (upd_hand k g p) = pk_draws p" "pk_posted (upd_hand k g p) = pk_posted p"
  "the_player (upd_hand k g p) = the_player p"
  by (simp_all add: upd_hand_def the_player_def fun_eq_iff)

lemma the_player_fields [simp]:
  "the_player (pk_players_update g1 p) = the_player p"
  "the_player (pk_sorted_update g2 p) = the_player p"
  "the_player (pk_state_update g3 p) = the_player p"
  "the_player (pk_hands_update g4 p) = the_player p"
  "the_player (pk_hand_kind_update g5 p) = the_player p"
  "the_player (pk_action_time_update g6 p) = the_player p"
  "the_player (pk_proceed_time_update g7 p) = the_player p"
  "the_player (pk_starting_time_update g8 p) = the_player p"
  "the_player (pk_history_update g9 p) = the_player p"
  "the_player (pk_current_raise_update g10 p) = the_player p"
  "the_player (pk_current_raise_total_update g11 p) = the_player p"
  "the_player (pk_current_bet_update g12 p) = the_player p"
  "the_player (pk_playing_position_update g13 p) = the_player p"
  "the_player (pk_pot_update g14 p) = the_player p"
  "the_player (pk_starter_num_update g15 p) = the_player p"
  "the_player (pk_last_raised_pos_update g16 p) = the_player p"
  "the_player (pk_last_pos_before_raise_update g17 p) = the_player p"
  "the_player (pk_synced_update g18 p) = the_player p"
  "the_player (pk_playing_last_update g19 p) = the_player p"
  "the_player (pk_sb_must_call_update g20 p) = the_player p"
  "the_player (pk_winner_update g21 p) = the_player p"
  "the_player (pk_scores_update g22 p) = the_player p"
  "the_player (pk_sb_update g23 p) = the_player p"
  "the_player (pk_bb_update g24 p) = the_player p"
  "the_player (pk_button_update g25 p) = the_player p"
  "the_player (pk_is_dealt_update g26 p) = the_player p"
  "the_player (pk_posted_update g27 p) = the_player p"
  "the_player (pk_draws_update g28 p) = the_player p"
  by (simp_all add: the_player_def fun_eq_iff)

lemma the_player_cong: "pk_store p = pk_store q \<Longrightarrow> the_player p = the_player q"
  by (simp add: the_player_def fun_eq_iff)

end
