(* ===== verification/Poker_Action.thy ===== *)
theory Poker_Action
  imports Poker
begin

text \<open>
  \<open>pkrsrv_poker_do_action\<close> of \<open>src/src/poker.c\<close>, in the stages of the function: the guards,
  the blinds, the raise, fold, check or call, the record of the action, the search for the
  next player, the betting round, the run-out of the table when nobody can bet any more, and
  the showdown. A \<open>goto RETURN\<close> with \<open>is_done = false\<close> is \<open>Reject\<close>, carrying the state at that
  point; the jumps after the betting round are the values of \<open>flow\<close>.
\<close>

datatype stage = Reject poker | Continue poker

datatype flow = Fall poker | Action_end poker | Showdown poker

definition bindS :: "stage outcome \<Rightarrow> (poker \<Rightarrow> stage outcome) \<Rightarrow> stage outcome" where
  "bindS m f = bindO m (\<lambda>s. case s of Reject p \<Rightarrow> Inr (Reject p) | Continue p \<Rightarrow> f p)"

section \<open>Guards\<close>

definition action_refused :: "poker \<Rightarrow> pid \<Rightarrow> bool" where
  "action_refused p i \<longleftrightarrow>
    (let pl = the_player p i
     in pk_state p > RIVER \<or> \<not> pl_playing pl \<or> pl_folded pl \<or> pk_state p < SMALL_BLIND
        \<or> pl_position pl \<noteq> pk_playing_position p \<or> pl_allin pl)"

section \<open>Moving chips\<close>

text \<open>\<open>pkrsrv_poker_player_remove_balance\<close> on the player in the store, and the pair of
  additions to the bet and to the pot that follows it.\<close>

definition take_balance :: "pid \<Rightarrow> chips \<Rightarrow> poker \<Rightarrow> poker option" where
  "take_balance i amount p = (case player_remove_balance (the_player p i) amount of
      None \<Rightarrow> None
    | Some pl \<Rightarrow> Some (upd_player i (\<lambda>_. pl) p))"

definition put_in :: "pid \<Rightarrow> chips \<Rightarrow> poker \<Rightarrow> poker" where
  "put_in i amount p =
    (let p = upd_player i (\<lambda>pl. pl\<lparr>pl_bet := pl_bet pl + amount\<rparr>) p
     in p\<lparr>pk_pot := pk_pot p + amount\<rparr>)"

definition add_balance :: "pid \<Rightarrow> chips \<Rightarrow> poker \<Rightarrow> poker" where
  "add_balance i amount p = upd_player i (\<lambda>pl. player_add_balance pl amount) p"

section \<open>Blinds\<close>

definition small_blind_stage :: "pid \<Rightarrow> action \<Rightarrow> poker \<Rightarrow> stage outcome" where
  "small_blind_stage i a p =
    (if pk_state p = SMALL_BLIND then
       if pk_sb p \<noteq> Some i then Inr (Reject p)
       else if act_kind a \<noteq> ActSmallBlind then Inr (Reject p)
       else (case take_balance i (tb_small_blind (pk_table p)) p of
               None \<Rightarrow> Inr (Reject p)
             | Some p \<Rightarrow> Inr (Continue ((put_in i (tb_small_blind (pk_table p)) p)\<lparr>pk_sb_must_call := True\<rparr>)))
     else Inr (Continue p))"

definition big_blind_stage :: "hand_kind \<Rightarrow> pid \<Rightarrow> action \<Rightarrow> poker \<Rightarrow> stage outcome" where
  "big_blind_stage h i a p =
    (if pk_state p = BIG_BLIND then
       if pk_bb p \<noteq> Some i then Inr (Reject p)
       else if act_kind a \<noteq> ActBigBlind then Inr (Reject p)
       else (case take_balance i (tb_big_blind (pk_table p)) p of
               None \<Rightarrow> Inr (Reject p)
             | Some p \<Rightarrow> Inr (Continue (upd_hand h (\<lambda>hd. hd\<lparr>hd_raised := True\<rparr>)
                                        (put_in i (tb_big_blind (pk_table p)) p))))
     else Inr (Continue p))"

section \<open>Raise, fold, check and call\<close>

definition raise_effect :: "hand_kind \<Rightarrow> pid \<Rightarrow> chips \<Rightarrow> chips \<Rightarrow> chips \<Rightarrow> poker \<Rightarrow> poker" where
  "raise_effect h i raise_to to_bet raise_by p =
    (if raise_to \<ge> pk_current_bet p then
       let up = raise_to > pk_current_bet p;
           p = (if raise_by \<ge> pk_current_raise p then p\<lparr>pk_current_raise := raise_by\<rparr> else p);
           p = (if up then (upd_hand h (\<lambda>hd. hd\<lparr>hd_raised := True\<rparr>) p)
                             \<lparr>pk_current_bet := pk_current_bet p + raise_by\<rparr>
                else p);
           p = p\<lparr>pk_current_raise_total := pk_current_raise_total p + raise_by\<rparr>;
           p = put_in i to_bet p
       in p\<lparr>pk_last_raised_pos := pl_position (the_player p i)\<rparr>
     else p)"

definition raise_stage :: "hand_kind \<Rightarrow> pid \<Rightarrow> action \<Rightarrow> poker \<Rightarrow> stage outcome" where
  "raise_stage h i a p =
    (let pl = the_player p i;
         raise_to = act_amount a;
         to_bet = raise_to - pl_bet pl;
         raise_by = raise_to - pk_current_bet p;
         min_raise_to = pk_current_bet p + pk_current_raise p;
         is_allin = (pl_balance pl = to_bet)
     in if pl_balance pl < to_bet then Inr (Reject p)
        else if \<not> is_allin \<and> raise_by < pk_current_raise p then Inr (Reject p)
        else if \<not> is_allin \<and> pk_sb_must_call p \<and> pk_sb p = Some i \<and> raise_to < min_raise_to
        then Inr (Reject p)
        else (case take_balance i to_bet p of
                None \<Rightarrow> Inr (Reject p)
              | Some p \<Rightarrow>
                  let p = (if pk_sb_must_call p \<and> pk_sb p = Some i
                           then p\<lparr>pk_sb_must_call := False\<rparr> else p);
                      p = raise_effect h i raise_to to_bet raise_by p;
                      p = p\<lparr>pk_synced := pk_synced p + 1\<rparr>;
                      p = (if pk_sb p = Some i then p\<lparr>pk_sb_must_call := False\<rparr> else p)
                  in Inr (Continue p)))"

definition fold_stage :: "pid \<Rightarrow> poker \<Rightarrow> stage outcome" where
  "fold_stage i p = Inr (Continue (upd_player i (\<lambda>pl. pl\<lparr>pl_folded := True\<rparr>) p))"

definition sb_calls :: "pid \<Rightarrow> poker \<Rightarrow> bool outcome" where
  "sb_calls i p =
    (if pk_sb_must_call p
     then bindO (deref (pk_sb p)) (\<lambda>sb. Inr (pl_account (the_player p i) = pl_account (the_player p sb)))
     else Inr False)"

definition call_effect :: "pid \<Rightarrow> poker \<Rightarrow> poker" where
  "call_effect i p =
    (let to_bet = pk_current_bet p - pl_bet (the_player p i)
     in case take_balance i to_bet p of
          Some p \<Rightarrow> put_in i to_bet p
        | None \<Rightarrow>
            let p = upd_player i (\<lambda>pl. pl\<lparr>pl_allin := True\<rparr>) p;
                to_bet = pl_balance (the_player p i);
                p = upd_player i (\<lambda>pl. player_set_balance pl 0) p
            in put_in i to_bet p)"

definition check_stage :: "hand_kind \<Rightarrow> pid \<Rightarrow> poker \<Rightarrow> stage outcome" where
  "check_stage h i p = bindO (sb_calls i p) (\<lambda>sb_must.
     if sb_must then
       if pl_balance (the_player p i) < tb_small_blind (pk_table p) then Inr (Reject p)
       else (case take_balance i (tb_small_blind (pk_table p)) p of
               None \<Rightarrow> Inr (Reject p)
             | Some p \<Rightarrow> Inr (Continue ((put_in i (tb_small_blind (pk_table p)) p)\<lparr>pk_sb_must_call := False\<rparr>)))
     else if hd_raised (pk_hands p h) then Inr (Continue (call_effect i p))
     else Inr (Continue p))"

definition action_stage :: "hand_kind \<Rightarrow> pid \<Rightarrow> action \<Rightarrow> poker \<Rightarrow> stage outcome" where
  "action_stage h i a p = (case act_kind a of
      ActRaise \<Rightarrow> raise_stage h i a p
    | ActFold \<Rightarrow> fold_stage i p
    | ActCheck \<Rightarrow> check_stage h i p
    | _ \<Rightarrow> Inr (Continue p))"

definition betting_stages :: "hand_kind \<Rightarrow> pid \<Rightarrow> action \<Rightarrow> poker \<Rightarrow> stage outcome" where
  "betting_stages h i a p =
     bindS (bindS (small_blind_stage i a p) (big_blind_stage h i a)) (action_stage h i a)"

definition record_stage :: "hand_kind \<Rightarrow> pid \<Rightarrow> action \<Rightarrow> poker \<Rightarrow> poker" where
  "record_stage h i a p =
    (let p = (if pl_balance (the_player p i) \<le> 0
              then upd_player i (\<lambda>pl. pl\<lparr>pl_allin := True\<rparr>) p else p);
         p = (if pk_last_pos_before_raise p = -1
              then p\<lparr>pk_last_pos_before_raise := pl_position (the_player p i)\<rparr> else p)
     in actions_add h a i p)"

section \<open>The next player\<close>

definition sorted_at :: "poker \<Rightarrow> int \<Rightarrow> pid outcome" where
  "sorted_at p k = (if 0 \<le> k \<and> k < int (length (pk_sorted p)) then Inr (pk_sorted p ! nat k)
     else Inl OutOfRange)"

definition seat_can_act :: "poker \<Rightarrow> int \<Rightarrow> bool" where
  "seat_can_act p pos = (case getby_position_in_sorted p (pk_sorted p) pos of
      None \<Rightarrow> False
    | Some i \<Rightarrow> (let pl = the_player p i in pl_playing pl \<and> \<not> pl_folded pl \<and> \<not> pl_allin pl))"

text \<open>The loop at label \<open>NEXT_PLAYER\<close>: \<open>low\<close> and \<open>high\<close> are the positions of the first and the
  last player in order of position. The fuel is two turns of the table, after which the loop
  has seen every position between them (\<open>Poker_Turn\<close> proves that it is enough).\<close>

fun next_position :: "poker \<Rightarrow> int \<Rightarrow> int \<Rightarrow> nat \<Rightarrow> int \<Rightarrow> int outcome" where
  "next_position p low high 0 pos = Inl Diverges"
| "next_position p low high (Suc n) pos =
    (let pos = pos + 1;
         pos = (if pos > high then low else pos)
     in if seat_can_act p pos then Inr pos else next_position p low high n pos)"

definition next_player_fuel :: "int \<Rightarrow> int \<Rightarrow> int \<Rightarrow> nat" where
  "next_player_fuel low high pos = nat (high - pos) + nat (high - low) + 2"

definition next_player :: "poker \<Rightarrow> poker outcome" where
  "next_player p =
     bindO (sorted_at p (int (length (pk_players p)) - 1)) (\<lambda>last.
     bindO (sorted_at p 0) (\<lambda>first.
       let low = pl_position (the_player p first);
           high = pl_position (the_player p last);
           pos = pk_playing_position p
       in bindO (next_position p low high (next_player_fuel low high pos) pos)
            (\<lambda>pos. Inr (p\<lparr>pk_playing_position := pos\<rparr>))))"

section \<open>The betting round\<close>

definition still_betting :: "player \<Rightarrow> bool" where
  "still_betting pl \<longleftrightarrow> pl_playing pl \<and> \<not> pl_left pl \<and> \<not> pl_folded pl \<and> \<not> pl_allin pl"

fun last_to_play :: "poker \<Rightarrow> pid list \<Rightarrow> int \<Rightarrow> int" where
  "last_to_play p [] acc = acc"
| "last_to_play p (i # is) acc =
    (let pl = the_player p i
     in if pl_position pl = pk_last_raised_pos p \<and> still_betting pl then pl_position pl
        else if still_betting pl \<and> pl_bet pl < pk_current_bet p
        then last_to_play p is (pl_position pl)
        else last_to_play p is acc)"

definition get_last_playing_position :: "poker \<Rightarrow> int outcome" where
  "get_last_playing_position p =
    (if pk_last_raised_pos p = -1
     then bindO (deref (pk_bb p)) (\<lambda>bb. Inr (pl_position (the_player p bb)))
     else Inr (last_to_play p (take (length (pk_players p)) (pk_sorted p)) (-1)))"

definition is_last_to_act :: "int \<Rightarrow> pid \<Rightarrow> poker \<Rightarrow> bool outcome" where
  "is_last_to_act playing i p = bindO (get_last_playing_position p) (\<lambda>last.
     Inr ((pk_last_raised_pos p = -1 \<and> pk_synced p = playing)
        \<or> (pk_last_raised_pos p \<noteq> -1 \<and> pl_position (the_player p i) = last)))"

definition advance_street :: "poker_state \<Rightarrow> poker \<Rightarrow> poker outcome" where
  "advance_street next p =
    (let p = p\<lparr>pk_state := next, pk_synced := 0, pk_last_raised_pos := -1,
               pk_last_pos_before_raise := -1\<rparr>
     in if pk_starter_num p = 2
        then bindO (deref (pk_bb p)) (\<lambda>bb.
               Inr (p\<lparr>pk_playing_position := pl_position (the_player p bb)\<rparr>))
        else Inr p)"

definition award_last :: "poker \<Rightarrow> poker outcome" where
  "award_last p =
    (let winner = List.find (\<lambda>i. player_ingame (the_player p i)) (pk_players p);
         p = p\<lparr>pk_winner := winner, pk_state := DONE\<rparr>
     in bindO (deref winner) (\<lambda>w. Inr (add_balance w (pk_pot p) p)))"

definition end_of_round ::
    "poker_state \<Rightarrow> (poker \<Rightarrow> poker outcome) \<Rightarrow> int \<Rightarrow> pid \<Rightarrow> poker \<Rightarrow> flow outcome" where
  "end_of_round next deal playing i p = bindO (is_last_to_act playing i p) (\<lambda>last.
     if last then bindO (advance_street next p) (\<lambda>p. bindO (deal p) (\<lambda>p. Inr (Fall p)))
     else Inr (Fall p))"

text \<open>One of the four blocks of the code: what follows a check or a fold in a street. The
  streets differ in their successor, in the cards they deal, and in whether a fold counts as
  a synced action (it does on the flop and on the turn only).\<close>

definition street_round :: "poker_state \<Rightarrow> (poker \<Rightarrow> poker outcome) \<Rightarrow> bool
    \<Rightarrow> int \<Rightarrow> int \<Rightarrow> pid \<Rightarrow> action \<Rightarrow> poker \<Rightarrow> flow outcome" where
  "street_round next deal fold_counts playing ingame i a p = (case act_kind a of
      ActCheck \<Rightarrow> end_of_round next deal playing i (p\<lparr>pk_synced := pk_synced p + 1\<rparr>)
    | ActFold \<Rightarrow>
        if ingame = 1 then bindO (award_last p) (\<lambda>p. Inr (Action_end p))
        else end_of_round next deal playing i
               (if fold_counts then p\<lparr>pk_synced := pk_synced p + 1\<rparr> else p)
    | _ \<Rightarrow> Inr (Fall p))"

definition preflop_round :: "int \<Rightarrow> int \<Rightarrow> pid \<Rightarrow> action \<Rightarrow> poker \<Rightarrow> flow outcome" where
  "preflop_round = street_round FLOP deal_flop False"

definition flop_round :: "int \<Rightarrow> int \<Rightarrow> pid \<Rightarrow> action \<Rightarrow> poker \<Rightarrow> flow outcome" where
  "flop_round = street_round TURN deal_turn True"

definition turn_round :: "int \<Rightarrow> int \<Rightarrow> pid \<Rightarrow> action \<Rightarrow> poker \<Rightarrow> flow outcome" where
  "turn_round = street_round RIVER deal_river True"

definition river_round :: "int \<Rightarrow> int \<Rightarrow> pid \<Rightarrow> action \<Rightarrow> poker \<Rightarrow> flow outcome" where
  "river_round playing ingame i a p =
     bindO (street_round DONE Inr False playing ingame i a p) (\<lambda>f. case f of
        Fall p \<Rightarrow> Inr (if pk_state p = DONE then Showdown p else Fall p)
      | _ \<Rightarrow> Inr f)"

definition round_stage :: "int \<Rightarrow> int \<Rightarrow> pid \<Rightarrow> action \<Rightarrow> poker \<Rightarrow> flow outcome" where
  "round_stage playing ingame i a p =
    (if pk_state p = PREFLOP then preflop_round playing ingame i a p
     else if pk_state p = FLOP then flop_round playing ingame i a p
     else if pk_state p = TURN then turn_round playing ingame i a p
     else if pk_state p = RIVER then river_round playing ingame i a p
     else Inr (Fall p))"

text \<open>When nobody can bet any more, the missing cards of the table are dealt and the hands are
  compared; when one player is left who can bet, his next action will be the last.\<close>

definition runout_stage :: "int \<Rightarrow> poker \<Rightarrow> flow outcome" where
  "runout_stage playing p =
    (if pk_playing_last p \<or> playing = 0 then
       bindO (if pk_state p = PREFLOP
              then bindO (deal_flop p) (\<lambda>p. bindO (deal_turn p) deal_river)
              else if pk_state p = FLOP then bindO (deal_turn p) deal_river
              else if pk_state p = TURN then deal_river p
              else Inr p)
         (\<lambda>p. Inr (Showdown (p\<lparr>pk_state := DONE\<rparr>)))
     else if playing = 1 then Inr (Action_end (p\<lparr>pk_playing_last := True\<rparr>))
     else Inr (Action_end p))"

section \<open>The showdown\<close>

record rank_entry =
  rk_player :: pid
  rk_bet :: chips
  rk_rank :: int

definition sevens_of :: "poker \<Rightarrow> player \<Rightarrow> card list" where
  "sevens_of p pl = [pl_cards pl ! 0, pl_cards pl ! 1,
     hd_cards (pk_hands p HAND_FLOP) ! 0, hd_cards (pk_hands p HAND_FLOP) ! 1,
     hd_cards (pk_hands p HAND_FLOP) ! 2, hd_cards (pk_hands p HAND_TURN) ! 0,
     hd_cards (pk_hands p HAND_RIVER) ! 0]"

text \<open>The entry of the array \<open>ranks\<close> at the index of a player in the list; it is written only for
  the players still in, so the others leave an entry that was never written (\<open>None\<close>).\<close>

definition rank_entry_of :: "poker \<Rightarrow> pid \<Rightarrow> rank_entry option" where
  "rank_entry_of p i =
    (let pl = the_player p i
     in if \<not> pl_playing pl \<or> pl_folded pl \<or> pl_left pl then None
        else Some \<lparr>rk_player = i, rk_bet = pl_bet pl,
                   rk_rank = score_rank (fst (get_best_fives_score (sevens_of p pl)))\<rparr>)"

definition read_ranks :: "rank_entry option list \<Rightarrow> rank_entry list outcome" where
  "read_ranks rs = (if list_ex (\<lambda>r. r = None) rs then Inl UninitRead else Inr (map the rs))"

definition rank_swaps :: "rank_entry \<Rightarrow> rank_entry \<Rightarrow> bool" where
  "rank_swaps a b \<longleftrightarrow> rk_rank b < rk_rank a"

definition pay_one :: "nat \<Rightarrow> nat \<Rightarrow> rank_entry list \<times> poker \<Rightarrow> rank_entry list \<times> poker" where
  "pay_one i j = (\<lambda>(rs, p).
    let rank = rs ! i; other = rs ! j
    in if rk_bet other \<ge> pl_bet (the_player p (rk_player rank))
       then (rs[j := other\<lparr>rk_bet := rk_bet other - rk_bet rank\<rparr>],
             add_balance (rk_player rank) (rk_bet rank) p)
       else let other = other\<lparr>rk_bet := 0\<rparr>
            in (rs[j := other], add_balance (rk_player rank) (rk_bet other) p))"

definition pay_row :: "nat \<Rightarrow> nat \<Rightarrow> rank_entry list \<times> poker \<Rightarrow> rank_entry list \<times> poker" where
  "pay_row i ranks_length s = fold (pay_one i) [i + 1..<ranks_length] s"

text \<open>The array \<open>scores\<close> has ten entries.\<close>

fun pay_loop :: "nat list \<Rightarrow> nat \<Rightarrow> chips \<Rightarrow> rank_entry list \<Rightarrow> poker \<Rightarrow> poker outcome" where
  "pay_loop [] ranks_length pot_diff rs p = Inr p"
| "pay_loop (i # is) ranks_length pot_diff rs p =
    (let rank = rs ! i;
         bet = pl_bet (the_player p (rk_player rank));
         bet_diff = pk_current_bet p - bet;
         pot_diff = pot_diff - bet;
         p = add_balance (rk_player rank) (rk_bet rank) p;
         (rs, p) = pay_row i ranks_length (rs, p);
         p = upd_player (rk_player rank) (\<lambda>pl. pl\<lparr>pl_ref := ref_counted_use (pl_ref pl)\<rparr>) p
     in if 10 \<le> i then Inl OutOfRange
        else
          let p = p\<lparr>pk_scores := pk_scores p @ [(rk_player rank, bet_diff)]\<rparr>
          in if pot_diff = 0 then Inr p else pay_loop is ranks_length pot_diff rs p)"

definition showdown :: "poker \<Rightarrow> poker outcome" where
  "showdown p =
    (let entries = map (rank_entry_of p) (pk_players p);
         ranks_length = length (filter (\<lambda>r. r \<noteq> None) entries);
         n = length (pk_players p)
     in bindO (read_ranks entries) (\<lambda>rs.
          let rs = exchange_sort rank_swaps n rs;
              p = p\<lparr>pk_scores := []\<rparr>
          in bindO (pay_loop [0..<n] ranks_length (pk_pot p) rs p) (\<lambda>p.
               if n = 0 then Inl OutOfRange
               else Inr (p\<lparr>pk_winner := Some (rk_player (rs ! 0))\<rparr>))))"

section \<open>The whole action\<close>

definition action_end :: "64 word \<Rightarrow> pid \<Rightarrow> action \<Rightarrow> poker \<Rightarrow> poker" where
  "action_end now i a p = p\<lparr>pk_action_time := now, pk_posted := pk_posted p @ [(i, a)]\<rparr>"

definition finish_flow :: "flow \<Rightarrow> poker outcome" where
  "finish_flow f = (case f of
     Fall p \<Rightarrow> Inr p | Action_end p \<Rightarrow> Inr p | Showdown p \<Rightarrow> showdown p)"

definition after_betting :: "hand_kind \<Rightarrow> pid \<Rightarrow> action \<Rightarrow> poker \<Rightarrow> poker outcome" where
  "after_betting h i a p =
    (let p = record_stage h i a p;
         playing = playing_count p;
         ingame = ingame_count p
     in bindO (if playing = 0 then Inr p else next_player p) (\<lambda>p.
        bindO (round_stage playing ingame i a p) (\<lambda>f.
        bindO (case f of Fall p \<Rightarrow> runout_stage playing p | _ \<Rightarrow> Inr f) finish_flow)))"

definition do_action :: "64 word \<Rightarrow> poker \<Rightarrow> pid \<Rightarrow> action \<Rightarrow> (poker \<times> bool) outcome" where
  "do_action now p i a =
    (if action_refused p i then Inr (p, False)
     else bindO (deref (get_current_hand p)) (\<lambda>h.
          bindO (betting_stages h i a p) (\<lambda>s. case s of
             Reject p \<Rightarrow> Inr (p, False)
           | Continue p \<Rightarrow> bindO (after_betting h i a p) (\<lambda>p. Inr (action_end now i a p, True)))))"

end
