(* ===== verification/Poker_Game.thy ===== *)
theory Poker_Game
  imports Poker_Action
begin

text \<open>
  The life of a game (\<open>src/src/poker.c\<close>): creation, the waiting states, the start of a round
  with the blinds and the deal, the restart, the timeout that folds for an idle player, and
  the release of what a game holds. Times are arguments (\<open>now\<close>).
\<close>

section \<open>Creation\<close>

definition new_hand :: hand where
  "new_hand = \<lparr>hd_cards = [no_card, no_card, no_card], hd_checked = False,
     hd_actions = [], hd_raised = False\<rparr>"

text \<open>\<open>garbage\<close> stands for the fields that the constructor leaves as \<open>malloc\<close> returned them:
  the time of the last \<open>proceed\<close> and the store of other objects.\<close>

definition poker_new :: "table \<Rightarrow> (pid \<Rightarrow> player) \<Rightarrow> 64 word \<Rightarrow> int list \<Rightarrow> poker" where
  "poker_new tb store garbage draws = \<lparr>
     pk_table = tb\<lparr>tb_ref := ref_counted_use (tb_ref tb)\<rparr>,
     pk_players = [], pk_store = store, pk_sorted = [], pk_state = CREATED,
     pk_hands = (\<lambda>_. new_hand), pk_hand_kind = HAND_PREFLOP,
     pk_action_time = 0, pk_proceed_time = garbage, pk_starting_time = 0,
     pk_history = replicate 52 no_card,
     pk_current_raise = -1, pk_current_raise_total = -1, pk_current_bet = -1,
     pk_playing_position = -1, pk_pot = 0, pk_starter_num = 0, pk_last_raised_pos = -1,
     pk_last_pos_before_raise = -1, pk_synced = 0, pk_playing_last = False,
     pk_sb_must_call = False, pk_winner = None, pk_scores = [], pk_sb = None, pk_bb = None,
     pk_button = 0, pk_is_dealt = False, pk_posted = [], pk_draws = draws\<rparr>"

definition poker_ready :: "poker \<Rightarrow> poker" where
  "poker_ready p = p\<lparr>pk_state := W4P, pk_button := 0\<rparr>"

definition poker_starting :: "64 word \<Rightarrow> poker \<Rightarrow> poker" where
  "poker_starting now p = p\<lparr>pk_state := STARTING, pk_starting_time := now\<rparr>"

section \<open>Start\<close>

text \<open>The search for a seat from position \<open>i\<close> on, modulo 10, that holds a player who has not
  left. The fuel is 10: after ten steps every position from 0 to 9 has been tried, and the loop
  repeats them for ever.\<close>

fun find_seat :: "poker \<Rightarrow> nat \<Rightarrow> int \<Rightarrow> pid outcome" where
  "find_seat p 0 i = Inl Diverges"
| "find_seat p (Suc n) i =
    (let i = i mod 10
     in case getby_position p i of
          None \<Rightarrow> find_seat p n (i + 1)
        | Some pl \<Rightarrow> if pl_left (the_player p pl) then find_seat p n (i + 1) else Inr pl)"

definition blind_action :: "action_kind \<Rightarrow> chips \<Rightarrow> action" where
  "blind_action k amount = \<lparr>act_kind = k, act_amount = amount\<rparr>"

definition choose_blinds :: "poker \<Rightarrow> poker outcome" where
  "choose_blinds p =
    bindO (find_seat p 10 (pk_button p)) (\<lambda>sb.
      let p = p\<lparr>pk_sb := Some sb, pk_button := pl_position (the_player p sb)\<rparr>
      in bindO (find_seat p 10 (pk_button p + 1)) (\<lambda>bb. Inr (p\<lparr>pk_bb := Some bb\<rparr>)))"

text \<open>The results of the two blind actions are not looked at.\<close>

definition post_blinds :: "64 word \<Rightarrow> poker \<Rightarrow> poker outcome" where
  "post_blinds now p =
    bindO (deref (pk_sb p)) (\<lambda>sb.
    bindO (deref (pk_bb p)) (\<lambda>bb.
      let p = p\<lparr>pk_playing_position := pl_position (the_player p sb), pk_state := SMALL_BLIND\<rparr>
      in bindO (do_action now p sb (blind_action ActSmallBlind (tb_small_blind (pk_table p)))) (\<lambda>(p, _).
         let p = p\<lparr>pk_state := BIG_BLIND\<rparr>
         in bindO (do_action now p bb (blind_action ActBigBlind (tb_big_blind (pk_table p)))) (\<lambda>(p, _). Inr p))))"

definition open_betting :: "poker \<Rightarrow> poker outcome" where
  "open_betting p =
    (let bb = tb_big_blind (pk_table p);
         p = p\<lparr>pk_current_bet := bb, pk_current_raise := bb, pk_current_raise_total := bb\<rparr>;
         p = p\<lparr>pk_starter_num := playing_count p\<rparr>
     in bindO (players_deal p) (\<lambda>p. Inr (p\<lparr>pk_state := PREFLOP\<rparr>)))"

definition poker_start :: "64 word \<Rightarrow> poker \<Rightarrow> (poker \<times> bool) outcome" where
  "poker_start now p =
    (if playable_count p < 2 then Inr (p, False)
     else
       let p = p\<lparr>pk_state := SMALL_BLIND, pk_action_time := now, pk_proceed_time := now\<rparr>
       in bindO (choose_blinds p) (\<lambda>p. bindO (post_blinds now p) (\<lambda>p.
          bindO (open_betting p) (\<lambda>p. Inr (p, True)))))"

section \<open>Restart\<close>

text \<open>The hands keep their cards and \<open>is_checked\<close>; only the actions and the raised flag are
  reset.\<close>

definition reset_hand :: "hand \<Rightarrow> hand" where
  "reset_hand h = h\<lparr>hd_actions := [], hd_raised := False\<rparr>"

definition reset_player :: "player \<Rightarrow> player" where
  "reset_player pl = pl\<lparr>pl_playing := True, pl_dealt := False, pl_folded := False,
     pl_allin := False, pl_bet := 0, pl_cards := [no_card, no_card]\<rparr>"

definition leave_player :: "pid \<Rightarrow> poker \<Rightarrow> poker" where
  "leave_player i = upd_player i (\<lambda>pl. pl\<lparr>pl_ref := ref_counted_leave (pl_ref pl)\<rparr>)"

definition leave_scores :: "poker \<Rightarrow> poker" where
  "leave_scores p = fold (\<lambda>(i, _). leave_player i) (pk_scores p) p"

definition restart_fields :: "poker \<Rightarrow> poker" where
  "restart_fields p = p\<lparr>pk_state := W4P, pk_hand_kind := HAND_PREFLOP, pk_synced := 0,
     pk_last_raised_pos := -1, pk_last_pos_before_raise := -1, pk_sb_must_call := False,
     pk_winner := None, pk_scores := [], pk_playing_last := False, pk_pot := 0,
     pk_current_raise := -1, pk_current_raise_total := -1, pk_current_bet := -1\<rparr>"

definition next_button :: "poker \<Rightarrow> int" where
  "next_button p = (if pk_button p + 1 \<ge> int (length (pk_players p)) then 0 else pk_button p + 1)"

definition prepare_restart :: "poker \<Rightarrow> poker" where
  "prepare_restart p =
    (let p = restart_fields p;
         p = p\<lparr>pk_hands := (\<lambda>k. reset_hand (pk_hands p k)), pk_history := replicate 52 no_card\<rparr>;
         p = p\<lparr>pk_sb := None, pk_bb := None, pk_button := next_button p\<rparr>;
         p = fold (\<lambda>i. upd_player i reset_player) (pk_players p) p;
         p = p\<lparr>pk_sorted := players_get_sorted p\<rparr>;
         p = leave_scores p
     in p\<lparr>pk_scores := []\<rparr>)"

definition poker_restart :: "64 word \<Rightarrow> poker \<Rightarrow> (poker \<times> bool) outcome" where
  "poker_restart now p = poker_start now (prepare_restart p)"

section \<open>Release\<close>

definition players_free :: "poker \<Rightarrow> poker" where
  "players_free p = fold leave_player (pk_players p) p"

definition poker_free :: "poker \<Rightarrow> poker" where
  "poker_free p =
    (let p = p\<lparr>pk_table := (pk_table p)\<lparr>tb_ref := ref_counted_leave (tb_ref (pk_table p))\<rparr>\<rparr>;
         p = players_free p
     in leave_scores p)"

section \<open>Timeout\<close>

definition fold_action :: action where
  "fold_action = \<lparr>act_kind = ActFold, act_amount = 0\<rparr>"

definition poker_proceed :: "64 word \<Rightarrow> poker \<Rightarrow> poker outcome" where
  "poker_proceed now p =
    (let p = (if int (length (pk_players p)) < 2 then p\<lparr>pk_state := W4P\<rparr> else p)
     in if pk_state p = W4P \<or> pk_state p = CREATED \<or> pk_state p = DONE
        then Inr (p\<lparr>pk_proceed_time := now\<rparr>)
        else
          let ms_elapsed = now - pk_action_time p
          in if ms_elapsed > of_int (tb_action_timeout (pk_table p)) \<and> pk_state p \<ge> SMALL_BLIND
             then bindO (deref (getby_position p (pk_playing_position p))) (\<lambda>i.
                  bindO (do_action now p i fold_action) (\<lambda>(p, _). Inr (p\<lparr>pk_proceed_time := now\<rparr>)))
             else Inr (p\<lparr>pk_proceed_time := now\<rparr>))"

end
