(* ===== verification/Poker_Samples.thy ===== *)
theory Poker_Samples
  imports Poker_Game
begin

text \<open>
  A concrete game for the witnesses of the properties: three players at the positions 0, 1
  and 2 of a table with blinds 10 and 20, after the blinds and the deal, with the player at
  position 2 to act. The hole cards are explicit; the random values that follow are those of
  \<open>sample_draws\<close>.
\<close>

definition sample_table :: table where
  "sample_table = table_new \<lparr>tp_id = 1, tp_big_blind = 20, tp_small_blind = 10,
     tp_max_players = 10, tp_action_timeout = 10000, tp_name = [], tp_enterance_min = 0,
     tp_enterance_max = 0, tp_players_count = 0, tp_watchers_count = 0\<rparr>"

definition sample_card :: "int \<Rightarrow> int \<Rightarrow> card" where
  "sample_card i k = \<lparr>card_index = i, card_kind = k\<rparr>"

definition sample_player :: "nat \<Rightarrow> chips \<Rightarrow> chips \<Rightarrow> player" where
  "sample_player i balance bet = (player_new (of_nat i))
     \<lparr>pl_position := int i, pl_playing := True, pl_dealt := True, pl_balance := balance, pl_bet := bet,
      pl_cards := [sample_card (int i) 0, sample_card (int i) 1]\<rparr>"

definition sample_draws :: "int list" where
  "sample_draws = [12, 0, 11, 1, 9, 2, 7, 0, 5, 1]"

definition sample_history :: "card list" where
  "sample_history = [sample_card 0 0, sample_card 0 1, sample_card 1 0, sample_card 1 1,
     sample_card 2 0, sample_card 2 1] @ replicate 46 no_card"

definition sample_game :: poker where
  "sample_game = (poker_new sample_table (\<lambda>i. if i = 0 then sample_player 0 990 10
       else if i = 1 then sample_player 1 980 20 else sample_player i 1000 0) 0 sample_draws)
     \<lparr>pk_players := [0, 1, 2], pk_sorted := [0, 1, 2], pk_state := PREFLOP, pk_pot := 30,
      pk_sb := Some 0, pk_bb := Some 1, pk_current_bet := 20, pk_current_raise := 20,
      pk_current_raise_total := 20, pk_playing_position := 2, pk_starter_num := 3,
      pk_sb_must_call := True, pk_history := sample_history,
      pk_hands := (\<lambda>_. new_hand)(HAND_PREFLOP := new_hand\<lparr>hd_raised := True\<rparr>)\<rparr>"

text \<open>The same seats on the river, everybody having bet 20 and nobody having folded.\<close>

definition sample_river :: poker where
  "sample_river = sample_game
     \<lparr>pk_store := (\<lambda>i. sample_player i 980 20), pk_state := RIVER, pk_pot := 60, pk_sb_must_call := False,
      pk_hands := (\<lambda>_. new_hand\<lparr>hd_cards := [sample_card 12 0, sample_card 11 1, sample_card 9 2]\<rparr>)
        (HAND_TURN := new_hand\<lparr>hd_cards := [sample_card 7 0, no_card, no_card]\<rparr>,
         HAND_RIVER := new_hand\<lparr>hd_cards := [sample_card 5 1, no_card, no_card]\<rparr>)\<rparr>"

lemmas sample_simps = sample_game_def sample_river_def sample_table_def sample_player_def
  sample_card_def poker_new_def player_new_def table_new_def new_hand_def

text \<open>What the proofs of the witnesses read from the sample, so that they need not unfold it.\<close>

lemma sample_game_fields [simp]:
  "pk_players sample_game = [0, 1, 2]" "pk_sorted sample_game = [0, 1, 2]"
  "pk_state sample_game = PREFLOP" "pk_playing_position sample_game = 2"
  "pk_current_bet sample_game = 20" "pk_current_raise sample_game = 20" "pk_pot sample_game = 30"
  "pk_sb sample_game = Some 0" "pk_bb sample_game = Some 1" "pk_sb_must_call sample_game"
  "pk_starter_num sample_game = 3" "pk_last_raised_pos sample_game = -1" "pk_synced sample_game = 0"
  "\<not> pk_playing_last sample_game" "pk_history sample_game = sample_history"
  "pk_draws sample_game = sample_draws" "hd_raised (pk_hands sample_game HAND_PREFLOP)"
  "tb_small_blind (pk_table sample_game) = 10" "tb_big_blind (pk_table sample_game) = 20"
  "pk_last_pos_before_raise sample_game = -1" "pk_playing_last sample_game = False"
  by (simp_all add: sample_simps)

lemma sample_game_player [simp]:
  "the_player sample_game i = (if i = 0 then sample_player 0 990 10
     else if i = 1 then sample_player 1 980 20 else sample_player i 1000 0)"
  by (simp add: sample_game_def the_player_def poker_new_def)

lemma sample_river_fields [simp]:
  "pk_players sample_river = [0, 1, 2]" "pk_sorted sample_river = [0, 1, 2]"
  "pk_state sample_river = RIVER" "pk_pot sample_river = 60" "pk_current_bet sample_river = 20"
  by (simp_all add: sample_simps)

lemma sample_river_player [simp]: "the_player sample_river i = sample_player i 980 20"
  by (simp add: sample_river_def the_player_def)

lemma sample_player_fields [simp]:
  "pl_position (sample_player i b c) = int i" "pl_playing (sample_player i b c)"
  "pl_folded (sample_player i b c) = False" "pl_allin (sample_player i b c) = False"
  "pl_left (sample_player i b c) = False" "pl_balance (sample_player i b c) = b"
  "pl_bet (sample_player i b c) = c" "pl_account (sample_player i b c) = of_nat i"
  "pl_cards (sample_player i b c) = [sample_card (int i) 0, sample_card (int i) 1]"
  by (simp_all add: sample_player_def player_new_def)

end
