(* ===== verification/Poker_Turn.thy ===== *)
theory Poker_Turn
  imports Poker_Samples
begin

text \<open>
  Whose turn it is: the order of the seats, the search for the next player (its fuel is
  enough, it stops at a player who can act, and it diverges only when no seat can act), the
  rejection of actions out of turn, and the progress of the state of the game.
\<close>

section \<open>The order of the seats\<close>

interpretation seats: exchange_order "position_swaps p" for p
  by unfold_locales (auto simp: position_swaps_def)

lemma seats_le: "seats.le p = (\<lambda>a b. pl_position (the_player p a) \<le> pl_position (the_player p b))"
  by (auto simp: fun_eq_iff seats.le_def position_swaps_def)

lemma players_get_sorted_sorted:
  "sorted_wrt (\<lambda>a b. pl_position (the_player p a) \<le> pl_position (the_player p b)) (players_get_sorted p)"
  using seats.sorted_exchange_sort [of p "pk_players p"]
  by (simp add: players_get_sorted_def seats_le)

lemma players_get_sorted_mset:
  "mset (players_get_sorted p) = mset (pk_players p)"
  "length (players_get_sorted p) = length (pk_players p)"
  by (simp_all add: players_get_sorted_def exchange_sort_mset)

text \<open>The seats of a game: the sorted array is the result of the sort, no player is listed
  twice and no two players share a position.\<close>

definition wf_seats :: "poker \<Rightarrow> bool" where
  "wf_seats p \<longleftrightarrow> distinct (pk_players p) \<and> mset (pk_sorted p) = mset (pk_players p)
     \<and> sorted_wrt (\<lambda>a b. pl_position (the_player p a) \<le> pl_position (the_player p b)) (pk_sorted p)
     \<and> inj_on (\<lambda>i. pl_position (the_player p i)) (set (pk_players p))"

lemma wf_seats_facts:
  assumes "wf_seats p"
  shows "set (pk_sorted p) = set (pk_players p)" "length (pk_sorted p) = length (pk_players p)"
  using assms mset_eq_setD mset_eq_length unfolding wf_seats_def by blast+

lemma seat_lookup:
  assumes "wf_seats p" "i \<in> set (pk_players p)"
  shows "getby_position_in_sorted p (pk_sorted p) (pl_position (the_player p i)) = Some i"
proof -
  let ?P = "\<lambda>j. pl_position (the_player p j) = pl_position (the_player p i)"
  obtain j where j: "List.find ?P (pk_sorted p) = Some j"
    using assms wf_seats_facts(1) by (cases "List.find ?P (pk_sorted p)") (auto simp: find_None_iff)
  then have "j \<in> set (pk_players p)" "?P j"
    using wf_seats_facts(1) [OF assms(1)] by (auto simp: find_Some_iff)
  then have "j = i" using assms by (auto simp: wf_seats_def inj_on_def)
  then show ?thesis
    using j wf_seats_facts(2) [OF assms(1)] by (simp add: getby_position_in_sorted_def)
qed

text \<open>The array alone, which every player that joins or leaves sorts again, whatever positions the
  players have chosen.\<close>

definition seats_in_order :: "poker \<Rightarrow> bool" where
  "seats_in_order p \<longleftrightarrow> mset (pk_sorted p) = mset (pk_players p)
     \<and> sorted_wrt (\<lambda>a b. pl_position (the_player p a) \<le> pl_position (the_player p b)) (pk_sorted p)"

lemma wf_seats_in_order: "wf_seats p \<Longrightarrow> seats_in_order p"
  by (simp add: wf_seats_def seats_in_order_def)

lemma seats_in_order_facts:
  assumes "seats_in_order p"
  shows "set (pk_sorted p) = set (pk_players p)" "length (pk_sorted p) = length (pk_players p)"
  using assms mset_eq_setD mset_eq_length unfolding seats_in_order_def by blast+

lemma sorted_bounds:
  assumes "seats_in_order p" "i \<in> set (pk_players p)"
  shows "pl_position (the_player p (pk_sorted p ! 0)) \<le> pl_position (the_player p i)"
    and "pl_position (the_player p i) \<le> pl_position (the_player p (pk_sorted p ! (length (pk_players p) - 1)))"
proof -
  obtain k where k: "k < length (pk_sorted p)" "pk_sorted p ! k = i"
    using assms seats_in_order_facts(1) [OF assms(1)] by (metis in_set_conv_nth)
  have mono: "pl_position (the_player p (pk_sorted p ! a)) \<le> pl_position (the_player p (pk_sorted p ! b))"
    if "a \<le> b" "b < length (pk_sorted p)" for a b
    using that assms(1) sorted_wrt_nth_less [of _ "pk_sorted p" a b]
    by (cases "a = b") (auto simp: seats_in_order_def)
  show "pl_position (the_player p (pk_sorted p ! 0)) \<le> pl_position (the_player p i)"
    using mono [of 0 k] k by simp
  show "pl_position (the_player p i) \<le> pl_position (the_player p (pk_sorted p ! (length (pk_players p) - 1)))"
    using mono [of k "length (pk_players p) - 1"] k seats_in_order_facts(2) [OF assms(1)] by auto
qed

section \<open>The search for the next player\<close>

lemma next_position_sound:
  "next_position p low high n pos = Inr r \<Longrightarrow> seat_can_act p r"
  by (induction n arbitrary: pos) (auto simp: Let_def split: if_splits)

text \<open>From any position up to \<open>high\<close> the loop reaches a seat that can act before it passes it.\<close>

lemma next_position_reaches:
  assumes "seat_can_act p q" "pos < q" "q \<le> high" "nat (q - pos) \<le> n"
  shows "\<exists>r. next_position p low high n pos = Inr r"
  using assms
proof (induction n arbitrary: pos)
  case (Suc n)
  show ?case
  proof (cases "seat_can_act p (pos + 1)")
    case True
    then show ?thesis using Suc.prems by (auto simp: Let_def)
  next
    case False
    then have "pos + 1 < q" using Suc.prems by (cases "pos + 1 = q") auto
    then show ?thesis using Suc False by (auto simp: Let_def)
  qed
qed simp

lemma next_position_wraps:
  assumes q: "seat_can_act p q" "low \<le> q" "q \<le> high" and "nat (high - pos) + nat (q - low) + 1 \<le> n"
    and "\<not> (pos < q \<and> pos < high)"
  shows "\<exists>r. next_position p low high n pos = Inr r"
  using assms(4,5)
proof (induction n arbitrary: pos)
  case (Suc n)
  define pos' where "pos' = (if pos + 1 > high then low else pos + 1)"
  have step: "next_position p low high (Suc n) pos
      = (if seat_can_act p pos' then Inr pos' else next_position p low high n pos')"
    by (simp add: Let_def pos'_def)
  show ?case
  proof (cases "seat_can_act p pos'")
    case True
    then show ?thesis using step by auto
  next
    case False
    show ?thesis
    proof (cases "pos + 1 > high")
      case True
      then have pos': "pos' = low" by (simp add: pos'_def)
      then have "low < q" using False q by (cases "low = q") auto
      then show ?thesis
        using step False pos' q Suc.prems next_position_reaches [OF q(1), of low high n] by auto
    next
      case no: False
      then have pos': "pos' = pos + 1" by (simp add: pos'_def)
      then have "\<exists>r. next_position p low high n pos' = Inr r"
        using Suc.IH [of pos'] Suc.prems no by auto
      then show ?thesis using step False by auto
    qed
  qed
qed simp

lemma next_position_total:
  assumes "seat_can_act p q" "low \<le> q" "q \<le> high"
  shows "\<exists>r. next_position p low high (next_player_fuel low high pos) pos = Inr r"
proof (cases "pos < q \<and> pos < high")
  case True
  then show ?thesis
    using next_position_reaches [OF assms(1), of pos high "next_player_fuel low high pos" low] assms
    by (simp add: next_player_fuel_def del: next_position.simps)
next
  case False
  then show ?thesis
    using next_position_wraps [OF assms, of pos "next_player_fuel low high pos"] assms
    by (simp add: next_player_fuel_def del: next_position.simps)
qed

lemma seat_can_act_iff:
  assumes "wf_seats p" "i \<in> set (pk_players p)"
  shows "seat_can_act p (pl_position (the_player p i)) \<longleftrightarrow> player_is_playing (the_player p i)"
  by (simp add: seat_can_act_def seat_lookup [OF assms] player_is_playing_def Let_def)

lemma seat_can_act_player:
  assumes "seat_can_act p pos" "wf_seats p"
  obtains i where "i \<in> set (pk_players p)" "pl_position (the_player p i) = pos"
    "player_is_playing (the_player p i)"
proof -
  obtain i where i: "getby_position_in_sorted p (pk_sorted p) pos = Some i"
    using assms(1) by (auto simp: seat_can_act_def split: option.splits)
  then have "i \<in> set (pk_players p)" "pl_position (the_player p i) = pos"
    using wf_seats_facts [OF assms(2)] by (auto simp: getby_position_in_sorted_def find_Some_iff)
  then show ?thesis using that assms(1) i by (auto simp: seat_can_act_def player_is_playing_def Let_def)
qed

lemma playing_count_pos:
  "playing_count p \<noteq> 0 \<longleftrightarrow> (\<exists>i\<in>set (pk_players p). player_is_playing (the_player p i))"
  by (auto simp: playing_count_def filter_empty_conv)

lemma next_player_effect:
  "next_player p = Inr q \<Longrightarrow> \<exists>pos. q = p\<lparr>pk_playing_position := pos\<rparr> \<and> seat_can_act p pos"
  by (auto simp: next_player_def Let_def dest: next_position_sound)

lemma seat_can_act_listed:
  assumes "seat_can_act p pos" "seats_in_order p"
  obtains i where "i \<in> set (pk_players p)" "pl_position (the_player p i) = pos"
proof -
  obtain i where "getby_position_in_sorted p (pk_sorted p) pos = Some i"
    using assms(1) by (auto simp: seat_can_act_def split: option.splits)
  then have "i \<in> set (pk_players p)" "pl_position (the_player p i) = pos"
    using seats_in_order_facts [OF assms(2)] by (auto simp: getby_position_in_sorted_def find_Some_iff)
  then show ?thesis by (rule that)
qed

text \<open>The fuel loses nothing: the search diverges only when no position of the table can act,
  and then no amount of fuel finds one.\<close>

lemma next_position_diverges:
  assumes "\<And>q. \<not> seat_can_act p q"
  shows "next_position p low high n pos = Inl Diverges"
  by (induction n arbitrary: pos) (simp_all add: Let_def assms)

lemma can_act_iff_playing:
  assumes "wf_seats p"
  shows "(\<exists>pos. seat_can_act p pos) \<longleftrightarrow> playing_count p \<noteq> 0"
  using seat_can_act_player [OF _ assms] seat_can_act_iff [OF assms] playing_count_pos [of p] by metis

text \<open>C23: In a game with at least one player, whose players are sorted by position, the search for the next player ends
  exactly if there is a seat that can act: one whose first player, in that order, is in the round, has not folded and is
  not all-in. It then stops at such a seat, and the position it sets is the only part of the game it changes; otherwise it
  does not end. If no two players share a position, there is such a seat exactly if some player can act; two
  players who share one, which a join allows, can make the search endless while one of them can act
  (\<open>shared_seat_diverges\<close>).\<close>

theorem next_player_total:
  assumes "seats_in_order p" "pk_players p \<noteq> []"
  shows "(if \<exists>pos. seat_can_act p pos
      then \<exists>pos. seat_can_act p pos \<and> next_player p = Inr (p\<lparr>pk_playing_position := pos\<rparr>)
      else next_player p = Inl Diverges)
    \<and> (wf_seats p \<longrightarrow> (\<exists>pos. seat_can_act p pos) = (\<exists>i \<in> set (pk_players p). player_is_playing (the_player p i)))"
proof -
  have last: "sorted_at p (int (length (pk_players p)) - 1) = Inr (pk_sorted p ! (length (pk_players p) - 1))"
    and first: "sorted_at p 0 = Inr (pk_sorted p ! 0)"
    using assms(2) seats_in_order_facts(2) [OF assms(1)] by (auto simp: sorted_at_def nat_diff_distrib neq_Nil_conv)
  note next_player = next_player_def [of p, unfolded last first bindO_Inr Let_def]
  have "wf_seats p \<longrightarrow> (\<exists>pos. seat_can_act p pos) = (\<exists>i \<in> set (pk_players p). player_is_playing (the_player p i))"
    using can_act_iff_playing [of p] playing_count_pos [of p] by blast
  moreover have "\<exists>pos. seat_can_act p pos \<and> next_player p = Inr (p\<lparr>pk_playing_position := pos\<rparr>)" if can: "seat_can_act p pos" for pos
  proof -
    obtain i where i: "i \<in> set (pk_players p)" "pl_position (the_player p i) = pos"
      using seat_can_act_listed [OF can assms(1)] .
    obtain q where "next_player p = Inr q"
      unfolding next_player
      using next_position_total [OF can sorted_bounds [OF assms(1) i(1), unfolded i(2)], of "pk_playing_position p"]
      by force
    then show ?thesis using next_player_effect by blast
  qed
  moreover have "next_player p = Inl Diverges" if "\<nexists>pos. seat_can_act p pos"
    unfolding next_player using next_position_diverges [of p] that by simp
  ultimately show ?thesis by auto
qed

lemma wf_sample_game: "wf_seats sample_game"
  by (simp add: wf_seats_def inj_on_def)

theorem next_player_total_witness:
  "\<exists>pos. seat_can_act sample_game pos \<and> next_player sample_game = Inr (sample_game\<lparr>pk_playing_position := pos\<rparr>)"
  using next_player_total [OF wf_seats_in_order [OF wf_sample_game]] wf_sample_game
  by (auto simp: player_is_playing_def split: if_splits)

text \<open>Two players at one position, of whom the first is all-in: the second can act and is never found. Nothing
  keeps a client from choosing a position that is taken.\<close>

definition shared_seat :: poker where
  "shared_seat = sample_game\<lparr>pk_players := [0, 1], pk_sorted := [0, 1],
     pk_store := (\<lambda>i. (sample_player 0 (if i = 0 then 0 else 980) 20)\<lparr>pl_allin := (i = 0)\<rparr>)\<rparr>"

lemma shared_seat_diverges:
  "player_is_playing (the_player shared_seat 1) \<and> pl_position (the_player shared_seat 1) = pl_position (the_player shared_seat 0)
    \<and> next_player shared_seat = Inl Diverges"
proof -
  have pos: "the_player shared_seat i = (sample_player 0 (if i = 0 then 0 else 980) 20)\<lparr>pl_allin := (i = 0)\<rparr>" for i
    by (simp add: shared_seat_def the_player_def)
  have "getby_position_in_sorted shared_seat (pk_sorted shared_seat) q = (if q = 0 then Some 0 else None)" for q
    by (simp add: getby_position_in_sorted_def pos) (simp add: shared_seat_def sample_player_def)
  then have "\<not> seat_can_act shared_seat q" for q
    by (simp add: seat_can_act_def pos Let_def)
  then have "next_position shared_seat low high n q = Inl Diverges" for low high n q
    by (rule next_position_diverges)
  moreover have "sorted_at shared_seat 1 = Inr 1" "sorted_at shared_seat 0 = Inr 0" "length (pk_players shared_seat) = 2"
    by (simp_all add: sorted_at_def shared_seat_def)
  ultimately show ?thesis by (simp add: next_player_def pos player_is_playing_def sample_player_def player_new_def)
qed

end
