(* ===== verification/Poker_Flow.thy ===== *)
theory Poker_Flow
  imports Poker_Turn
begin

text \<open>
  What the stages after the betting leave alone. \<open>same_chips\<close> relates two states that agree
  on the players, the store, the order of the seats, the pot and the current bet; every stage from the search
  of the next player to the dealing of the streets keeps it, so the chip accounting of an
  action is decided by its betting stage, by the award to the last player or by the showdown.
  The same case analysis gives the progress of the state of the game and of the turn.
\<close>

definition same_chips :: "poker \<Rightarrow> poker \<Rightarrow> bool" where
  "same_chips p q \<longleftrightarrow> pk_players q = pk_players p \<and> pk_store q = pk_store p
     \<and> pk_sorted q = pk_sorted p \<and> pk_pot q = pk_pot p \<and> pk_starter_num q = pk_starter_num p
     \<and> pk_current_bet q = pk_current_bet p"

lemma same_chips_refl [simp]: "same_chips p p"
  by (simp add: same_chips_def)

lemma same_chips_trans: "same_chips p q \<Longrightarrow> same_chips q r \<Longrightarrow> same_chips p r"
  by (simp add: same_chips_def)

lemma same_chips_player: "same_chips p q \<Longrightarrow> the_player q = the_player p"
  by (simp add: same_chips_def the_player_def fun_eq_iff)

lemma same_chips_fields [simp]:
  "same_chips p (pk_playing_position_update f1 p)" "same_chips p (pk_synced_update f2 p)"
  "same_chips p (pk_state_update f3 p)" "same_chips p (pk_playing_last_update f4 p)"
  "same_chips p (upd_hand h g p)"
  by (simp_all add: same_chips_def)

lemma same_chips_seat: "same_chips p q \<Longrightarrow> seat_can_act q pos = seat_can_act p pos"
  using same_chips_player [of p q]
  by (simp add: seat_can_act_def getby_position_in_sorted_def same_chips_def split: option.split)

section \<open>Dealing\<close>

definition only_cards :: "poker \<Rightarrow> poker \<Rightarrow> bool" where
  "only_cards p q \<longleftrightarrow> same_chips p q \<and> pk_state q = pk_state p
     \<and> pk_playing_position q = pk_playing_position p \<and> pk_bb q = pk_bb p"

lemma only_cards_trans: "only_cards p q \<Longrightarrow> only_cards q r \<Longrightarrow> only_cards p r"
  by (auto simp: only_cards_def intro: same_chips_trans)

lemma deal_to_hand_only_cards: "deal_to_hand h k p = Inr q \<Longrightarrow> only_cards p q"
  by (auto simp: deal_to_hand_def draw_card_def only_cards_def same_chips_def)

lemma deal_flop_only_cards: "deal_flop p = Inr q \<Longrightarrow> only_cards p q"
  by (auto simp: deal_flop_def dest!: deal_to_hand_only_cards intro: only_cards_trans)

lemma deal_turn_only_cards: "deal_turn p = Inr q \<Longrightarrow> only_cards p q"
  by (simp add: deal_turn_def deal_to_hand_only_cards)

lemma deal_river_only_cards: "deal_river p = Inr q \<Longrightarrow> only_cards p q"
  by (simp add: deal_river_def deal_to_hand_only_cards)

lemmas deals_only_cards = deal_flop_only_cards deal_turn_only_cards deal_river_only_cards

section \<open>The betting round\<close>

text \<open>The result of the betting round: the street goes on, or its successor begins.\<close>

definition big_blind_turn :: "poker \<Rightarrow> bool" where
  "big_blind_turn p \<longleftrightarrow> (\<exists>bb. pk_bb p = Some bb \<and> pk_playing_position p = pl_position (the_player p bb))"

text \<open>The turn stays, but for a game of two players whose street has ended: then it is the big blind's.\<close>

definition turn_kept :: "poker \<Rightarrow> poker \<Rightarrow> bool" where
  "turn_kept p q \<longleftrightarrow> (if pk_starter_num p = 2 \<and> pk_state p < pk_state q then big_blind_turn q
     else pk_playing_position q = pk_playing_position p)"

definition round_goes_on :: "poker \<Rightarrow> poker \<Rightarrow> bool" where
  "round_goes_on p q \<longleftrightarrow> same_chips p q \<and> pk_state p \<le> pk_state q \<and> turn_kept p q"

lemma round_goes_on_refl [simp]: "round_goes_on p p"
  by (simp add: round_goes_on_def turn_kept_def)

lemma round_goes_on_synced: "round_goes_on (p\<lparr>pk_synced := n\<rparr>) q \<Longrightarrow> round_goes_on p q"
  by (simp add: round_goes_on_def turn_kept_def same_chips_def)

lemma advance_street_effect:
  assumes "advance_street nxt p = Inr q"
  shows "same_chips p q \<and> pk_state q = nxt
    \<and> (if pk_starter_num p = 2 then big_blind_turn q else pk_playing_position q = pk_playing_position p)"
  using assms
  by (auto simp: advance_street_def Let_def same_chips_def big_blind_turn_def deref_def split: if_splits option.splits)

lemma end_of_round_effect:
  assumes "end_of_round nxt deal playing i p = Inr f"
    and "\<And>p q. deal p = Inr q \<Longrightarrow> only_cards p q" and "pk_state p < nxt"
  shows "\<exists>q. f = Fall q \<and> round_goes_on p q"
proof -
  obtain last where l: "(if last then bindO (advance_street nxt p) (\<lambda>p. bindO (deal p) (\<lambda>p. Inr (Fall p)))
      else Inr (Fall p)) = Inr f"
    using assms(1) by (auto simp: end_of_round_def)
  show ?thesis
  proof (cases last)
    case True
    then obtain p1 q where "advance_street nxt p = Inr p1" "deal p1 = Inr q" "f = Fall q"
      using l by auto
    moreover from this have "same_chips p q" "pk_state q = nxt"
      "if pk_starter_num p = 2 then big_blind_turn q else pk_playing_position q = pk_playing_position p"
      using advance_street_effect [of nxt p p1] assms(2) [of p1 q] same_chips_trans [of p p1 q] same_chips_player [of p1 q]
      by (auto simp: only_cards_def big_blind_turn_def split: if_splits)
    ultimately show ?thesis using assms(3) by (simp add: round_goes_on_def turn_kept_def)
  qed (use l in auto)
qed

lemma award_last_effect:
  assumes "award_last p = Inr q"
  shows "\<exists>w \<in> set (pk_players p). player_ingame (the_player p w)
    \<and> q = add_balance w (pk_pot p) (p\<lparr>pk_winner := Some w, pk_state := DONE\<rparr>)"
proof -
  obtain w where w: "List.find (\<lambda>i. player_ingame (the_player p i)) (pk_players p) = Some w"
    using assms by (auto simp: award_last_def Let_def)
  then have "w \<in> set (pk_players p)" "player_ingame (the_player p w)" by (auto simp: find_Some_iff)
  then show ?thesis using assms w by (auto simp: award_last_def Let_def)
qed

definition flow_result :: "action \<Rightarrow> int \<Rightarrow> poker \<Rightarrow> flow \<Rightarrow> bool" where
  "flow_result a ingame p f \<longleftrightarrow> (case f of
     Fall q \<Rightarrow> round_goes_on p q
   | Action_end q \<Rightarrow> act_kind a = ActFold \<and> ingame = 1 \<and> award_last p = Inr q
   | Showdown q \<Rightarrow> same_chips p q \<and> pk_state q = DONE)"

lemma street_round_effect:
  assumes "street_round nxt deal fc playing ingame i a p = Inr f"
    and deal: "\<And>p q. deal p = Inr q \<Longrightarrow> only_cards p q" and "pk_state p < nxt"
  shows "flow_result a ingame p f \<and> (\<forall>q. f \<noteq> Showdown q)"
proof -
  have synced: "\<exists>q. f = Fall q \<and> round_goes_on p q"
    if "end_of_round nxt deal playing i (p\<lparr>pk_synced := n\<rparr>) = Inr f" for n
    using end_of_round_effect [OF that deal] assms(3) round_goes_on_synced by auto
  have plain: "\<exists>q. f = Fall q \<and> round_goes_on p q"
    if "end_of_round nxt deal playing i p = Inr f"
    using end_of_round_effect [OF that deal] assms(3) by auto
  have "(\<exists>q. f = Fall q \<and> round_goes_on p q)
      \<or> (\<exists>q. f = Action_end q \<and> act_kind a = ActFold \<and> ingame = 1 \<and> award_last p = Inr q)"
    using assms(1) synced plain
    by (cases "act_kind a") (auto simp: street_round_def split: if_splits)
  then show ?thesis by (auto simp: flow_result_def)
qed

lemma round_stage_effect:
  assumes "round_stage playing ingame i a p = Inr f"
  shows "flow_result a ingame p f"
proof (cases "pk_state p = RIVER")
  case True
  then obtain g where g: "street_round DONE Inr False playing ingame i a p = Inr g"
    and f: "(case g of Fall q \<Rightarrow> Inr (if pk_state q = DONE then Showdown q else Fall q) | _ \<Rightarrow> Inr g) = (Inr f :: flow outcome)"
    using assms by (auto simp: round_stage_def river_round_def)
  have "flow_result a ingame p g \<and> (\<forall>q. g \<noteq> Showdown q)"
    using True by (intro street_round_effect [OF g]) (auto simp: only_cards_def state_less_simps)
  then show ?thesis using f by (cases g) (auto simp: flow_result_def round_goes_on_def)
next
  case False
  have streets: "pk_state p = PREFLOP \<Longrightarrow> ?thesis" "pk_state p = FLOP \<Longrightarrow> ?thesis" "pk_state p = TURN \<Longrightarrow> ?thesis"
    using assms street_round_effect [of _ _ _ playing ingame i a p f] deals_only_cards
    by (simp_all add: round_stage_def preflop_round_def flop_round_def turn_round_def state_less_simps)
  show ?thesis
  proof (cases "pk_state p \<in> {PREFLOP, FLOP, TURN}")
    case True
    then show ?thesis using streets by blast
  next
    case no: False
    then have "f = Fall p" using assms False by (simp add: round_stage_def)
    then show ?thesis by (simp add: flow_result_def)
  qed
qed

section \<open>The showdown keeps the state of the game\<close>

lemma pay_one_frame:
  "pk_state (snd (pay_one i j s)) = pk_state (snd s)"
  "pk_players (snd (pay_one i j s)) = pk_players (snd s)"
  "pk_pot (snd (pay_one i j s)) = pk_pot (snd s)"
  by (simp_all add: pay_one_def Let_def add_balance_def split: prod.splits)

lemma fold_pay_one_frame:
  "pk_state (snd (fold (pay_one i) js s)) = pk_state (snd s)"
  "pk_players (snd (fold (pay_one i) js s)) = pk_players (snd s)"
  "pk_pot (snd (fold (pay_one i) js s)) = pk_pot (snd s)"
  by (induction js arbitrary: s) (simp_all add: pay_one_frame)

lemma pay_loop_frame:
  assumes "pay_loop is n d rs p = Inr q"
  shows "pk_state q = pk_state p \<and> pk_players q = pk_players p \<and> pk_pot q = pk_pot p"
  using assms
proof (induction "is" arbitrary: d rs p)
  case (Cons i "is")
  obtain rs' p' where row: "pay_row i n (rs, add_balance (rk_player (rs ! i)) (rk_bet (rs ! i)) p) = (rs', p')"
    by (metis surj_pair)
  have frame: "pk_state p' = pk_state p" "pk_players p' = pk_players p" "pk_pot p' = pk_pot p"
    using fold_pay_one_frame [of i "[i + 1..<n]" "(rs, add_balance (rk_player (rs ! i)) (rk_bet (rs ! i)) p)"]
      row by (simp_all add: pay_row_def add_balance_def)
  show ?case
    using Cons.prems Cons.IH frame by (auto simp: Let_def row split: if_splits)
qed simp

lemma showdown_frame:
  "showdown p = Inr q \<Longrightarrow> pk_state q = pk_state p \<and> pk_players q = pk_players p \<and> pk_pot q = pk_pot p"
  by (auto simp: showdown_def Let_def dest: pay_loop_frame split: if_splits)

section \<open>After the betting\<close>

lemma runout_stage_effect:
  assumes "runout_stage playing p = Inr f"
  shows "(\<exists>q. f = Showdown q \<and> same_chips p q \<and> pk_state q = DONE \<and> (pk_playing_last p \<or> playing = 0))
    \<or> (\<exists>q. f = Action_end q \<and> playing \<noteq> 0 \<and> same_chips p q \<and> pk_state q = pk_state p
         \<and> pk_playing_position q = pk_playing_position p \<and> pk_bb q = pk_bb p)"
proof (cases "pk_playing_last p \<or> playing = 0")
  case True
  then obtain q where "f = Showdown (q\<lparr>pk_state := DONE\<rparr>)" "only_cards p q"
    using assms by (auto simp: runout_stage_def only_cards_def [of p p]
        dest!: deals_only_cards intro: only_cards_trans split: if_splits)
  then show ?thesis using True by (auto simp: only_cards_def same_chips_def)
qed (use assms in \<open>auto simp: runout_stage_def same_chips_def split: if_splits\<close>)

text \<open>An action that does not end the game leaves the chips as the betting stage set them, and
  hands the turn to a seat that can act, or to the big blind when it ends a street of a game of two.\<close>

definition turn_passed :: "poker_state \<Rightarrow> poker \<Rightarrow> bool" where
  "turn_passed s p \<longleftrightarrow> (if pk_starter_num p = 2 \<and> s < pk_state p then big_blind_turn p
     else seat_can_act p (pk_playing_position p))"

lemma after_betting_effect:
  assumes "after_betting h i a p = Inr q" "pk_state q \<noteq> DONE"
  shows "same_chips (record_stage h i a p) q \<and> pk_state (record_stage h i a p) \<le> pk_state q
    \<and> turn_passed (pk_state (record_stage h i a p)) q"
proof -
  define p0 where "p0 = record_stage h i a p"
  obtain p1 f g where p1: "(if playing_count p0 = 0 then Inr p0 else next_player p0) = Inr p1"
    and f: "round_stage (playing_count p0) (ingame_count p0) i a p1 = Inr f"
    and g: "(case f of Fall p \<Rightarrow> runout_stage (playing_count p0) p | _ \<Rightarrow> Inr f) = Inr g"
    and q: "finish_flow g = Inr q"
    using assms(1) unfolding after_betting_def Let_def p0_def [symmetric] by auto
  have p01: "same_chips p0 p1 \<and> pk_state p1 = pk_state p0"
    using p1 next_player_effect [of p0 p1] by (auto split: if_splits simp: same_chips_def)
  have turn: "playing_count p0 \<noteq> 0 \<Longrightarrow> seat_can_act p1 (pk_playing_position p1)"
    using p1 next_player_effect [of p0 p1] same_chips_seat p01 by fastforce
  have flow: "flow_result a (ingame_count p0) p1 f" by (rule round_stage_effect [OF f])
  show ?thesis
  proof (cases f)
    case (Fall p2)
    with g have ro: "runout_stage (playing_count p0) p2 = Inr g" by simp
    have go: "round_goes_on p1 p2" using flow Fall by (simp add: flow_result_def)
    from runout_stage_effect [OF ro] show ?thesis
    proof
      assume "\<exists>q. g = Showdown q \<and> same_chips p2 q \<and> pk_state q = DONE \<and> (pk_playing_last p2 \<or> playing_count p0 = 0)"
      then show ?thesis using q assms(2) showdown_frame by (auto simp: finish_flow_def)
    next
      assume "\<exists>q. g = Action_end q \<and> playing_count p0 \<noteq> 0 \<and> same_chips p2 q \<and> pk_state q = pk_state p2
          \<and> pk_playing_position q = pk_playing_position p2 \<and> pk_bb q = pk_bb p2"
      then have end': "same_chips p2 q" "pk_state q = pk_state p2" "playing_count p0 \<noteq> 0"
        "pk_playing_position q = pk_playing_position p2" "pk_bb q = pk_bb p2"
        using q by (auto simp: finish_flow_def)
      have 12: "same_chips p1 p2" "pk_state p1 \<le> pk_state p2" "turn_kept p1 p2"
        using go by (auto simp: round_goes_on_def)
      have 1: "same_chips p1 q" by (rule same_chips_trans [OF 12(1) end'(1)])
      have 0: "same_chips p0 q" using p01 1 same_chips_trans by blast
      have "big_blind_turn p2 \<Longrightarrow> big_blind_turn q"
        using end' same_chips_player [OF end'(1)] by (simp add: big_blind_turn_def)
      moreover have "pk_starter_num q = pk_starter_num p1" using 1 by (simp add: same_chips_def)
      ultimately have "turn_passed (pk_state p0) q"
        using 12(3) turn end' p01 same_chips_seat [OF 1] by (auto simp: turn_passed_def turn_kept_def split: if_splits)
      then show ?thesis using 0 12(2) p01 end'(2) by (simp add: p0_def [symmetric])
    qed
  next
    case (Action_end p2)
    then have "pk_state q = DONE"
      using flow g q award_last_effect [of p1 p2] by (auto simp: flow_result_def finish_flow_def add_balance_def)
    then show ?thesis using assms(2) by simp
  next
    case (Showdown p2)
    then have "pk_state q = DONE"
      using flow g q showdown_frame [of p2 q] by (auto simp: flow_result_def finish_flow_def)
    then show ?thesis using assms(2) by simp
  qed
qed

section \<open>The bets and the pot, to the end of the game\<close>

text \<open>No stage after the betting changes a bet or the pot, not even the award to the last player or the showdown:
  they pay the balances only.\<close>

definition same_bets :: "poker \<Rightarrow> poker \<Rightarrow> bool" where
  "same_bets p q \<longleftrightarrow> pk_pot q = pk_pot p \<and> pk_current_bet q = pk_current_bet p
     \<and> (\<forall>j. pl_bet (the_player q j) = pl_bet (the_player p j))"

lemma same_bets_refl [simp]: "same_bets p p"
  by (simp add: same_bets_def)

lemma same_bets_trans: "same_bets p q \<Longrightarrow> same_bets q r \<Longrightarrow> same_bets p r"
  by (simp add: same_bets_def)

lemma same_chips_bets: "same_chips p q \<Longrightarrow> same_bets p q"
  using same_chips_player [of p q] by (simp add: same_bets_def same_chips_def)

lemma same_bets_fields [simp]:
  "same_bets p (pk_scores_update f1 q) = same_bets p q" "same_bets p (pk_winner_update f2 q) = same_bets p q"
  "same_bets p (pk_state_update f3 q) = same_bets p q"
  by (simp_all add: same_bets_def)

lemma same_bets_player:
  "(\<And>pl. pl_bet (f pl) = pl_bet pl) \<Longrightarrow> same_bets p (upd_player i f q) = same_bets p q"
  by (auto simp: same_bets_def upd_player_def the_player_def)

lemma fold_pay_bets: "same_bets p (snd s) \<Longrightarrow> same_bets p (snd (fold (pay_one i) js s))"
proof (induction js arbitrary: s)
  case (Cons j js)
  have "same_bets p (snd (pay_one i j s))"
    using Cons.prems by (cases s) (simp add: pay_one_def Let_def add_balance_def player_add_balance_def same_bets_player)
  then show ?case using Cons.IH by simp
qed simp

lemma pay_loop_bets: "pay_loop is n d rs p = Inr q \<Longrightarrow> same_bets p q"
proof (induction "is" arbitrary: d rs p)
  case (Cons i "is")
  let ?used = "upd_player (rk_player (rs ! i)) (\<lambda>pl. pl\<lparr>pl_ref := ref_counted_use (pl_ref pl)\<rparr>)"
  obtain rs' p' where row: "pay_row i n (rs, add_balance (rk_player (rs ! i)) (rk_bet (rs ! i)) p) = (rs', p')"
    by (metis surj_pair)
  have "same_bets p p'"
    using fold_pay_bets [of p "(rs, add_balance (rk_player (rs ! i)) (rk_bet (rs ! i)) p)" i "[i + 1..<n]"] row
    by (simp add: pay_row_def add_balance_def player_add_balance_def same_bets_player)
  then have step: "same_bets p (?used p'\<lparr>pk_scores := sc\<rparr>)" for sc
    by (simp add: same_bets_player)
  consider "q = ?used p'\<lparr>pk_scores := pk_scores q\<rparr>"
    | sc d' where "pay_loop is n d' rs' (?used p'\<lparr>pk_scores := sc\<rparr>) = Inr q"
    using Cons.prems by (auto simp: Let_def row split: if_splits)
  then show ?case
  proof cases
    case 1
    then show ?thesis using step by metis
  next
    case 2
    then show ?thesis using Cons.IH step same_bets_trans by blast
  qed
qed simp

lemma showdown_bets:
  assumes "showdown p = Inr q"
  shows "same_bets p q"
proof -
  obtain js n d rs r w where r: "pay_loop js n d rs (p\<lparr>pk_scores := []\<rparr>) = Inr r" and q: "q = r\<lparr>pk_winner := w\<rparr>"
    using assms by (auto simp: showdown_def Let_def split: if_splits)
  then show ?thesis using pay_loop_bets [OF r] same_bets_trans [of p "p\<lparr>pk_scores := []\<rparr>" r] by simp
qed

lemma award_last_bets: "award_last p = Inr q \<Longrightarrow> same_bets p q"
  by (auto dest!: award_last_effect simp: add_balance_def player_add_balance_def same_bets_player)

lemma after_betting_bets:
  assumes "after_betting h i a p = Inr q"
  shows "same_bets (record_stage h i a p) q"
proof -
  define p0 where "p0 = record_stage h i a p"
  obtain p1 f g where p1: "(if playing_count p0 = 0 then Inr p0 else next_player p0) = Inr p1"
    and f: "round_stage (playing_count p0) (ingame_count p0) i a p1 = Inr f"
    and g: "(case f of Fall p \<Rightarrow> runout_stage (playing_count p0) p | _ \<Rightarrow> Inr f) = Inr g"
    and q: "finish_flow g = Inr q"
    using assms unfolding after_betting_def Let_def p0_def [symmetric] by auto
  have "same_chips p0 p1" using p1 next_player_effect [of p0 p1] by (auto split: if_splits)
  then have 1: "same_bets p0 p1" by (rule same_chips_bets)
  have flow: "flow_result a (ingame_count p0) p1 f" by (rule round_stage_effect [OF f])
  have fin: "finish_flow (Showdown p2) = Inr q \<Longrightarrow> same_bets p2 q" for p2
    by (simp add: finish_flow_def showdown_bets)
  show ?thesis
  proof (cases f)
    case (Fall p2)
    with g have ro: "runout_stage (playing_count p0) p2 = Inr g" by simp
    have "same_bets p1 p2" using flow Fall by (simp add: flow_result_def round_goes_on_def same_chips_bets)
    moreover have "same_bets p2 q"
      using runout_stage_effect [OF ro] q fin same_chips_bets same_bets_trans by (auto simp: finish_flow_def) blast+
    ultimately show ?thesis using 1 same_bets_trans unfolding p0_def [symmetric] by blast
  next
    case (Action_end p2)
    then have "same_bets p1 q" using flow g q award_last_bets by (auto simp: flow_result_def finish_flow_def)
    then show ?thesis using 1 same_bets_trans unfolding p0_def [symmetric] by blast
  next
    case (Showdown p2)
    then have "same_bets p1 p2" "same_bets p2 q" using flow g q fin same_chips_bets by (auto simp: flow_result_def)
    then show ?thesis using 1 same_bets_trans unfolding p0_def [symmetric] by blast
  qed
qed

end
