(* ===== verification/Poker_Chips.thy ===== *)
theory Poker_Chips
  imports Poker_Flow
begin

text \<open>
  The accounting of chips. Chips are 64-bit words, so the sums are taken in the ring of words
  and hold whatever wraps. \<open>bank\<close> is the sum of the balances and the pot; \<open>surplus\<close> is the pot
  minus the sum of the bets. \<open>moves i p q\<close> says that the step from \<open>p\<close> to \<open>q\<close> only moves chips
  of player \<open>i\<close> between his balance and, equally, his bet and the pot.
\<close>

definition stake :: "player \<Rightarrow> chips" where
  "stake pl = pl_balance pl + pl_bet pl"

definition bank :: "poker \<Rightarrow> chips" where
  "bank p = (\<Sum>i \<leftarrow> pk_players p. pl_balance (the_player p i)) + pk_pot p"

definition surplus :: "poker \<Rightarrow> chips" where
  "surplus p = pk_pot p - (\<Sum>i \<leftarrow> pk_players p. pl_bet (the_player p i))"

definition moves :: "pid \<Rightarrow> poker \<Rightarrow> poker \<Rightarrow> bool" where
  "moves i p q \<longleftrightarrow> pk_players q = pk_players p \<and> (\<forall>j. j \<noteq> i \<longrightarrow> the_player q j = the_player p j)
     \<and> stake (the_player q i) = stake (the_player p i)
     \<and> pk_pot q - pl_bet (the_player q i) = pk_pot p - pl_bet (the_player p i)"

lemma moves_refl [simp]: "moves i p p"
  by (simp add: moves_def)

lemma moves_trans: "moves i p q \<Longrightarrow> moves i q r \<Longrightarrow> moves i p r"
  by (simp add: moves_def)

lemma moves_bank:
  assumes "moves i p q" "distinct (pk_players p)" "i \<in> set (pk_players p)"
  shows "bank q = bank p" "surplus q = surplus p"
proof -
  have others: "j \<in> set (pk_players p) \<Longrightarrow> j \<noteq> i \<Longrightarrow> the_player q j = the_player p j" for j
    using assms(1) by (simp add: moves_def)
  have sums: "(\<Sum>j \<leftarrow> pk_players p. pl_balance (the_player q j))
      = (\<Sum>j \<leftarrow> pk_players p. pl_balance (the_player p j))
        + pl_balance (the_player q i) - pl_balance (the_player p i)"
    using sum_list_map_pointwise [OF assms(2,3), of "\<lambda>j. pl_balance (the_player q j)"
        "\<lambda>j. pl_balance (the_player p j)"] others by simp
  have bets: "(\<Sum>j \<leftarrow> pk_players p. pl_bet (the_player q j))
      = (\<Sum>j \<leftarrow> pk_players p. pl_bet (the_player p j)) + pl_bet (the_player q i) - pl_bet (the_player p i)"
    using sum_list_map_pointwise [OF assms(2,3), of "\<lambda>j. pl_bet (the_player q j)"
        "\<lambda>j. pl_bet (the_player p j)"] others by simp
  have players: "pk_players q = pk_players p"
    using assms(1) by (simp add: moves_def)
  have bal: "pl_balance (the_player q i)
      = pl_balance (the_player p i) + pl_bet (the_player p i) - pl_bet (the_player q i)"
    using assms(1) by (simp add: moves_def stake_def eq_diff_eq)
  have pot: "pk_pot q = pk_pot p - pl_bet (the_player p i) + pl_bet (the_player q i)"
    using assms(1) by (simp add: moves_def diff_eq_eq)
  show "bank q = bank p"
    unfolding bank_def players sums bal pot by simp
  show "surplus q = surplus p"
    unfolding surplus_def players bets pot by simp
qed

section \<open>The betting stages\<close>

lemma take_balance_effect:
  "take_balance i x p = Some q \<longleftrightarrow> x \<le> pl_balance (the_player p i)
     \<and> q = upd_player i (\<lambda>pl. pl\<lparr>pl_balance := pl_balance pl - x\<rparr>) p"
  by (auto simp: take_balance_def player_remove_balance_def player_set_balance_def upd_player_def
      the_player_def not_less)

lemma take_balance_put_in:
  "take_balance i x p = Some q \<Longrightarrow> moves i p (put_in i x q) \<and> pk_table q = pk_table p"
  by (auto simp: take_balance_effect moves_def put_in_def Let_def stake_def)

lemma moves_fields [simp]:
  "moves i p (pk_sb_must_call_update f1 q) = moves i p q"
  "moves i p (pk_synced_update f2 q) = moves i p q"
  "moves i p (pk_last_raised_pos_update f3 q) = moves i p q"
  "moves i p (upd_hand h g q) = moves i p q"
  "moves i p (pk_last_pos_before_raise_update f4 q) = moves i p q"
  "moves i p (pk_current_raise_update f5 q) = moves i p q"
  "moves i p (pk_current_raise_total_update f6 q) = moves i p q"
  "moves i p (pk_current_bet_update f7 q) = moves i p q"
  by (simp_all add: moves_def)

lemma moves_flag:
  assumes "moves i p q" "\<And>pl. pl_balance (f pl) = pl_balance pl" "\<And>pl. pl_bet (f pl) = pl_bet pl"
  shows "moves i p (upd_player i f q)"
  using assms by (simp add: moves_def stake_def)

lemma put_in_raise_commute:
  "put_in i x (p\<lparr>pk_current_raise := r\<rparr>) = (put_in i x p)\<lparr>pk_current_raise := r\<rparr>"
  "put_in i x (p\<lparr>pk_current_raise_total := r\<rparr>) = (put_in i x p)\<lparr>pk_current_raise_total := r\<rparr>"
  "put_in i x (p\<lparr>pk_current_bet := r\<rparr>) = (put_in i x p)\<lparr>pk_current_bet := r\<rparr>"
  "put_in i x (p\<lparr>pk_sb_must_call := b\<rparr>) = (put_in i x p)\<lparr>pk_sb_must_call := b\<rparr>"
  "put_in i x (upd_hand h g p) = upd_hand h g (put_in i x p)"
  by (simp_all add: put_in_def Let_def upd_player_def upd_hand_def)

lemma raise_effect_moves:
  assumes "moves i p (put_in i to_bet q)" "pk_current_bet q \<le> raise_to"
  shows "moves i p (raise_effect h i raise_to to_bet raise_by q)"
  using assms by (simp add: raise_effect_def Let_def put_in_raise_commute)

lemma call_effect_moves: "moves i p (call_effect i p)"
proof (cases "take_balance i (pk_current_bet p - pl_bet (the_player p i)) p")
  case None
  then show ?thesis
    by (simp add: call_effect_def Let_def moves_def put_in_def stake_def player_set_balance_def)
next
  case (Some q)
  then show ?thesis using take_balance_put_in by (simp add: call_effect_def Let_def)
qed

text \<open>A raise to less than the current bet is the case the accounting has to exclude.\<close>

definition raises_below :: "poker \<Rightarrow> action \<Rightarrow> bool" where
  "raises_below p a \<longleftrightarrow> act_kind a = ActRaise \<and> act_amount a < pk_current_bet p"

lemma raise_stage_moves:
  assumes "raise_stage h i a p = Inr (Continue q)" "\<not> act_amount a < pk_current_bet p"
  shows "moves i p q"
proof -
  let ?to_bet = "act_amount a - pl_bet (the_player p i)"
  obtain p1 where p1: "take_balance i ?to_bet p = Some p1"
    using assms(1) by (auto simp: raise_stage_def Let_def split: if_splits option.splits)
  have bet: "pk_current_bet p1 = pk_current_bet p" "pk_sb_must_call p1 = pk_sb_must_call p" "pk_sb p1 = pk_sb p"
    using p1 by (auto simp: take_balance_effect)
  have "moves i p (put_in i ?to_bet p1)" using take_balance_put_in [OF p1] by blast
  then show ?thesis
    using assms p1 bet raise_effect_moves [of i p ?to_bet p1]
      raise_effect_moves [of i p ?to_bet "p1\<lparr>pk_sb_must_call := False\<rparr>"]
    by (auto simp: raise_stage_def Let_def not_less put_in_raise_commute split: if_splits)
qed

lemma check_stage_moves:
  "check_stage h i p = Inr (Continue q) \<Longrightarrow> moves i p q"
  by (auto simp: check_stage_def call_effect_moves dest!: take_balance_put_in
      split: if_splits option.splits)

lemma action_stage_moves:
  assumes "action_stage h i a p = Inr (Continue q)" "\<not> raises_below p a"
  shows "moves i p q"
  using assms
  by (cases "act_kind a") (auto simp: action_stage_def fold_stage_def raises_below_def
      intro: raise_stage_moves check_stage_moves moves_flag)

lemma blind_stages_moves:
  "small_blind_stage i a p = Inr (Continue q) \<Longrightarrow> moves i p q"
  "big_blind_stage h i a p = Inr (Continue q) \<Longrightarrow> moves i p q"
  by (auto simp: small_blind_stage_def big_blind_stage_def dest!: take_balance_put_in
      split: if_splits option.splits)

lemma bindS_Continue:
  "bindS m f = Inr (Continue q) \<longleftrightarrow> (\<exists>p. m = Inr (Continue p) \<and> f p = Inr (Continue q))"
  by (cases m) (auto simp: bindS_def split: stage.splits)

lemma bindS_Reject:
  "bindS m f = Inr (Reject q)
    \<longleftrightarrow> m = Inr (Reject q) \<or> (\<exists>p. m = Inr (Continue p) \<and> f p = Inr (Reject q))"
  by (cases m) (auto simp: bindS_def split: stage.splits)

lemma blind_stages_kind:
  "small_blind_stage i a p = Inr (Continue q) \<Longrightarrow> act_kind a \<noteq> ActSmallBlind \<Longrightarrow> q = p"
  "big_blind_stage h i a p = Inr (Continue q) \<Longrightarrow> act_kind a \<noteq> ActBigBlind \<Longrightarrow> q = p"
  by (auto simp: small_blind_stage_def big_blind_stage_def split: if_splits option.splits)

lemma betting_stages_moves:
  assumes "betting_stages h i a p = Inr (Continue q)" "\<not> raises_below p a"
  shows "moves i p q"
proof -
  obtain p1 p2 where s: "small_blind_stage i a p = Inr (Continue p1)"
    "big_blind_stage h i a p1 = Inr (Continue p2)" "action_stage h i a p2 = Inr (Continue q)"
    using assms(1) by (auto simp: betting_stages_def bindS_Continue)
  have "act_kind a = ActRaise \<Longrightarrow> p2 = p" using blind_stages_kind s by fastforce
  then have "\<not> raises_below p2 a" using assms(2) by (auto simp: raises_below_def)
  then show ?thesis using s blind_stages_moves action_stage_moves moves_trans by metis
qed

lemma record_stage_moves: "moves i p (record_stage h i a p)"
  by (auto simp: record_stage_def Let_def actions_add_def intro: moves_flag)

section \<open>Conservation\<close>

lemma same_chips_bank:
  assumes "same_chips p q"
  shows "bank q = bank p" "surplus q = surplus p"
  using assms same_chips_player [OF assms] by (simp_all add: bank_def surplus_def same_chips_def)

lemma action_end_fields [simp]:
  "pk_players (action_end now i a p) = pk_players p" "pk_store (action_end now i a p) = pk_store p"
  "pk_pot (action_end now i a p) = pk_pot p" "pk_state (action_end now i a p) = pk_state p"
  "the_player (action_end now i a p) = the_player p" "pk_sorted (action_end now i a p) = pk_sorted p"
  "pk_starter_num (action_end now i a p) = pk_starter_num p"
  "pk_playing_position (action_end now i a p) = pk_playing_position p"
  by (simp_all add: action_end_def the_player_def fun_eq_iff)

lemma action_end_bank [simp]:
  "bank (action_end now i a p) = bank p" "surplus (action_end now i a p) = surplus p"
  by (simp_all add: bank_def surplus_def)

lemma do_action_accepted:
  assumes "do_action now p i a = Inr (p', True)"
  obtains h q r where "\<not> action_refused p i" "get_current_hand p = Some h"
    "betting_stages h i a p = Inr (Continue q)" "after_betting h i a q = Inr r"
    "p' = action_end now i a r"
proof -
  have ok: "\<not> action_refused p i" using assms by (auto simp: do_action_def)
  then obtain h s where h: "get_current_hand p = Some h" and s: "betting_stages h i a p = Inr s"
    and rest: "(case s of Reject p \<Rightarrow> Inr (p, False)
      | Continue p \<Rightarrow> bindO (after_betting h i a p) (\<lambda>p. Inr (action_end now i a p, True))) = (Inr (p', True) :: (poker \<times> bool) outcome)"
    using assms by (auto simp: do_action_def)
  then show ?thesis using that [OF ok h] by (cases s) auto
qed

text \<open>C1: An accepted action that does not end the game conserves the chips of the game, and
  keeps the pot equal to the bets up to the same difference, unless it is a raise to less
  than the current bet. Every other player's balance and bet are untouched.\<close>

theorem do_action_conserves:
  assumes "do_action now p i a = Inr (p', True)" "pk_state p' \<noteq> DONE"
    and "distinct (pk_players p)" "i \<in> set (pk_players p)" "\<not> raises_below p a"
  shows "bank p' = bank p \<and> surplus p' = surplus p
    \<and> stake (the_player p' i) = stake (the_player p i)
    \<and> (\<forall>j. j = i \<or> the_player p' j = the_player p j)"
proof -
  obtain h q r where b: "betting_stages h i a p = Inr (Continue q)"
    and r: "after_betting h i a q = Inr r" and p': "p' = action_end now i a r"
    using do_action_accepted [OF assms(1)] by metis
  have m: "moves i p (record_stage h i a q)"
    using betting_stages_moves [OF b assms(5)] record_stage_moves moves_trans by blast
  have c: "same_chips (record_stage h i a q) r"
    using after_betting_effect [OF r] assms(2) p' by simp
  show ?thesis
    using moves_bank [OF m assms(3,4)] same_chips_bank [OF c] same_chips_player [OF c] m p'
    by (auto simp: moves_def)
qed

definition raise_action :: "chips \<Rightarrow> action" where
  "raise_action n = \<lparr>act_kind = ActRaise, act_amount = n\<rparr>"

definition check_action :: action where
  "check_action = \<lparr>act_kind = ActCheck, act_amount = 0\<rparr>"

lemma sample_raise_accepted:
  "succeeds (do_action 5 sample_game 2 (raise_action 60)) (\<lambda>(p', b). b \<and> pk_state p' = PREFLOP)"
  by code_simp

theorem do_action_conserves_witness:
  "\<exists>p'. do_action 5 sample_game 2 (raise_action 60) = Inr (p', True) \<and> bank p' = bank sample_game"
proof -
  obtain p' where p': "do_action 5 sample_game 2 (raise_action 60) = Inr (p', True)" "pk_state p' = PREFLOP"
    using sample_raise_accepted by (auto simp: succeeds_iff)
  have "bank p' = bank sample_game"
    using do_action_conserves [OF p'(1)] p'(2) by (simp add: raises_below_def raise_action_def)
  then show ?thesis using p'(1) by blast
qed

end
