(* ===== verification/Poker_Rules.thy ===== *)
theory Poker_Rules
  imports Poker_Chips
begin

text \<open>
  What an action does to the game: rejected actions change nothing, the turn and the state
  move forward, the functional behaviour of a raise, of a call and of a fold that leaves one
  player, and the behaviours that the code allows against the rules of the game (a raise
  below the current bet, an action of another kind, a round that does not end).
\<close>

section \<open>Rejection\<close>

lemma action_stage_reject:
  "action_stage h i a p = Inr (Reject q) \<Longrightarrow> q = p"
  by (cases "act_kind a") (auto simp: action_stage_def raise_stage_def fold_stage_def check_stage_def Let_def
      split: if_splits option.splits)

lemma action_stage_blind:
  "act_kind a \<in> {ActSmallBlind, ActBigBlind} \<Longrightarrow> action_stage h i a p = Inr (Continue p)"
  by (auto simp: action_stage_def)

lemma blind_stages_state:
  "small_blind_stage i a p = Inr (Continue q) \<Longrightarrow> pk_state q = pk_state p"
  "big_blind_stage h i a p = Inr (Continue q) \<Longrightarrow> pk_state q = pk_state p"
  by (auto simp: small_blind_stage_def big_blind_stage_def take_balance_effect put_in_def Let_def
      split: if_splits option.splits)

lemma blind_stages_reject:
  "small_blind_stage i a p = Inr (Reject q) \<Longrightarrow> q = p"
  "big_blind_stage h i a p = Inr (Reject q) \<Longrightarrow> q = p"
  by (auto simp: small_blind_stage_def big_blind_stage_def split: if_splits option.splits)

lemma small_then_big_reject:
  assumes "small_blind_stage i a p = Inr (Continue s)" "big_blind_stage h i a s = Inr (Reject q)"
  shows "s = p"
proof -
  have "pk_state s = BIG_BLIND" using assms(2) by (auto simp: big_blind_stage_def split: if_splits)
  then show ?thesis using assms(1) blind_stages_state(1) [OF assms(1)] by (simp add: small_blind_stage_def)
qed

lemma betting_stages_reject:
  assumes "betting_stages h i a p = Inr (Reject q)"
  shows "q = p"
proof -
  consider "small_blind_stage i a p = Inr (Reject q)"
    | s where "small_blind_stage i a p = Inr (Continue s)" "big_blind_stage h i a s = Inr (Reject q)"
    | s t where "small_blind_stage i a p = Inr (Continue s)" "big_blind_stage h i a s = Inr (Continue t)"
        "action_stage h i a t = Inr (Reject q)"
    using assms unfolding betting_stages_def bindS_Reject bindS_Continue by blast
  then show ?thesis
  proof cases
    case 2
    then show ?thesis using small_then_big_reject blind_stages_reject(2) by blast
  next
    case 3
    then have "act_kind a \<notin> {ActSmallBlind, ActBigBlind}" using action_stage_blind by auto
    then have "s = p" "t = s" using 3 blind_stages_kind by auto
    then show ?thesis using 3 action_stage_reject by blast
  qed (rule blind_stages_reject(1))
qed

text \<open>C2: An action that the guards refuse (out of turn, by a player who is not in the round, who
  has folded or is all-in, or outside the betting states) is rejected, and every rejected
  action, for whatever reason, leaves the whole game as it was.\<close>

theorem do_action_rejected:
  "(pk_state p \<notin> {SMALL_BLIND..RIVER} \<or> pl_position (the_player p i) \<noteq> pk_playing_position p
      \<or> \<not> pl_playing (the_player p i) \<or> pl_folded (the_player p i) \<or> pl_allin (the_player p i)
        \<longrightarrow> do_action now p i a = Inr (p, False))
    \<and> (\<forall>p'. do_action now p i a = Inr (p', False) \<longrightarrow> p' = p)"
proof -
  have "p' = p" if r: "do_action now p i a = Inr (p', False)" "\<not> action_refused p i" for p'
  proof -
    obtain h s where s: "betting_stages h i a p = Inr s"
      and rest: "(case s of Reject p \<Rightarrow> Inr (p, False)
        | Continue p \<Rightarrow> bindO (after_betting h i a p) (\<lambda>p. Inr (action_end now i a p, True)))
        = (Inr (p', False) :: (poker \<times> bool) outcome)"
      using r by (auto simp: do_action_def)
    then show ?thesis using betting_stages_reject by (cases s) auto
  qed
  moreover have "do_action now p i a = Inr (p, False)" if "action_refused p i"
    using that by (simp add: do_action_def)
  moreover have "action_refused p i \<longleftrightarrow> pk_state p \<notin> {SMALL_BLIND..RIVER}
      \<or> pl_position (the_player p i) \<noteq> pk_playing_position p
      \<or> \<not> pl_playing (the_player p i) \<or> pl_folded (the_player p i) \<or> pl_allin (the_player p i)"
    by (auto simp: action_refused_def Let_def)
  ultimately show ?thesis by (cases "action_refused p i") auto
qed

theorem do_action_rejected_witness:
  "pl_position (the_player sample_game 0) \<noteq> pk_playing_position sample_game
    \<and> do_action 5 sample_game 0 fold_action = Inr (sample_game, False)"
proof -
  have "pl_position (the_player sample_game 0) \<noteq> pk_playing_position sample_game"
    by simp
  then show ?thesis using do_action_rejected [of sample_game 0 5 fold_action] by blast
qed

section \<open>Turn and progress\<close>

lemma stage_state:
  assumes "moves i p q" shows "pk_players q = pk_players p"
  using assms by (simp add: moves_def)

lemma raise_effect_frame [simp]:
  "pk_state (raise_effect h i x y z p) = pk_state p"
  "pk_starter_num (raise_effect h i x y z p) = pk_starter_num p"
  "pk_sb (raise_effect h i x y z p) = pk_sb p"
  by (simp_all add: raise_effect_def Let_def put_in_def)

lemma put_in_frame [simp]:
  "pk_state (put_in i x p) = pk_state p" "pk_starter_num (put_in i x p) = pk_starter_num p"
  "pk_current_bet (put_in i x p) = pk_current_bet p"
  by (simp_all add: put_in_def Let_def)

lemma call_effect_frame [simp]:
  "pk_state (call_effect i p) = pk_state p" "pk_starter_num (call_effect i p) = pk_starter_num p"
  "pk_current_bet (call_effect i p) = pk_current_bet p"
  by (auto simp: call_effect_def Let_def take_balance_effect split: option.splits)

lemma record_stage_frame [simp]:
  "pk_state (record_stage h i a p) = pk_state p" "pk_starter_num (record_stage h i a p) = pk_starter_num p"
  "pk_current_bet (record_stage h i a p) = pk_current_bet p" "pk_pot (record_stage h i a p) = pk_pot p"
  "pk_players (record_stage h i a p) = pk_players p"
  by (simp_all add: record_stage_def Let_def actions_add_def)

lemma record_stage_player:
  "pl_bet (the_player (record_stage h i a p) j) = pl_bet (the_player p j)"
  "pl_balance (the_player (record_stage h i a p) j) = pl_balance (the_player p j)"
  "pl_playing (the_player (record_stage h i a p) j) = pl_playing (the_player p j)"
  "pl_folded (the_player (record_stage h i a p) j) = pl_folded (the_player p j)"
  "j \<noteq> i \<Longrightarrow> the_player (record_stage h i a p) j = the_player p j"
  by (simp_all add: record_stage_def Let_def actions_add_def)

lemma raise_stage_frame:
  "raise_stage h i a p = Inr (Continue q) \<Longrightarrow> pk_state q = pk_state p \<and> pk_starter_num q = pk_starter_num p"
  by (auto simp: raise_stage_def Let_def take_balance_effect split: if_splits option.splits)

lemma betting_stages_frame:
  assumes "betting_stages h i a p = Inr (Continue q)"
  shows "pk_state q = pk_state p \<and> pk_starter_num q = pk_starter_num p"
proof -
  have blind: "pk_state t = pk_state s \<and> pk_starter_num t = pk_starter_num s"
    if "small_blind_stage i a s = Inr (Continue t) \<or> big_blind_stage h i a s = Inr (Continue t)" for s t
    using that by (auto simp: small_blind_stage_def big_blind_stage_def take_balance_effect
        split: if_splits option.splits)
  have act: "pk_state t = pk_state s \<and> pk_starter_num t = pk_starter_num s"
    if "action_stage h i a s = Inr (Continue t)" for s t
    using that raise_stage_frame
    by (cases "act_kind a") (auto simp: action_stage_def fold_stage_def check_stage_def take_balance_effect
        split: if_splits option.splits)
  show ?thesis
    using assms blind act by (auto simp: betting_stages_def bindS_Continue) metis+
qed

text \<open>C18: The state of the game never goes back, and after an accepted action that does not end
  the game the turn is at a seat whose player is in the round, has not folded and is not
  all-in; only in a game that two players started, the action that ends a street gives the turn
  to the big blind, whether he can act or not.\<close>

theorem do_action_progress:
  assumes "do_action now p i a = Inr (p', True)" "pk_state p' \<noteq> DONE"
  shows "pk_state p \<le> pk_state p'
    \<and> (if pk_starter_num p = 2 \<and> pk_state p < pk_state p'
       then \<exists>bb. pk_bb p' = Some bb \<and> pk_playing_position p' = pl_position (the_player p' bb)
       else seat_can_act p' (pk_playing_position p'))"
proof -
  obtain h q r where b: "betting_stages h i a p = Inr (Continue q)"
    and r: "after_betting h i a q = Inr r" and p': "p' = action_end now i a r"
    using do_action_accepted [OF assms(1)] by metis
  have s: "same_chips r p'" by (simp add: p' same_chips_def action_end_def)
  have e: "pk_state (record_stage h i a q) \<le> pk_state r" "turn_passed (pk_state (record_stage h i a q)) r"
    "same_chips (record_stage h i a q) r" using after_betting_effect [OF r] assms(2) p' by simp_all
  have "pk_state p' = pk_state r" "pk_bb p' = pk_bb r" "pk_playing_position p' = pk_playing_position r"
    by (simp_all add: p' action_end_def)
  then show ?thesis
    using e betting_stages_frame [OF b] same_chips_seat [OF s] same_chips_player [OF s]
    by (cases "pk_starter_num p = 2 \<and> pk_state p < pk_state p'")
      (auto simp: turn_passed_def big_blind_turn_def same_chips_def)
qed

theorem do_action_progress_witness:
  "\<exists>p'. do_action 5 sample_game 2 (raise_action 60) = Inr (p', True) \<and> PREFLOP \<le> pk_state p'
    \<and> seat_can_act p' (pk_playing_position p')"
proof -
  obtain p' where p': "do_action 5 sample_game 2 (raise_action 60) = Inr (p', True)" "pk_state p' = PREFLOP"
    using sample_raise_accepted by (auto simp: succeeds_iff)
  then show ?thesis using do_action_progress [OF p'(1)] by simp
qed

section \<open>Raise and call\<close>

lemma raise_effect_result:
  assumes "\<not> raise_to < pk_current_bet p"
  shows "the_player (raise_effect h i raise_to to_bet (raise_to - pk_current_bet p) p) j
      = (if j = i then (the_player p i)\<lparr>pl_bet := pl_bet (the_player p i) + to_bet\<rparr> else the_player p j)"
    and "pk_current_bet (raise_effect h i raise_to to_bet (raise_to - pk_current_bet p) p) = raise_to"
    and "pk_pot (raise_effect h i raise_to to_bet (raise_to - pk_current_bet p) p) = pk_pot p + to_bet"
  using assms by (simp_all add: raise_effect_def Let_def put_in_def not_less)

text \<open>The state in which the effect of a raise is applied: the balance is reduced, and the small
  blind's duty may be lifted.\<close>

lemma raise_stage_split:
  assumes "raise_stage h i a p = Inr (Continue q)"
  obtains p1 where "act_amount a - pl_bet (the_player p i) \<le> pl_balance (the_player p i)"
    and "p1 = upd_player i (\<lambda>pl. pl\<lparr>pl_balance := pl_balance pl - (act_amount a - pl_bet (the_player p i))\<rparr>) p
      \<or> p1 = (upd_player i (\<lambda>pl. pl\<lparr>pl_balance := pl_balance pl - (act_amount a - pl_bet (the_player p i))\<rparr>) p)
              \<lparr>pk_sb_must_call := False\<rparr>"
    and "\<exists>b. q = (raise_effect h i (act_amount a) (act_amount a - pl_bet (the_player p i))
               (act_amount a - pk_current_bet p) p1)\<lparr>pk_synced := b\<rparr>
           \<or> q = (raise_effect h i (act_amount a) (act_amount a - pl_bet (the_player p i))
               (act_amount a - pk_current_bet p) p1)\<lparr>pk_synced := b, pk_sb_must_call := False\<rparr>"
proof -
  define t where "t = act_amount a - pl_bet (the_player p i)"
  obtain p0 where p0: "take_balance i t p = Some p0"
    using assms by (auto simp: raise_stage_def Let_def t_def split: if_splits option.splits)
  define p1 where "p1 = (if pk_sb_must_call p0 \<and> pk_sb p0 = Some i then p0\<lparr>pk_sb_must_call := False\<rparr> else p0)"
  define r where "r = raise_effect h i (act_amount a) t (act_amount a - pk_current_bet p) p1"
  have sb: "pk_sb r = pk_sb p1" by (simp add: r_def)
  have "q = (if pk_sb r = Some i then r\<lparr>pk_synced := pk_synced r + 1, pk_sb_must_call := False\<rparr>
      else r\<lparr>pk_synced := pk_synced r + 1\<rparr>)"
    using assms p0 by (simp add: raise_stage_def Let_def t_def [symmetric] p1_def [symmetric] r_def [symmetric] sb
        split: if_splits)
  then have "q = r\<lparr>pk_synced := pk_synced r + 1\<rparr> \<or> q = r\<lparr>pk_synced := pk_synced r + 1, pk_sb_must_call := False\<rparr>"
    by (cases "pk_sb r = Some i") simp_all
  then have "\<exists>b. q = r\<lparr>pk_synced := b\<rparr> \<or> q = r\<lparr>pk_synced := b, pk_sb_must_call := False\<rparr>"
    by blast
  moreover have "t \<le> pl_balance (the_player p i)" and "p1 = p0 \<or> p1 = p0\<lparr>pk_sb_must_call := False\<rparr>"
    and "p0 = upd_player i (\<lambda>pl. pl\<lparr>pl_balance := pl_balance pl - t\<rparr>) p"
    using p0 by (auto simp: take_balance_effect p1_def)
  ultimately show ?thesis using that [of p1] unfolding t_def r_def by blast
qed

lemma raise_stage_effect:
  assumes "raise_stage h i a p = Inr (Continue q)" "\<not> act_amount a < pk_current_bet p"
  shows "pl_bet (the_player q i) = act_amount a \<and> pk_current_bet q = act_amount a
    \<and> pk_pot q = pk_pot p + (act_amount a - pl_bet (the_player p i))
    \<and> act_amount a - pl_bet (the_player p i) \<le> pl_balance (the_player p i)
    \<and> pl_balance (the_player q i) = pl_balance (the_player p i) - (act_amount a - pl_bet (the_player p i))"
proof (rule raise_stage_split [OF assms(1)])
  fix p1
  let ?t = "act_amount a - pl_bet (the_player p i)"
  let ?r = "raise_effect h i (act_amount a) ?t (act_amount a - pk_current_bet p) p1"
  assume le: "?t \<le> pl_balance (the_player p i)"
    and p1: "p1 = upd_player i (\<lambda>pl. pl\<lparr>pl_balance := pl_balance pl - ?t\<rparr>) p
      \<or> p1 = (upd_player i (\<lambda>pl. pl\<lparr>pl_balance := pl_balance pl - ?t\<rparr>) p)\<lparr>pk_sb_must_call := False\<rparr>"
    and q: "\<exists>b. q = ?r\<lparr>pk_synced := b\<rparr> \<or> q = ?r\<lparr>pk_synced := b, pk_sb_must_call := False\<rparr>"
  have f: "pk_current_bet p1 = pk_current_bet p" "pk_pot p1 = pk_pot p"
    "the_player p1 i = (the_player p i)\<lparr>pl_balance := pl_balance (the_player p i) - ?t\<rparr>"
    using p1 by auto
  have "\<not> act_amount a < pk_current_bet p1" using f assms(2) by simp
  note e = raise_effect_result [OF this, of h i ?t, unfolded f(1)]
  have "the_player q i = the_player ?r i" "pk_current_bet q = pk_current_bet ?r" "pk_pot q = pk_pot ?r"
    using q by auto
  then show ?thesis using e f le by simp
qed

lemma not_blind_stages:
  assumes "betting_stages h i a p = Inr (Continue q)" "act_kind a \<notin> {ActSmallBlind, ActBigBlind}"
  shows "action_stage h i a p = Inr (Continue q)"
proof -
  obtain p1 p2 where s: "small_blind_stage i a p = Inr (Continue p1)"
    "big_blind_stage h i a p1 = Inr (Continue p2)" "action_stage h i a p2 = Inr (Continue q)"
    using assms(1) by (auto simp: betting_stages_def bindS_Continue)
  then show ?thesis using blind_stages_kind assms(2) by fastforce
qed

text \<open>C22: An accepted raise to at least the current bet makes that amount the bet of the player and
  the current bet, and puts exactly the difference to his former bet, which his balance covers, into the pot, whether
  the raise ends the game or not. If it does not end the game, his balance falls by that difference; if it
  ends the game, the showdown has already paid the balances.\<close>

theorem raise_sets_the_bet:
  assumes "do_action now p i a = Inr (p', True)"
    and "act_kind a = ActRaise" "\<not> raises_below p a"
  shows "pl_bet (the_player p' i) = act_amount a \<and> pk_current_bet p' = act_amount a
    \<and> act_amount a - pl_bet (the_player p i) \<le> pl_balance (the_player p i)
    \<and> (pk_state p' \<noteq> DONE \<longrightarrow>
        pl_balance (the_player p' i) = pl_balance (the_player p i) - (act_amount a - pl_bet (the_player p i)))
    \<and> pk_pot p' = pk_pot p + (act_amount a - pl_bet (the_player p i))"
proof -
  obtain h q r where b: "betting_stages h i a p = Inr (Continue q)"
    and r: "after_betting h i a q = Inr r" and p': "p' = action_end now i a r"
    using do_action_accepted [OF assms(1)] by metis
  have "raise_stage h i a p = Inr (Continue q)"
    using not_blind_stages [OF b] assms(2) by (simp add: action_stage_def)
  note e = raise_stage_effect [OF this]
  have "same_bets (record_stage h i a q) r" by (rule after_betting_bets [OF r])
  moreover have "pk_current_bet p' = pk_current_bet r" "pk_pot p' = pk_pot r" "the_player p' = the_player r" "pk_state p' = pk_state r"
    by (simp_all add: p' action_end_def the_player_def fun_eq_iff)
  moreover have "the_player r = the_player (record_stage h i a q)" if "pk_state r \<noteq> DONE"
    using after_betting_effect [OF r that] same_chips_player by blast
  ultimately show ?thesis
    using e assms(2,3) by (auto simp: raises_below_def record_stage_player same_bets_def)
qed

theorem raise_sets_the_bet_witness:
  "\<exists>p'. do_action 5 sample_game 2 (raise_action 60) = Inr (p', True)
    \<and> pl_bet (the_player p' 2) = 60 \<and> pk_pot p' = 90 \<and> pk_current_bet p' = 60"
proof -
  obtain p' where p': "do_action 5 sample_game 2 (raise_action 60) = Inr (p', True)" "pk_state p' = PREFLOP"
    using sample_raise_accepted by (auto simp: succeeds_iff)
  then show ?thesis using raise_sets_the_bet [OF p'(1)] by (simp add: raises_below_def raise_action_def)
qed

lemma call_effect_result:
  "pl_balance (the_player (call_effect i p) i) = 0 \<and> pl_allin (the_player (call_effect i p) i)
     \<and> pl_balance (the_player p i) < pk_current_bet p - pl_bet (the_player p i)
   \<or> pl_bet (the_player (call_effect i p) i) = pk_current_bet p"
  by (cases "take_balance i (pk_current_bet p - pl_bet (the_player p i)) p")
    (auto simp: call_effect_def Let_def put_in_def take_balance_effect player_set_balance_def
      take_balance_def player_remove_balance_def split: if_splits)

text \<open>An accepted check in a street where somebody has bet, by a player who is not the small
  blind completing his blind, is a call: his bet becomes the current bet, or he has too
  little for it and is all-in with balance 0. What he puts in is what he loses.\<close>

theorem check_calls:
  assumes "do_action now p i a = Inr (p', True)" "pk_state p' \<noteq> DONE"
    and "act_kind a = ActCheck" "\<not> pk_sb_must_call p"
    and "get_current_hand p = Some h" "hd_raised (pk_hands p h)"
  shows "(pl_bet (the_player p' i) = pk_current_bet p
      \<or> pl_balance (the_player p' i) = 0 \<and> pl_allin (the_player p' i))
    \<and> stake (the_player p' i) = stake (the_player p i) \<and> pk_current_bet p' = pk_current_bet p"
proof -
  obtain h' q r where h': "get_current_hand p = Some h'"
    and b: "betting_stages h' i a p = Inr (Continue q)"
    and r: "after_betting h' i a q = Inr r" and p': "p' = action_end now i a r"
    using do_action_accepted [OF assms(1)] by metis
  have "h' = h" using h' assms(5) by simp
  have q: "q = call_effect i p"
    using not_blind_stages [OF b] assms(3,4,6) \<open>h' = h\<close>
    by (simp add: action_stage_def check_stage_def sb_calls_def)
  have c: "same_chips (record_stage h' i a q) r" using after_betting_effect [OF r] assms(2) p' by simp
  have allin: "pl_allin (the_player q i) \<Longrightarrow> pl_allin (the_player (record_stage h' i a q) i)"
    by (simp add: record_stage_def Let_def actions_add_def)
  have "pk_current_bet p' = pk_current_bet r" by (simp add: p' action_end_def)
  moreover have "stake (the_player q i) = stake (the_player p i)"
    using call_effect_moves [of i p] q by (simp add: moves_def)
  ultimately show ?thesis
    using call_effect_result [of i p] q same_chips_player [OF c] c allin
    by (auto simp: p' record_stage_player stake_def same_chips_def)
qed

definition sample_call :: poker where
  "sample_call = sample_game\<lparr>pk_sb_must_call := False\<rparr>"

lemma sample_call_accepted:
  "succeeds (do_action 5 sample_call 2 check_action) (\<lambda>(p', b). b \<and> pk_state p' = PREFLOP)"
  by code_simp

theorem check_calls_witness:
  "\<exists>p'. do_action 5 sample_call 2 check_action = Inr (p', True)
    \<and> stake (the_player p' 2) = 1000 \<and> pk_current_bet p' = 20"
proof -
  obtain p' where p': "do_action 5 sample_call 2 check_action = Inr (p', True)" "pk_state p' = PREFLOP"
    using sample_call_accepted by (auto simp: succeeds_iff)
  have "stake (the_player p' 2) = stake (the_player sample_call 2) \<and> pk_current_bet p' = pk_current_bet sample_call"
    using check_calls [OF p'(1), of HAND_PREFLOP] p'(2)
    by (simp add: sample_call_def check_action_def get_current_hand_def state_less_simps)
  then show ?thesis using p'(1) by (auto simp: sample_call_def stake_def)
qed

section \<open>The last player left\<close>

lemma winner_frame:
  "pk_winner (action_end now i a p) = pk_winner p" "pk_winner (upd_player j f p) = pk_winner p"
  by (simp_all add: action_end_def upd_player_def)

text \<open>C19: When a fold leaves one player in the round, he is the winner, the game is done, his
  balance grows by the pot and nobody else's balance changes.\<close>

theorem fold_awards_the_pot:
  assumes "do_action now p i a = Inr (p', True)" "act_kind a = ActFold"
    and "pk_state p \<in> {PREFLOP, FLOP, TURN, RIVER}" "distinct (pk_players p)" "w \<noteq> i"
    and "\<forall>j \<in> set (pk_players p). player_ingame (the_player p j) \<longleftrightarrow> j = i \<or> j = w"
    and "w \<in> set (pk_players p)" "i \<in> set (pk_players p)"
  shows "pk_state p' = DONE \<and> pk_winner p' = Some w
    \<and> pl_balance (the_player p' w) = pl_balance (the_player p w) + pk_pot p
    \<and> (\<forall>j. j = w \<or> pl_balance (the_player p' j) = pl_balance (the_player p j))"
proof -
  obtain h q r where b: "betting_stages h i a p = Inr (Continue q)"
    and r: "after_betting h i a q = Inr r" and p': "p' = action_end now i a r"
    using do_action_accepted [OF assms(1)] by metis
  have q: "q = upd_player i (\<lambda>pl. pl\<lparr>pl_folded := True\<rparr>) p"
    using not_blind_stages [OF b] assms(2) by (simp add: action_stage_def fold_stage_def)
  define p0 where "p0 = record_stage h i a q"
  have p0: "pk_players p0 = pk_players p" "pk_pot p0 = pk_pot p" "pk_state p0 = pk_state p"
    "\<And>j. pl_balance (the_player p0 j) = pl_balance (the_player p j)"
    "\<And>j. player_ingame (the_player p0 j) \<longleftrightarrow> player_ingame (the_player p j) \<and> j \<noteq> i"
    using q by (auto simp: p0_def record_stage_player player_ingame_def)
  have only: "player_ingame (the_player p0 j) \<longleftrightarrow> j = w" if "j \<in> set (pk_players p0)" for j
    using assms(5,6) that p0 by auto
  have "filter (\<lambda>j. player_ingame (the_player p0 j)) (pk_players p0) = filter (\<lambda>j. j = w) (pk_players p0)"
    using only by (intro filter_cong) auto
  moreover have "length (filter (\<lambda>j. j = w) (pk_players p0)) = 1"
    using assms(4,7) p0 distinct_length_filter [of "pk_players p0" "\<lambda>j. j = w"] by simp
  ultimately have ingame: "ingame_count p0 = 1" by (simp add: ingame_count_def)
  obtain p1 f g where p1: "(if playing_count p0 = 0 then Inr p0 else next_player p0) = Inr p1"
    and f: "round_stage (playing_count p0) (ingame_count p0) i a p1 = Inr f"
    and g: "(case f of Fall p \<Rightarrow> runout_stage (playing_count p0) p | _ \<Rightarrow> Inr f) = Inr g"
    and fin: "finish_flow g = Inr r"
    using r unfolding after_betting_def Let_def p0_def [symmetric] by auto
  have p01: "same_chips p0 p1 \<and> pk_state p1 = pk_state p0"
    using p1 next_player_effect [of p0 p1] by (auto split: if_splits simp: same_chips_def)
  have "\<exists>z. award_last p1 = Inr z \<and> f = Action_end z"
    using f ingame assms(2,3) p01 p0(3)
    by (auto simp: round_stage_def preflop_round_def flop_round_def turn_round_def river_round_def street_round_def)
  then obtain z where z: "award_last p1 = Inr z" "r = z" using g fin by (auto simp: finish_flow_def)
  then obtain v where v: "v \<in> set (pk_players p1)" "player_ingame (the_player p1 v)"
    and z': "z = add_balance v (pk_pot p1) (p1\<lparr>pk_winner := Some v, pk_state := DONE\<rparr>)"
    using award_last_effect by blast
  have "v = w" using v only same_chips_player [of p0 p1] p01 by (auto simp: same_chips_def)
  then show ?thesis
    using z(2) z' p' p0 p01 same_chips_player [of p0 p1]
    by (auto simp: add_balance_def player_add_balance_def same_chips_def winner_frame)
qed

definition sample_two :: poker where
  "sample_two = upd_player 0 (\<lambda>pl. pl\<lparr>pl_folded := True\<rparr>) sample_game"

lemma sample_fold_accepted:
  "succeeds (do_action 5 sample_two 2 fold_action) (\<lambda>(p', b). b)"
  by code_simp

theorem fold_awards_the_pot_witness:
  "\<exists>p'. do_action 5 sample_two 2 fold_action = Inr (p', True)
    \<and> pk_winner p' = Some 1 \<and> pl_balance (the_player p' 1) = 1010"
proof -
  obtain p' where p': "do_action 5 sample_two 2 fold_action = Inr (p', True)"
    using sample_fold_accepted by (auto simp: succeeds_iff)
  then show ?thesis using fold_awards_the_pot [OF p', of 1]
    by (auto simp: sample_two_def fold_action_def player_ingame_def)
qed

end
