(* ===== verification/Poker_Gaps.thy ===== *)
theory Poker_Gaps
  imports Poker_Rules
begin

text \<open>
  Behaviours of \<open>pkrsrv_poker_do_action\<close> that the rules of the game do not allow: chips that
  leave the game with a raise below the current bet, a turn that passes without a call with
  an action of another kind, and a street that checks cannot end once a raiser is all-in.
\<close>

section \<open>A raise below the current bet\<close>

lemma raise_below_effect:
  assumes "raise_stage h i a p = Inr (Continue q)" "act_amount a < pk_current_bet p"
  shows "pl_balance (the_player q i) = pl_balance (the_player p i) - (act_amount a - pl_bet (the_player p i))
    \<and> pk_pot q = pk_pot p \<and> pk_players q = pk_players p
    \<and> pl_bet (the_player q i) = pl_bet (the_player p i) \<and> (\<forall>j. j = i \<or> the_player q j = the_player p j)"
proof (rule raise_stage_split [OF assms(1)])
  fix p1
  let ?t = "act_amount a - pl_bet (the_player p i)"
  let ?r = "raise_effect h i (act_amount a) ?t (act_amount a - pk_current_bet p) p1"
  assume p1: "p1 = upd_player i (\<lambda>pl. pl\<lparr>pl_balance := pl_balance pl - ?t\<rparr>) p
      \<or> p1 = (upd_player i (\<lambda>pl. pl\<lparr>pl_balance := pl_balance pl - ?t\<rparr>) p)\<lparr>pk_sb_must_call := False\<rparr>"
    and q: "\<exists>b. q = ?r\<lparr>pk_synced := b\<rparr> \<or> q = ?r\<lparr>pk_synced := b, pk_sb_must_call := False\<rparr>"
  have "pk_current_bet p1 = pk_current_bet p" using p1 by auto
  then have "?r = p1" using assms(2) by (simp add: raise_effect_def)
  then have "the_player q = the_player p1" "pk_pot q = pk_pot p1" "pk_players q = pk_players p1"
    using q by (auto simp: fun_eq_iff)
  then show ?thesis using p1 by (auto split: if_splits)
qed

text \<open>A raise to less than the current bet passes the guards when the subtraction wraps
  around, and the amount that it takes from the balance of the player arrives nowhere: the
  chips of the game shrink by the amount minus the player's bet.\<close>

theorem raise_below_destroys_chips:
  assumes "do_action now p i a = Inr (p', True)" "pk_state p' \<noteq> DONE"
    and "distinct (pk_players p)" "i \<in> set (pk_players p)" "raises_below p a"
  shows "bank p' = bank p - (act_amount a - pl_bet (the_player p i))
    \<and> pk_pot p' = pk_pot p \<and> pl_bet (the_player p' i) = pl_bet (the_player p i)"
proof -
  obtain h q r where b: "betting_stages h i a p = Inr (Continue q)"
    and r: "after_betting h i a q = Inr r" and p': "p' = action_end now i a r"
    using do_action_accepted [OF assms(1)] by metis
  have "raise_stage h i a p = Inr (Continue q)"
    using not_blind_stages [OF b] assms(5) by (simp add: action_stage_def raises_below_def)
  then have e: "pl_balance (the_player q i) = pl_balance (the_player p i) - (act_amount a - pl_bet (the_player p i))"
    "pk_pot q = pk_pot p" "pk_players q = pk_players p" "pl_bet (the_player q i) = pl_bet (the_player p i)"
    "\<And>j. j \<noteq> i \<Longrightarrow> the_player q j = the_player p j"
    using raise_below_effect assms(5) by (fastforce simp: raises_below_def)+
  define s where "s = record_stage h i a q"
  have c: "same_chips s r" using after_betting_effect [OF r] assms(2) p' by (simp add: s_def)
  have "(\<Sum>j \<leftarrow> pk_players p. pl_balance (the_player q j))
      = (\<Sum>j \<leftarrow> pk_players p. pl_balance (the_player p j))
        + pl_balance (the_player q i) - pl_balance (the_player p i)"
    using sum_list_map_pointwise [OF assms(3,4), of "\<lambda>j. pl_balance (the_player q j)"
        "\<lambda>j. pl_balance (the_player p j)"] e(5) by simp
  then have "bank q = bank p - (act_amount a - pl_bet (the_player p i))"
    using e by (simp add: bank_def)
  moreover have "bank s = bank q" by (simp add: bank_def s_def record_stage_player)
  ultimately show ?thesis
    using same_chips_bank [OF c] same_chips_player [OF c] c e p'
    by (simp add: s_def record_stage_player same_chips_def)
qed

lemma sample_raise_below_accepted:
  "succeeds (do_action 5 sample_game 2 (raise_action 5)) (\<lambda>(p', b). b \<and> pk_state p' = PREFLOP)"
  by code_simp

theorem raise_below_destroys_chips_witness:
  "\<exists>p'. do_action 5 sample_game 2 (raise_action 5) = Inr (p', True) \<and> bank p' = bank sample_game - 5"
proof -
  obtain p' where p': "do_action 5 sample_game 2 (raise_action 5) = Inr (p', True)" "pk_state p' = PREFLOP"
    using sample_raise_below_accepted by (auto simp: succeeds_iff)
  have "bank p' = bank sample_game - 5"
    using raise_below_destroys_chips [OF p'(1)] p'(2) by (simp add: raises_below_def raise_action_def)
  then show ?thesis using p'(1) by blast
qed

section \<open>An action of another kind\<close>

text \<open>An action that is neither a raise, a check nor a fold is accepted in a betting street and
  passes the turn without putting in a single chip: every balance and bet stays as it was,
  also when the player owes the difference to the current bet.\<close>

theorem other_kinds_pass_the_turn:
  assumes "do_action now p i a = Inr (p', True)" "pk_state p' \<noteq> DONE"
    and "pk_state p \<in> {PREFLOP, FLOP, TURN, RIVER}" "act_kind a \<notin> {ActRaise, ActCheck, ActFold}"
  shows "(\<forall>j. pl_balance (the_player p' j) = pl_balance (the_player p j)
      \<and> pl_bet (the_player p' j) = pl_bet (the_player p j)
      \<and> pl_folded (the_player p' j) = pl_folded (the_player p j))
    \<and> pk_pot p' = pk_pot p"
proof -
  obtain h q r where b: "betting_stages h i a p = Inr (Continue q)"
    and r: "after_betting h i a q = Inr r" and p': "p' = action_end now i a r"
    using do_action_accepted [OF assms(1)] by metis
  have "small_blind_stage i a p = Inr (Continue p)" "big_blind_stage h i a p = Inr (Continue p)"
    using assms(3) by (auto simp: small_blind_stage_def big_blind_stage_def)
  moreover have "action_stage h i a p = Inr (Continue p)"
    using assms(4) by (cases "act_kind a") (auto simp: action_stage_def)
  ultimately have "q = p" using b by (simp add: betting_stages_def bindS_def)
  have c: "same_chips (record_stage h i a q) r" using after_betting_effect [OF r] assms(2) p' by simp
  show ?thesis
    using same_chips_player [OF c] c \<open>q = p\<close> by (simp add: p' record_stage_player same_chips_def)
qed

definition odd_action :: action where
  "odd_action = \<lparr>act_kind = ActOther 7, act_amount = 0\<rparr>"

lemma sample_odd_accepted:
  "succeeds (do_action 5 sample_game 2 odd_action) (\<lambda>(p', b). b \<and> pk_state p' = PREFLOP \<and> pk_playing_position p' = 0)"
  by code_simp

theorem other_kinds_pass_the_turn_witness:
  "\<exists>p'. do_action 5 sample_game 2 odd_action = Inr (p', True) \<and> pk_playing_position p' = 0
    \<and> pl_bet (the_player p' 2) = 0"
proof -
  obtain p' where p': "do_action 5 sample_game 2 odd_action = Inr (p', True)" "pk_state p' = PREFLOP"
    "pk_playing_position p' = 0"
    using sample_odd_accepted by (auto simp: succeeds_iff)
  have "pl_bet (the_player p' 2) = pl_bet (the_player sample_game 2)"
    using other_kinds_pass_the_turn [OF p'(1)] p'(2) by (simp add: odd_action_def)
  then show ?thesis using p' by auto
qed

section \<open>A street that checks cannot end\<close>

text \<open>The raiser cannot act any more, and nobody owes chips: the situation after an all-in raise
  that everybody left has called.\<close>

definition raise_settled :: "poker \<Rightarrow> bool" where
  "raise_settled p \<longleftrightarrow> pk_last_raised_pos p \<noteq> -1
     \<and> list_all (\<lambda>i. let pl = the_player p i
          in still_betting pl \<longrightarrow> pl_position pl \<noteq> pk_last_raised_pos p \<and> \<not> pl_bet pl < pk_current_bet p)
        (take (length (pk_players p)) (pk_sorted p))"

lemma last_to_play_settled:
  "list_all (\<lambda>i. let pl = the_player p i
      in still_betting pl \<longrightarrow> pl_position pl \<noteq> pk_last_raised_pos p \<and> \<not> pl_bet pl < pk_current_bet p) is
    \<Longrightarrow> last_to_play p is acc = acc"
  by (induction "is") (auto simp: Let_def)

text \<open>When the last raiser is all-in and everybody left has matched his bet, no check and no
  fold ends the street, whoever acts: the search for the last player to act finds nobody and
  the betting round goes on with the same cards.\<close>

theorem settled_raise_never_ends_street:
  assumes "raise_settled p" "0 \<le> pl_position (the_player p i)"
  shows "end_of_round nxt deal playing i p = Inr (Fall p)"
proof -
  have "get_last_playing_position p = Inr (-1)"
    using assms(1) last_to_play_settled [of p _ "-1"]
    by (simp add: raise_settled_def get_last_playing_position_def)
  then have "is_last_to_act playing i p = Inr False"
    using assms by (auto simp: is_last_to_act_def raise_settled_def)
  then show ?thesis by (simp add: end_of_round_def)
qed

definition sample_settled :: poker where
  "sample_settled = sample_river\<lparr>pk_store := (\<lambda>i. if i = 0 then (sample_player 0 0 20)\<lparr>pl_allin := True\<rparr>
     else sample_player i 980 20), pk_state := TURN, pk_last_raised_pos := 0\<rparr>"

lemma raise_settled_sample: "raise_settled sample_settled"
  by (simp add: raise_settled_def sample_settled_def the_player_def still_betting_def Let_def)

theorem settled_raise_never_ends_street_witness:
  "end_of_round RIVER deal_river 2 1 sample_settled = Inr (Fall sample_settled)"
  using settled_raise_never_ends_street [OF raise_settled_sample, of 1 RIVER deal_river 2]
  by (simp add: sample_settled_def the_player_def)

end
