(* ===== verification/Poker_Showdown.thy ===== *)
theory Poker_Showdown
  imports Poker_Chips Card_Best
begin

text \<open>
  The showdown: the order of the ranks, the memory it reads without having written it, the
  payout when all bets are equal, and the chips that are lost when they are not.
\<close>

section \<open>The order of the ranks\<close>





section \<open>Reading what was not written\<close>

definition in_showdown :: "player \<Rightarrow> bool" where
  "in_showdown pl \<longleftrightarrow> pl_playing pl \<and> \<not> pl_folded pl \<and> \<not> pl_left pl"

lemma rank_entry_of_None: "rank_entry_of p i = None \<longleftrightarrow> \<not> in_showdown (the_player p i)"
  by (auto simp: rank_entry_of_def in_showdown_def Let_def)

lemma read_ranks_holes:
  "list_ex (\<lambda>i. \<not> in_showdown (the_player p i)) is \<Longrightarrow>
    read_ranks (map (rank_entry_of p) is) = Inl UninitRead"
  by (auto simp: read_ranks_def list_ex_iff rank_entry_of_None [symmetric] image_iff)
    (metis rank_entry_of_None)

text \<open>As soon as one player of the table has folded, has left or is not in the round, the
  showdown sorts and pays entries of the array \<open>ranks\<close> that were never written.\<close>

theorem showdown_reads_uninitialised:
  assumes "i \<in> set (pk_players p)" "\<not> in_showdown (the_player p i)"
  shows "showdown p = Inl UninitRead"
proof -
  have "list_ex (\<lambda>i. \<not> in_showdown (the_player p i)) (pk_players p)"
    using assms by (auto simp: list_ex_iff)
  then show ?thesis by (simp add: showdown_def Let_def read_ranks_holes)
qed

definition river_with_fold :: poker where
  "river_with_fold = upd_player 0 (\<lambda>pl. pl\<lparr>pl_folded := True\<rparr>) sample_river"

theorem showdown_reads_uninitialised_witness:
  "showdown river_with_fold = Inl UninitRead"
  using showdown_reads_uninitialised [of 0 river_with_fold]
  by (simp add: river_with_fold_def in_showdown_def)

section \<open>Equal bets\<close>

definition entry_of :: "poker \<Rightarrow> pid \<Rightarrow> rank_entry" where
  "entry_of p i = \<lparr>rk_player = i, rk_bet = pl_bet (the_player p i),
     rk_rank = score_rank (fst (get_best_fives_score (sevens_of p (the_player p i))))\<rparr>"

lemma entry_of_fields [simp]:
  "rk_player (entry_of p i) = i" "rk_bet (entry_of p i) = pl_bet (the_player p i)"
  by (simp_all add: entry_of_def)

lemma rank_entry_of_Some:
  "in_showdown (the_player p i) \<Longrightarrow> rank_entry_of p i = Some (entry_of p i)"
  by (simp add: rank_entry_of_def in_showdown_def entry_of_def Let_def)

lemma read_ranks_full:
  assumes "\<forall>i\<in>set is. in_showdown (the_player p i)"
  shows "read_ranks (map (rank_entry_of p) is) = Inr (map (entry_of p) is)"
  using assms by (auto simp: read_ranks_def list_ex_iff rank_entry_of_None rank_entry_of_Some)

lemma count_ranks_full:
  assumes "\<forall>i\<in>set is. in_showdown (the_player p i)"
  shows "length (filter (\<lambda>r. r \<noteq> None) (map (rank_entry_of p) is)) = length is"
  using assms by (induction "is") (simp_all add: rank_entry_of_Some)

text \<open>\<open>same_balances\<close>: nobody's balance or bet differs.\<close>

definition same_balances :: "poker \<Rightarrow> poker \<Rightarrow> bool" where
  "same_balances p q \<longleftrightarrow> (\<forall>j. pl_balance (the_player q j) = pl_balance (the_player p j)
     \<and> pl_bet (the_player q j) = pl_bet (the_player p j))"

lemma same_balances_refl [simp]: "same_balances p p"
  by (simp add: same_balances_def)







text \<open>\<open>paid w x p q\<close>: the balance of \<open>w\<close> grew by \<open>x\<close>, and nothing else of balances and bets changed.\<close>

definition paid :: "pid \<Rightarrow> chips \<Rightarrow> poker \<Rightarrow> poker \<Rightarrow> bool" where
  "paid w x p q \<longleftrightarrow> (\<forall>j. pl_balance (the_player q j) = pl_balance (the_player p j) + (if j = w then x else 0)
     \<and> pl_bet (the_player q j) = pl_bet (the_player p j))"








definition showdown_rank :: "poker \<Rightarrow> pid \<Rightarrow> int" where
  "showdown_rank p i = score_rank (fst (get_best_fives_score (sevens_of p (the_player p i))))"



section \<open>Unequal bets\<close>

lemma two_entries_sorted:
  assumes "rk_rank b < rk_rank a"
  shows "exchange_sort rank_swaps 2 [a, b] = [a, b]" "exchange_sort rank_swaps 2 [b, a] = [a, b]"
  using assms by (simp_all add: exchange_sort_def exchange_row_def swap_if_def rank_swaps_def upt_rec)

text \<open>With two players in, a winner who has bet more than the loser gets back his own bet and
  nothing of the loser's: the loser's bet is in nobody's balance after the showdown.\<close>

theorem showdown_loses_the_shorter_bet:
  assumes "pk_players p = [w, l] \<or> pk_players p = [l, w]" "w \<noteq> l"
    and "in_showdown (the_player p w)" "in_showdown (the_player p l)"
    and "showdown_rank p l < showdown_rank p w"
    and "pl_bet (the_player p l) < pl_bet (the_player p w)"
  shows "\<exists>p'. showdown p = Inr p' \<and> pk_winner p' = Some w
    \<and> pl_balance (the_player p' w) = pl_balance (the_player p w) + pl_bet (the_player p w)
    \<and> pl_balance (the_player p' l) = pl_balance (the_player p l)"
proof -
  let ?rs = "[entry_of p w, entry_of p l]"
  let ?p = "p\<lparr>pk_scores := []\<rparr>"
  have in_all: "\<forall>i\<in>set (pk_players p). in_showdown (the_player p i)" using assms by auto
  have two: "length (pk_players p) = 2" using assms(1) by auto
  have "rk_rank (entry_of p l) < rk_rank (entry_of p w)"
    using assms(5) by (simp add: entry_of_def showdown_rank_def)
  then have sort: "exchange_sort rank_swaps 2 (map (entry_of p) (pk_players p)) = ?rs"
    using assms(1) two_entries_sorted by auto
  have upt: "[0..<2::nat] = [0, 1]" by (simp add: upt_rec)
  have row0: "pay_row 0 2 (?rs, add_balance w (pl_bet (the_player p w)) ?p)
      = ([entry_of p w, (entry_of p l)\<lparr>rk_bet := 0\<rparr>],
         add_balance w 0 (add_balance w (pl_bet (the_player p w)) ?p))"
    using assms(2,6) by (simp add: pay_row_def upt_rec pay_one_def Let_def not_le add_balance_def player_add_balance_def)
  have row1: "pay_row (Suc 0) 2 s = s" for s by (simp add: pay_row_def)
  have "\<exists>q. pay_loop [0..<2] 2 (pk_pot p) ?rs ?p = Inr q
      \<and> paid w (pl_bet (the_player p w)) ?p q"
    using assms(2) unfolding upt
    by (simp add: row0 row1 Let_def) (simp add: paid_def add_balance_def player_add_balance_def)
  then obtain q where q: "pay_loop [0..<2] 2 (pk_pot p) ?rs ?p = Inr q" "paid w (pl_bet (the_player p w)) ?p q"
    by blast
  have "showdown p = Inr (q\<lparr>pk_winner := Some w\<rparr>)"
    unfolding showdown_def Let_def read_ranks_full [OF in_all] count_ranks_full [OF in_all] two
      bindO_Inr sort
    using q(1) by simp
  then show ?thesis using q(2) assms(2) by (simp add: paid_def)
qed

definition short_stack_game :: poker where
  "short_stack_game = sample_river\<lparr>pk_players := [0, 1], pk_sorted := [0, 1],
     pk_store := (\<lambda>i. if i = 0 then (sample_player 0 0 8)\<lparr>pl_allin := True\<rparr> else (sample_player i 980 20)
       \<lparr>pl_cards := [sample_card 12 1, sample_card 12 2]\<rparr>), pk_pot := 28\<rparr>"

lemma short_stack_ranks: "showdown_rank short_stack_game 0 < showdown_rank short_stack_game 1"
  by code_simp

theorem showdown_loses_the_shorter_bet_witness:
  "\<exists>p'. showdown short_stack_game = Inr p' \<and> pl_balance (the_player p' 1) = 1000
    \<and> pl_balance (the_player p' 0) = 0"
  using showdown_loses_the_shorter_bet [of short_stack_game 1 0] short_stack_ranks
  by (auto simp: short_stack_game_def the_player_def in_showdown_def)

end
