(* ===== verification/Poker_Deal.thy ===== *)
theory Poker_Deal
  imports Poker_Rules Card_Draw "HOL-Library.Sublist"
begin

text \<open>
  The cards of a game: no card is in two places. The deal to the players gives them the cards that it appends to
  the history of dealt cards, and every action appends to the history exactly the cards of the streets that it lays on
  the table (\<open>lays\<close>, \<open>laid\<close>).
\<close>

lemma draw_card_effect:
  assumes "draw_card p = Inr (c, q)" "wf_history (pk_history p)"
  shows "wf_history (pk_history q)" "dealt (pk_history q) = dealt (pk_history p) @ [c]"
    and "pk_store q = pk_store p" "pk_players q = pk_players p"
proof -
  obtain h d where g: "get_random (pk_draws p) (pk_history p) = Inr (c, h, d)"
    and q: "q = p\<lparr>pk_history := h, pk_draws := d\<rparr>"
    using assms(1) by (auto simp: draw_card_def)
  show "wf_history (pk_history q)" "dealt (pk_history q) = dealt (pk_history p) @ [c]"
    using get_random_wf [OF assms(2) g] q by simp_all
  show "pk_store q = pk_store p" "pk_players q = pk_players p" using q by simp_all
qed

section \<open>The deal to the players\<close>

lemma player_deal_effect:
  assumes "player_deal i p = Inr q" "wf_history (pk_history p)" "length (pl_cards (the_player p i)) = 2"
  shows "wf_history (pk_history q)"
    and "dealt (pk_history q) = dealt (pk_history p) @ pl_cards (the_player q i)"
    and "\<forall>j. j \<noteq> i \<longrightarrow> the_player q j = the_player p j" and "pk_players q = pk_players p"
proof -
  let ?p = "upd_player i (\<lambda>pl. pl\<lparr>pl_dealt := True\<rparr>) p"
  obtain c1 p1 where 1: "draw_card ?p = Inr (c1, p1)"
    and rest: "bindO (draw_card (upd_player i (\<lambda>pl. pl\<lparr>pl_cards := (pl_cards pl)[0 := c1]\<rparr>) p1))
        (\<lambda>(c, p). Inr (upd_player i (\<lambda>pl. pl\<lparr>pl_cards := (pl_cards pl)[1 := c]\<rparr>) p)) = Inr q"
    using assms(1) by (auto simp: player_deal_def Let_def)
  let ?p1 = "upd_player i (\<lambda>pl. pl\<lparr>pl_cards := (pl_cards pl)[0 := c1]\<rparr>) p1"
  obtain c2 p2 where 2: "draw_card ?p1 = Inr (c2, p2)"
    and q: "q = upd_player i (\<lambda>pl. pl\<lparr>pl_cards := (pl_cards pl)[1 := c2]\<rparr>) p2"
    using rest by auto
  note e1 = draw_card_effect [OF 1] and e2 = draw_card_effect [OF 2]
  have h1: "wf_history (pk_history p1)" "dealt (pk_history p1) = dealt (pk_history p) @ [c1]"
    using e1 assms(2) by simp_all
  have h2: "wf_history (pk_history p2)" "dealt (pk_history p2) = dealt (pk_history p) @ [c1, c2]"
    using e2 h1 by simp_all
  have s1: "the_player p1 = the_player ?p" using e1(3) assms(2) by (intro the_player_cong) simp
  have s2: "the_player p2 = the_player ?p1" using e2(3) h1(1) by (intro the_player_cong) simp
  obtain a b where ab: "pl_cards (the_player p i) = [a, b]"
    using assms(3) by (auto simp: eval_nat_numeral length_Suc_conv)
  show "wf_history (pk_history q)" using h2 q by simp
  show "dealt (pk_history q) = dealt (pk_history p) @ pl_cards (the_player q i)"
    using h2(2) ab by (simp add: q s2 s1)
  show "\<forall>j. j \<noteq> i \<longrightarrow> the_player q j = the_player p j" by (simp add: q s2 s1)
  show "pk_players q = pk_players p" using e1(4) e2(4) h1(1) assms(2) by (simp add: q)
qed

lemma deal_all_effect:
  assumes "deal_all is p = Inr q" "wf_history (pk_history p)" "distinct is"
    and "\<forall>i\<in>set is. length (pl_cards (the_player p i)) = 2"
  shows "wf_history (pk_history q)
    \<and> dealt (pk_history q) = dealt (pk_history p) @ concat (map (\<lambda>i. pl_cards (the_player q i)) is)
    \<and> (\<forall>j. j \<notin> set is \<longrightarrow> the_player q j = the_player p j) \<and> pk_players q = pk_players p"
  using assms
proof (induction "is" arbitrary: p)
  case (Cons i "is")
  obtain p1 where p1: "player_deal i p = Inr p1" "deal_all is p1 = Inr q"
    using Cons.prems(1) by auto
  note e = player_deal_effect [OF p1(1)]
  have len: "length (pl_cards (the_player p i)) = 2" using Cons.prems(4) by simp
  have "\<forall>j\<in>set is. length (pl_cards (the_player p1 j)) = 2"
    using e(3) [OF Cons.prems(2) len] Cons.prems(3,4) by auto
  then have IH: "wf_history (pk_history q)"
    "dealt (pk_history q) = dealt (pk_history p1) @ concat (map (\<lambda>i. pl_cards (the_player q i)) is)"
    "\<forall>j. j \<notin> set is \<longrightarrow> the_player q j = the_player p1 j" "pk_players q = pk_players p1"
    using Cons.IH [OF p1(2)] e(1) [OF Cons.prems(2) len] Cons.prems(3) by auto
  have "the_player q i = the_player p1 i" using IH(3) Cons.prems(3) by simp
  then show ?case
    using IH e [OF Cons.prems(2) len] by auto
qed simp

text \<open>C26: The deal gives every player cards of his own: the cards that the players hold after it
  are exactly the cards appended to the history, in the order of the players, so no card is
  held twice or was dealt before.\<close>

theorem players_deal_distinct_cards:
  assumes "players_deal p = Inr q" "wf_history (pk_history p)" "distinct (pk_players p)"
    and "\<forall>i \<in> set (pk_players p). length (pl_cards (the_player p i)) = 2"
  shows "dealt (pk_history q)
      = dealt (pk_history p) @ concat (map (\<lambda>i. pl_cards (the_player q i)) (pk_players q))
    \<and> distinct (dealt (pk_history q)) \<and> wf_history (pk_history q)"
proof -
  obtain r where r: "deal_all (pk_players p) p = Inr r" and q: "q = r\<lparr>pk_is_dealt := True\<rparr>"
    using assms(1) by (auto simp: players_deal_def)
  have "wf_history (pk_history q)" using deal_all_effect [OF r assms(2,3,4)] q by simp
  then show ?thesis
    using deal_all_effect [OF r assms(2,3,4)] q by (simp add: wf_history_def)
qed

definition undealt_game :: poker where
  "undealt_game = sample_game\<lparr>pk_history := empty_history,
     pk_draws := [12, 0, 11, 1, 9, 2, 7, 0, 12, 0, 5, 1, 3, 2]\<rparr>"

lemma undealt_game_deals: "succeeds (players_deal undealt_game) (\<lambda>q. pk_is_dealt q \<and> pk_players q = [0, 1, 2])"
  by code_simp

theorem players_deal_distinct_cards_witness:
  "\<exists>q. players_deal undealt_game = Inr q
    \<and> dealt (pk_history q) = concat (map (\<lambda>i. pl_cards (the_player q i)) [0, 1, 2])"
proof -
  obtain q where q: "players_deal undealt_game = Inr q" "pk_players q = [0, 1, 2]"
    using undealt_game_deals by (auto simp: succeeds_iff)
  then show ?thesis using players_deal_distinct_cards [OF q(1)] wf_empty_history
    by (simp add: undealt_game_def)
qed

section \<open>Every action deals fresh cards only\<close>

text \<open>The streets, in the order in which they are laid on the table, with the state of the game that each begins and
  the cards it has: three for the flop, one for the turn and one for the river, in the first of three slots.\<close>

definition street_state :: "hand_kind \<Rightarrow> poker_state" where
  "street_state k = (case k of HAND_PREFLOP \<Rightarrow> PREFLOP | HAND_FLOP \<Rightarrow> FLOP | HAND_TURN \<Rightarrow> TURN | HAND_RIVER \<Rightarrow> RIVER)"

definition streets_left :: "poker_state \<Rightarrow> hand_kind list" where
  "streets_left s = filter (\<lambda>k. s < street_state k) [HAND_FLOP, HAND_TURN, HAND_RIVER]"

definition street_cards :: "poker \<Rightarrow> hand_kind \<Rightarrow> card list" where
  "street_cards p k = take (if k = HAND_FLOP then 3 else 1) (hd_cards (pk_hands p k))"

definition slots_ok :: "poker \<Rightarrow> bool" where
  "slots_ok p \<longleftrightarrow> (\<forall>k. length (hd_cards (pk_hands p k)) = 3)"

text \<open>\<open>lays ks p q\<close>: the streets \<open>ks\<close> have been laid, with the cards that the history has got, and every other card
  of the table and of the players is where it was.\<close>

definition lays :: "hand_kind list \<Rightarrow> poker \<Rightarrow> poker \<Rightarrow> bool" where
  "lays ks p q \<longleftrightarrow> (slots_ok p \<and> wf_history (pk_history p) \<longrightarrow>
     slots_ok q \<and> wf_history (pk_history q)
     \<and> dealt (pk_history q) = dealt (pk_history p) @ concat (map (street_cards q) ks)
     \<and> (\<forall>k. k \<notin> set ks \<longrightarrow> hd_cards (pk_hands q k) = hd_cards (pk_hands p k))
     \<and> (\<forall>i. pl_cards (the_player q i) = pl_cards (the_player p i)))"

lemma lays_state [simp]: "lays ks p (q\<lparr>pk_state := s\<rparr>) = lays ks p q"
proof -
  have "street_cards (q\<lparr>pk_state := s\<rparr>) = street_cards q" by (simp add: fun_eq_iff street_cards_def)
  then show ?thesis by (simp add: lays_def slots_ok_def)
qed

lemma lays_trans:
  assumes "lays ks p q" "lays ls q r" "set ks \<inter> set ls = {}"
  shows "lays (ks @ ls) p r"
  unfolding lays_def
proof (intro impI)
  assume ok: "slots_ok p \<and> wf_history (pk_history p)"
  note a = assms(1) [unfolded lays_def, rule_format, OF ok]
  then have b: "slots_ok r \<and> wf_history (pk_history r)
     \<and> dealt (pk_history r) = dealt (pk_history q) @ concat (map (street_cards r) ls)
     \<and> (\<forall>k. k \<notin> set ls \<longrightarrow> hd_cards (pk_hands r k) = hd_cards (pk_hands q k))
     \<and> (\<forall>i. pl_cards (the_player r i) = pl_cards (the_player q i))"
    using assms(2) by (simp add: lays_def)
  have "street_cards r k = street_cards q k" if "k \<in> set ks" for k
    using b assms(3) that unfolding street_cards_def by (metis disjoint_iff)
  then have c: "concat (map (street_cards r) ks) = concat (map (street_cards q) ks)"
    by (intro arg_cong [of _ _ concat] map_cong) auto
  have "dealt (pk_history r) = dealt (pk_history p) @ concat (map (street_cards r) (ks @ ls))"
    using a b c by simp
  moreover have "\<forall>k. k \<notin> set (ks @ ls) \<longrightarrow> hd_cards (pk_hands r k) = hd_cards (pk_hands p k)"
    using a b by simp
  moreover have "\<forall>i. pl_cards (the_player r i) = pl_cards (the_player p i)" using a b by simp
  ultimately show "slots_ok r \<and> wf_history (pk_history r)
     \<and> dealt (pk_history r) = dealt (pk_history p) @ concat (map (street_cards r) (ks @ ls))
     \<and> (\<forall>k. k \<notin> set (ks @ ls) \<longrightarrow> hd_cards (pk_hands r k) = hd_cards (pk_hands p k))
     \<and> (\<forall>i. pl_cards (the_player r i) = pl_cards (the_player p i))"
    using b by blast
qed

text \<open>The stages that leave all cards alone.\<close>

definition same_cards :: "poker \<Rightarrow> poker \<Rightarrow> bool" where
  "same_cards p q \<longleftrightarrow> pk_history q = pk_history p \<and> (\<forall>k. hd_cards (pk_hands q k) = hd_cards (pk_hands p k))
     \<and> (\<forall>i. pl_cards (the_player q i) = pl_cards (the_player p i))"

lemma same_cards_lays: "same_cards p q \<Longrightarrow> lays [] p q"
  by (simp add: same_cards_def lays_def slots_ok_def)

lemma same_cards_refl [simp]: "same_cards p p"
  by (simp add: same_cards_def)

lemma same_cards_trans: "same_cards p q \<Longrightarrow> same_cards q r \<Longrightarrow> same_cards p r"
  by (simp add: same_cards_def)

lemma hd_cards_upd_hand:
  "(\<And>h. hd_cards (f h) = hd_cards h) \<Longrightarrow> hd_cards (pk_hands (upd_hand k f p) j) = hd_cards (pk_hands p j)"
  by (simp add: upd_hand_def)

lemma same_cards_fields [simp]:
  "same_cards p (pk_playing_position_update f1 q) = same_cards p q" "same_cards p (pk_synced_update f2 q) = same_cards p q"
  "same_cards p (pk_state_update f3 q) = same_cards p q" "same_cards p (pk_playing_last_update f4 q) = same_cards p q"
  "same_cards p (pk_sb_must_call_update f5 q) = same_cards p q" "same_cards p (pk_last_raised_pos_update f6 q) = same_cards p q"
  "same_cards p (pk_last_pos_before_raise_update f7 q) = same_cards p q" "same_cards p (pk_current_raise_update f8 q) = same_cards p q"
  "same_cards p (pk_current_raise_total_update f9 q) = same_cards p q" "same_cards p (pk_current_bet_update g1 q) = same_cards p q"
  "same_cards p (pk_pot_update g2 q) = same_cards p q" "same_cards p (pk_winner_update g3 q) = same_cards p q"
  "same_cards p (pk_scores_update g4 q) = same_cards p q" "same_cards p (pk_action_time_update g5 q) = same_cards p q"
  "same_cards p (pk_posted_update g6 q) = same_cards p q"
  by (simp_all add: same_cards_def)

lemma same_cards_player:
  "(\<And>pl. pl_cards (f pl) = pl_cards pl) \<Longrightarrow> same_cards p (upd_player i f q) = same_cards p q"
  by (auto simp: same_cards_def upd_player_def the_player_def)

lemma same_cards_hand: "(\<And>h. hd_cards (f h) = hd_cards h) \<Longrightarrow> same_cards p (upd_hand k f q) = same_cards p q"
  by (simp add: same_cards_def hd_cards_upd_hand)

lemmas cards_simps = same_cards_player same_cards_hand take_balance_effect put_in_def add_balance_def actions_add_def
  player_add_balance_def player_set_balance_def Let_def

lemma betting_stages_cards:
  assumes "betting_stages h i a p = Inr (Continue q)"
  shows "same_cards p q"
proof -
  have blind: "same_cards s t"
    if "small_blind_stage i a s = Inr (Continue t) \<or> big_blind_stage h i a s = Inr (Continue t)" for s t
    using that by (auto simp: small_blind_stage_def big_blind_stage_def cards_simps split: if_splits option.splits)
  have act: "same_cards s t" if "action_stage h i a s = Inr (Continue t)" for s t
  proof (cases "act_kind a")
    case ActRaise
    then have "raise_stage h i a s = Inr (Continue t)" using that by (simp add: action_stage_def)
    then show ?thesis
      by (rule raise_stage_split) (auto simp: raise_effect_def cards_simps)
  next
    case ActCheck
    then show ?thesis using that
      by (auto simp: action_stage_def check_stage_def call_effect_def cards_simps split: if_splits option.splits)
  qed (use that in \<open>auto simp: action_stage_def fold_stage_def cards_simps\<close>)
  show ?thesis using assms blind act same_cards_trans by (auto simp: betting_stages_def bindS_Continue) metis+
qed

text \<open>Dealing a street lays it.\<close>

lemma deal_to_hand_cards:
  assumes "deal_to_hand h k p = Inr q" "wf_history (pk_history p)"
  shows "\<exists>c. wf_history (pk_history q) \<and> dealt (pk_history q) = dealt (pk_history p) @ [c]
    \<and> hd_cards (pk_hands q h) = (hd_cards (pk_hands p h))[k := c]
    \<and> (\<forall>j. j \<noteq> h \<longrightarrow> hd_cards (pk_hands q j) = hd_cards (pk_hands p j)) \<and> the_player q = the_player p"
proof -
  obtain c p1 where d: "draw_card p = Inr (c, p1)" "q = upd_hand h (\<lambda>hd. hd\<lparr>hd_cards := (hd_cards hd)[k := c]\<rparr>) p1"
    using assms(1) by (auto simp: deal_to_hand_def)
  have "pk_hands p1 = pk_hands p" "the_player p1 = the_player p"
    using d(1) by (auto simp: draw_card_def the_player_def fun_eq_iff)
  then show ?thesis using draw_card_effect(1,2) [OF d(1) assms(2)] d(2) by (auto simp: upd_hand_def the_player_def fun_eq_iff)
qed

lemma one_card_lays:
  assumes "deal_to_hand h 0 p = Inr q" "h \<noteq> HAND_FLOP"
  shows "lays [h] p q"
  unfolding lays_def
proof (intro impI)
  assume ok: "slots_ok p \<and> wf_history (pk_history p)"
  then obtain c where c: "wf_history (pk_history q)" "dealt (pk_history q) = dealt (pk_history p) @ [c]"
    "hd_cards (pk_hands q h) = (hd_cards (pk_hands p h))[0 := c]"
    "\<forall>j. j \<noteq> h \<longrightarrow> hd_cards (pk_hands q j) = hd_cards (pk_hands p j)" "the_player q = the_player p"
    using deal_to_hand_cards [OF assms(1)] by blast
  have l: "length (hd_cards (pk_hands p h)) = 3" using ok by (simp add: slots_ok_def)
  then have "street_cards q h = [c]"
    using c(3) assms(2) by (cases "hd_cards (pk_hands p h)") (auto simp: street_cards_def)
  moreover have "slots_ok q" unfolding slots_ok_def using c(3,4) ok by (metis length_list_update slots_ok_def)
  ultimately show "slots_ok q \<and> wf_history (pk_history q)
     \<and> dealt (pk_history q) = dealt (pk_history p) @ concat (map (street_cards q) [h])
     \<and> (\<forall>k. k \<notin> set [h] \<longrightarrow> hd_cards (pk_hands q k) = hd_cards (pk_hands p k))
     \<and> (\<forall>i. pl_cards (the_player q i) = pl_cards (the_player p i))"
    using c by simp
qed

lemma flop_lays:
  assumes "deal_flop p = Inr q"
  shows "lays [HAND_FLOP] p q"
  unfolding lays_def
proof (intro impI)
  assume ok: "slots_ok p \<and> wf_history (pk_history p)"
  obtain p1 p2 where d: "deal_to_hand HAND_FLOP 0 p = Inr p1" "deal_to_hand HAND_FLOP 1 p1 = Inr p2"
    "deal_to_hand HAND_FLOP 2 p2 = Inr q" using assms by (auto simp: deal_flop_def)
  obtain x where x: "wf_history (pk_history p1)" "dealt (pk_history p1) = dealt (pk_history p) @ [x]"
    "hd_cards (pk_hands p1 HAND_FLOP) = (hd_cards (pk_hands p HAND_FLOP))[0 := x]"
    "\<forall>j. j \<noteq> HAND_FLOP \<longrightarrow> hd_cards (pk_hands p1 j) = hd_cards (pk_hands p j)" "the_player p1 = the_player p"
    using deal_to_hand_cards [OF d(1)] ok by blast
  obtain y where y: "wf_history (pk_history p2)" "dealt (pk_history p2) = dealt (pk_history p1) @ [y]"
    "hd_cards (pk_hands p2 HAND_FLOP) = (hd_cards (pk_hands p1 HAND_FLOP))[1 := y]"
    "\<forall>j. j \<noteq> HAND_FLOP \<longrightarrow> hd_cards (pk_hands p2 j) = hd_cards (pk_hands p1 j)" "the_player p2 = the_player p1"
    using deal_to_hand_cards [OF d(2) x(1)] by blast
  obtain z where z: "wf_history (pk_history q)" "dealt (pk_history q) = dealt (pk_history p2) @ [z]"
    "hd_cards (pk_hands q HAND_FLOP) = (hd_cards (pk_hands p2 HAND_FLOP))[2 := z]"
    "\<forall>j. j \<noteq> HAND_FLOP \<longrightarrow> hd_cards (pk_hands q j) = hd_cards (pk_hands p2 j)" "the_player q = the_player p2"
    using deal_to_hand_cards [OF d(3) y(1)] by blast
  obtain a b c where "hd_cards (pk_hands p HAND_FLOP) = [a, b, c]"
    using ok by (auto simp: slots_ok_def eval_nat_numeral length_Suc_conv dest!: spec [of _ HAND_FLOP])
  then have f: "hd_cards (pk_hands q HAND_FLOP) = [x, y, z]" using x(3) y(3) z(3) by (simp add: eval_nat_numeral)
  have other: "\<forall>j. j \<noteq> HAND_FLOP \<longrightarrow> hd_cards (pk_hands q j) = hd_cards (pk_hands p j)" using x(4) y(4) z(4) by simp
  have "slots_ok q" using f other ok unfolding slots_ok_def by (metis length_Cons list.size(3) numeral_3_eq_3)
  moreover have "dealt (pk_history q) = dealt (pk_history p) @ [x, y, z]" using x(2) y(2) z(2) by simp
  moreover have "street_cards q HAND_FLOP = [x, y, z]" using f by (simp add: street_cards_def)
  moreover have "\<forall>i. pl_cards (the_player q i) = pl_cards (the_player p i)" using x(5) y(5) z(5) by simp
  ultimately show "slots_ok q \<and> wf_history (pk_history q)
     \<and> dealt (pk_history q) = dealt (pk_history p) @ concat (map (street_cards q) [HAND_FLOP])
     \<and> (\<forall>k. k \<notin> set [HAND_FLOP] \<longrightarrow> hd_cards (pk_hands q k) = hd_cards (pk_hands p k))
     \<and> (\<forall>i. pl_cards (the_player q i) = pl_cards (the_player p i))"
    using z(1) other by simp
qed

lemma street_lays:
  "deal_flop p = Inr q \<Longrightarrow> lays [HAND_FLOP] p q" "deal_turn p = Inr q \<Longrightarrow> lays [HAND_TURN] p q"
  "deal_river p = Inr q \<Longrightarrow> lays [HAND_RIVER] p q"
  using flop_lays one_card_lays by (simp_all add: deal_turn_def deal_river_def)


text \<open>\<open>laid p q\<close>: what has been laid are the next streets, up to the state that has been reached.\<close>

definition laid :: "poker \<Rightarrow> poker \<Rightarrow> bool" where
  "laid p q \<longleftrightarrow> (\<exists>ks. prefix ks (streets_left (pk_state p)) \<and> lays ks p q
     \<and> (pk_state q \<noteq> DONE \<longrightarrow> pk_state p \<le> pk_state q
        \<and> ks = filter (\<lambda>k. street_state k \<le> pk_state q) (streets_left (pk_state p))))"

lemma streets_left_simps [simp]:
  "streets_left PREFLOP = [HAND_FLOP, HAND_TURN, HAND_RIVER]" "streets_left FLOP = [HAND_TURN, HAND_RIVER]"
  "streets_left TURN = [HAND_RIVER]" "streets_left RIVER = []" "streets_left DONE = []"
  by (simp_all add: streets_left_def street_state_def state_less_simps)

lemma no_street_left: "filter (\<lambda>k. street_state k \<le> s) (streets_left s) = []"
  by (auto simp: streets_left_def filter_empty_conv)

lemma streets_split:
  assumes "s \<le> t"
  shows "filter (\<lambda>k. street_state k \<le> t) (streets_left s) @ streets_left t = streets_left s"
    and "t \<le> u \<Longrightarrow> filter (\<lambda>k. street_state k \<le> t) (streets_left s)
      @ filter (\<lambda>k. street_state k \<le> u) (streets_left t) = filter (\<lambda>k. street_state k \<le> u) (streets_left s)"
    and "set (filter (\<lambda>k. street_state k \<le> t) (streets_left s)) \<inter> set (streets_left t) = {}"
proof -
  show split: "filter (\<lambda>k. street_state k \<le> t) (streets_left s) @ streets_left t = streets_left s"
    using assms by (cases s; cases t) (simp_all add: streets_left_def street_state_def less_eq_poker_state_def less_poker_state_def state_index_def)
  show "filter (\<lambda>k. street_state k \<le> t) (streets_left s)
      @ filter (\<lambda>k. street_state k \<le> u) (streets_left t) = filter (\<lambda>k. street_state k \<le> u) (streets_left s)" if "t \<le> u"
  proof -
    have "filter (\<lambda>k. street_state k \<le> u) (filter (\<lambda>k. street_state k \<le> t) (streets_left s))
        = filter (\<lambda>k. street_state k \<le> t) (streets_left s)"
      using that by (auto intro!: filter_cong)
    then show ?thesis using arg_cong [OF split, of "filter (\<lambda>k. street_state k \<le> u)"] by simp
  qed
  show "set (filter (\<lambda>k. street_state k \<le> t) (streets_left s)) \<inter> set (streets_left t) = {}"
    by (auto simp: streets_left_def)
qed

lemma laid_same: "same_cards p q \<Longrightarrow> pk_state q = pk_state p \<or> pk_state q = DONE \<Longrightarrow> laid p q"
  unfolding laid_def using same_cards_lays [of p q] no_street_left
  by (intro exI [of _ "[]"]) auto

lemma done_is_last: "DONE \<le> s \<Longrightarrow> s = DONE"
  by (cases s) (simp_all add: less_eq_poker_state_def state_index_def)

lemma laid_trans:
  assumes "laid p q" "laid q r"
  shows "laid p r"
proof -
  obtain ks where ks: "prefix ks (streets_left (pk_state p))" "lays ks p q"
    "pk_state q \<noteq> DONE \<Longrightarrow> pk_state p \<le> pk_state q \<and> ks = filter (\<lambda>k. street_state k \<le> pk_state q) (streets_left (pk_state p))"
    using assms(1) by (auto simp: laid_def)
  obtain ls where ls: "prefix ls (streets_left (pk_state q))" "lays ls q r"
    "pk_state r \<noteq> DONE \<Longrightarrow> pk_state q \<le> pk_state r \<and> ls = filter (\<lambda>k. street_state k \<le> pk_state r) (streets_left (pk_state q))"
    using assms(2) by (auto simp: laid_def)
  show ?thesis
  proof (cases "pk_state q = DONE")
    case True
    then have "ls = []" "pk_state r = DONE" using ls(1,3) done_is_last by auto
    then show ?thesis using ks lays_trans [OF ks(2) ls(2)] by (auto simp: laid_def)
  next
    case False
    note s = streets_split [OF conjunct1 [OF ks(3) [OF False]]]
    have k: "ks = filter (\<lambda>k. street_state k \<le> pk_state q) (streets_left (pk_state p))" using ks(3) False by simp
    have "set ks \<inter> set ls = {}" using s(3) k set_mono_prefix [OF ls(1)] by blast
    then have "lays (ks @ ls) p r" by (rule lays_trans [OF ks(2) ls(2)])
    moreover have "prefix (ks @ ls) (streets_left (pk_state p))"
      using s(1) k ls(1) by (metis same_prefix_prefix)
    moreover have "pk_state p \<le> pk_state r \<and> ks @ ls = filter (\<lambda>k. street_state k \<le> pk_state r) (streets_left (pk_state p))"
      if "pk_state r \<noteq> DONE"
      using s(2) [of "pk_state r"] k ls(3) [OF that] ks(3) [OF False] by auto
    ultimately show ?thesis unfolding laid_def by blast
  qed
qed


section \<open>The stages after the betting lay the streets\<close>

lemma record_stage_cards: "same_cards p (record_stage h i a p) \<and> pk_state (record_stage h i a p) = pk_state p"
  by (simp add: record_stage_def cards_simps)

lemma next_player_cards: "next_player p = Inr q \<Longrightarrow> same_cards p q \<and> pk_state q = pk_state p"
  by (auto dest: next_player_effect)

lemma advance_street_cards: "advance_street nxt p = Inr q \<Longrightarrow> same_cards p q \<and> pk_state q = nxt"
  by (auto simp: advance_street_def Let_def split: if_splits)

lemma award_last_laid: "award_last p = Inr q \<Longrightarrow> laid p q"
  by (auto dest!: award_last_effect intro!: laid_same simp: cards_simps)

lemma laid_update: "same_cards p q \<Longrightarrow> pk_state q = pk_state p \<Longrightarrow> laid q r \<Longrightarrow> laid p r"
  using laid_same laid_trans by blast

definition flow_state :: "flow \<Rightarrow> poker" where
  "flow_state f = (case f of Fall p \<Rightarrow> p | Action_end p \<Rightarrow> p | Showdown p \<Rightarrow> p)"

text \<open>\<open>street_step s nxt deal\<close>: dealing lays exactly the streets between the state \<open>s\<close> and its successor.\<close>

definition street_step :: "poker_state \<Rightarrow> poker_state \<Rightarrow> (poker \<Rightarrow> poker outcome) \<Rightarrow> bool" where
  "street_step s nxt deal \<longleftrightarrow> s \<le> nxt \<and> (\<forall>p q. deal p = Inr q \<longrightarrow> pk_state q = pk_state p
     \<and> lays (filter (\<lambda>k. street_state k \<le> nxt) (streets_left s)) p q)"

lemma street_steps:
  "street_step PREFLOP FLOP deal_flop" "street_step FLOP TURN deal_turn" "street_step TURN RIVER deal_river"
  "street_step RIVER DONE Inr"
  using street_lays deals_only_cards same_cards_lays
  by (auto simp: street_step_def street_state_def state_less_simps only_cards_def)

lemma end_of_round_laid:
  assumes "end_of_round nxt deal playing i p = Inr f" "street_step (pk_state p) nxt deal"
  shows "laid p (flow_state f)"
proof -
  obtain last where l: "(if last then bindO (advance_street nxt p) (\<lambda>p. bindO (deal p) (\<lambda>p. Inr (Fall p)))
      else Inr (Fall p)) = Inr f"
    using assms(1) by (auto simp: end_of_round_def)
  show ?thesis
  proof (cases last)
    case True
    let ?ks = "filter (\<lambda>k. street_state k \<le> nxt) (streets_left (pk_state p))"
    obtain p1 q where 1: "advance_street nxt p = Inr p1" and q: "deal p1 = Inr q" "f = Fall q"
      using l True by auto
    have "lays ?ks p1 q" "pk_state q = nxt" "pk_state p \<le> nxt"
      using assms(2) q(1) advance_street_cards [OF 1] by (auto simp: street_step_def)
    moreover from this have "lays ?ks p q"
      using lays_trans [OF same_cards_lays] advance_street_cards [OF 1] by fastforce
    moreover have "prefix ?ks (streets_left (pk_state p))"
      using streets_split(1) [OF \<open>pk_state p \<le> nxt\<close>] by (metis prefixI)
    ultimately show ?thesis using q(2) by (auto simp: laid_def flow_state_def)
  qed (use l in \<open>auto simp: flow_state_def intro: laid_same\<close>)
qed

lemma street_round_laid:
  assumes "street_round nxt deal fc playing ingame i a p = Inr f" "street_step (pk_state p) nxt deal"
  shows "laid p (flow_state f)"
proof -
  have plain: "laid p (flow_state f)" if "end_of_round nxt deal playing i p = Inr f"
    by (rule end_of_round_laid [OF that assms(2)])
  have synced: "laid p (flow_state f)" if "end_of_round nxt deal playing i (p\<lparr>pk_synced := n\<rparr>) = Inr f" for n
    using end_of_round_laid [OF that] assms(2) by (intro laid_update [of p "p\<lparr>pk_synced := n\<rparr>"]) auto
  have award: "laid p q" if "award_last p = Inr q" for q using that by (rule award_last_laid)
  have stay: "laid p p" by (simp add: laid_same)
  show ?thesis
    using assms(1) plain synced award stay
    by (cases "act_kind a") (auto simp: street_round_def flow_state_def split: if_splits)
qed

lemma round_stage_laid:
  assumes "round_stage playing ingame i a p = Inr f"
  shows "laid p (flow_state f)"
proof -
  have river: ?thesis if s: "pk_state p = RIVER"
  proof -
    obtain g where g: "street_round DONE Inr False playing ingame i a p = Inr g"
      and f: "(case g of Fall q \<Rightarrow> Inr (if pk_state q = DONE then Showdown q else Fall q) | _ \<Rightarrow> Inr g) = (Inr f :: flow outcome)"
      using assms s by (auto simp: round_stage_def river_round_def)
    have "laid p (flow_state g)" using street_round_laid [OF g] street_steps(4) s by simp
    then show ?thesis using f by (cases g) (auto simp: flow_state_def)
  qed
  have streets: "pk_state p = PREFLOP \<Longrightarrow> ?thesis" "pk_state p = FLOP \<Longrightarrow> ?thesis" "pk_state p = TURN \<Longrightarrow> ?thesis"
    using assms street_round_laid [of _ _ _ playing ingame i a p f] street_steps
    by (simp_all add: round_stage_def preflop_round_def flop_round_def turn_round_def)
  have other: ?thesis if "pk_state p \<notin> {PREFLOP, FLOP, TURN, RIVER}"
    using assms that by (auto simp: round_stage_def flow_state_def intro: laid_same)
  show ?thesis using river streets other by blast
qed

lemma runout_stage_laid:
  assumes "runout_stage playing p = Inr f"
  shows "laid p (flow_state f)"
proof (cases "pk_playing_last p \<or> playing = 0")
  case True
  then obtain q where q: "(if pk_state p = PREFLOP
              then bindO (deal_flop p) (\<lambda>p. bindO (deal_turn p) deal_river)
              else if pk_state p = FLOP then bindO (deal_turn p) deal_river
              else if pk_state p = TURN then deal_river p else Inr p) = Inr q"
    and f: "f = Showdown (q\<lparr>pk_state := DONE\<rparr>)"
    using assms by (auto simp: runout_stage_def)
  have "\<exists>ks. prefix ks (streets_left (pk_state p)) \<and> lays ks p q"
  proof (cases "pk_state p \<in> {PREFLOP, FLOP, TURN}")
    case True
    then have "lays (streets_left (pk_state p)) p q"
      using q lays_trans [of "[HAND_FLOP]" p _ "[HAND_TURN, HAND_RIVER]" q] lays_trans [of "[HAND_TURN]" _ _ "[HAND_RIVER]" q]
      by (auto dest!: street_lays split: if_splits)
    then show ?thesis by blast
  qed (use q same_cards_lays in \<open>auto intro: exI [of _ "[]"]\<close>)
  then obtain ks where "prefix ks (streets_left (pk_state p))" "lays ks p (q\<lparr>pk_state := DONE\<rparr>)"
    by auto
  then show ?thesis using f by (auto simp: laid_def flow_state_def)
qed (use assms in \<open>auto simp: runout_stage_def flow_state_def intro!: laid_same split: if_splits\<close>)


section \<open>The showdown leaves the cards alone\<close>

lemma pay_one_cards: "same_cards p (snd s) \<Longrightarrow> same_cards p (snd (pay_one i j s))"
  by (cases s) (simp add: pay_one_def cards_simps)

lemma fold_pay_cards: "same_cards p (snd s) \<Longrightarrow> same_cards p (snd (fold (pay_one i) js s))"
  by (induction js arbitrary: s) (simp_all add: pay_one_cards)

lemma pay_loop_cards: "pay_loop is n d rs p = Inr q \<Longrightarrow> same_cards p q"
proof (induction "is" arbitrary: d rs p)
  case (Cons i "is")
  obtain rs' p' where row: "pay_row i n (rs, add_balance (rk_player (rs ! i)) (rk_bet (rs ! i)) p) = (rs', p')"
    by (metis surj_pair)
  have "same_cards p p'"
    using fold_pay_cards [of p "(rs, add_balance (rk_player (rs ! i)) (rk_bet (rs ! i)) p)" i "[i + 1..<n]"] row
    by (simp add: pay_row_def cards_simps)
  then have step: "same_cards p (upd_player j (\<lambda>pl. pl\<lparr>pl_ref := ref_counted_use (pl_ref pl)\<rparr>) p'\<lparr>pk_scores := sc\<rparr>)" for j sc
    by (simp add: same_cards_player)
  consider "q = upd_player (rk_player (rs ! i)) (\<lambda>pl. pl\<lparr>pl_ref := ref_counted_use (pl_ref pl)\<rparr>) p'
      \<lparr>pk_scores := pk_scores q\<rparr>"
    | sc d' where "pay_loop is n d' rs' (upd_player (rk_player (rs ! i)) (\<lambda>pl. pl\<lparr>pl_ref := ref_counted_use (pl_ref pl)\<rparr>) p'
      \<lparr>pk_scores := sc\<rparr>) = Inr q"
    using Cons.prems by (auto simp: Let_def row split: if_splits)
  then show ?case
  proof cases
    case 1
    then show ?thesis using step by metis
  next
    case 2
    then show ?thesis using Cons.IH step same_cards_trans by blast
  qed
qed simp

lemma finish_flow_laid:
  assumes "finish_flow f = Inr q"
  shows "laid (flow_state f) q"
proof (cases f)
  case (Showdown p)
  then obtain js n d rs r w where r: "pay_loop js n d rs (p\<lparr>pk_scores := []\<rparr>) = Inr r"
    and q: "q = r\<lparr>pk_winner := w\<rparr>"
    using assms by (auto simp: finish_flow_def showdown_def Let_def split: if_splits)
  have "same_cards p r" using pay_loop_cards [OF r] same_cards_trans [of p "p\<lparr>pk_scores := []\<rparr>" r] by simp
  then show ?thesis using q pay_loop_frame [OF r] Showdown by (auto simp: flow_state_def intro!: laid_same)
qed (use assms in \<open>auto simp: finish_flow_def flow_state_def intro: laid_same\<close>)

lemma after_betting_laid:
  assumes "after_betting h i a p = Inr q"
  shows "laid p q"
proof -
  define p0 where "p0 = record_stage h i a p"
  obtain p1 f g where p1: "(if playing_count p0 = 0 then Inr p0 else next_player p0) = Inr p1"
    and f: "round_stage (playing_count p0) (ingame_count p0) i a p1 = Inr f"
    and g: "(case f of Fall p \<Rightarrow> runout_stage (playing_count p0) p | _ \<Rightarrow> Inr f) = Inr g"
    and q: "finish_flow g = Inr q"
    using assms unfolding after_betting_def Let_def p0_def [symmetric] by auto
  have "same_cards p p1 \<and> pk_state p1 = pk_state p"
    using p1 next_player_cards [of p0 p1] record_stage_cards [of p h i a] same_cards_trans [of p p0 p1]
    by (auto simp: p0_def [symmetric] split: if_splits)
  then have 1: "laid p p1" by (simp add: laid_same)
  have 2: "laid p1 (flow_state f)" by (rule round_stage_laid [OF f])
  have 3: "laid (flow_state f) (flow_state g)"
    using g runout_stage_laid by (cases f) (auto simp: flow_state_def intro: laid_same)
  show ?thesis using 1 2 3 finish_flow_laid [OF q] laid_trans by blast
qed

lemma do_action_laid:
  assumes "do_action now p i a = Inr (p', b)"
  shows "laid p p'"
proof (cases b)
  case True
  obtain h q r where s: "betting_stages h i a p = Inr (Continue q)"
    and r: "after_betting h i a q = Inr r" and p': "p' = action_end now i a r"
    using do_action_accepted assms(1) True by metis
  have "laid p q" using betting_stages_cards [OF s] betting_stages_frame [OF s] by (simp add: laid_same)
  moreover have "laid r p'" unfolding p' by (intro laid_same) (simp_all add: action_end_def)
  ultimately show ?thesis using after_betting_laid [OF r] laid_trans by blast
next
  case False
  have "p' = p"
  proof (cases "action_refused p i")
    case ok: False
    then obtain h s where s: "betting_stages h i a p = Inr s"
      and rest: "(case s of Reject p \<Rightarrow> Inr (p, False)
        | Continue p \<Rightarrow> bindO (after_betting h i a p) (\<lambda>p. Inr (action_end now i a p, True)))
        = (Inr (p', False) :: (poker \<times> bool) outcome)"
      using assms(1) False by (auto simp: do_action_def)
    then show ?thesis using betting_stages_reject by (cases s) auto
  qed (use assms(1) in \<open>simp add: do_action_def\<close>)
  then show ?thesis by (simp add: laid_same)
qed


text \<open>C27: Every action, to the end of the game included, deals fresh cards only and puts them on the table. The
  history of dealt cards, well formed before, stays well formed, so no card is in it twice, and what is appended to it
  are exactly the cards of the next streets as they lie on the table after the action: the three cards of the flop,
  the first card of the turn's hand and of the river's, each hand having its three places. The streets are those up to
  the state that the game has reached; when the game has ended, they are the first of those that were left, maybe none or all.
  The cards of all other hands of the table and those of the players stay what they were.\<close>

theorem do_action_deals_fresh:
  assumes "do_action now p i a = Inr (p', b)" "wf_history (pk_history p)" "slots_ok p"
  shows "\<exists>ks. prefix ks (streets_left (pk_state p))
    \<and> dealt (pk_history p') = dealt (pk_history p) @ concat (map (street_cards p') ks)
    \<and> wf_history (pk_history p') \<and> distinct (dealt (pk_history p')) \<and> slots_ok p'
    \<and> (pk_state p' = DONE \<or> ks = filter (\<lambda>k. street_state k \<le> pk_state p') (streets_left (pk_state p)))
    \<and> (\<forall>k. k \<in> set ks \<or> hd_cards (pk_hands p' k) = hd_cards (pk_hands p k))
    \<and> (\<forall>j. pl_cards (the_player p' j) = pl_cards (the_player p j))"
proof -
  obtain ks where ks: "prefix ks (streets_left (pk_state p))" "lays ks p p'"
    "pk_state p' = DONE \<or> ks = filter (\<lambda>k. street_state k \<le> pk_state p') (streets_left (pk_state p))"
    using do_action_laid [OF assms(1)] by (auto simp: laid_def)
  have "wf_history (pk_history p')" using ks(2) assms(2,3) by (simp add: lays_def)
  then have "distinct (dealt (pk_history p'))" by (simp add: wf_history_def)
  then show ?thesis using ks assms(2,3) by (intro exI [of _ ks]) (auto simp: lays_def)
qed

text \<open>The third of three checks: the flop is dealt.\<close>

definition sample_last :: poker where
  "sample_last = sample_game\<lparr>pk_synced := 2\<rparr>"

lemma sample_flop_dealt: "succeeds (do_action 5 sample_last 2 check_action) (\<lambda>(p', b). b \<and> pk_state p' = FLOP)"
  by code_simp

theorem do_action_deals_fresh_witness:
  "\<exists>p'. do_action 5 sample_last 2 check_action = Inr (p', True)
    \<and> dealt (pk_history p') = dealt sample_history @ hd_cards (pk_hands p' HAND_FLOP)"
proof -
  obtain p' where p': "do_action 5 sample_last 2 check_action = Inr (p', True)" "pk_state p' = FLOP"
    using sample_flop_dealt by (auto simp: succeeds_iff)
  have "wf_history sample_history" by code_simp
  moreover have "slots_ok sample_last" by (simp add: slots_ok_def sample_last_def sample_simps)
  ultimately obtain ks where ks: "ks = [HAND_FLOP]" "slots_ok p'"
    "dealt (pk_history p') = dealt sample_history @ concat (map (street_cards p') ks)"
    using do_action_deals_fresh [OF p'(1)] p'(2)
    by (auto simp: sample_last_def street_state_def state_less_simps)
  then show ?thesis using p' by (simp add: street_cards_def slots_ok_def)
qed

end
