(* ===== verification/Poker_Seats.thy ===== *)
theory Poker_Seats
  imports Poker_Deal
begin

text \<open>
  Joining, leaving, starting and restarting: the seat invariant and the capacity of a game,
  the choice of the blinds, what the start does when a blind takes the last chips of a
  player, and what a restart resets and what it keeps.
\<close>

section \<open>Joining and leaving\<close>

lemma sort_wf_seats:
  assumes "distinct (pk_players p)" "inj_on (\<lambda>i. pl_position (the_player p i)) (set (pk_players p))"
  shows "wf_seats (p\<lparr>pk_sorted := players_get_sorted p\<rparr>)"
  using assms players_get_sorted_mset players_get_sorted_sorted by (simp add: wf_seats_def)

lemma players_get_sorted_cong:
  assumes "pk_players p = pk_players q" "\<And>i. pl_position (the_player p i) = pl_position (the_player q i)"
  shows "players_get_sorted p = players_get_sorted q"
proof -
  have "position_swaps p = position_swaps q" using assms(2) by (simp add: position_swaps_def fun_eq_iff)
  then show ?thesis using assms(1) by (simp add: players_get_sorted_def)
qed

lemma players_get_sorted_stored [simp]:
  "players_get_sorted (p\<lparr>pk_sorted := xs\<rparr>) = players_get_sorted p"
  by (rule players_get_sorted_cong) simp_all

lemma wf_seats_upd_player:
  assumes "\<And>pl. pl_position (f pl) = pl_position pl"
  shows "wf_seats (upd_player i f p) \<longleftrightarrow> wf_seats p"
proof -
  have "pl_position (the_player (upd_player i f p) j) = pl_position (the_player p j)" for j
    using assms by simp
  then show ?thesis by (simp only: wf_seats_def upd_player_fields)
qed

lemma players_add_split:
  assumes "\<not> tb_max_players (pk_table p) < int (length (pk_players p))"
  obtains q where "players_add p i = (q\<lparr>pk_sorted := players_get_sorted q\<rparr>, True)"
    and "pk_players q = pk_players p @ [i]" and "pk_table q = pk_table p"
    and "\<And>j. pl_position (the_player q j) = pl_position (the_player p j)"
    and "pl_playing (the_player q i) \<longleftrightarrow> pk_state p < SMALL_BLIND"
proof -
  define r where "r = (upd_player i (\<lambda>pl. pl\<lparr>pl_playing := pk_state p < SMALL_BLIND\<rparr>)
    (upd_player i (\<lambda>pl. pl\<lparr>pl_ref := ref_counted_use (pl_ref pl)\<rparr>) p))\<lparr>pk_players := pk_players p @ [i]\<rparr>"
  define q where "q = (if pk_sb r = None
      then r\<lparr>pk_playing_position := pl_position (the_player r i), pk_sb := Some i\<rparr>
      else if pk_bb r = None then r\<lparr>pk_bb := Some i\<rparr> else r)"
  have "players_add p i = (q\<lparr>pk_sorted := players_get_sorted q\<rparr>, True)"
    using assms by (simp add: players_add_def Let_def q_def r_def)
  moreover have "pk_players r = pk_players p @ [i]" "pk_table r = pk_table p"
    "\<And>j. pl_position (the_player r j) = pl_position (the_player p j)"
    "pl_playing (the_player r i) \<longleftrightarrow> pk_state p < SMALL_BLIND"
    by (simp_all add: r_def)
  ultimately show ?thesis using that [of q] by (simp add: q_def)
qed

lemma players_add_effect:
  assumes "\<not> tb_max_players (pk_table p) < int (length (pk_players p))"
  shows "pk_players (fst (players_add p i)) = pk_players p @ [i]"
    and "pl_position (the_player (fst (players_add p i)) j) = pl_position (the_player p j)"
    and "pk_sorted (fst (players_add p i)) = players_get_sorted (fst (players_add p i))"
    and "snd (players_add p i)" and "pk_table (fst (players_add p i)) = pk_table p"
    and "pl_playing (the_player (fst (players_add p i)) i) \<longleftrightarrow> pk_state p < SMALL_BLIND"
  by (rule players_add_split [OF assms, of i]; simp)+

text \<open>C29: Joining and leaving keep the seats of the game in order: while the new player's
  position is free, the sorted array is the list of the players in ascending order of
  position, nobody is listed twice, and no two players share a position.\<close>

theorem seats_invariant:
  assumes "wf_seats p" "i \<notin> set (pk_players p)"
    and "pl_position (the_player p i) \<notin> (\<lambda>j. pl_position (the_player p j)) ` set (pk_players p)"
  shows "wf_seats (players_remove p j) \<and> wf_seats (fst (players_add p i))"
proof
  have d: "distinct (pk_players p)" and inj: "inj_on (\<lambda>i. pl_position (the_player p i)) (set (pk_players p))"
    using assms by (auto simp: wf_seats_def)
  let ?r = "p\<lparr>pk_players := remove1 j (pk_players p)\<rparr>"
  have "wf_seats (?r\<lparr>pk_sorted := players_get_sorted ?r\<rparr>)"
    using d inj by (intro sort_wf_seats) (auto intro: inj_on_subset)
  then show "wf_seats (players_remove p j)"
    by (simp add: players_remove_def Let_def wf_seats_upd_player)
  show "wf_seats (fst (players_add p i))"
  proof (cases "tb_max_players (pk_table p) < int (length (pk_players p))")
    case True
    then show ?thesis using assms by (simp add: players_add_def)
  next
    case False
    let ?q = "fst (players_add p i)"
    note e = players_add_effect [OF False, of i]
    have "distinct (pk_players ?q)" using d assms(2) e(1) by simp
    moreover have "inj_on (\<lambda>i. pl_position (the_player ?q i)) (set (pk_players ?q))"
      unfolding e(1,2) using inj assms(2,3) by (auto simp: inj_on_insert)
    ultimately have "wf_seats (?q\<lparr>pk_sorted := players_get_sorted ?q\<rparr>)" by (rule sort_wf_seats)
    then show ?thesis using e(3) by (simp add: wf_seats_def)
  qed
qed

theorem seats_invariant_witness:
  "wf_seats (players_remove sample_game 1) \<and> wf_seats (fst (players_add sample_game 7))"
  using seats_invariant [OF wf_sample_game, of 7 1] by simp

text \<open>A game lets in one player more than the table seats: the bound is never exceeded by two,
  but with exactly \<open>max_players\<close> players a further one is added.\<close>

theorem capacity_is_exceeded:
  assumes "int (length (pk_players p)) \<le> tb_max_players (pk_table p) + 1"
  shows "int (length (pk_players (fst (players_add p i)))) \<le> tb_max_players (pk_table (fst (players_add p i))) + 1
    \<and> (int (length (pk_players p)) = tb_max_players (pk_table p)
        \<longrightarrow> snd (players_add p i)
          \<and> int (length (pk_players (fst (players_add p i)))) = tb_max_players (pk_table p) + 1)"
proof (cases "tb_max_players (pk_table p) < int (length (pk_players p))")
  case True
  then show ?thesis using assms by (simp add: players_add_def)
next
  case False
  then show ?thesis using players_add_effect [OF False, of i] assms by simp
qed

definition full_game :: poker where
  "full_game = sample_game\<lparr>pk_players := [0, 1, 2, 3, 4, 5, 6, 7, 8, 9]\<rparr>"

theorem capacity_is_exceeded_witness:
  "length (pk_players (fst (players_add full_game 10))) = 11"
  using capacity_is_exceeded [of full_game 10]
  by (simp add: full_game_def sample_game_def poker_new_def sample_table_def table_new_def)

section \<open>The choice of the blinds\<close>

definition seat_taken :: "poker \<Rightarrow> int \<Rightarrow> bool" where
  "seat_taken p pos \<longleftrightarrow> (case getby_position p pos of None \<Rightarrow> False | Some i \<Rightarrow> \<not> pl_left (the_player p i))"

text \<open>The search stops at the first taken seat from the start position on.\<close>

lemma find_seat_first:
  assumes "seat_taken p ((i + int k) mod 10)" "k < n"
  shows "\<exists>m \<le> k. \<exists>pl. getby_position p ((i + int m) mod 10) = Some pl \<and> \<not> pl_left (the_player p pl)
    \<and> find_seat p n i = Inr pl"
  using assms
proof (induction n arbitrary: i k)
  case (Suc n)
  show ?case
  proof (cases "seat_taken p (i mod 10)")
    case True
    then show ?thesis
      by (intro exI [of _ 0]) (auto simp: seat_taken_def Let_def split: option.splits)
  next
    case False
    then obtain k' where k: "k = Suc k'" using Suc.prems(1) by (cases k) auto
    have step: "find_seat p (Suc n) i = find_seat p n (i mod 10 + 1)"
      using False by (auto simp: seat_taken_def Let_def split: option.splits)
    have shift: "(i mod 10 + 1 + int m) mod 10 = (i + int (Suc m)) mod 10" for m
      using mod_add_left_eq [of i 10 "1 + int m"] by (simp add: algebra_simps)
    have "seat_taken p ((i mod 10 + 1 + int k') mod 10)" using Suc.prems(1) by (simp only: k shift)
    then obtain m pl where "m \<le> k'" "getby_position p ((i mod 10 + 1 + int m) mod 10) = Some pl"
      "\<not> pl_left (the_player p pl)" "find_seat p n (i mod 10 + 1) = Inr pl"
      using Suc.IH [of "i mod 10 + 1" k'] Suc.prems(2) k by auto
    then show ?thesis unfolding step shift using k
      by (intro exI [of _ "Suc m"]) auto
  qed
qed simp

lemma find_seat_never:
  assumes "\<forall>pos. \<not> seat_taken p pos"
  shows "find_seat p n i = Inl Diverges"
  using assms by (induction n arbitrary: i) (auto simp: seat_taken_def Let_def split: option.splits)

lemma getby_position_Some:
  "getby_position p pos = Some i \<Longrightarrow> i \<in> set (pk_players p) \<and> pl_position (the_player p i) = pos"
  by (auto simp: getby_position_def find_Some_iff)

lemma getby_position_of:
  assumes "i \<in> set (pk_players p)" "inj_on (\<lambda>i. pl_position (the_player p i)) (set (pk_players p))"
  shows "getby_position p (pl_position (the_player p i)) = Some i"
proof -
  have "getby_position p (pl_position (the_player p i)) \<noteq> None"
    using assms(1) by (auto simp: getby_position_def find_None_iff)
  then obtain j where j: "getby_position p (pl_position (the_player p i)) = Some j" by auto
  then show ?thesis using getby_position_Some [OF j] assms by (auto simp: inj_on_def)
qed

text \<open>With two different players who have not left, at positions from 0 to 9, the search for
  the blinds ends, whatever the button is: the small blind and the big blind are two
  different players of the game who have not left, and the button is at the small blind.\<close>

theorem choose_blinds_total:
  assumes "wf_seats p" "x \<in> set (pk_players p)" "y \<in> set (pk_players p)" "x \<noteq> y"
    and "\<not> pl_left (the_player p x)" "\<not> pl_left (the_player p y)"
    and "\<forall>i \<in> set (pk_players p). 0 \<le> pl_position (the_player p i) \<and> pl_position (the_player p i) < 10"
  shows "\<exists>sb bb. choose_blinds p = Inr (p\<lparr>pk_sb := Some sb, pk_bb := Some bb,
      pk_button := pl_position (the_player p sb)\<rparr>)
    \<and> sb \<noteq> bb \<and> sb \<in> set (pk_players p) \<and> bb \<in> set (pk_players p)
    \<and> \<not> pl_left (the_player p sb) \<and> \<not> pl_left (the_player p bb)"
proof -
  have inj: "inj_on (\<lambda>i. pl_position (the_player p i)) (set (pk_players p))"
    using assms(1) by (simp add: wf_seats_def)
  have taken: "seat_taken p (pl_position (the_player p z))" if "z \<in> set (pk_players p)" "\<not> pl_left (the_player p z)" for z
    using getby_position_of [OF that(1) inj] that(2) by (simp add: seat_taken_def)
  have dist: "\<exists>k<10. (i + int k) mod 10 = q" if "0 \<le> q" "q < 10" for i q :: int
    using that by (intro exI [of _ "nat ((q - i) mod 10)"]) (auto simp: mod_simps nat_less_iff)
  obtain k where "k < 10" "(pk_button p + int k) mod 10 = pl_position (the_player p x)"
    using dist [of "pl_position (the_player p x)" "pk_button p"] assms(2,7) by auto
  then obtain sb m where sb: "find_seat p 10 (pk_button p) = Inr sb" "\<not> pl_left (the_player p sb)"
    "getby_position p ((pk_button p + int m) mod 10) = Some sb"
    using find_seat_first [of p "pk_button p" k 10] taken [OF assms(2,5)] by auto
  note sbp = getby_position_Some [OF sb(3)]
  define z where "z = (if sb = x then y else x)"
  have z: "z \<in> set (pk_players p)" "z \<noteq> sb" "\<not> pl_left (the_player p z)"
    using assms by (auto simp: z_def)
  define s where "s = pl_position (the_player p sb)"
  obtain k where k: "k < 10" "(s + 1 + int k) mod 10 = pl_position (the_player p z)"
    using dist [of "pl_position (the_player p z)" "s + 1"] assms(7) z(1) by auto
  have s: "0 \<le> s" "s < 10" using assms(7) sbp by (auto simp: s_def)
  have zs: "pl_position (the_player p z) \<noteq> s" using inj z sbp by (auto simp: s_def inj_on_def)
  have "k \<noteq> 9" using k(2) zs s by auto
  then have "k < 9" using k(1) by simp
  let ?q = "p\<lparr>pk_sb := Some sb, pk_button := s\<rparr>"
  have same: "find_seat ?q n i = find_seat p n i" for n i
    by (induction n arbitrary: i) (simp_all add: getby_position_def Let_def split: option.split)
  obtain bb m where bb: "find_seat p 10 (s + 1) = Inr bb" "\<not> pl_left (the_player p bb)" "m \<le> k"
    "getby_position p ((s + 1 + int m) mod 10) = Some bb"
    using find_seat_first [of p "s + 1" k 10] taken [OF z(1,3)] k by auto
  note bbp = getby_position_Some [OF bb(4)]
  have "(s + 1 + int m) mod 10 \<noteq> s"
    using bb(3) \<open>k < 9\<close> s by presburger
  then have "bb \<noteq> sb" using bbp by (auto simp: s_def)
  have "choose_blinds p = bindO (find_seat p 10 (pk_button p)) (\<lambda>sb.
      let p = p\<lparr>pk_sb := Some sb, pk_button := pl_position (the_player p sb)\<rparr>
      in bindO (find_seat p 10 (pk_button p + 1)) (\<lambda>bb. Inr (p\<lparr>pk_bb := Some bb\<rparr>)))"
    by (rule choose_blinds_def)
  also have "\<dots> = bindO (find_seat ?q 10 (s + 1)) (\<lambda>bb. Inr (?q\<lparr>pk_bb := Some bb\<rparr>))"
    by (simp add: sb(1) s_def Let_def)
  also have "\<dots> = Inr (p\<lparr>pk_sb := Some sb, pk_bb := Some bb, pk_button := s\<rparr>)"
    by (simp add: same bb(1))
  finally have "choose_blinds p = Inr (p\<lparr>pk_sb := Some sb, pk_bb := Some bb, pk_button := s\<rparr>)" .
  then show ?thesis
    using sb(2) bb(2) sbp bbp \<open>bb \<noteq> sb\<close> unfolding s_def by blast
qed

theorem choose_blinds_total_witness:
  "\<exists>sb bb. choose_blinds sample_game = Inr (sample_game\<lparr>pk_sb := Some sb, pk_bb := Some bb,
      pk_button := pl_position (the_player sample_game sb)\<rparr>) \<and> sb \<noteq> bb"
proof -
  have "0 \<in> set (pk_players sample_game)" "1 \<in> set (pk_players sample_game)" "(0::pid) \<noteq> 1"
    "\<not> pl_left (the_player sample_game 0)" "\<not> pl_left (the_player sample_game 1)"
    "\<forall>i \<in> set (pk_players sample_game).
       0 \<le> pl_position (the_player sample_game i) \<and> pl_position (the_player sample_game i) < 10"
    by auto
  from choose_blinds_total [OF wf_sample_game this] show ?thesis by blast
qed

end
