(* ===== verification/Poker_Rounds.thy ===== *)
theory Poker_Rounds
  imports Poker_Seats
begin

text \<open>
  The boundaries of a round: what a restart resets and what it leaves from the round before,
  the fold that a timeout makes for the player whose turn it is, and a blind that takes the
  last chips of a player.
\<close>

section \<open>Restart\<close>

lemma fold_reset_players:
  "the_player (fold (\<lambda>i. upd_player i reset_player) is p) j
     = (if j \<in> set is then reset_player (the_player p j) else the_player p j)"
proof (induction "is" arbitrary: p)
  case (Cons i "is")
  have "reset_player (reset_player pl) = reset_player pl" for pl by (simp add: reset_player_def)
  then show ?case using Cons by simp
qed simp

lemma fold_reset_fields:
  "pk_players (fold (\<lambda>i. upd_player i reset_player) is p) = pk_players p"
  "pk_hands (fold (\<lambda>i. upd_player i reset_player) is p) = pk_hands p"
  "pk_pot (fold (\<lambda>i. upd_player i reset_player) is p) = pk_pot p"
  "pk_history (fold (\<lambda>i. upd_player i reset_player) is p) = pk_history p"
  "pk_state (fold (\<lambda>i. upd_player i reset_player) is p) = pk_state p"
  "pk_scores (fold (\<lambda>i. upd_player i reset_player) is p) = pk_scores p"
  by (induction "is" arbitrary: p) simp_all

lemma prepare_restart_fields:
  "pk_players (prepare_restart p) = pk_players p" "pk_pot (prepare_restart p) = 0"
  "pk_state (prepare_restart p) = W4P" "pk_history (prepare_restart p) = replicate 52 no_card"
  "pk_hands (prepare_restart p) k = reset_hand (pk_hands p k)"
  by (simp_all add: prepare_restart_def Let_def restart_fields_def leave_scores_def fold_reset_fields)

lemma prepare_restart_player:
  "the_player (prepare_restart p) i
     = (if i \<in> set (pk_players p) then reset_player (the_player p i) else the_player p i)"
  by (simp add: prepare_restart_def Let_def restart_fields_def leave_scores_def fold_reset_players fold_reset_fields)

lemma empty_history_is_no_card: "replicate 52 no_card = empty_history"
  by (simp add: empty_history_def no_card_def)

text \<open>A restart puts every player back in the round with no bet and no cards, empties the pot
  and returns every card to the deck, keeping the balances. Two things of the last round
  survive it: the cards on the table are still those of the last round, and the references
  that the scores of the last round took on their players are never released.\<close>

theorem restart_resets:
  "wf_history (pk_history (prepare_restart p)) \<and> dealt (pk_history (prepare_restart p)) = []
    \<and> bank (prepare_restart p) = (\<Sum>i \<leftarrow> pk_players p. pl_balance (the_player p i))
    \<and> surplus (prepare_restart p) = 0
    \<and> list_all (\<lambda>i. player_is_playing (the_player (prepare_restart p) i)) (pk_players p)
    \<and> hd_cards (pk_hands (prepare_restart p) k) = hd_cards (pk_hands p k)
    \<and> pl_ref (the_player (prepare_restart p) j) = pl_ref (the_player p j)"
proof -
  have bal: "map (\<lambda>i. pl_balance (the_player (prepare_restart p) i)) (pk_players p)
      = map (\<lambda>i. pl_balance (the_player p i)) (pk_players p)"
    by (simp add: prepare_restart_player reset_player_def)
  have bets: "map (\<lambda>i. pl_bet (the_player (prepare_restart p) i)) (pk_players p) = map (\<lambda>_. 0) (pk_players p)"
    by (simp add: prepare_restart_player reset_player_def)
  have "bank (prepare_restart p) = (\<Sum>i \<leftarrow> pk_players p. pl_balance (the_player p i))"
    unfolding bank_def prepare_restart_fields bal by simp
  moreover have "surplus (prepare_restart p) = 0"
    unfolding surplus_def prepare_restart_fields bets by (simp add: sum_list_triv)
  moreover have "list_all (\<lambda>i. player_is_playing (the_player (prepare_restart p) i)) (pk_players p)"
    by (simp add: list_all_iff prepare_restart_player reset_player_def player_is_playing_def)
  moreover have "pl_ref (the_player (prepare_restart p) j) = pl_ref (the_player p j)"
    by (simp add: prepare_restart_player reset_player_def)
  ultimately show ?thesis
    by (simp add: prepare_restart_fields empty_history_is_no_card wf_empty_history reset_hand_def)
qed

section \<open>Timeout\<close>

text \<open>C33: When the time of the player at turn is over, the fold made for him is not rejected:
  unless it ends the game, he has folded, and no balance, no bet and not the pot changes.\<close>

theorem timeout_folds:
  assumes "of_int (tb_action_timeout (pk_table p)) < now - pk_action_time p"
    and "pk_state p \<in> {PREFLOP, FLOP, TURN, RIVER}" "2 \<le> length (pk_players p)"
    and "getby_position p (pk_playing_position p) = Some i" "player_is_playing (the_player p i)"
    and "poker_proceed now p = Inr q" "pk_state q \<noteq> DONE"
  shows "pl_folded (the_player q i) \<and> pk_pot q = pk_pot p
    \<and> (\<forall>j. pl_balance (the_player q j) = pl_balance (the_player p j)
         \<and> pl_bet (the_player q j) = pl_bet (the_player p j))"
proof -
  have betting: "SMALL_BLIND \<le> pk_state p" "pk_state p \<noteq> W4P" "pk_state p \<noteq> CREATED" "pk_state p \<noteq> DONE"
    "\<not> pk_state p > RIVER" "\<not> pk_state p < SMALL_BLIND"
    using assms(2) by (auto simp: state_less_simps)
  have "bindO (do_action now p i fold_action) (\<lambda>(p, _). Inr (p\<lparr>pk_proceed_time := now\<rparr>)) = Inr q"
    using assms(1,3,4,6) betting by (simp add: poker_proceed_def Let_def)
  then obtain p' b where act: "do_action now p i fold_action = Inr (p', b)"
    and q: "q = p'\<lparr>pk_proceed_time := now\<rparr>" by auto
  have pos: "pl_position (the_player p i) = pk_playing_position p"
    using getby_position_Some [OF assms(4)] by simp
  have ok: "\<not> action_refused p i"
    using assms(5) pos betting by (simp add: action_refused_def player_is_playing_def Let_def)
  define f where "f = upd_player i (\<lambda>pl. pl\<lparr>pl_folded := True\<rparr>) p"
  have stages: "betting_stages h i fold_action p = Inr (Continue f)" for h
    using assms(2) by (auto simp: betting_stages_def small_blind_stage_def big_blind_stage_def bindS_def
        action_stage_def fold_stage_def fold_action_def f_def)
  obtain h where h: "get_current_hand p = Some h" using assms(2) by (auto simp: get_current_hand_def state_less_simps)
  obtain r where r: "after_betting h i fold_action f = Inr r" and p': "p' = action_end now i fold_action r"
    using act ok h stages by (auto simp: do_action_def)
  have c: "same_chips (record_stage h i fold_action f) r"
    using after_betting_effect [OF r] assms(7) q p' by simp
  show ?thesis
    using same_chips_player [OF c] c
    by (simp add: q p' record_stage_player f_def same_chips_def)
qed

lemma sample_timeout:
  "succeeds (poker_proceed 20000 sample_game) (\<lambda>q. pk_state q = PREFLOP)"
  by code_simp

theorem timeout_folds_witness:
  "\<exists>q. poker_proceed 20000 sample_game = Inr q \<and> pl_folded (the_player q 2) \<and> pk_pot q = 30"
proof -
  obtain q where q: "poker_proceed 20000 sample_game = Inr q" "pk_state q = PREFLOP"
    using sample_timeout by (auto simp: succeeds_iff)
  have t: "of_int (tb_action_timeout (pk_table sample_game)) < 20000 - pk_action_time sample_game"
    by (simp add: sample_game_def poker_new_def sample_table_def table_new_def)
  have seat: "pk_state sample_game \<in> {PREFLOP, FLOP, TURN, RIVER}" "2 \<le> length (pk_players sample_game)"
    "getby_position sample_game (pk_playing_position sample_game) = Some 2"
    "player_is_playing (the_player sample_game 2)"
    by (simp_all add: getby_position_def player_is_playing_def)
  have "pk_state q \<noteq> DONE" using q(2) by simp
  from timeout_folds [OF t seat q(1) this] show ?thesis using q(1) by auto
qed

section \<open>A blind that takes the last chips\<close>

lemma deal_all_pot: "deal_all is p = Inr q \<Longrightarrow> pk_pot q = pk_pot p"
proof (induction "is" arbitrary: p)
  case (Cons i "is")
  have "pk_pot r = pk_pot p" if "player_deal i p = Inr r" for r
    using that by (auto simp: player_deal_def draw_card_def Let_def)
  then show ?case using Cons by auto
qed simp

lemma open_betting_effect:
  assumes "open_betting p = Inr q"
  shows "pk_state q = PREFLOP \<and> pk_pot q = pk_pot p"
  using assms by (auto simp: open_betting_def players_deal_def Let_def dest!: deal_all_pot)

text \<open>While the blinds are posted no card is dealt yet. If a blind leaves at most one player
  who can still bet, the next blind is treated as the last action of the round: it leads
  straight to the showdown, with the hands and the table as they are, and the start that
  follows deals and opens the preflop on top of the finished round with the pot it had.\<close>

theorem blinds_can_show_down:
  assumes "pk_state p \<in> {SMALL_BLIND, BIG_BLIND}" "pk_playing_last p \<or> playing = 0"
  shows "bindO (round_stage playing ingame i a p)
      (\<lambda>f. case f of Fall p \<Rightarrow> runout_stage playing p | _ \<Rightarrow> Inr f)
      = Inr (Showdown (p\<lparr>pk_state := DONE\<rparr>))
    \<and> (\<forall>q r. showdown (p\<lparr>pk_state := DONE\<rparr>) = Inr q \<and> open_betting q = Inr r
        \<longrightarrow> pk_state r = PREFLOP \<and> pk_pot r = pk_pot p)"
proof -
  have "bindO (round_stage playing ingame i a p)
      (\<lambda>f. case f of Fall p \<Rightarrow> runout_stage playing p | _ \<Rightarrow> Inr f) = Inr (Showdown (p\<lparr>pk_state := DONE\<rparr>))"
    using assms by (auto simp: round_stage_def runout_stage_def)
  moreover have "pk_pot q = pk_pot p" if "showdown (p\<lparr>pk_state := DONE\<rparr>) = Inr q" for q
    using showdown_frame [OF that] by simp
  ultimately show ?thesis using open_betting_effect by auto
qed

definition blind_allin_game :: poker where
  "blind_allin_game = sample_game\<lparr>pk_state := BIG_BLIND, pk_playing_last := True\<rparr>"

theorem blinds_can_show_down_witness:
  "bindO (round_stage 1 2 1 (blind_action ActBigBlind 20) blind_allin_game)
      (\<lambda>f. case f of Fall p \<Rightarrow> runout_stage 1 p | _ \<Rightarrow> Inr f)
    = Inr (Showdown (blind_allin_game\<lparr>pk_state := DONE\<rparr>))"
  using blinds_can_show_down [of blind_allin_game 1 2 1 "blind_action ActBigBlind 20"]
  by (simp add: blind_allin_game_def)

end
