(* ===== verification/Bytes.thy ===== *)
theory Bytes
  imports Prelude
begin

text \<open>
  Bytes on the wire. The packet frames of \<open>src/include/server.h\<close> are packed structs written
  and read as memory, so an integer field of \<open>n\<close> bytes is its little-endian encoding \<open>le n\<close>
  (the server runs on little-endian hosts), and storing a larger number keeps its value
  modulo \<open>256 ^ n\<close>. The length fields of the websocket protocol are big-endian: \<open>be n\<close>.
\<close>

unbundle bit_operations_syntax

type_synonym byte = "8 word"
type_synonym bytes = "8 word list"

fun le :: "nat \<Rightarrow> nat \<Rightarrow> bytes" where
  "le 0 v = []"
| "le (Suc n) v = of_nat v # le n (v div 256)"

fun unle :: "bytes \<Rightarrow> nat" where
  "unle [] = 0"
| "unle (b # bs) = unat b + 256 * unle bs"

definition be :: "nat \<Rightarrow> nat \<Rightarrow> bytes" where
  "be n v = rev (le n v)"

definition unbe :: "bytes \<Rightarrow> nat" where
  "unbe bs = unle (rev bs)"

lemma length_le [simp]: "length (le n v) = n"
  by (induction n v rule: le.induct) simp_all

lemma length_be [simp]: "length (be n v) = n"
  by (simp add: be_def)

lemma unat_of_nat_byte: "unat (of_nat v :: byte) = v mod 256"
  by (simp add: unat_of_nat)

lemma unle_le: "unle (le n v) = v mod 256 ^ n"
proof (induction n arbitrary: v)
  case (Suc n)
  then show ?case
    by (simp add: unat_of_nat_byte mod_mult2_eq)
qed simp

lemma unle_bound: "unle bs < 256 ^ length bs"
proof (induction bs)
  case (Cons b bs)
  have "unat b < 256" using unsigned_less [of b] by simp
  then show ?case using Cons by simp
qed simp

lemma le_unle: "length bs = n \<Longrightarrow> le n (unle bs) = bs"
proof (induction bs arbitrary: n)
  case (Cons b bs)
  have b: "unat b < 256" using unsigned_less [of b] by simp
  moreover have "(of_nat (unat b + 256 * unle bs) :: byte) = b"
    by (rule word_unat_eq_iff [THEN iffD2]) (simp only: unat_of_nat_byte, simp add: b)
  ultimately show ?case using Cons by auto
qed simp

lemma unbe_be [simp]: "unbe (be n v) = v mod 256 ^ n"
  by (simp add: be_def unbe_def unle_le)

lemma unle_append: "unle (xs @ ys) = unle xs + 256 ^ length xs * unle ys"
  by (induction xs) (simp_all add: algebra_simps)

lemma le_append: "le (m + n) v = le m v @ le n (v div 256 ^ m)"
proof (induction m arbitrary: v)
  case (Suc m)
  then show ?case by (simp add: div_mult2_eq)
qed simp

lemma le_mod: "m \<le> n \<Longrightarrow> le m (v mod 256 ^ n) = le m v"
proof (induction m arbitrary: v n)
  case (Suc m)
  then obtain k where n: "n = Suc k" "m \<le> k" by (cases n) auto
  have "v mod 256 ^ n = v mod 256 + 256 * (v div 256 mod 256 ^ k)"
    by (simp add: n(1) mod_mult2_eq)
  moreover have "(of_nat (v mod 256 + 256 * (v div 256 mod 256 ^ k)) :: byte) = of_nat v"
    by (rule word_unat_eq_iff [THEN iffD2]) (simp only: unat_of_nat_byte mod_mult_self2 mod_mod_trivial
      mod_mult_self1)
  ultimately show ?case using Suc.IH [OF n(2), of "v div 256"] by simp
qed simp

section \<open>Structs\<close>

text \<open>A packed struct is the list of its fields with their widths, in the order of declaration.\<close>

type_synonym fields = "(nat \<times> nat) list"

definition encode_frame :: "fields \<Rightarrow> bytes" where
  "encode_frame fs = concat (map (\<lambda>(w, v). le w v) fs)"

fun decode_frame :: "nat list \<Rightarrow> bytes \<Rightarrow> nat list" where
  "decode_frame [] bs = []"
| "decode_frame (w # ws) bs = unle (take w bs) # decode_frame ws (drop w bs)"

definition frame_size :: "nat list \<Rightarrow> nat" where
  "frame_size ws = sum_list ws"

lemma encode_frame_Cons [simp]: "encode_frame ((w, v) # fs) = le w v @ encode_frame fs"
  and encode_frame_Nil [simp]: "encode_frame [] = []"
  by (simp_all add: encode_frame_def)

lemma length_encode_frame: "length (encode_frame fs) = frame_size (map fst fs)"
  by (induction fs) (auto simp: frame_size_def)

lemma decode_encode_frame:
  "decode_frame (map fst fs) (encode_frame fs @ rest) = map (\<lambda>(w, v). v mod 256 ^ w) fs"
  by (induction fs) (auto simp: unle_le)

text \<open>Fields that fit their width survive the trip.\<close>

definition fits :: "fields \<Rightarrow> bool" where
  "fits fs \<longleftrightarrow> list_all (\<lambda>(w, v). v < 256 ^ w) fs"

lemma decode_encode_fits:
  "fits fs \<Longrightarrow> decode_frame (map fst fs) (encode_frame fs @ rest) = map snd fs"
  unfolding decode_encode_frame by (induction fs) (auto simp: fits_def)

lemma unat_fits [simp]:
  "unat (x :: 8 word) < 256" "unat (y :: 16 word) < 65536"
  "unat (z :: 32 word) < 4294967296" "unat (w :: 64 word) < 18446744073709551616"
  using unsigned_less [of x] unsigned_less [of y] unsigned_less [of z] unsigned_less [of w] by simp_all

end
