(* ===== verification/Transport.thy ===== *)
theory Transport
  imports Bytes
begin

text \<open>
  Reading from the TLS connection (\<open>src/src/server.c\<close>, \<open>pkrsrv_server_ssl_read\<close> and
  \<open>pkrsrv_server_ssl_write\<close>). OpenSSL is not part of the program: \<open>SSL_read\<close> is the parameter
  \<open>recv\<close>, which takes the state of the connection and the number of bytes wanted and returns
  the bytes it delivers, none when it fails or the peer has closed. What the server relies on
  is the locale \<open>byte_stream\<close>: a call delivers a prefix of the pending bytes, never more than it
  was asked for, and at least one byte when some are wanted and some are pending. It sends nothing.
  \<open>SSL_write\<close>, which \<open>pkrsrv_server_ssl_write\<close> calls as it is, is the parameter \<open>send\<close>: a positive
  result says that all the bytes have been sent (the locale \<open>duplex\<close>).
\<close>

type_synonym 's recv = "'s \<Rightarrow> nat \<Rightarrow> bytes \<times> 's"
type_synonym 's reader = "nat \<Rightarrow> 's \<Rightarrow> bytes option \<times> 's"
type_synonym 's writer = "bytes \<Rightarrow> 's \<Rightarrow> int \<times> 's"

text \<open>The loop of \<open>ssl_read\<close>: it asks for what is still missing until the whole length is
  there, and gives up as soon as \<open>SSL_read\<close> returns no byte. The C function returns 0 then,
  which is \<open>None\<close> here, and the length otherwise.\<close>

function ssl_read :: "'s recv \<Rightarrow> nat \<Rightarrow> 's \<Rightarrow> bytes option \<times> 's" where
  "ssl_read recv n s =
    (let (received, s') = recv s n
     in if received = [] then (None, s')
        else if length received < n then
          (case ssl_read recv (n - length received) s' of
            (None, t) \<Rightarrow> (None, t)
          | (Some rest, t) \<Rightarrow> (Some (received @ rest), t))
        else (Some received, s'))"
  by pat_completeness auto
termination
  by (relation "measure (\<lambda>(recv, n, s). n)") auto

declare ssl_read.simps [simp del]

locale byte_stream =
  fixes recv :: "'s recv" and pending :: "'s \<Rightarrow> bytes" and sent :: "'s \<Rightarrow> bytes"
  assumes recv_prefix: "recv s n = (received, s') \<Longrightarrow> pending s = received @ pending s'"
    and recv_bound: "recv s n = (received, s') \<Longrightarrow> length received \<le> n"
    and recv_some: "recv s n = (received, s') \<Longrightarrow> 0 < n \<Longrightarrow> pending s \<noteq> [] \<Longrightarrow> received \<noteq> []"
    and recv_sent: "recv s n = (received, s') \<Longrightarrow> sent s' = sent s"
begin

lemma read_exactly:
  "0 < n \<Longrightarrow> n \<le> length (pending s) \<Longrightarrow>
    \<exists>s'. ssl_read recv n s = (Some (take n (pending s)), s') \<and> pending s' = drop n (pending s)
      \<and> sent s' = sent s"
proof (induction n arbitrary: s rule: less_induct)
  case (less n)
  obtain received s' where r: "recv s n = (received, s')" by fastforce
  have p: "pending s = received @ pending s'" using recv_prefix [OF r] .
  have b: "length received \<le> n" using recv_bound [OF r] .
  have ne: "received \<noteq> []" using recv_some [OF r] less.prems by force
  show ?case
  proof (cases "length received < n")
    case False
    then have "n = length received" using b by simp
    then show ?thesis using r ne p recv_sent [OF r] by (simp add: ssl_read.simps)
  next
    case True
    let ?m = "n - length received"
    have "?m < n" "0 < ?m" "?m \<le> length (pending s')"
      using True ne p less.prems(2) by (auto simp: neq_Nil_conv)
    from less.IH [OF this] obtain t where t: "ssl_read recv ?m s' = (Some (take ?m (pending s')), t)"
      "pending t = drop ?m (pending s')" "sent t = sent s'" by blast
    show ?thesis using r ne p t True b recv_sent [OF r] by (simp add: ssl_read.simps)
  qed
qed

lemma read_prefix:
  assumes "pending s = bs @ rest" "bs \<noteq> []" "n = length bs"
  shows "\<exists>s'. ssl_read recv n s = (Some bs, s') \<and> pending s' = rest \<and> sent s' = sent s"
  using read_exactly [of n s] assms by auto

text \<open>A connection that closes early, and a read of no bytes at all, fail.\<close>

lemma read_short:
  "length (pending s) < n \<Longrightarrow> fst (ssl_read recv n s) = None"
proof (induction n arbitrary: s rule: less_induct)
  case (less n)
  obtain received s' where r: "recv s n = (received, s')" by fastforce
  have p: "pending s = received @ pending s'" using recv_prefix [OF r] .
  show ?case
  proof (cases "received = []")
    case False
    then have lt: "length received < n" "n - length received < n" using less.prems p by auto
    then have "fst (ssl_read recv (n - length received) s') = None"
      using less.IH [OF lt(2), of s'] less.prems p by auto
    then show ?thesis using r False lt by (auto simp: ssl_read.simps [of recv n] split: prod.splits option.splits)
  qed (simp add: r ssl_read.simps [of recv n])
qed

lemma read_nothing: "fst (ssl_read recv 0 s) = None"
proof -
  obtain received s' where r: "recv s 0 = (received, s')" by fastforce
  then have "received = []" using recv_bound by fastforce
  then show ?thesis using r by (simp add: ssl_read.simps)
qed

lemma read_sound:
  assumes "ssl_read recv n s = (Some bs, s')"
  shows "0 < n \<and> length bs = n \<and> pending s = bs @ pending s' \<and> sent s' = sent s"
proof -
  have n: "0 < n" using assms read_nothing [of s] by (cases n) auto
  have "n \<le> length (pending s)"
    using assms read_short [of s n] by (metis fst_conv not_le_imp_less option.distinct(1))
  then obtain t where "ssl_read recv n s = (Some (take n (pending s)), t)" "pending t = drop n (pending s)"
    "sent t = sent s"
    using read_exactly [OF n] by blast
  then show ?thesis using assms n \<open>n \<le> length (pending s)\<close> by auto
qed

end

locale duplex = byte_stream recv pending sent
  for recv :: "'s recv" and pending sent +
  fixes send :: "'s writer"
  assumes send_pending: "send bs s = (r, s') \<Longrightarrow> pending s' = pending s"
    and send_all: "send bs s = (r, s') \<Longrightarrow> 0 < r \<Longrightarrow> sent s' = sent s @ bs"

text \<open>A connection on which writing succeeds.\<close>

locale reliable = duplex recv pending sent send
  for recv :: "'s recv" and pending sent and send :: "'s writer" +
  assumes send_succeeds: "send bs s = (r, s') \<Longrightarrow> bs \<noteq> [] \<Longrightarrow> 0 < r"

text \<open>Records of bytes as the TLS layer delivers them: a call returns bytes of one record only.
  This is how \<open>SSL_read\<close> is documented to behave, and it makes short reads happen. A socket
  is the records to come and the bytes sent so far.\<close>

type_synonym socket = "bytes list \<times> bytes"

fun record_recv :: "bytes list \<Rightarrow> nat \<Rightarrow> bytes \<times> bytes list" where
  "record_recv [] n = ([], [])"
| "record_recv (r # rs) n = (if r = [] then record_recv rs n else (take n r, drop n r # rs))"

definition socket_recv :: "socket recv" where
  "socket_recv s n = (case record_recv (fst s) n of (received, rs) \<Rightarrow> (received, (rs, snd s)))"

definition socket_send :: "socket writer" where
  "socket_send bs s = (int (length bs), (fst s, snd s @ bs))"

lemma record_recv_prefix: "record_recv s n = (received, s') \<Longrightarrow> concat s = received @ concat s'"
  by (induction s n rule: record_recv.induct) (auto split: if_splits)

lemma record_recv_bound: "record_recv s n = (received, s') \<Longrightarrow> length received \<le> n"
  by (induction s n rule: record_recv.induct) (auto split: if_splits)

lemma record_recv_some:
  "record_recv s n = (received, s') \<Longrightarrow> 0 < n \<Longrightarrow> concat s \<noteq> [] \<Longrightarrow> received \<noteq> []"
  by (induction s n rule: record_recv.induct) (auto split: if_splits)

interpretation socket: reliable socket_recv "\<lambda>s. concat (fst s)" snd socket_send
  by unfold_locales (auto simp: socket_recv_def socket_send_def record_recv_prefix record_recv_bound
      record_recv_some split: prod.splits)

end
