(* ===== verification/Websocket.thy ===== *)
theory Websocket
  imports Transport
begin

text \<open>
  The websocket framing of \<open>src/src/websocket.c\<close> and \<open>src/include/websocket.h\<close>. The functions
  take the two calls of the TLS layer they make through the pointers \<open>ws->read\<close> and
  \<open>ws->write\<close> as parameters, and \<open>alloc n\<close> tells whether \<open>malloc(n)\<close> succeeds. The value
  returned is the C return value; 0 stands for every failure. \<open>pkrsrv_websocket_read_header\<close>
  is a loop (\<open>goto READ_FRAME\<close>) of which \<open>read_frame\<close> is one turn: a control frame or an
  incomplete message makes it go round again, and a peer can keep it going for as long as it
  sends such frames, so \<open>read_header\<close> has fuel and \<open>Inl Diverges\<close> is a loop still running.

  Lengths are the C types: \<open>buffer_length\<close> and \<open>buffer_readed\<close> are \<open>int\<close>, to which a longer
  length is truncated. The index \<open>i\<close> of the unmasking loops and the counter \<open>mask_i\<close> are
  natural numbers here, so the model holds for messages below 2 GiB.
\<close>

record ws_header =
  wh_plen :: nat
  wh_opcode :: nat
  wh_is_masked :: bool
  wh_fin :: bool
  wh_mkey :: bytes
  wh_mask_i :: nat

record websocket =
  ws_current_header :: ws_header
  ws_is_fragmented :: bool
  ws_buffer :: "bytes option"
  ws_buffer_length :: int
  ws_buffer_readed :: int

definition websocket_init :: "ws_header \<Rightarrow> websocket" where
  "websocket_init garbage = \<lparr>ws_current_header = garbage, ws_is_fragmented = False, ws_buffer = None,
     ws_buffer_length = 0, ws_buffer_readed = 0\<rparr>"

definition reset_fragmentation :: "websocket \<Rightarrow> websocket" where
  "reset_fragmentation ws = ws\<lparr>ws_buffer := None, ws_is_fragmented := False,
     ws_buffer_length := 0, ws_buffer_readed := 0\<rparr>"

text \<open>The cleanup of the control frames is the same but only happens when there is a buffer.\<close>

definition discard_buffer :: "websocket \<Rightarrow> websocket" where
  "discard_buffer ws = (if ws_buffer ws = None then ws else reset_fragmentation ws)"

definition websocket_cleanup :: "websocket \<Rightarrow> websocket" where
  "websocket_cleanup ws = reset_fragmentation ws"

definition to_int32 :: "nat \<Rightarrow> int" where
  "to_int32 n = sint (of_nat n :: 32 word)"

definition to_int64 :: "nat \<Rightarrow> int" where
  "to_int64 n = sint (of_nat n :: 64 word)"

fun unmask :: "bytes \<Rightarrow> nat \<Rightarrow> bytes \<Rightarrow> bytes" where
  "unmask key i [] = []"
| "unmask key i (b # bs) = (b XOR key ! (i mod 4)) # unmask key (Suc i) bs"

definition unmask_if :: "bool \<Rightarrow> bytes \<Rightarrow> nat \<Rightarrow> bytes \<Rightarrow> bytes" where
  "unmask_if is_masked key i bs = (if is_masked then unmask key i bs else bs)"

section \<open>Reading a frame\<close>

datatype frame_result = Return int | Again

text \<open>\<open>pkrsrv_websocket_htonll\<close>, with \<open>htonl\<close> exchanging the four bytes of a word on the little-endian host.\<close>

definition htonl :: "32 word \<Rightarrow> 32 word" where
  "htonl x = of_nat (unbe (le 4 (unat x)))"

definition htonll :: "64 word \<Rightarrow> 64 word" where
  "htonll x = push_bit 32 (ucast (htonl (ucast (x AND 0xFFFFFFFF)))) OR ucast (htonl (ucast (drop_bit 32 x)))"

definition extended_length :: "'s reader \<Rightarrow> nat \<Rightarrow> 's \<Rightarrow> nat option \<times> 's" where
  "extended_length rd plen s =
    (if plen = 126 then map_prod (map_option unbe) id (rd 2 s)
     else if plen = 127 then map_prod (map_option (\<lambda>bs. unat (htonll (of_nat (unle bs))))) id (rd 8 s)
     else (Some plen, s))"

text \<open>Without a mask the key is left uninitialised and not used.\<close>

definition read_key :: "'s reader \<Rightarrow> bool \<Rightarrow> 's \<Rightarrow> bytes option \<times> 's" where
  "read_key rd is_masked s = (if is_masked then rd 4 s else (Some [], s))"

text \<open>The pong that answers a ping, under the write mutex: a header whose length byte is the
  low byte of the ping's length, then the payload. The results are only compared with 0, so a
  negative one, the error of \<open>SSL_write\<close>, counts as written.\<close>

definition send_pong_frame :: "'s writer \<Rightarrow> nat \<Rightarrow> bytes \<Rightarrow> 's \<Rightarrow> bool \<times> 's" where
  "send_pong_frame wr plen payload s =
    (case wr [0x8A, of_nat plen] s of (r, s) \<Rightarrow>
      if r = 0 then (False, s)
      else if plen \<noteq> 0 then (case wr payload s of (r, s) \<Rightarrow> (r \<noteq> 0, s))
      else (True, s))"

definition control_frame ::
  "'s reader \<Rightarrow> 's writer \<Rightarrow> (nat \<Rightarrow> bool) \<Rightarrow> nat \<Rightarrow> bool \<Rightarrow> bool \<Rightarrow> bytes \<Rightarrow> nat \<Rightarrow>
   websocket \<Rightarrow> 's \<Rightarrow> frame_result \<times> websocket \<times> 's" where
  "control_frame rd wr alloc opcode fin is_masked key plen ws s =
    (if \<not> fin \<or> \<not> alloc plen then (Return 0, discard_buffer ws, s)
     else case rd plen s of
       (None, s) \<Rightarrow> (Return 0, discard_buffer ws, s)
     | (Some payload, s) \<Rightarrow>
         if opcode = 9 then
           (case send_pong_frame wr plen (unmask_if is_masked key 0 payload) s of
             (False, s) \<Rightarrow> (Return 0, discard_buffer ws, s)
           | (True, s) \<Rightarrow> (Again, ws, s))
         else (Again, ws, s))"

definition first_fragment ::
  "'s reader \<Rightarrow> (nat \<Rightarrow> bool) \<Rightarrow> nat \<Rightarrow> bool \<Rightarrow> bytes \<Rightarrow> nat \<Rightarrow>
   websocket \<Rightarrow> 's \<Rightarrow> frame_result \<times> websocket \<times> 's" where
  "first_fragment rd alloc opcode is_masked key plen ws s =
    (if opcode < 1 \<or> 2 < opcode then (Return 0, ws, s)
     else if \<not> alloc plen then (Return 0, ws\<lparr>ws_is_fragmented := False, ws_buffer := None\<rparr>, s)
     else case rd plen s of
       (None, s) \<Rightarrow> (Return 0, reset_fragmentation ws, s)
     | (Some payload, s) \<Rightarrow>
         (Again, ws\<lparr>ws_is_fragmented := True, ws_buffer := Some (unmask_if is_masked key 0 payload),
            ws_buffer_length := to_int32 plen, ws_buffer_readed := 0\<rparr>, s))"

text \<open>A continuation appends at the offset \<open>buffer_length\<close>. The offset lies outside the
  allocation when an earlier length was truncated.\<close>

definition next_fragment ::
  "'s reader \<Rightarrow> (nat \<Rightarrow> bool) \<Rightarrow> nat \<Rightarrow> bool \<Rightarrow> bool \<Rightarrow> bytes \<Rightarrow> nat \<Rightarrow>
   websocket \<Rightarrow> 's \<Rightarrow> (frame_result \<times> websocket \<times> 's) outcome" where
  "next_fragment rd alloc opcode fin is_masked key plen ws s =
    (if opcode \<noteq> 0 then Inr (Return 0, reset_fragmentation ws, s)
     else if ws_buffer_length ws < 0 then Inl OutOfRange
     else if \<not> alloc (nat (ws_buffer_length ws) + plen) then Inr (Return 0, reset_fragmentation ws, s)
     else case rd plen s of
       (None, s) \<Rightarrow> Inr (Return 0, reset_fragmentation ws, s)
     | (Some payload, s) \<Rightarrow>
         let len = nat (ws_buffer_length ws);
             old = (case ws_buffer ws of None \<Rightarrow> [] | Some b \<Rightarrow> take len b);
             ws = ws\<lparr>ws_buffer := Some (old @ unmask_if is_masked key 0 payload),
                ws_buffer_length := to_int32 (len + plen)\<rparr>
         in Inr (if fin then (Return (ws_buffer_length ws), ws, s) else (Again, ws, s)))"

text \<open>An unfragmented data frame only stores its header: its payload is read by \<open>read_payload\<close>.\<close>

definition store_header :: "nat \<Rightarrow> bool \<Rightarrow> bool \<Rightarrow> bytes \<Rightarrow> nat \<Rightarrow> websocket \<Rightarrow> websocket" where
  "store_header opcode fin is_masked key plen ws =
    ws\<lparr>ws_current_header := \<lparr>wh_plen = plen, wh_opcode = opcode, wh_is_masked = is_masked,
       wh_fin = fin, wh_mkey = key, wh_mask_i = 0\<rparr>\<rparr>"

definition dispatch_frame ::
  "'s reader \<Rightarrow> 's writer \<Rightarrow> (nat \<Rightarrow> bool) \<Rightarrow> nat \<Rightarrow> bool \<Rightarrow> bool \<Rightarrow> bytes \<Rightarrow> nat \<Rightarrow>
   websocket \<Rightarrow> 's \<Rightarrow> (frame_result \<times> websocket \<times> 's) outcome" where
  "dispatch_frame rd wr alloc opcode fin is_masked key plen ws s =
    (if opcode = 9 \<or> opcode = 10 then
       Inr (control_frame rd wr alloc opcode fin is_masked key plen ws s)
     else if \<not> fin \<and> \<not> ws_is_fragmented ws then
       Inr (first_fragment rd alloc opcode is_masked key plen ws s)
     else if ws_is_fragmented ws then next_fragment rd alloc opcode fin is_masked key plen ws s
     else Inr (Return (to_int64 plen), store_header opcode fin is_masked key plen ws, s))"

definition read_frame ::
  "'s reader \<Rightarrow> 's writer \<Rightarrow> (nat \<Rightarrow> bool) \<Rightarrow> websocket \<Rightarrow> 's \<Rightarrow> (frame_result \<times> websocket \<times> 's) outcome" where
  "read_frame rd wr alloc ws s =
    (case rd 2 s of
      (None, s) \<Rightarrow> Inr (Return 0, ws, s)
    | (Some header, s) \<Rightarrow>
        let opcode = unat (header ! 0 AND 15) in
        if opcode = 8 then Inr (Return 0, reset_fragmentation ws, s)
        else
          let fin = (header ! 0 AND 128 \<noteq> 0); is_masked = (header ! 1 AND 128 \<noteq> 0) in
          case extended_length rd (unat (header ! 1 AND 127)) s of
            (None, s) \<Rightarrow> Inr (Return 0, ws, s)
          | (Some plen, s) \<Rightarrow>
              (case read_key rd is_masked s of
                (None, s) \<Rightarrow> Inr (Return 0, ws, s)
              | (Some key, s) \<Rightarrow> dispatch_frame rd wr alloc opcode fin is_masked key plen ws s))"

fun read_header ::
  "'s reader \<Rightarrow> 's writer \<Rightarrow> (nat \<Rightarrow> bool) \<Rightarrow> nat \<Rightarrow> websocket \<Rightarrow> 's \<Rightarrow> (int \<times> websocket \<times> 's) outcome" where
  "read_header rd wr alloc 0 ws s = Inl Diverges"
| "read_header rd wr alloc (Suc fuel) ws s =
    bindO (read_frame rd wr alloc ws s) (\<lambda>(r, ws, s).
      case r of Return n \<Rightarrow> Inr (n, ws, s) | Again \<Rightarrow> read_header rd wr alloc fuel ws s)"

section \<open>Reading the payload\<close>

text \<open>\<open>pkrsrv_websocket_read_payload\<close>. The first component is the value returned (0 when there
  is nothing to read), the second the bytes stored in the caller's buffer. A fragmented message
  can be exhausted: then fewer bytes are stored than were asked for.\<close>

definition read_fragmented :: "nat \<Rightarrow> websocket \<Rightarrow> (int \<times> bytes \<times> websocket) outcome" where
  "read_fragmented n ws =
    (let available = ws_buffer_length ws - ws_buffer_readed ws;
         len = min (int n) available
     in if len \<le> 0 then Inr (0, [], ws)
        else bindO (deref (ws_buffer ws)) (\<lambda>buffer.
          let data = take (nat len) (drop (nat (ws_buffer_readed ws)) buffer);
              ws = ws\<lparr>ws_buffer_readed := ws_buffer_readed ws + len\<rparr>
          in Inr (len, data,
               if ws_buffer_length ws \<le> ws_buffer_readed ws then reset_fragmentation ws else ws)))"

definition read_unfragmented :: "'s reader \<Rightarrow> nat \<Rightarrow> websocket \<Rightarrow> 's \<Rightarrow> int \<times> bytes \<times> websocket \<times> 's" where
  "read_unfragmented rd n ws s =
    (case rd n s of
      (None, s) \<Rightarrow> (0, [], ws, s)
    | (Some data, s) \<Rightarrow>
        let h = ws_current_header ws
        in if wh_is_masked h then
             (int n, unmask (wh_mkey h) (wh_mask_i h) data,
              ws\<lparr>ws_current_header := h\<lparr>wh_mask_i := wh_mask_i h + n\<rparr>\<rparr>, s)
           else (int n, data, ws, s))"

definition read_payload ::
  "'s reader \<Rightarrow> nat \<Rightarrow> websocket \<Rightarrow> 's \<Rightarrow> (int \<times> bytes \<times> websocket \<times> 's) outcome" where
  "read_payload rd n ws s =
    (if ws_is_fragmented ws then
       bindO (read_fragmented n ws) (\<lambda>(r, data, ws). Inr (r, data, ws, s))
     else Inr (read_unfragmented rd n ws s))"

section \<open>Writing a header\<close>

definition header_bytes :: "nat \<Rightarrow> bytes" where
  "header_bytes n =
    (if n < 126 then [0x82, of_nat n]
     else if n < 65536 then [0x82, 126] @ be 2 n
     else [0x82, 127] @ le 8 (unat (htonll (of_nat n))))"

definition send_header :: "'s writer \<Rightarrow> nat \<Rightarrow> 's \<Rightarrow> int \<times> 's" where
  "send_header wr n s = wr (header_bytes n) s"

end
