(* ===== verification/Server_Frames.thy ===== *)
theory Server_Frames
  imports Bytes
begin

text \<open>
  The packet frames of \<open>src/include/server.h\<close>. Every frame is a packed struct of unsigned
  integers; here it is a record of words of the same widths, and \<open><frame>_fields\<close> lists its
  fields as \<open>(bytes, value)\<close> in the order of the declaration. The frames a client sends
  also have a \<open>build\<close> function, which is what the server does by reading the
  bytes into the struct. The locale \<open>frame_codec\<close> is what a client's frame promises: the
  encoding has a fixed size and reading it back gives the frame.
\<close>

definition u8 :: "8 word \<Rightarrow> nat \<times> nat" where "u8 x = (1, unat x)"
definition u16 :: "16 word \<Rightarrow> nat \<times> nat" where "u16 x = (2, unat x)"
definition u32 :: "32 word \<Rightarrow> nat \<times> nat" where "u32 x = (4, unat x)"
definition u64 :: "64 word \<Rightarrow> nat \<times> nat" where "u64 x = (8, unat x)"

lemmas field_defs = u8_def u16_def u32_def u64_def

definition struct_bytes :: "('f \<Rightarrow> fields) \<Rightarrow> 'f \<Rightarrow> bytes" where
  "struct_bytes fields f = encode_frame (fields f)"

definition struct_of :: "nat list \<Rightarrow> (nat list \<Rightarrow> 'f) \<Rightarrow> bytes \<Rightarrow> 'f" where
  "struct_of widths build bs = build (decode_frame widths bs)"

locale frame_codec =
  fixes widths :: "nat list" and fields :: "'f \<Rightarrow> fields" and build :: "nat list \<Rightarrow> 'f"
  assumes widths_fields: "map fst (fields f) = widths"
    and fits_fields: "fits (fields f)"
    and build_fields: "build (map snd (fields f)) = f"
begin

lemma length_struct: "length (struct_bytes fields f) = frame_size widths"
  using length_encode_frame [of "fields f"] by (simp add: struct_bytes_def widths_fields)

lemma struct_of_bytes [simp]: "struct_of widths build (struct_bytes fields f @ rest) = f"
  using decode_encode_fits [OF fits_fields, of f rest]
  by (simp add: struct_bytes_def struct_of_def widths_fields build_fields)

lemma struct_of_bytes_exact [simp]: "struct_of widths build (struct_bytes fields f) = f"
  using struct_of_bytes [of f "[]"] by simp

lemma struct_bytes_inject: "struct_bytes fields f = struct_bytes fields g \<longleftrightarrow> f = g"
  by (metis struct_of_bytes_exact)

end

section \<open>Frames a client sends\<close>

record frame_header =
  fh_opcode :: "32 word"
  fh_length :: "32 word"

definition header_fields :: "frame_header \<Rightarrow> fields" where
  "header_fields f = [u32 (fh_opcode f), u32 (fh_length f)]"

fun build_header :: "nat list \<Rightarrow> frame_header" where
  "build_header [a, b] = \<lparr>fh_opcode = of_nat a, fh_length = of_nat b\<rparr>"
| "build_header _ = \<lparr>fh_opcode = 0, fh_length = 0\<rparr>"

record frame_login =
  fl_id_token_length :: "16 word"
  fl_password_length :: "16 word"

definition login_fields :: "frame_login \<Rightarrow> fields" where
  "login_fields f = [u16 (fl_id_token_length f), u16 (fl_password_length f)]"

fun build_login :: "nat list \<Rightarrow> frame_login" where
  "build_login [a, b] = \<lparr>fl_id_token_length = of_nat a, fl_password_length = of_nat b\<rparr>"
| "build_login _ = \<lparr>fl_id_token_length = 0, fl_password_length = 0\<rparr>"

record frame_signup =
  fs_id_token_length :: "16 word"
  fs_password_length :: "16 word"
  fs_name_length :: "16 word"
  fs_avatar_length :: "32 word"

definition signup_fields :: "frame_signup \<Rightarrow> fields" where
  "signup_fields f = [u16 (fs_id_token_length f), u16 (fs_password_length f), u16 (fs_name_length f),
     u32 (fs_avatar_length f)]"

fun build_signup :: "nat list \<Rightarrow> frame_signup" where
  "build_signup [a, b, c, d] = \<lparr>fs_id_token_length = of_nat a, fs_password_length = of_nat b,
     fs_name_length = of_nat c, fs_avatar_length = of_nat d\<rparr>"
| "build_signup _ = \<lparr>fs_id_token_length = 0, fs_password_length = 0, fs_name_length = 0, fs_avatar_length = 0\<rparr>"

record frame_auth_session =
  fa_token_length :: "16 word"

definition auth_session_fields :: "frame_auth_session \<Rightarrow> fields" where
  "auth_session_fields f = [u16 (fa_token_length f)]"

fun build_auth_session :: "nat list \<Rightarrow> frame_auth_session" where
  "build_auth_session [a] = \<lparr>fa_token_length = of_nat a\<rparr>"
| "build_auth_session _ = \<lparr>fa_token_length = 0\<rparr>"

text \<open>The frames of \<open>ENTER\<close>, \<open>LEAVE\<close> and \<open>UNJOIN\<close> are three structs with the same single field,
  as is the one the server sends in \<open>POKER_RESTARTED\<close>.\<close>

record frame_table =
  ft_table_id :: "64 word"

definition table_fields :: "frame_table \<Rightarrow> fields" where
  "table_fields f = [u64 (ft_table_id f)]"

fun build_table :: "nat list \<Rightarrow> frame_table" where
  "build_table [a] = \<lparr>ft_table_id = of_nat a\<rparr>"
| "build_table _ = \<lparr>ft_table_id = 0\<rparr>"

record frame_join =
  fj_table_id :: "64 word"
  fj_position :: "8 word"
  fj_enterance_amount :: "64 word"

definition join_fields :: "frame_join \<Rightarrow> fields" where
  "join_fields f = [u64 (fj_table_id f), u8 (fj_position f), u64 (fj_enterance_amount f)]"

fun build_join :: "nat list \<Rightarrow> frame_join" where
  "build_join [a, b, c] = \<lparr>fj_table_id = of_nat a, fj_position = of_nat b, fj_enterance_amount = of_nat c\<rparr>"
| "build_join _ = \<lparr>fj_table_id = 0, fj_position = 0, fj_enterance_amount = 0\<rparr>"

record frame_action =
  fc_table_id :: "64 word"
  fc_action_kind :: "16 word"
  fc_amount :: "64 word"

definition action_fields :: "frame_action \<Rightarrow> fields" where
  "action_fields f = [u64 (fc_table_id f), u16 (fc_action_kind f), u64 (fc_amount f)]"

fun build_action :: "nat list \<Rightarrow> frame_action" where
  "build_action [a, b, c] = \<lparr>fc_table_id = of_nat a, fc_action_kind = of_nat b, fc_amount = of_nat c\<rparr>"
| "build_action _ = \<lparr>fc_table_id = 0, fc_action_kind = 0, fc_amount = 0\<rparr>"

text \<open>A window into a list: \<open>GET_TABLES\<close>, and \<open>GET_SESSIONS\<close>, whose handler reads into the
  struct of \<open>GET_TABLES\<close>.\<close>

record frame_window =
  fw_offset :: "16 word"
  fw_length :: "16 word"

definition window_fields :: "frame_window \<Rightarrow> fields" where
  "window_fields f = [u16 (fw_offset f), u16 (fw_length f)]"

fun build_window :: "nat list \<Rightarrow> frame_window" where
  "build_window [a, b] = \<lparr>fw_offset = of_nat a, fw_length = of_nat b\<rparr>"
| "build_window _ = \<lparr>fw_offset = 0, fw_length = 0\<rparr>"

record frame_update_account =
  fu_name_length :: "16 word"
  fu_avatar_length :: "32 word"

definition update_account_fields :: "frame_update_account \<Rightarrow> fields" where
  "update_account_fields f = [u16 (fu_name_length f), u32 (fu_avatar_length f)]"

fun build_update_account :: "nat list \<Rightarrow> frame_update_account" where
  "build_update_account [a, b] = \<lparr>fu_name_length = of_nat a, fu_avatar_length = of_nat b\<rparr>"
| "build_update_account _ = \<lparr>fu_name_length = 0, fu_avatar_length = 0\<rparr>"

interpretation header: frame_codec "[4, 4]" header_fields build_header
  by unfold_locales (simp_all add: header_fields_def field_defs fits_def)

interpretation login: frame_codec "[2, 2]" login_fields build_login
  by unfold_locales (simp_all add: login_fields_def field_defs fits_def)

interpretation signup: frame_codec "[2, 2, 2, 4]" signup_fields build_signup
  by unfold_locales (simp_all add: signup_fields_def field_defs fits_def)

interpretation auth_session: frame_codec "[2]" auth_session_fields build_auth_session
  by unfold_locales (simp_all add: auth_session_fields_def field_defs fits_def)

interpretation tableid: frame_codec "[8]" table_fields build_table
  by unfold_locales (simp_all add: table_fields_def field_defs fits_def)

interpretation join: frame_codec "[8, 1, 8]" join_fields build_join
  by unfold_locales (simp_all add: join_fields_def field_defs fits_def)

interpretation action: frame_codec "[8, 2, 8]" action_fields build_action
  by unfold_locales (simp_all add: action_fields_def field_defs fits_def)

interpretation window: frame_codec "[2, 2]" window_fields build_window
  by unfold_locales (simp_all add: window_fields_def field_defs fits_def)

interpretation update_account: frame_codec "[2, 4]" update_account_fields build_update_account
  by unfold_locales (simp_all add: update_account_fields_def field_defs fits_def)

end
