(* ===== verification/Account.thy ===== *)
theory Account
  imports Bytes RefCount
begin

text \<open>
  The account and the authenticated session as objects (\<open>src/include/account.h\<close>,
  \<open>src/include/auth.h\<close>). Strings are their bytes; the \<open>length\<close> field of a string is the length
  of the list.
\<close>

record account =
  ac_ref :: ref_counted
  ac_id :: "64 word"
  ac_id_token :: bytes
  ac_name :: bytes
  ac_avatar :: bytes
  ac_xmr_deposit_address :: bytes
  ac_xmr_deposit_address_index :: "64 word"
  ac_balance :: "64 word"
  ac_locked_balance :: "64 word"
  ac_total_deposited :: "64 word"
  ac_xmr_height :: "64 word"

record auth_session =
  as_ref :: ref_counted
  as_token :: bytes
  as_account :: account

end
