(* ===== verification/Server_Client.thy ===== *)
theory Server_Client
  imports Websocket Server_Frames Account
begin

text \<open>
  A connected client of \<open>src/src/server.c\<close>: its life (\<open>pkrsrv_server_client_new\<close>,
  \<open>pkrsrv_server_add_client\<close>, \<open>pkrsrv_server_remove_client\<close>, \<open>client_disconnected\<close>), and the two
  calls through which handlers read and write (\<open>pkrsrv_server_net_read\<close>,
  \<open>pkrsrv_server_net_write\<close>, and the macros \<open>READ_OR_CLOSE\<close> and \<open>WRITE_OR_CLOSE\<close>).

  The tasks a handler posts to the event loop are appended to \<open>cl_tasks\<close>. Freeing the client is
  its reference counter reaching 0, after which any use of it is the fault \<open>UseAfterFree\<close>.
\<close>

datatype task =
    ClientConnected | ClientDisconnected | ClientMeowed | ClientGetAccount
  | ClientLogin (login_id_token: bytes) (login_password: bytes)
  | ClientSignup (signup_id_token: bytes) (signup_password: bytes) (signup_name: bytes) (signup_avatar: bytes)
  | ClientAuthSession (auth_token: bytes)
  | ClientEnter (enter_table: "64 word")
  | ClientLeave (leave_table: "64 word")
  | ClientJoin (join_table: "64 word") (join_amount: "64 word") (join_position: "8 word")
  | ClientUnjoin (unjoin_table: "64 word")
  | ClientAction (action_table: "64 word") (action_kind: "16 word") (action_amount: "64 word")
  | ClientGetTables (tables_offset: "16 word") (tables_length: "16 word")
  | ClientGetSessions (sessions_offset: "16 word") (sessions_length: "16 word")
  | ClientUpdateAccount (update_name: bytes) (update_avatar: bytes)

record 's client =
  cl_ref :: ref_counted
  cl_is_alive :: bool
  cl_is_protocol_determined :: bool
  cl_is_websocket :: bool
  cl_websocket :: websocket
  cl_conn :: 's
  cl_listed :: bool
  cl_tasks :: "task list"

text \<open>\<open>pkrsrv_server_client_new\<close> followed by the assignments of the accepting loop.\<close>

definition client_new :: "ws_header \<Rightarrow> 's \<Rightarrow> 's client" where
  "client_new garbage conn = \<lparr>cl_ref = ref_counted_init, cl_is_alive = True,
     cl_is_protocol_determined = False, cl_is_websocket = False,
     cl_websocket = websocket_init garbage, cl_conn = conn, cl_listed = False, cl_tasks = []\<rparr>"

definition client_freed :: "'s client \<Rightarrow> bool" where
  "client_freed c \<longleftrightarrow> rc_frees (cl_ref c) > 0"

definition use_client :: "'s client \<Rightarrow> 's client outcome" where
  "use_client c = (if client_freed c then Inl UseAfterFree else Inr c)"

definition client_use :: "'s client \<Rightarrow> 's client" where
  "client_use c = c\<lparr>cl_ref := ref_counted_use (cl_ref c)\<rparr>"

definition client_leave :: "'s client \<Rightarrow> 's client" where
  "client_leave c = c\<lparr>cl_ref := ref_counted_leave (cl_ref c)\<rparr>"

definition post :: "task \<Rightarrow> 's client \<Rightarrow> 's client" where
  "post t c = c\<lparr>cl_tasks := cl_tasks c @ [t]\<rparr>"

definition add_client :: "'s client \<Rightarrow> 's client" where
  "add_client c = (client_use c)\<lparr>cl_listed := True\<rparr>"

text \<open>The reference is given up before the client is unlinked from the list, which reads and
  writes its links.\<close>

definition remove_client :: "'s client \<Rightarrow> 's client outcome" where
  "remove_client c = bindO (use_client (client_leave c)) (\<lambda>c. Inr (c\<lparr>cl_listed := False\<rparr>))"

definition client_disconnected :: "'s client \<Rightarrow> 's client outcome" where
  "client_disconnected c =
    bindO (use_client c) (\<lambda>c.
      if \<not> cl_is_alive c then Inr c
      else bindO (remove_client (c\<lparr>cl_is_alive := False\<rparr>)) (\<lambda>c.
        Inr (client_leave (post ClientDisconnected c))))"

section \<open>Reading and writing\<close>

text \<open>The results are \<open>int\<close>s: a length of 2 GiB or more comes out truncated.\<close>

definition int_result :: "int \<Rightarrow> int" where
  "int_result r = signed_take_bit 31 r"

definition net_read :: "'s recv \<Rightarrow> nat \<Rightarrow> 's client \<Rightarrow> (int \<times> bytes \<times> 's client) outcome" where
  "net_read recv n c =
    bindO (use_client c) (\<lambda>c.
      if cl_is_websocket c then
        bindO (read_payload (ssl_read recv) n (cl_websocket c) (cl_conn c)) (\<lambda>(r, data, ws, s).
          Inr (int_result r, data, c\<lparr>cl_websocket := ws, cl_conn := s\<rparr>))
      else (case ssl_read recv n (cl_conn c) of
        (None, s) \<Rightarrow> Inr (0, [], c\<lparr>cl_conn := s\<rparr>)
      | (Some data, s) \<Rightarrow> Inr (int_result (int n), data, c\<lparr>cl_conn := s\<rparr>)))"

definition net_write :: "'s writer \<Rightarrow> bytes \<Rightarrow> 's client \<Rightarrow> (int \<times> 's client) outcome" where
  "net_write wr bs c =
    bindO (use_client c) (\<lambda>c. case wr bs (cl_conn c) of (r, s) \<Rightarrow> Inr (r, c\<lparr>cl_conn := s\<rparr>))"

text \<open>The macro \<open>READ_OR_CLOSE\<close>, with what follows it as the continuation \<open>k\<close>: a result of 0 or
  less disconnects the client and jumps to the label \<open>RETURN\<close> of the handler, where \<open>cleanup\<close> is
  what follows. A fragmented websocket message can be shorter than what the handler reads; the
  rest of the buffer is then uninitialised.\<close>

definition read_or_return :: "'s recv \<Rightarrow> nat \<Rightarrow> ('s client \<Rightarrow> 's client outcome) \<Rightarrow>
   (bytes \<Rightarrow> 's client \<Rightarrow> 's client outcome) \<Rightarrow> 's client \<Rightarrow> 's client outcome" where
  "read_or_return recv n cleanup k c =
    bindO (net_read recv n c) (\<lambda>(r, data, c).
      if r \<le> 0 then bindO (client_disconnected c) cleanup
      else if length data < n then Inl UninitRead
      else k data c)"

text \<open>In most handlers nothing follows the label.\<close>

abbreviation read_or_close :: "'s recv \<Rightarrow> nat \<Rightarrow> (bytes \<Rightarrow> 's client \<Rightarrow> 's client outcome) \<Rightarrow>
   's client \<Rightarrow> 's client outcome" where
  "read_or_close recv n k c \<equiv> read_or_return recv n Inr k c"

definition read_if_positive :: "'s recv \<Rightarrow> nat \<Rightarrow> (bytes \<Rightarrow> 's client \<Rightarrow> 's client outcome) \<Rightarrow>
   's client \<Rightarrow> 's client outcome" where
  "read_if_positive recv n k c = (if 0 < n then read_or_close recv n k c else k [] c)"

section \<open>The life of a client\<close>

definition client_count :: "'s client \<Rightarrow> int" where
  "client_count c = rc_count (cl_ref c)"

lemma client_freed_simps [simp]:
  "client_freed (post t c) = client_freed c"
  "client_freed (client_use c) = client_freed c"
  by (simp_all add: client_freed_def post_def client_use_def ref_counted_use_def)

lemma use_client_live [simp]: "\<not> client_freed c \<Longrightarrow> use_client c = Inr c"
  by (simp add: use_client_def)

lemma client_leave_freed:
  "client_freed (client_leave c) \<longleftrightarrow> client_freed c \<or> client_count c = 1"
  by (auto simp: client_freed_def client_leave_def client_count_def ref_counted_leave_def Let_def)

lemma client_leave_count [simp]: "client_count (client_leave c) = client_count c - 1"
  by (simp add: client_leave_def client_count_def ref_counted_leave_def Let_def)

lemma client_leave_other [simp]:
  "cl_is_alive (client_leave c) = cl_is_alive c" "cl_tasks (client_leave c) = cl_tasks c"
  "cl_listed (client_leave c) = cl_listed c" "cl_conn (client_leave c) = cl_conn c"
  by (simp_all add: client_leave_def)

end
