(* ===== verification/Server_Packet.thy ===== *)
theory Server_Packet
  imports Server_Client Poker
begin

text \<open>
  The packets the server sends. A \<open>pkrsrv_server_send_*\<close> function of \<open>src/src/server.c\<close> first
  computes, for a websocket client, the length of the message and writes the websocket header,
  and then writes the packet with one call per vector, giving up and disconnecting at the first
  write that fails. \<open>declared\<close> is that length and \<open>script\<close> the list of the writes, both as the
  function of that packet computes them. A null dereference on the way is a value: of the length
  (\<open>Inl\<close>) or of the place in the script where it happens (\<open>Crash\<close>). A frame of \<open>server.h\<close>
  is the list of the widths of its fields in the order of the struct.
\<close>

unbundle bit_operations_syntax

datatype opcode = OP_NOP | OP_MEOW | OP_PING | OP_PONG | OP_LOGIN | OP_LOGIN_RES | OP_SIGNUP
  | OP_SIGNUP_RES | OP_AUTH_SESSION | OP_AUTH_SESSION_RES | OP_GET_ACCOUNT | OP_ACCOUNT
  | OP_ENTER | OP_ENTER_RES | OP_LEAVE | OP_LEAVE_RES | OP_JOIN | OP_JOIN_RES | OP_UNJOIN
  | OP_UNJOIN_RES | OP_POKER_INFO | OP_POKER_STATE | OP_POKER_ACTION | OP_POKER_ACTION_REFLECTION
  | OP_POKER_END | OP_POKER_RESTARTED | OP_JSON | OP_UNJOINED | OP_GET_TABLES | OP_TABLES
  | OP_GET_SESSIONS | OP_SESSIONS | OP_UPDATE_ACCOUNT | OP_UPDATE_ACCOUNT_RES | OP_SERVER_INFO
  | OP_OVER_CAPACITY | OP_END

definition opcodes :: "opcode list" where
  "opcodes = [OP_NOP, OP_MEOW, OP_PING, OP_PONG, OP_LOGIN, OP_LOGIN_RES, OP_SIGNUP, OP_SIGNUP_RES,
     OP_AUTH_SESSION, OP_AUTH_SESSION_RES, OP_GET_ACCOUNT, OP_ACCOUNT, OP_ENTER, OP_ENTER_RES,
     OP_LEAVE, OP_LEAVE_RES, OP_JOIN, OP_JOIN_RES, OP_UNJOIN, OP_UNJOIN_RES, OP_POKER_INFO,
     OP_POKER_STATE, OP_POKER_ACTION, OP_POKER_ACTION_REFLECTION, OP_POKER_END, OP_POKER_RESTARTED,
     OP_JSON, OP_UNJOINED, OP_GET_TABLES, OP_TABLES, OP_GET_SESSIONS, OP_SESSIONS,
     OP_UPDATE_ACCOUNT, OP_UPDATE_ACCOUNT_RES, OP_SERVER_INFO, OP_OVER_CAPACITY, OP_END]"

definition opcode_number :: "opcode \<Rightarrow> nat" where
  "opcode_number op = length (takeWhile (\<lambda>x. x \<noteq> op) opcodes)"

section \<open>The structs the server fills\<close>

text \<open>\<open>is_ok\<close>, \<open>is_logined\<close>, \<open>auth_token_length\<close>.\<close>
definition frame_login_res :: "nat list" where "frame_login_res = [1, 1, 2]"

text \<open>\<open>is_ok\<close>, \<open>is_logined\<close>, \<open>status\<close>, \<open>auth_token_length\<close>.\<close>
definition frame_signup_res :: "nat list" where "frame_signup_res = [1, 1, 2, 2]"

text \<open>\<open>is_ok\<close>, \<open>is_logined\<close>.\<close>
definition frame_auth_session_res :: "nat list" where "frame_auth_session_res = [1, 1]"

text \<open>\<open>xmr_deposit_address_length\<close>, \<open>id_token_length\<close>, \<open>name_length\<close>, \<open>avatar_length\<close>, \<open>id\<close>,
  \<open>balance\<close>; the same in the answers to a login and to a session and in \<open>ACCOUNT\<close>.\<close>
definition frame_login_res_account :: "nat list" where "frame_login_res_account = [2, 2, 2, 4, 8, 8]"
definition frame_auth_session_res_account :: "nat list" where "frame_auth_session_res_account = [2, 2, 2, 4, 8, 8]"
definition frame_account :: "nat list" where "frame_account = [2, 2, 2, 4, 8, 8]"

text \<open>\<open>id_token_length\<close>, \<open>name_length\<close>, \<open>avatar_length\<close>, \<open>xmr_deposit_address_length\<close>, \<open>id\<close>,
  \<open>balance\<close>.\<close>
definition frame_signup_res_account :: "nat list" where "frame_signup_res_account = [2, 2, 4, 2, 8, 8]"

text \<open>\<open>table_id\<close>, \<open>is_ok\<close>, in the four answers about a table.\<close>
definition frame_enter_res :: "nat list" where "frame_enter_res = [8, 1]"
definition frame_leave_res :: "nat list" where "frame_leave_res = [8, 1]"
definition frame_join_res :: "nat list" where "frame_join_res = [8, 1]"
definition frame_unjoin_res :: "nat list" where "frame_unjoin_res = [8, 1]"

text \<open>\<open>name_length\<close>, \<open>players_length\<close>, \<open>table_id\<close>, \<open>max_players\<close>, \<open>action_timeout\<close>,
  \<open>small_blind\<close>, \<open>big_blind\<close>, \<open>enterance_min\<close>, \<open>enterance_max\<close>.\<close>
definition frame_poker_info :: "nat list" where "frame_poker_info = [2, 2, 8, 2, 2, 8, 8, 8, 8]"

text \<open>\<open>name_length\<close>, \<open>avatar_length\<close>, \<open>id\<close>, \<open>position\<close>, \<open>is_playing\<close>, \<open>is_dealt\<close>,
  \<open>is_allin\<close>, \<open>is_folded\<close>, \<open>is_left\<close>, \<open>balance\<close>.\<close>
definition frame_poker_info_player :: "nat list" where
  "frame_poker_info_player = [2, 4, 8, 1, 1, 1, 1, 1, 1, 8]"

text \<open>\<open>players_length\<close>, \<open>table_id\<close>, \<open>state\<close>, \<open>is_playing\<close>, \<open>cards[5]\<close>, \<open>position\<close>,
  \<open>playing_position\<close>, \<open>is_dealt\<close>, \<open>hand_cards[2]\<close>, \<open>balance\<close>, \<open>bet\<close>, \<open>current_raise\<close>,
  \<open>current_bet\<close>, \<open>pot_amount\<close>, \<open>starting_time\<close>.\<close>
definition frame_poker_state :: "nat list" where
  "frame_poker_state = [2, 8, 2, 1, 1, 1, 1, 1, 1, 1, 1, 1, 1, 1, 8, 8, 8, 8, 8, 8]"

text \<open>\<open>name_length\<close>, \<open>id\<close>, \<open>position\<close>, \<open>is_playing\<close>, \<open>is_dealt\<close>, \<open>is_allin\<close>, \<open>is_folded\<close>,
  \<open>is_left\<close>, \<open>balance\<close>.\<close>
definition frame_poker_state_player :: "nat list" where
  "frame_poker_state_player = [2, 8, 1, 1, 1, 1, 1, 1, 8]"

text \<open>\<open>table_id\<close>, \<open>account_id\<close>, \<open>action_kind\<close>, \<open>amount\<close>.\<close>
definition frame_poker_action_reflection :: "nat list" where
  "frame_poker_action_reflection = [8, 8, 2, 8]"

text \<open>\<open>table_id\<close>, \<open>winner_account_id\<close>, \<open>scores_length\<close>, \<open>earned_amount\<close>; \<open>bet_diff_length\<close>,
  \<open>account_id\<close>.\<close>
definition frame_poker_end :: "nat list" where "frame_poker_end = [8, 8, 1, 8]"
definition frame_poker_end_score :: "nat list" where "frame_poker_end_score = [8, 8]"

text \<open>\<open>table_id\<close>; \<open>table_id\<close>, \<open>reason\<close>; \<open>offset\<close>, \<open>length\<close>.\<close>
definition frame_poker_restarted :: "nat list" where "frame_poker_restarted = [8]"
definition frame_unjoined :: "nat list" where "frame_unjoined = [8, 4]"
definition frame_tables :: "nat list" where "frame_tables = [2, 2]"
definition frame_sessions :: "nat list" where "frame_sessions = [2, 2]"

text \<open>\<open>name_length\<close>, \<open>id\<close>, \<open>max_players\<close>, \<open>players_count\<close>, \<open>watchers_count\<close>,
  \<open>small_blind\<close>, \<open>big_blind\<close>.\<close>
definition frame_table :: "nat list" where "frame_table = [2, 8, 2, 2, 2, 8, 8]"

text \<open>\<open>build_number\<close> and three lengths; \<open>is_ok\<close>, \<open>is_avatar_too_big\<close>.\<close>
definition frame_server_info :: "nat list" where "frame_server_info = [8, 2, 2, 2]"
definition frame_update_account_res :: "nat list" where "frame_update_account_res = [1, 1]"

lemmas frame_defs = frame_login_res_def frame_signup_res_def frame_auth_session_res_def
  frame_login_res_account_def frame_auth_session_res_account_def frame_account_def
  frame_signup_res_account_def frame_enter_res_def frame_leave_res_def frame_join_res_def
  frame_unjoin_res_def frame_poker_info_def frame_poker_info_player_def frame_poker_state_def
  frame_poker_state_player_def frame_poker_action_reflection_def frame_poker_end_def
  frame_poker_end_score_def frame_poker_restarted_def frame_unjoined_def frame_tables_def
  frame_sessions_def frame_table_def frame_server_info_def frame_update_account_res_def

definition sizeof :: "nat list \<Rightarrow> nat" where
  "sizeof ws = sum_list ws"

text \<open>Storing a value in a field keeps its low bytes.\<close>

definition pack :: "nat list \<Rightarrow> nat list \<Rightarrow> bytes" where
  "pack ws vs = encode_frame (zip ws vs)"

definition sizeof_header :: nat where "sizeof_header = 8"

lemma length_pack [simp]: "length ws = length vs \<Longrightarrow> length (pack ws vs) = sizeof ws"
  by (simp add: pack_def length_encode_frame frame_size_def sizeof_def)

definition header_of :: "opcode \<Rightarrow> bytes" where
  "header_of op = pack [4, 4] [opcode_number op, 0]"

lemma length_header_of [simp]: "length (header_of op) = sizeof_header"
  by (simp add: header_of_def sizeof_header_def sizeof_def)

section \<open>Values of fields\<close>

definition len16 :: "bytes \<Rightarrow> nat" where "len16 bs = length bs mod 65536"
definition len32 :: "bytes \<Rightarrow> nat" where "len32 bs = length bs mod 4294967296"
definition of_int8 :: "int \<Rightarrow> nat" where "of_int8 x = nat (x mod 256)"
definition of_int16 :: "int \<Rightarrow> nat" where "of_int16 x = nat (x mod 65536)"

text \<open>A card in one byte; a card not dealt, index and kind -1, is \<open>0xFF\<close>.\<close>

definition card_byte :: "card \<Rightarrow> nat" where
  "card_byte c = of_int8 (push_bit 4 (card_index c) OR card_kind c)"

datatype write_step = Write bytes | Sub "bytes list" | Crash fault

definition write_if :: "nat \<Rightarrow> bytes \<Rightarrow> write_step list" where
  "write_if n bs = (if n \<noteq> 0 then [Write (take n bs)] else [])"

end
