(* ===== verification/Server_Send.thy ===== *)
theory Server_Send
  imports Server_Packet
begin

text \<open>
  The packets and the \<open>pkrsrv_server_send_*\<close> functions that write them. The accounts of the
  players of a game, which the code reaches through \<open>player->account\<close>, are a parameter that
  maps their ids to them.
\<close>

type_synonym accounts = "64 word \<Rightarrow> account"

section \<open>Sessions and accounts\<close>

definition login_res_length :: "nat \<Rightarrow> nat \<Rightarrow> account option \<Rightarrow> auth_session option \<Rightarrow> nat outcome" where
  "login_res_length is_ok is_logined account session =
    (let length = sizeof_header + sizeof frame_login_res in
     if is_ok \<noteq> 0 \<and> is_logined \<noteq> 0 then
       bindO (deref account) (\<lambda>a. bindO (deref session) (\<lambda>s.
         Inr (length + sizeof frame_login_res_account + List.length (ac_id_token a)
           + List.length (ac_name a) + List.length (ac_avatar a)
           + List.length (ac_xmr_deposit_address a) + List.length (as_token s))))
     else Inr length)"

definition login_res_script :: "nat \<Rightarrow> nat \<Rightarrow> account option \<Rightarrow> auth_session option \<Rightarrow> write_step list" where
  "login_res_script is_ok is_logined account session =
    (let token = (case session of None \<Rightarrow> [] | Some s \<Rightarrow> as_token s)
     in [Write (header_of OP_LOGIN_RES), Write (pack frame_login_res [is_ok, is_logined, len16 token])]
        @ (if is_ok \<noteq> 0 \<and> is_logined \<noteq> 0 then
            (case account of None \<Rightarrow> [Crash NullDeref] | Some a \<Rightarrow>
              Write (pack frame_login_res_account [len16 (ac_xmr_deposit_address a), len16 (ac_id_token a),
                len16 (ac_name a), len32 (ac_avatar a), unat (ac_id a), unat (ac_balance a)])
              # write_if (len16 (ac_xmr_deposit_address a)) (ac_xmr_deposit_address a)
              @ [Write (take (len16 (ac_id_token a)) (ac_id_token a)), Write (take (len16 (ac_name a)) (ac_name a))]
              @ write_if (len32 (ac_avatar a)) (ac_avatar a))
          else [])
        @ write_if (len16 token) token)"

definition signup_res_length :: "nat \<Rightarrow> nat \<Rightarrow> account option \<Rightarrow> auth_session option \<Rightarrow> nat outcome" where
  "signup_res_length is_ok is_logined account session =
    (let length = sizeof_header + sizeof frame_signup_res in
     if is_ok \<noteq> 0 \<and> is_logined \<noteq> 0 then
       bindO (deref account) (\<lambda>a. bindO (deref session) (\<lambda>s.
         Inr (length + sizeof frame_signup_res_account + List.length (ac_id_token a)
           + List.length (ac_name a) + List.length (ac_avatar a)
           + List.length (ac_xmr_deposit_address a) + List.length (as_token s))))
     else Inr length)"

definition signup_res_script :: "nat \<Rightarrow> nat \<Rightarrow> nat \<Rightarrow> account option \<Rightarrow> auth_session option \<Rightarrow> write_step list" where
  "signup_res_script is_ok is_logined status account session =
    (let token = (case session of None \<Rightarrow> [] | Some s \<Rightarrow> as_token s)
     in [Write (header_of OP_SIGNUP_RES), Write (pack frame_signup_res [is_ok, is_logined, status, len16 token])]
        @ (if is_ok \<noteq> 0 \<and> is_logined \<noteq> 0 then
            (case account of None \<Rightarrow> [Crash NullDeref] | Some a \<Rightarrow>
              [Write (pack frame_signup_res_account [len16 (ac_id_token a), len16 (ac_name a),
                len32 (ac_avatar a), len16 (ac_xmr_deposit_address a), unat (ac_id a), unat (ac_balance a)]),
               Write (take (len16 (ac_id_token a)) (ac_id_token a)), Write (take (len16 (ac_name a)) (ac_name a))]
              @ write_if (len32 (ac_avatar a)) (ac_avatar a)
              @ write_if (len16 (ac_xmr_deposit_address a)) (ac_xmr_deposit_address a))
          else [])
        @ write_if (len16 token) token)"

definition auth_session_res_length :: "nat \<Rightarrow> nat \<Rightarrow> account option \<Rightarrow> nat outcome" where
  "auth_session_res_length is_ok is_logined account =
    (let length = sizeof_header + sizeof frame_auth_session_res in
     if is_ok \<noteq> 0 \<and> is_logined \<noteq> 0 then
       bindO (deref account) (\<lambda>a.
         Inr (length + sizeof frame_auth_session_res_account + List.length (ac_id_token a)
           + List.length (ac_name a) + List.length (ac_avatar a) + List.length (ac_xmr_deposit_address a)))
     else Inr length)"

definition auth_session_res_script :: "nat \<Rightarrow> nat \<Rightarrow> account option \<Rightarrow> write_step list" where
  "auth_session_res_script is_ok is_logined account =
    [Write (header_of OP_AUTH_SESSION_RES), Write (pack frame_auth_session_res [is_ok, is_logined])]
    @ (if is_ok \<noteq> 0 \<and> is_logined \<noteq> 0 then
        (case account of None \<Rightarrow> [Crash NullDeref] | Some a \<Rightarrow>
          [Write (pack frame_auth_session_res_account [len16 (ac_xmr_deposit_address a), len16 (ac_id_token a),
             len16 (ac_name a), len32 (ac_avatar a), unat (ac_id a), unat (ac_balance a)]),
           Write (take (len16 (ac_id_token a)) (ac_id_token a)), Write (take (len16 (ac_name a)) (ac_name a))]
          @ write_if (len32 (ac_avatar a)) (ac_avatar a)
          @ write_if (len16 (ac_xmr_deposit_address a)) (ac_xmr_deposit_address a))
      else [])"

definition account_length :: "account \<Rightarrow> nat outcome" where
  "account_length a = Inr (sizeof_header + sizeof frame_account + length (ac_xmr_deposit_address a)
     + length (ac_id_token a) + length (ac_name a) + length (ac_avatar a))"

definition account_script :: "account \<Rightarrow> write_step list" where
  "account_script a =
    [Write (header_of OP_ACCOUNT),
     Write (pack frame_account [len16 (ac_xmr_deposit_address a), len16 (ac_id_token a), len16 (ac_name a),
       len32 (ac_avatar a), unat (ac_id a), unat (ac_balance a)])]
    @ write_if (len16 (ac_xmr_deposit_address a)) (ac_xmr_deposit_address a)
    @ [Write (take (len16 (ac_id_token a)) (ac_id_token a)), Write (take (len16 (ac_name a)) (ac_name a))]
    @ write_if (len32 (ac_avatar a)) (ac_avatar a)"

section \<open>The game\<close>

text \<open>\<open>pkrsrv_server_send_poker_info_player\<close> and \<open>pkrsrv_server_send_poker_state_player\<close>: their
  callers ignore the result, so a failed write ends only the player's part.\<close>

definition info_player :: "accounts \<Rightarrow> player \<Rightarrow> bytes list" where
  "info_player acct pl =
    (let a = acct (pl_account pl)
     in pack frame_poker_info_player [len16 (ac_name a), len32 (ac_avatar a), unat (ac_id a),
          of_int8 (pl_position pl), of_bool (pl_playing pl), of_bool (pl_dealt pl), of_bool (pl_allin pl),
          of_bool (pl_folded pl), of_bool (pl_left pl), unat (pl_balance pl)]
        # (if len16 (ac_name a) > 0 then [take (len16 (ac_name a)) (ac_name a)] else [])
        @ (if len32 (ac_avatar a) > 0 then [take (len32 (ac_avatar a)) (ac_avatar a)] else []))"

definition state_player :: "accounts \<Rightarrow> player \<Rightarrow> bytes list" where
  "state_player acct pl =
    (let a = acct (pl_account pl)
     in pack frame_poker_state_player [len16 (ac_name a), unat (ac_id a), of_int8 (pl_position pl),
          of_bool (pl_playing pl), of_bool (pl_dealt pl), of_bool (pl_allin pl), of_bool (pl_folded pl),
          of_bool (pl_left pl), unat (pl_balance pl)]
        # (if len16 (ac_name a) > 0 then [take (len16 (ac_name a)) (ac_name a)] else []))"

definition seated :: "poker \<Rightarrow> player list" where
  "seated p = map (the_player p) (pk_players p)"

definition poker_info_values :: "poker \<Rightarrow> nat list" where
  "poker_info_values p =
    (let t = pk_table p in
     [len16 (tb_name t), length (pk_players p), unat (tb_id t), of_int16 (tb_max_players t),
      of_int16 (tb_action_timeout t), unat (tb_small_blind t), unat (tb_big_blind t),
      unat (tb_enterance_min t), unat (tb_enterance_max t)])"

definition info_body_length :: "accounts \<Rightarrow> poker \<Rightarrow> nat" where
  "info_body_length acct p = sizeof frame_poker_info + length (tb_name (pk_table p))
     + sum_list (map (\<lambda>pl. sizeof frame_poker_info_player + length (ac_name (acct (pl_account pl)))
         + length (ac_avatar (acct (pl_account pl)))) (seated p))"

definition poker_info_length :: "accounts \<Rightarrow> poker \<Rightarrow> nat outcome" where
  "poker_info_length acct p = Inr (sizeof_header + info_body_length acct p)"

definition poker_info_script :: "accounts \<Rightarrow> poker \<Rightarrow> write_step list" where
  "poker_info_script acct p =
    [Write (header_of OP_POKER_INFO), Write (pack frame_poker_info (poker_info_values p)),
     Write (take (len16 (tb_name (pk_table p))) (tb_name (pk_table p)))]
    @ map (\<lambda>pl. Sub (info_player acct pl)) (seated p)"

definition poker_state_values :: "poker \<Rightarrow> player option \<Rightarrow> nat list" where
  "poker_state_values p viewer =
    (let flop = hd_cards (pk_hands p HAND_FLOP);
         turn = hd_cards (pk_hands p HAND_TURN);
         river = hd_cards (pk_hands p HAND_RIVER);
         (is_playing, position, is_dealt, hand, balance, bet) =
           (case viewer of
             None \<Rightarrow> (0, 0, 0, [0, 0], 0, 0)
           | Some pl \<Rightarrow> (of_bool (pl_playing pl), of_int8 (pl_position pl), of_bool (pl_dealt pl),
               if pl_dealt pl then [card_byte (pl_cards pl ! 0), card_byte (pl_cards pl ! 1)] else [0, 0],
               unat (pl_balance pl), unat (pl_bet pl)))
     in [length (pk_players p), unat (tb_id (pk_table p)), state_index (pk_state p), is_playing,
         card_byte (flop ! 0), card_byte (flop ! 1), card_byte (flop ! 2), card_byte (turn ! 0),
         card_byte (river ! 0), position, of_int8 (pk_playing_position p), is_dealt, hand ! 0, hand ! 1,
         balance, bet, unat (pk_current_raise p), unat (pk_current_bet p), unat (pk_pot p),
         unat (pk_starting_time p)])"

definition poker_state_length :: "accounts \<Rightarrow> poker \<Rightarrow> nat outcome" where
  "poker_state_length acct p = Inr (sizeof_header + sizeof frame_poker_state
     + sum_list (map (\<lambda>pl. sizeof frame_poker_state_player + length (ac_name (acct (pl_account pl)))) (seated p)))"

definition poker_state_script :: "accounts \<Rightarrow> poker \<Rightarrow> player option \<Rightarrow> write_step list" where
  "poker_state_script acct p viewer =
    [Write (header_of OP_POKER_STATE), Write (pack frame_poker_state (poker_state_values p viewer))]
    @ map (\<lambda>pl. Sub (state_player acct pl)) (seated p)"

definition poker_end_length :: "poker \<Rightarrow> nat outcome" where
  "poker_end_length p = Inr (sizeof_header + sizeof frame_poker_end
     + sizeof frame_poker_end_score * length (pk_scores p))"

text \<open>The loop over the scores is bounded by the byte \<open>scores_length\<close> of the frame.\<close>

definition poker_end_script :: "poker \<Rightarrow> 64 word \<Rightarrow> 64 word \<Rightarrow> write_step list" where
  "poker_end_script p winner earned =
    [Write (header_of OP_POKER_END),
     Write (pack frame_poker_end [unat (tb_id (pk_table p)), unat winner, length (pk_scores p) mod 256, unat earned])]
    @ map (\<lambda>(i, diff). Write (pack frame_poker_end_score [unat diff, unat (pl_account (the_player p i))]))
        (take (length (pk_scores p) mod 256) (pk_scores p))"

section \<open>Lists of tables and games\<close>

definition tables_length :: "table list \<Rightarrow> nat outcome" where
  "tables_length ts = Inr (sizeof_header + sizeof frame_tables
     + sum_list (map (\<lambda>t. sizeof frame_table + length (tb_name t)) ts))"

definition table_steps :: "table \<Rightarrow> write_step list" where
  "table_steps t =
    [Write (pack frame_table [len16 (tb_name t), unat (tb_id t), of_int16 (tb_max_players t),
       of_int16 (tb_players_count t), of_int16 (tb_watchers_count t), unat (tb_small_blind t),
       unat (tb_big_blind t)]),
     Write (tb_name t)]"

definition tables_script :: "16 word \<Rightarrow> table list \<Rightarrow> write_step list" where
  "tables_script offset ts =
    [Write (header_of OP_TABLES), Write (pack frame_tables [unat offset, length ts])]
    @ concat (map table_steps ts)"

definition sessions_length :: "accounts \<Rightarrow> poker list \<Rightarrow> nat outcome" where
  "sessions_length acct ps = Inr (sizeof_header + sizeof frame_sessions
     + sum_list (map (info_body_length acct) ps))"

definition session_steps :: "accounts \<Rightarrow> poker \<Rightarrow> write_step list" where
  "session_steps acct p =
    [Write (pack frame_poker_info (poker_info_values p)), Write (tb_name (pk_table p))]
    @ map (\<lambda>pl. Sub (info_player acct pl)) (seated p)"

definition sessions_script :: "accounts \<Rightarrow> 16 word \<Rightarrow> poker list \<Rightarrow> write_step list" where
  "sessions_script acct offset ps =
    [Write (header_of OP_SESSIONS), Write (pack frame_sessions [unat offset, length ps])]
    @ concat (map (session_steps acct) ps)"

definition server_info_length :: "bytes \<Rightarrow> bytes \<Rightarrow> bytes \<Rightarrow> nat outcome" where
  "server_info_length version revision compiler = Inr (sizeof_header + sizeof frame_server_info
     + length version + length revision + length compiler)"

definition server_info_script :: "64 word \<Rightarrow> bytes \<Rightarrow> bytes \<Rightarrow> bytes \<Rightarrow> write_step list" where
  "server_info_script build version revision compiler =
    [Write (header_of OP_SERVER_INFO),
     Write (pack frame_server_info [unat build, len16 version, len16 revision, len16 compiler])]
    @ write_if (length version) version @ write_if (length revision) revision
    @ write_if (length compiler) compiler"

text \<open>The packets of a fixed size: a header and at most one frame.\<close>

definition over_capacity_script :: "write_step list" where
  "over_capacity_script = [Write (header_of OP_OVER_CAPACITY)]"

definition pong_script :: "write_step list" where
  "pong_script = [Write (header_of OP_PONG)]"

definition enter_res_script :: "64 word \<Rightarrow> nat \<Rightarrow> write_step list" where
  "enter_res_script table_id is_ok =
    [Write (header_of OP_ENTER_RES), Write (pack frame_enter_res [unat table_id, is_ok])]"

definition leave_res_script :: "64 word \<Rightarrow> nat \<Rightarrow> write_step list" where
  "leave_res_script table_id is_ok =
    [Write (header_of OP_LEAVE_RES), Write (pack frame_leave_res [unat table_id, is_ok])]"

definition join_res_script :: "64 word \<Rightarrow> nat \<Rightarrow> write_step list" where
  "join_res_script table_id is_ok =
    [Write (header_of OP_JOIN_RES), Write (pack frame_join_res [unat table_id, is_ok])]"

definition unjoin_res_script :: "64 word \<Rightarrow> nat \<Rightarrow> write_step list" where
  "unjoin_res_script table_id is_ok =
    [Write (header_of OP_UNJOIN_RES), Write (pack frame_unjoin_res [unat table_id, is_ok])]"

definition action_reflection_script :: "64 word \<Rightarrow> 64 word \<Rightarrow> nat \<Rightarrow> 64 word \<Rightarrow> write_step list" where
  "action_reflection_script table_id account_id kind amount =
    [Write (header_of OP_POKER_ACTION_REFLECTION),
     Write (pack frame_poker_action_reflection [unat table_id, unat account_id, kind, unat amount])]"

definition poker_restarted_script :: "64 word \<Rightarrow> write_step list" where
  "poker_restarted_script table_id =
    [Write (header_of OP_POKER_RESTARTED), Write (pack frame_poker_restarted [unat table_id])]"

text \<open>The reason is a parameter of \<open>pkrsrv_server_send_unjoined\<close> that it does not store in the frame.\<close>

definition unjoined_script :: "64 word \<Rightarrow> 32 word \<Rightarrow> write_step list" where
  "unjoined_script table_id reason =
    [Write (header_of OP_UNJOINED), Write (pack frame_unjoined [unat table_id, 0])]"

definition update_account_res_script :: "bool \<Rightarrow> bool \<Rightarrow> write_step list" where
  "update_account_res_script is_ok is_avatar_too_big =
    [Write (header_of OP_UPDATE_ACCOUNT_RES),
     Write (pack frame_update_account_res [of_bool is_ok, of_bool is_avatar_too_big])]"

lemmas fixed_scripts [simp] = over_capacity_script_def pong_script_def enter_res_script_def
  leave_res_script_def join_res_script_def unjoin_res_script_def action_reflection_script_def
  poker_restarted_script_def unjoined_script_def update_account_res_script_def

text \<open>\<open>pkrsrv_server_send_json\<close> writes from \<open>&params.json->value\<close>, the address of the pointer and
  not of the text: the bytes sent are those of the string object in memory, \<open>object\<close>.\<close>

definition json_length :: "bytes \<Rightarrow> nat outcome" where
  "json_length json = Inr (sizeof_header + length json)"

definition json_script :: "bytes \<Rightarrow> bytes \<Rightarrow> write_step list" where
  "json_script object json =
    [Write (pack [4, 4] [opcode_number OP_JSON, length json]),
     if length json \<le> length object then Write (take (length json) object) else Crash OutOfRange]"

section \<open>All packets\<close>

datatype server_packet =
    OverCapacity
  | PongPacket
  | LoginRes nat nat "account option" "auth_session option"
  | SignupRes nat nat nat "account option" "auth_session option"
  | AuthSessionRes nat nat "account option"
  | AccountPacket account
  | EnterRes "64 word" nat
  | LeaveRes "64 word" nat
  | JoinRes "64 word" nat
  | UnjoinRes "64 word" nat
  | PokerInfo poker
  | PokerState poker "player option"
  | ActionReflection "64 word" "64 word" nat "64 word"
  | PokerEnd poker "64 word" "64 word"
  | PokerRestarted "64 word"
  | Unjoined "64 word" "32 word"
  | Tables "16 word" "table list"
  | Sessions "16 word" "poker list"
  | UpdateAccountRes bool bool
  | ServerInfo "64 word" bytes bytes bytes
  | Json bytes bytes

fun declared :: "accounts \<Rightarrow> server_packet \<Rightarrow> nat outcome" where
  "declared acct OverCapacity = Inr sizeof_header"
| "declared acct PongPacket = Inr sizeof_header"
| "declared acct (LoginRes ok logined a s) = login_res_length ok logined a s"
| "declared acct (SignupRes ok logined st a s) = signup_res_length ok logined a s"
| "declared acct (AuthSessionRes ok logined a) = auth_session_res_length ok logined a"
| "declared acct (AccountPacket a) = account_length a"
| "declared acct (EnterRes t ok) = Inr (sizeof_header + sizeof frame_enter_res)"
| "declared acct (LeaveRes t ok) = Inr (sizeof_header + sizeof frame_leave_res)"
| "declared acct (JoinRes t ok) = Inr (sizeof_header + sizeof frame_join_res)"
| "declared acct (UnjoinRes t ok) = Inr (sizeof_header + sizeof frame_unjoin_res)"
| "declared acct (PokerInfo p) = poker_info_length acct p"
| "declared acct (PokerState p v) = poker_state_length acct p"
| "declared acct (ActionReflection t a k m) = Inr (sizeof_header + sizeof frame_poker_action_reflection)"
| "declared acct (PokerEnd p w e) = poker_end_length p"
| "declared acct (PokerRestarted t) = Inr (sizeof_header + sizeof frame_poker_restarted)"
| "declared acct (Unjoined t reason) = Inr (sizeof_header + sizeof frame_unjoined)"
| "declared acct (Tables off ts) = tables_length ts"
| "declared acct (Sessions off ps) = sessions_length acct ps"
| "declared acct (UpdateAccountRes ok big) = Inr (sizeof_header + sizeof frame_update_account_res)"
| "declared acct (ServerInfo b v r c) = server_info_length v r c"
| "declared acct (Json obj j) = json_length j"

fun script :: "accounts \<Rightarrow> server_packet \<Rightarrow> write_step list" where
  "script acct OverCapacity = over_capacity_script"
| "script acct PongPacket = pong_script"
| "script acct (LoginRes ok logined a s) = login_res_script ok logined a s"
| "script acct (SignupRes ok logined st a s) = signup_res_script ok logined st a s"
| "script acct (AuthSessionRes ok logined a) = auth_session_res_script ok logined a"
| "script acct (AccountPacket a) = account_script a"
| "script acct (EnterRes t ok) = enter_res_script t ok"
| "script acct (LeaveRes t ok) = leave_res_script t ok"
| "script acct (JoinRes t ok) = join_res_script t ok"
| "script acct (UnjoinRes t ok) = unjoin_res_script t ok"
| "script acct (PokerInfo p) = poker_info_script acct p"
| "script acct (PokerState p v) = poker_state_script acct p v"
| "script acct (ActionReflection t a k m) = action_reflection_script t a k m"
| "script acct (PokerEnd p w e) = poker_end_script p w e"
| "script acct (PokerRestarted t) = poker_restarted_script t"
| "script acct (Unjoined t reason) = unjoined_script t reason"
| "script acct (Tables off ts) = tables_script off ts"
| "script acct (Sessions off ps) = sessions_script acct off ps"
| "script acct (UpdateAccountRes ok big) = update_account_res_script ok big"
| "script acct (ServerInfo b v r c) = server_info_script b v r c"
| "script acct (Json obj j) = json_script obj j"

section \<open>Sending\<close>

text \<open>A run of writes that stops at the first failure, as in the player functions; the macro
  \<open>WRITE_OR_CLOSE\<close> disconnects the client then.\<close>

fun write_all :: "'s writer \<Rightarrow> bytes list \<Rightarrow> 's client \<Rightarrow> (bool \<times> 's client) outcome" where
  "write_all wr [] c = Inr (True, c)"
| "write_all wr (bs # bss) c =
    bindO (net_write wr bs c) (\<lambda>(r, c).
      if r \<le> 0 then bindO (client_disconnected c) (\<lambda>c. Inr (False, c)) else write_all wr bss c)"

fun run_script :: "'s writer \<Rightarrow> write_step list \<Rightarrow> 's client \<Rightarrow> (bool \<times> 's client) outcome" where
  "run_script wr [] c = Inr (True, c)"
| "run_script wr (Write bs # steps) c =
    bindO (net_write wr bs c) (\<lambda>(r, c).
      if r \<le> 0 then bindO (client_disconnected c) (\<lambda>c. Inr (False, c)) else run_script wr steps c)"
| "run_script wr (Sub bss # steps) c = bindO (write_all wr bss c) (\<lambda>(_, c). run_script wr steps c)"
| "run_script wr (Crash e # steps) c = Inl e"

text \<open>The message with its websocket header, where the client speaks websocket.\<close>

definition send_message :: "'s writer \<Rightarrow> accounts \<Rightarrow> server_packet \<Rightarrow> 's client \<Rightarrow> (bool \<times> 's client) outcome" where
  "send_message wr acct p c =
    (if cl_is_websocket c then
       bindO (declared acct p) (\<lambda>n.
         case send_header wr n (cl_conn c) of (r, s) \<Rightarrow>
           let c = c\<lparr>cl_conn := s\<rparr>
           in if r \<le> 0 then bindO (client_disconnected c) (\<lambda>c. Inr (False, c))
              else run_script wr (script acct p) c)
     else run_script wr (script acct p) c)"

text \<open>Every \<open>pkrsrv_server_send_*\<close> locks the client's write mutex first and unlocks it at its
  label \<open>RETURN\<close>, so it uses the client after a failed write has disconnected it.\<close>

definition server_send :: "'s writer \<Rightarrow> accounts \<Rightarrow> server_packet \<Rightarrow> 's client \<Rightarrow> (bool \<times> 's client) outcome" where
  "server_send wr acct p c =
    bindO (use_client c) (\<lambda>c. bindO (send_message wr acct p c) (\<lambda>(ok, c).
      bindO (use_client c) (\<lambda>c. Inr (ok, c))))"

text \<open>The static \<open>send_packet\<close> behind \<open>pkrsrv_server_send_binary\<close> writes the header of an empty
  packet whose length field is uninitialised, and not the message.\<close>

definition send_binary :: "'s writer \<Rightarrow> 32 word \<Rightarrow> bytes \<Rightarrow> 's client \<Rightarrow> (bool \<times> 's client) outcome" where
  "send_binary wr garbage message c =
    bindO (net_write wr (pack [4, 4] [opcode_number OP_NOP, unat garbage]) c) (\<lambda>(r, c).
      if r \<le> 0 then bindO (client_disconnected c) (\<lambda>c. Inr (False, c)) else Inr (True, c))"

section \<open>What a script writes\<close>

fun step_bytes :: "write_step \<Rightarrow> bytes list" where
  "step_bytes (Write bs) = [bs]"
| "step_bytes (Sub bss) = bss"
| "step_bytes (Crash e) = []"

definition script_bytes :: "write_step list \<Rightarrow> bytes" where
  "script_bytes steps = concat (concat (map step_bytes steps))"

fun step_sound :: "write_step \<Rightarrow> bool" where
  "step_sound (Write bs) \<longleftrightarrow> bs \<noteq> []"
| "step_sound (Sub bss) \<longleftrightarrow> [] \<notin> set bss"
| "step_sound (Crash e) \<longleftrightarrow> False"

lemma script_bytes_simps [simp]:
  "script_bytes [] = []"
  "script_bytes (Write bs # steps) = bs @ script_bytes steps"
  "script_bytes (Sub bss # steps) = concat bss @ script_bytes steps"
  "script_bytes (xs @ ys) = script_bytes xs @ script_bytes ys"
  by (simp_all add: script_bytes_def)

lemma script_bytes_write_if [simp]: "script_bytes (write_if n bs) = take n bs"
  by (simp add: write_if_def)

text \<open>A packet is well framed when its length is declared and is what its script writes, and
  when the script never writes an empty vector, which the TLS layer reports as a failure.\<close>

definition well_framed :: "accounts \<Rightarrow> server_packet \<Rightarrow> bool" where
  "well_framed acct p \<longleftrightarrow> declared acct p = Inr (length (script_bytes (script acct p)))
     \<and> list_all step_sound (script acct p)"

end
