(* ===== verification/Websocket_Frames.thy ===== *)
theory Websocket_Frames
  imports Websocket
begin

text \<open>
  What a websocket peer sends, as the protocol (RFC 6455) prescribes it, and that
  \<open>pkrsrv_websocket_read_header\<close> and \<open>pkrsrv_websocket_read_payload\<close> recover it.
\<close>

section \<open>Bytes of a header\<close>

lemma byte_low4: "unat (of_nat v AND 15 :: byte) = v mod 16"
proof -
  have "(15 :: byte) = mask 4" by (simp add: mask_eq_exp_minus_1)
  then have "unat (of_nat v AND 15 :: byte) = take_bit 4 (unat (of_nat v :: byte))"
    by (simp only: take_bit_eq_mask [symmetric] unsigned_take_bit_eq)
  then show ?thesis by (simp add: unat_of_nat_byte take_bit_eq_mod mod_mod_cancel)
qed

lemma byte_low7: "unat (of_nat v AND 127 :: byte) = v mod 128"
proof -
  have "(127 :: byte) = mask 7" by (simp add: mask_eq_exp_minus_1)
  then have "unat (of_nat v AND 127 :: byte) = take_bit 7 (unat (of_nat v :: byte))"
    by (simp only: take_bit_eq_mask [symmetric] unsigned_take_bit_eq)
  then show ?thesis by (simp add: unat_of_nat_byte take_bit_eq_mod mod_mod_cancel)
qed

lemma byte_top: "(of_nat v AND 128 :: byte) = 0 \<longleftrightarrow> even (v div 128)"
proof -
  have "(128 :: byte) = 2 ^ 7" by simp
  then have "(of_nat v AND 128 :: byte) = 0 \<longleftrightarrow> \<not> bit (of_nat v :: byte) 7"
    by (simp only: and_exp_eq_0_iff_not_bit)
  also have "\<dots> \<longleftrightarrow> \<not> bit v 7" by (simp add: bit_simps)
  finally show ?thesis by (simp add: bit_iff_odd)
qed

section \<open>Byte order\<close>

lemma unbe_append: "unbe (xs @ ys) = unbe ys + 256 ^ length ys * unbe xs"
  by (simp add: unbe_def unle_append)

lemma unat_htonl: "unat (htonl x) = unbe (le 4 (unat x))"
proof -
  have "unbe (le 4 (unat x)) < 256 ^ 4"
    using unle_bound [of "rev (le 4 (unat x))"] by (simp add: unbe_def)
  then show ?thesis by (simp add: htonl_def unat_of_nat)
qed

lemma unat_htonll: "unat (htonll x) = unbe (le 8 (unat x))"
proof -
  define lo hi :: "32 word" where "lo = ucast (x AND 0xFFFFFFFF)" and "hi = ucast (drop_bit 32 x)"
  have m: "(0xFFFFFFFF :: 64 word) = mask 32" by (simp add: mask_eq_exp_minus_1)
  have lo: "unat lo = unat x mod 2 ^ 32"
    unfolding lo_def m take_bit_eq_mask [symmetric] unsigned_ucast_eq unsigned_take_bit_eq
    by (simp add: take_bit_eq_mod)
  have "unat x div 2 ^ 32 < 2 ^ 32" using unsigned_less [of x, where 'a = nat] by (simp add: less_mult_imp_div_less)
  then have hi: "unat hi = unat x div 2 ^ 32"
    unfolding hi_def unsigned_ucast_eq unsigned_drop_bit_eq
    by (simp add: take_bit_eq_mod drop_bit_eq_div)
  let ?a = "push_bit 32 (ucast (htonl lo)) :: 64 word" and ?b = "ucast (htonl hi) :: 64 word"
  have "?a AND ?b = 0"
    by (rule bit_eqI) (auto simp: bit_simps dest!: bit_imp_le_length)
  then have "htonll x = ?a + ?b" by (simp add: htonll_def lo_def hi_def disjunctive_add_eq_or)
  moreover have a: "unat ?a = 2 ^ 32 * unat (htonl lo)"
  proof -
    obtain v where v: "v = unat (htonl lo)" "v < 4294967296"
      using unsigned_less [of "htonl lo", where 'a = nat] by auto
    then show ?thesis unfolding unsigned_push_bit_eq unsigned_ucast_eq v(1) [symmetric]
      by (simp add: push_bit_eq_mult take_bit_eq_mod)
  qed
  moreover have b: "unat ?b = unat (htonl hi)"
  proof -
    obtain v where v: "v = unat (htonl hi)" "v < 4294967296"
      using unsigned_less [of "htonl hi", where 'a = nat] by auto
    then show ?thesis unfolding unsigned_ucast_eq v(1) [symmetric] by (simp add: take_bit_eq_mod)
  qed
  moreover have "4294967296 * unat (htonl lo) + unat (htonl hi) < 18446744073709551616"
    using unat_fits(3) [of "htonl lo"] unat_fits(3) [of "htonl hi"] by linarith
  ultimately have "unat (htonll x) = 2 ^ 32 * unat (htonl lo) + unat (htonl hi)"
    by (simp add: unat_word_ariths(1))
  also have "\<dots> = unbe (le 4 (unat x) @ le 4 (unat x div 256 ^ 4))"
    using le_mod [of 4 4 "unat x"] by (simp add: unbe_append unat_htonl lo hi)
  also have "le 4 (unat x) @ le 4 (unat x div 256 ^ 4) = le 8 (unat x)"
    using le_append [of 4 4 "unat x"] by simp
  finally show ?thesis .
qed

lemma htonll_bytes: "le 8 (unat (htonll x)) = be 8 (unat x)"
proof -
  have "unle (be 8 (unat x)) = unat (htonll x)"
    by (simp add: unat_htonll unbe_def be_def)
  then show ?thesis using le_unle [of "be 8 (unat x)" 8] by simp
qed

lemma htonll_read: "length bs = 8 \<Longrightarrow> unat (htonll (of_nat (unle bs))) = unbe bs"
  using unle_bound [of bs] by (simp add: unat_htonll unat_of_nat le_unle)

section \<open>Masking\<close>

lemma length_unmask [simp]: "length (unmask key i bs) = length bs"
  by (induction key i bs rule: unmask.induct) simp_all

lemma unmask_append: "unmask key i (xs @ ys) = unmask key i xs @ unmask key (i + length xs) ys"
  by (induction key i xs rule: unmask.induct) simp_all

lemma unmask_twice [simp]: "unmask key i (unmask key i bs) = bs"
  by (induction key i bs rule: unmask.induct) (simp_all add: xor.assoc)

section \<open>The frames of a peer\<close>

definition length_code :: "nat \<Rightarrow> nat" where
  "length_code n = (if n < 126 then n else if n < 65536 then 126 else 127)"

definition length_ext :: "nat \<Rightarrow> bytes" where
  "length_ext n = (if n < 126 then [] else if n < 65536 then be 2 n else be 8 n)"

definition mask_key :: "bytes option \<Rightarrow> bytes" where
  "mask_key mk = (case mk of None \<Rightarrow> [] | Some key \<Rightarrow> key)"

definition frame_head :: "bool \<Rightarrow> nat \<Rightarrow> bytes option \<Rightarrow> nat \<Rightarrow> bytes" where
  "frame_head fin opcode mk n =
    [of_nat (opcode + (if fin then 128 else 0)), of_nat (length_code n + (if mk \<noteq> None then 128 else 0))]
    @ length_ext n @ mask_key mk"

definition ws_frame :: "bool \<Rightarrow> nat \<Rightarrow> bytes option \<Rightarrow> bytes \<Rightarrow> bytes" where
  "ws_frame fin opcode mk payload =
    frame_head fin opcode mk (length payload) @ unmask_if (mk \<noteq> None) (mask_key mk) 0 payload"

definition mask_ok :: "bytes option \<Rightarrow> bool" where
  "mask_ok mk \<longleftrightarrow> mk = None \<or> length (mask_key mk) = 4"

lemma unmask_if_twice [simp]: "unmask_if m key i (unmask_if m key i bs) = bs"
  by (simp add: unmask_if_def)

lemma length_unmask_if [simp]: "length (unmask_if m key i bs) = length bs"
  by (simp add: unmask_if_def)

lemma length_code_le: "length_code n \<le> 127"
  by (simp add: length_code_def)

lemma header_bytes_head: "n < 2 ^ 64 \<Longrightarrow> header_bytes n = frame_head True 2 None n"
  by (auto simp: header_bytes_def frame_head_def length_code_def length_ext_def mask_key_def
      htonll_bytes unat_of_nat)

lemma flagged_div: "a < 128 \<Longrightarrow> (a + (if c then 128 else 0)) div 128 = (if c then 1 else (0 :: nat))"
  by (simp add: div_add_self2)

lemma flagged_mod:
  "a < 128 \<Longrightarrow> (a + (if c then 128 else 0)) mod 128 = (a :: nat)"
  "a < 16 \<Longrightarrow> (a + (if c then 128 else 0)) mod 16 = (a :: nat)"
  using mod_mult_self1 [of a 8 16] by simp_all

context byte_stream
begin

lemma extended_length_ext:
  assumes "pending s = length_ext n @ rest" "n < 2 ^ 64"
  shows "\<exists>s'. extended_length (ssl_read recv) (length_code n) s = (Some n, s') \<and> pending s' = rest \<and> sent s' = sent s"
proof -
  consider "n < 126" | "126 \<le> n" "n < 65536" | "65536 \<le> n" by linarith
  then show ?thesis
  proof cases
    case 1
    then show ?thesis using assms by (simp add: extended_length_def length_code_def length_ext_def)
  next
    case 2
    then have "pending s = be 2 n @ rest" using assms by (simp add: length_ext_def)
    then obtain t where "ssl_read recv 2 s = (Some (be 2 n), t)" "pending t = rest" "sent t = sent s"
      using read_prefix [of s "be 2 n" rest 2] by (metis length_be length_0_conv zero_neq_numeral)
    then show ?thesis using 2 by (simp add: extended_length_def length_code_def)
  next
    case 3
    then have "pending s = be 8 n @ rest" using assms by (simp add: length_ext_def)
    then obtain t where "ssl_read recv 8 s = (Some (be 8 n), t)" "pending t = rest" "sent t = sent s"
      using read_prefix [of s "be 8 n" rest 8] by (metis length_be length_0_conv zero_neq_numeral)
    then show ?thesis using 3 assms(2) by (simp add: extended_length_def length_code_def htonll_read)
  qed
qed

lemma read_key_mask:
  assumes "pending s = mask_key mk @ rest" "mask_ok mk"
  shows "\<exists>s'. read_key (ssl_read recv) (mk \<noteq> None) s = (Some (mask_key mk), s') \<and> pending s' = rest \<and> sent s' = sent s"
proof (cases mk)
  case (Some key)
  then have "length key = 4" "key \<noteq> []" using assms(2) by (auto simp: mask_ok_def mask_key_def)
  then show ?thesis using Some read_prefix [of s key rest 4] assms(1)
    by (auto simp: read_key_def mask_key_def)
qed (use assms(1) in \<open>simp add: read_key_def mask_key_def\<close>)

lemma read_frame_head:
  assumes "pending s = frame_head fin opcode mk n @ rest" "opcode < 16" "opcode \<noteq> 8"
    and "n < 2 ^ 64" "mask_ok mk"
  shows "\<exists>s'. read_frame (ssl_read recv) wr alloc ws s =
      dispatch_frame (ssl_read recv) wr alloc opcode fin (mk \<noteq> None) (mask_key mk) n ws s'
    \<and> pending s' = rest \<and> sent s' = sent s"
proof -
  define b0 b1 :: byte where "b0 = of_nat (opcode + (if fin then 128 else 0))"
    and "b1 = of_nat (length_code n + (if mk \<noteq> None then 128 else 0))"
  have "pending s = [b0, b1] @ length_ext n @ mask_key mk @ rest"
    using assms(1) by (simp add: frame_head_def b0_def b1_def)
  then obtain s1 where s1: "ssl_read recv 2 s = (Some [b0, b1], s1)"
    "pending s1 = length_ext n @ mask_key mk @ rest" "sent s1 = sent s"
    using read_prefix [of s "[b0, b1]" _ 2] by auto
  obtain s2 where s2: "extended_length (ssl_read recv) (length_code n) s1 = (Some n, s2)"
    "pending s2 = mask_key mk @ rest" "sent s2 = sent s1"
    using extended_length_ext [OF s1(2) assms(4)] by blast
  obtain s3 where s3: "read_key (ssl_read recv) (mk \<noteq> None) s2 = (Some (mask_key mk), s3)"
    "pending s3 = rest" "sent s3 = sent s2"
    using read_key_mask [OF s2(2) assms(5)] by blast
  have "unat (b0 AND 15) = opcode" using assms(2) unfolding b0_def byte_low4 by (simp add: flagged_mod)
  moreover have "b0 AND 128 \<noteq> 0 \<longleftrightarrow> fin" using assms(2) unfolding b0_def byte_top by (simp add: flagged_div)
  moreover have "b1 AND 128 \<noteq> 0 \<longleftrightarrow> mk \<noteq> None"
    using length_code_le [of n] unfolding b1_def byte_top by (simp add: flagged_div)
  moreover have "unat (b1 AND 127) = length_code n"
    using length_code_le [of n] unfolding b1_def byte_low7 by (simp add: flagged_mod)
  ultimately have "read_frame (ssl_read recv) wr alloc ws s =
      dispatch_frame (ssl_read recv) wr alloc opcode fin (mk \<noteq> None) (mask_key mk) n ws s3"
    using s1 s2 s3 assms(3) by (simp add: read_frame_def Let_def)
  then show ?thesis using s1(3) s2(3) s3(2,3) by auto
qed

end

end
