(* ===== verification/Websocket_Messages.thy ===== *)
theory Websocket_Messages
  imports Websocket_Frames
begin

text \<open>
  Whole messages: the frames that make one up, with control frames in between, are read by
  one call of \<open>pkrsrv_websocket_read_header\<close>; \<open>pkrsrv_websocket_read_payload\<close> hands the
  payload out in pieces of any size.
\<close>

datatype peer_frame = Fragment bytes bytes | Ping bytes bytes | Pong bytes bytes

fun peer_bytes :: "peer_frame \<Rightarrow> bytes" where
  "peer_bytes (Fragment key d) = ws_frame False 0 (Some key) d"
| "peer_bytes (Ping key d) = ws_frame True 9 (Some key) d"
| "peer_bytes (Pong key d) = ws_frame True 10 (Some key) d"

text \<open>The frames the reader copes with: the key has four bytes and the payload is not empty,
  and a ping obeys the protocol's limit of 125 bytes.\<close>

fun peer_ok :: "peer_frame \<Rightarrow> bool" where
  "peer_ok (Fragment key d) \<longleftrightarrow> length key = 4 \<and> d \<noteq> []"
| "peer_ok (Ping key d) \<longleftrightarrow> length key = 4 \<and> d \<noteq> [] \<and> length d < 126"
| "peer_ok (Pong key d) \<longleftrightarrow> length key = 4 \<and> d \<noteq> []"

fun peer_data :: "peer_frame \<Rightarrow> bytes" where
  "peer_data (Fragment key d) = d"
| "peer_data (Ping key d) = []"
| "peer_data (Pong key d) = []"

fun peer_answer :: "peer_frame \<Rightarrow> bytes" where
  "peer_answer (Ping key d) = [0x8A, of_nat (length d)] @ d"
| "peer_answer (Fragment key d) = []"
| "peer_answer (Pong key d) = []"

fun peer_length :: "peer_frame \<Rightarrow> nat" where
  "peer_length (Fragment key d) = length d"
| "peer_length (Ping key d) = length d"
| "peer_length (Pong key d) = length d"

definition message_bytes :: "bytes \<Rightarrow> bytes \<Rightarrow> peer_frame list \<Rightarrow> bytes \<Rightarrow> bytes \<Rightarrow> bytes" where
  "message_bytes k0 d0 fs k1 d1 =
    ws_frame False 2 (Some k0) d0 @ concat (map peer_bytes fs) @ ws_frame True 0 (Some k1) d1"

definition fragmented_ws :: "websocket \<Rightarrow> bytes \<Rightarrow> websocket" where
  "fragmented_ws ws b = ws\<lparr>ws_is_fragmented := True, ws_buffer := Some b,
     ws_buffer_length := int (length b), ws_buffer_readed := 0\<rparr>"

lemma fragmented_ws_simps [simp]:
  "ws_is_fragmented (fragmented_ws ws b)" "ws_buffer (fragmented_ws ws b) = Some b"
  "ws_buffer_length (fragmented_ws ws b) = int (length b)"
  "ws_buffer_readed (fragmented_ws ws b) = 0"
  by (simp_all add: fragmented_ws_def)

lemma to_int32_id [simp]: "n < 2147483648 \<Longrightarrow> to_int32 n = int n"
  by (simp add: to_int32_def signed_of_nat signed_take_bit_int_eq_self)

lemma to_int64_id [simp]: "n < 9223372036854775808 \<Longrightarrow> to_int64 n = int n"
  by (simp add: to_int64_def signed_of_nat signed_take_bit_int_eq_self)

context reliable
begin

abbreviation "rd \<equiv> ssl_read recv"

lemma read_masked:
  assumes "pending s = unmask_if m key 0 d @ rest" "d \<noteq> []"
  shows "\<exists>s'. rd (length d) s = (Some (unmask_if m key 0 d), s') \<and> pending s' = rest \<and> sent s' = sent s"
proof (rule read_prefix [OF assms(1)])
  have "length (unmask_if m key 0 d) \<noteq> 0" using assms(2) by simp
  then show "unmask_if m key 0 d \<noteq> []" by (metis list.size(3))
qed simp

lemma frame_read:
  assumes "pending s = ws_frame fin opcode (Some key) d @ rest" "length key = 4"
    and "length d < 2147483648" "opcode < 16" "opcode \<noteq> 8"
  shows "\<exists>s'. read_frame rd send alloc ws s = dispatch_frame rd send alloc opcode fin True key (length d) ws s'
    \<and> pending s' = unmask_if True key 0 d @ rest \<and> sent s' = sent s"
proof -
  have "pending s = frame_head fin opcode (Some key) (length d) @ unmask_if True key 0 d @ rest"
    using assms(1) by (simp add: ws_frame_def mask_key_def)
  from read_frame_head [OF this, of send alloc ws] assms(2-) show ?thesis
    by (simp add: mask_ok_def mask_key_def)
qed

lemma continuation_step:
  assumes p: "pending s = ws_frame fin 0 (Some key) d @ rest" and ok: "length key = 4" "d \<noteq> []"
    and len: "length b + length d < 2147483648" and al: "alloc (length b + length d)"
  shows "\<exists>s'. read_frame rd send alloc (fragmented_ws ws b) s =
      Inr (if fin then Return (int (length b + length d)) else Again, fragmented_ws ws (b @ d), s')
    \<and> pending s' = rest \<and> sent s' = sent s"
proof -
  obtain s1 where s1: "read_frame rd send alloc (fragmented_ws ws b) s =
      dispatch_frame rd send alloc 0 fin True key (length d) (fragmented_ws ws b) s1"
    "pending s1 = unmask_if True key 0 d @ rest" "sent s1 = sent s"
    using frame_read [OF p ok(1), of alloc] len by auto
  obtain s2 where s2: "rd (length d) s1 = (Some (unmask_if True key 0 d), s2)" "pending s2 = rest"
    "sent s2 = sent s1"
    using read_masked [OF s1(2) ok(2)] by blast
  have "dispatch_frame rd send alloc 0 fin True key (length d) (fragmented_ws ws b) s1 =
      Inr (if fin then Return (int (length b + length d)) else Again, fragmented_ws ws (b @ d), s2)"
    using s2(1) len al by (simp add: dispatch_frame_def next_fragment_def Let_def fragmented_ws_def)
  then show ?thesis using s1 s2 by auto
qed

lemma first_step:
  assumes p: "pending s = ws_frame False 2 (Some key) d @ rest" and ok: "length key = 4" "d \<noteq> []"
    and len: "length d < 2147483648" and al: "alloc (length d)" and ws: "\<not> ws_is_fragmented ws"
  shows "\<exists>s'. read_frame rd send alloc ws s = Inr (Again, fragmented_ws ws d, s')
    \<and> pending s' = rest \<and> sent s' = sent s"
proof -
  obtain s1 where s1: "read_frame rd send alloc ws s =
      dispatch_frame rd send alloc 2 False True key (length d) ws s1"
    "pending s1 = unmask_if True key 0 d @ rest" "sent s1 = sent s"
    using frame_read [OF p ok(1), of alloc] len by auto
  obtain s2 where s2: "rd (length d) s1 = (Some (unmask_if True key 0 d), s2)" "pending s2 = rest"
    "sent s2 = sent s1"
    using read_masked [OF s1(2) ok(2)] by blast
  have "dispatch_frame rd send alloc 2 False True key (length d) ws s1 = Inr (Again, fragmented_ws ws d, s2)"
    using s2(1) len al ws by (simp add: dispatch_frame_def first_fragment_def fragmented_ws_def)
  then show ?thesis using s1 s2 by auto
qed

lemma control_step:
  assumes p: "pending s = peer_bytes f @ rest" and ok: "peer_ok f" "peer_data f = []" and f: "\<And>k d. f \<noteq> Fragment k d"
    and len: "peer_length f < 2147483648" and al: "alloc (peer_length f)"
  shows "\<exists>s'. read_frame rd send alloc ws s = Inr (Again, ws, s')
    \<and> pending s' = rest \<and> sent s' = sent s @ peer_answer f"
proof -
  define opcode :: nat where "opcode = (case f of Ping k d \<Rightarrow> 9 | _ \<Rightarrow> 10)"
  obtain key d where kd: "peer_bytes f = ws_frame True opcode (Some key) d" "length key = 4" "d \<noteq> []"
    "peer_length f = length d" "opcode = 9 \<or> opcode = 10"
    "peer_answer f = (if opcode = 9 then [0x8A, of_nat (length d)] @ d else [])"
    using ok f by (cases f) (auto simp: opcode_def)
  obtain s1 where s1: "read_frame rd send alloc ws s =
      dispatch_frame rd send alloc opcode True True key (length d) ws s1"
    "pending s1 = unmask_if True key 0 d @ rest" "sent s1 = sent s"
    using frame_read [of s True opcode key d rest alloc ws] p kd len by auto
  obtain s2 where s2: "rd (length d) s1 = (Some (unmask_if True key 0 d), s2)" "pending s2 = rest"
    "sent s2 = sent s1"
    using read_masked [OF s1(2) kd(3)] by blast
  obtain r1 s3 where s3: "send [0x8A, of_nat (length d)] s2 = (r1, s3)" by fastforce
  obtain r2 s4 where s4: "send d s3 = (r2, s4)" by fastforce
  have r: "0 < r1" "0 < r2" using send_succeeds [OF s3] send_succeeds [OF s4] kd(3) by simp_all
  then have pong: "send_pong_frame send (length d) d s2 = (True, s4)"
    using s3 s4 kd(3) by (simp add: send_pong_frame_def)
  have "pending s4 = rest" "sent s4 = sent s @ [0x8A, of_nat (length d)] @ d"
    using send_pending [OF s3] send_pending [OF s4] send_all [OF s3 r(1)]
      send_all [OF s4 r(2)] s2 s1 by simp_all
  moreover have "dispatch_frame rd send alloc opcode True True key (length d) ws s1 =
      Inr (Again, ws, if opcode = 9 then s4 else s2)"
    using s2(1) al kd pong by (auto simp: dispatch_frame_def control_frame_def)
  ultimately show ?thesis using s1 s2 kd(6) by auto
qed

lemma peer_step:
  assumes p: "pending s = peer_bytes f @ rest" and ok: "peer_ok f"
    and len: "length b + peer_length f < 2147483648" and al: "\<And>n. n < 2147483648 \<Longrightarrow> alloc n"
  shows "\<exists>s'. read_frame rd send alloc (fragmented_ws ws b) s =
      Inr (Again, fragmented_ws ws (b @ peer_data f), s')
    \<and> pending s' = rest \<and> sent s' = sent s @ peer_answer f"
proof (cases f)
  case (Fragment key d)
  then show ?thesis using continuation_step [of s False key d rest b alloc ws] assms by auto
next
  case (Ping key d)
  then show ?thesis using control_step [of s f rest alloc "fragmented_ws ws b"] assms by auto
next
  case (Pong key d)
  then show ?thesis using control_step [of s f rest alloc "fragmented_ws ws b"] assms by auto
qed

lemma length_peer_data: "length (peer_data f) \<le> peer_length f"
  by (cases f) simp_all

lemma fragments_read:
  assumes "pending s = concat (map peer_bytes fs) @ ws_frame True 0 (Some key) d @ rest"
    and "list_all peer_ok fs" "length key = 4" "d \<noteq> []"
    and "length b + sum_list (map peer_length fs) + length d < 2147483648"
    and al: "\<And>n. n < 2147483648 \<Longrightarrow> alloc n"
    and "length fs < fuel"
  shows "\<exists>s'. read_header rd send alloc fuel (fragmented_ws ws b) s =
      Inr (int (length (b @ concat (map peer_data fs) @ d)),
           fragmented_ws ws (b @ concat (map peer_data fs) @ d), s')
    \<and> pending s' = rest \<and> sent s' = sent s @ concat (map peer_answer fs)"
  using assms(1,2,5,7)
proof (induction fs arbitrary: b s fuel)
  case Nil
  then obtain k where k: "fuel = Suc k" by (cases fuel) auto
  obtain s1 where "read_frame rd send alloc (fragmented_ws ws b) s =
      Inr (Return (int (length b + length d)), fragmented_ws ws (b @ d), s1)"
    "pending s1 = rest" "sent s1 = sent s"
    using continuation_step [of s True key d rest b alloc ws] Nil.prems assms(3,4) al by auto
  then show ?case using k by auto
next
  case (Cons f fs)
  obtain k where k: "fuel = Suc k" "length fs < k" using Cons.prems by (cases fuel) auto
  have p: "pending s = peer_bytes f @ concat (map peer_bytes fs) @ ws_frame True 0 (Some key) d @ rest"
    using Cons.prems(1) by simp
  obtain s1 where s1: "read_frame rd send alloc (fragmented_ws ws b) s =
      Inr (Again, fragmented_ws ws (b @ peer_data f), s1)"
    "pending s1 = concat (map peer_bytes fs) @ ws_frame True 0 (Some key) d @ rest"
    "sent s1 = sent s @ peer_answer f"
    using peer_step [OF p, where b = b and alloc = alloc and ws = ws] Cons.prems al by auto
  have "length (b @ peer_data f) + sum_list (map peer_length fs) + length d < 2147483648"
    using Cons.prems(3) length_peer_data [of f] by simp
  from Cons.IH [OF s1(2) _ this k(2)] Cons.prems(2) show ?case using s1 k by auto
qed

lemma message_read:
  assumes p: "pending s = message_bytes k0 d0 fs k1 d1 @ rest" and ws: "\<not> ws_is_fragmented ws"
    and ok: "length k0 = 4" "d0 \<noteq> []" "length k1 = 4" "d1 \<noteq> []" "list_all peer_ok fs"
    and len: "length d0 + sum_list (map peer_length fs) + length d1 < 2147483648"
    and al: "\<And>n. n < 2147483648 \<Longrightarrow> alloc n"
    and fuel: "length fs + 1 < fuel"
  shows "\<exists>s'. read_header rd send alloc fuel ws s =
      Inr (int (length (d0 @ concat (map peer_data fs) @ d1)),
           fragmented_ws ws (d0 @ concat (map peer_data fs) @ d1), s')
    \<and> pending s' = rest \<and> sent s' = sent s @ concat (map peer_answer fs)"
proof -
  obtain k where k: "fuel = Suc k" "length fs < k" using fuel by (cases fuel) auto
  have "pending s = ws_frame False 2 (Some k0) d0 @ concat (map peer_bytes fs)
      @ ws_frame True 0 (Some k1) d1 @ rest"
    using p by (simp add: message_bytes_def)
  then obtain s1 where s1: "read_frame rd send alloc ws s = Inr (Again, fragmented_ws ws d0, s1)"
    "pending s1 = concat (map peer_bytes fs) @ ws_frame True 0 (Some k1) d1 @ rest" "sent s1 = sent s"
    using first_step [of s k0 d0 _ alloc ws] ok len al ws by auto
  from fragments_read [OF s1(2) ok(5,3,4) len al k(2), where ws = ws] show ?thesis
    using s1 k(1) by auto
qed

lemma single_frame_read:
  assumes p: "pending s = ws_frame True opcode (Some key) d @ rest" and "length key = 4"
    and "length d < 2147483648" "opcode < 8" "\<not> ws_is_fragmented ws"
  shows "\<exists>s'. read_header rd send alloc (Suc fuel) ws s =
      Inr (int (length d), store_header opcode True True key (length d) ws, s')
    \<and> pending s' = unmask key 0 d @ rest \<and> sent s' = sent s"
proof -
  obtain s1 where s1: "read_frame rd send alloc ws s =
      dispatch_frame rd send alloc opcode True True key (length d) ws s1"
    "pending s1 = unmask key 0 d @ rest" "sent s1 = sent s"
    using frame_read [OF p, of alloc ws] assms by (auto simp: unmask_if_def)
  have "dispatch_frame rd send alloc opcode True True key (length d) ws s1 =
      Inr (Return (int (length d)), store_header opcode True True key (length d) ws, s1)"
    using assms by (simp add: dispatch_frame_def)
  then show ?thesis using s1 by auto
qed

end

section \<open>The payload in pieces\<close>

text \<open>A handler reads a packet with several calls, one per field.\<close>

fun read_pieces ::
  "'s reader \<Rightarrow> nat list \<Rightarrow> websocket \<Rightarrow> 's \<Rightarrow> (bytes list \<times> websocket \<times> 's) outcome" where
  "read_pieces rd [] ws s = Inr ([], ws, s)"
| "read_pieces rd (n # ns) ws s =
    bindO (read_payload rd n ws s) (\<lambda>(r, data, ws, s).
      bindO (read_pieces rd ns ws s) (\<lambda>(ds, ws, s). Inr (data # ds, ws, s)))"

fun pieces :: "nat list \<Rightarrow> bytes \<Rightarrow> bytes list" where
  "pieces [] bs = []"
| "pieces (n # ns) bs = take n bs # pieces ns (drop n bs)"

lemma fragmented_pieces:
  "list_all (\<lambda>n. 0 < n) ns \<Longrightarrow> off + sum_list ns \<le> length b \<Longrightarrow>
   ws_is_fragmented ws \<Longrightarrow> ws_buffer ws = Some b \<Longrightarrow> ws_buffer_length ws = int (length b) \<Longrightarrow>
   ws_buffer_readed ws = int off \<Longrightarrow>
   \<exists>ws'. read_pieces rd ns ws s = Inr (pieces ns (drop off b), ws', s)
     \<and> (ns \<noteq> [] \<longrightarrow> off + sum_list ns = length b \<longrightarrow> \<not> ws_is_fragmented ws' \<and> ws_buffer ws' = None)"
proof (induction ns arbitrary: "off" ws)
  case (Cons n ns)
  let ?ws = "ws\<lparr>ws_buffer_readed := int off + int n\<rparr>"
  show ?case
  proof (cases "off + n = length b")
    case True
    then have "ns = []" using Cons.prems by (cases ns) auto
    then show ?thesis using Cons.prems True
      by (simp add: read_payload_def read_fragmented_def Let_def reset_fragmentation_def)
  next
    case False
    then have lt: "off + n < length b" using Cons.prems by simp
    have "ws_is_fragmented ?ws" "ws_buffer ?ws = Some b" "ws_buffer_length ?ws = int (length b)"
      "ws_buffer_readed ?ws = int (off + n)" using Cons.prems by simp_all
    then obtain ws' where ws': "read_pieces rd ns ?ws s = Inr (pieces ns (drop (off + n) b), ws', s)"
      "ns \<noteq> [] \<longrightarrow> off + n + sum_list ns = length b \<longrightarrow> \<not> ws_is_fragmented ws' \<and> ws_buffer ws' = None"
      using Cons.IH [of "off + n" ?ws] Cons.prems by auto
    have "read_payload rd n ws s = Inr (int n, take n (drop off b), ?ws, s)"
      using Cons.prems lt by (simp add: read_payload_def read_fragmented_def Let_def)
    then show ?thesis using ws' False by (auto simp: add.commute add.left_commute)
  qed
qed simp

context reliable
begin

lemma unfragmented_pieces:
  "list_all (\<lambda>n. 0 < n) ns \<Longrightarrow> sum_list ns \<le> length d \<Longrightarrow> \<not> ws_is_fragmented ws \<Longrightarrow>
   wh_is_masked (ws_current_header ws) \<Longrightarrow> wh_mkey (ws_current_header ws) = key \<Longrightarrow>
   wh_mask_i (ws_current_header ws) = i \<Longrightarrow> pending s = unmask key i d @ rest \<Longrightarrow>
   \<exists>ws' s'. read_pieces rd ns ws s = Inr (pieces ns d, ws', s')
     \<and> pending s' = unmask key (i + sum_list ns) (drop (sum_list ns) d) @ rest \<and> sent s' = sent s
     \<and> \<not> ws_is_fragmented ws'"
proof (induction ns arbitrary: i ws s d)
  case (Cons n ns)
  have split: "unmask key i d = unmask key i (take n d) @ unmask key (i + n) (drop n d)"
    using unmask_append [of key i "take n d" "drop n d"] Cons.prems by simp
  have len: "length (unmask key i (take n d)) = n" "0 < n" using Cons.prems by simp_all
  then have n: "unmask key i (take n d) \<noteq> []" "n = length (unmask key i (take n d))"
    by (metis list.size(3) less_numeral_extra(3), metis)
  obtain s1 where s1: "rd n s = (Some (unmask key i (take n d)), s1)"
    "pending s1 = unmask key (i + n) (drop n d) @ rest" "sent s1 = sent s"
    using read_prefix [OF _ n, of s "unmask key (i + n) (drop n d) @ rest"] Cons.prems split by auto
  let ?h = "ws_current_header ws"
  let ?ws = "ws\<lparr>ws_current_header := ?h\<lparr>wh_mask_i := i + n\<rparr>\<rparr>"
  have now: "read_payload rd n ws s = Inr (int n, take n d, ?ws, s1)"
    using Cons.prems s1(1) by (simp add: read_payload_def read_unfragmented_def Let_def)
  have "sum_list ns \<le> length (drop n d)" using Cons.prems(2) by simp
  then obtain ws' s' where ih: "read_pieces rd ns ?ws s1 = Inr (pieces ns (drop n d), ws', s')"
    "pending s' = unmask key (i + n + sum_list ns) (drop (sum_list ns) (drop n d)) @ rest"
    "sent s' = sent s1" "\<not> ws_is_fragmented ws'"
    using Cons.IH [of "drop n d" ?ws "i + n" s1] Cons.prems s1(2) by force
  have "read_pieces rd (n # ns) ws s = Inr (pieces (n # ns) d, ws', s')"
    by (simp only: read_pieces.simps now bindO_Inr prod.case ih(1) pieces.simps)
  moreover have "drop (sum_list ns) (drop n d) = drop (sum_list (n # ns)) d"
    "i + n + sum_list ns = i + sum_list (n # ns)" by (simp_all add: add.commute)
  ultimately show ?case using ih(2-4) s1(3) by metis
qed simp

end

section \<open>The properties\<close>

text \<open>C16: A binary message that comes in masked fragments, none of them empty, is reassembled
  by one call of the header reader, whatever pings and pongs lie between its frames, as long as these are masked, not empty,
  a ping has fewer than 126 bytes, the payloads of all these frames have less than 2 GiB together, and the memory for them is
  there: the call returns the length of the message and answers each of these pings with a pong of
  the same payload, in order; the handlers then read exactly the message, in pieces of any positive sizes, and the reader
  is ready for the next message, as it was for this one. An empty ping or pong cuts the connection instead
  (\<open>empty_ping_disconnects\<close>).\<close>

theorem fragmented_message_roundtrip:
  assumes "reliable recv pending sent send"
    and "\<forall>n < 2147483648. alloc n"
    and "pending s = message_bytes k0 d0 fs k1 d1 @ rest" and "\<not> ws_is_fragmented ws"
    and "length k0 = 4" "d0 \<noteq> []" "length k1 = 4" "d1 \<noteq> []" "list_all peer_ok fs"
    and "length d0 + sum_list (map peer_length fs) + length d1 < 2147483648"
    and "length fs + 1 < fuel" and "d = d0 @ concat (map peer_data fs) @ d1"
    and "list_all (\<lambda>n. 0 < n) ns" "sum_list ns = length d"
  shows "\<exists>ws' s' ws''. read_header (ssl_read recv) send alloc fuel ws s = Inr (int (length d), ws', s')
    \<and> sent s' = sent s @ concat (map peer_answer fs) \<and> pending s' = rest
    \<and> read_pieces (ssl_read recv) ns ws' s' = Inr (pieces ns d, ws'', s')
    \<and> \<not> ws_is_fragmented ws''"
proof -
  have al: "alloc n" if "n < 2147483648" for n
    using that assms(2) by simp
  obtain s' where s': "read_header (ssl_read recv) send alloc fuel ws s =
      Inr (int (length d), fragmented_ws ws d, s')" "pending s' = rest"
    "sent s' = sent s @ concat (map peer_answer fs)"
    using reliable.message_read [where alloc = alloc, OF assms(1,3-10) al assms(11)] unfolding assms(12) by blast
  have "ns \<noteq> []" using assms(6,12,14) by auto
  then obtain ws'' where "read_pieces (ssl_read recv) ns (fragmented_ws ws d) s' = Inr (pieces ns d, ws'', s')"
    "\<not> ws_is_fragmented ws''"
    using fragmented_pieces [of ns 0 d "fragmented_ws ws d" "ssl_read recv" s'] assms(13,14) by auto
  then show ?thesis using s' by blast
qed

definition sample_key :: bytes where
  "sample_key = [10, 20, 30, 40]"

definition sample_header :: ws_header where
  "sample_header = \<lparr>wh_plen = 0, wh_opcode = 0, wh_is_masked = False, wh_fin = False, wh_mkey = [], wh_mask_i = 0\<rparr>"

theorem fragmented_message_roundtrip_witness:
  "\<exists>ws' s' ws''. read_header (ssl_read socket_recv) socket_send (\<lambda>_. True) 3
       (websocket_init sample_header) ([message_bytes sample_key [1] [Ping sample_key [7]] sample_key [2, 3] @ [9]], [])
     = Inr (3, ws', s')
    \<and> snd s' = [0x8A, 1, 7]
    \<and> read_pieces (ssl_read socket_recv) [1, 2] ws' s' = Inr ([[1], [2, 3]], ws'', s')"
  using fragmented_message_roundtrip [OF socket.reliable_axioms, of "\<lambda>_. True"
      "([message_bytes sample_key [1] [Ping sample_key [7]] sample_key [2, 3] @ [9]], [])"
      sample_key "[1]" "[Ping sample_key [7]]" sample_key "[2, 3]" "[9]" "websocket_init sample_header" 3 "[1, 2, 3]"
      "[1, 2]"]
  by (simp add: websocket_init_def sample_key_def) blast

text \<open>A masked message in a single frame: the header reader returns its length, and pieces of
  any sizes give the message back unmasked, although the masking key goes on where the
  previous piece stopped.\<close>

theorem single_frame_roundtrip:
  assumes "reliable recv pending sent send"
    and "pending s = ws_frame True 2 (Some key) d @ rest" "length key = 4"
    and "length d < 2147483648" "\<not> ws_is_fragmented ws" "0 < fuel"
    and "list_all (\<lambda>n. 0 < n) ns" "sum_list ns \<le> length d"
  shows "\<exists>ws' s' ws'' s''. read_header (ssl_read recv) send alloc fuel ws s = Inr (int (length d), ws', s')
    \<and> read_pieces (ssl_read recv) ns ws' s' = Inr (pieces ns d, ws'', s'')
    \<and> pending s'' = unmask key (sum_list ns) (drop (sum_list ns) d) @ rest \<and> sent s'' = sent s"
proof -
  obtain k where k: "fuel = Suc k" using assms(6) by (cases fuel) auto
  let ?ws = "store_header 2 True True key (length d) ws"
  obtain s' where s': "read_header (ssl_read recv) send alloc fuel ws s = Inr (int (length d), ?ws, s')"
    "pending s' = unmask key 0 d @ rest" "sent s' = sent s"
    using reliable.single_frame_read [OF assms(1-4) _ assms(5), of alloc k] k by auto
  have "\<not> ws_is_fragmented ?ws" using assms(5) by (simp add: store_header_def)
  then obtain ws'' s'' where "read_pieces (ssl_read recv) ns ?ws s' = Inr (pieces ns d, ws'', s'')"
    "pending s'' = unmask key (sum_list ns) (drop (sum_list ns) d) @ rest" "sent s'' = sent s'"
    using reliable.unfragmented_pieces [OF assms(1,7,8), of ?ws key 0 s' rest] s'(2)
    by (auto simp: store_header_def)
  then show ?thesis using s' by auto
qed

theorem single_frame_roundtrip_witness:
  "\<exists>ws' s' ws'' s''. read_header (ssl_read socket_recv) socket_send (\<lambda>_. False) 1
       (websocket_init sample_header) ([ws_frame True 2 (Some sample_key) [5, 6, 7, 8, 9]], []) = Inr (5, ws', s')
    \<and> read_pieces (ssl_read socket_recv) [1, 3] ws' s' = Inr ([[5], [6, 7, 8]], ws'', s'')"
  using single_frame_roundtrip [OF socket.reliable_axioms,
      of "([ws_frame True 2 (Some sample_key) [5, 6, 7, 8, 9]], [])" sample_key "[5, 6, 7, 8, 9]" "[]"
        "websocket_init sample_header" 1 "[1, 3]" "\<lambda>_. False"]
  by (simp add: websocket_init_def sample_key_def) blast

text \<open>C17: The three forms of the length: the header that \<open>pkrsrv_websocket_send_header\<close> writes for a
  message of \<open>n\<close> bytes is read back by the header reader as a complete, unmasked frame of
  exactly \<open>n\<close> bytes.\<close>

theorem send_header_read_back:
  assumes "duplex recv pending sent send" "0 < fst (send_header send n s)" "n < 2 ^ 63"
    and "pending t = header_bytes n @ rest" "\<not> ws_is_fragmented ws" "0 < fuel"
  shows "sent (snd (send_header send n s)) = sent s @ header_bytes n
    \<and> (\<exists>t'. read_header (ssl_read recv) send alloc fuel ws t =
          Inr (int n, store_header 2 True False [] n ws, t') \<and> pending t' = rest)"
proof -
  have "sent (snd (send_header send n s)) = sent s @ header_bytes n"
    using duplex.send_all [OF assms(1)] assms(2)
    by (cases "send (header_bytes n) s") (simp add: send_header_def)
  moreover obtain k where k: "fuel = Suc k" using assms(6) by (cases fuel) auto
  have "pending t = frame_head True 2 None n @ rest" using assms(3,4) header_bytes_head [of n] by simp
  then obtain t' where "read_frame (ssl_read recv) send alloc ws t =
      dispatch_frame (ssl_read recv) send alloc 2 True False [] n ws t'" "pending t' = rest"
    using byte_stream.read_frame_head [of recv pending sent t True 2 None n rest send alloc ws]
      duplex.axioms(1) [OF assms(1)] assms(3) by (auto simp: mask_ok_def mask_key_def)
  then show ?thesis using calculation k assms(3,5) by (auto simp: dispatch_frame_def)
qed

theorem send_header_read_back_witness:
  "\<exists>t'. read_header (ssl_read socket_recv) socket_send (\<lambda>_. True) 1 (websocket_init sample_header)
     ([header_bytes 70000], []) = Inr (70000, store_header 2 True False [] 70000 (websocket_init sample_header), t')"
  using send_header_read_back [OF socket.duplex_axioms, of 70000 "([], [])" "([header_bytes 70000], [])" "[]"
      "websocket_init sample_header" 1 "\<lambda>_. True"]
  by (simp add: websocket_init_def send_header_def socket_send_def header_bytes_def) blast

text \<open>A ping without payload, the usual form of a keep-alive, is taken for a closed connection:
  the reader asks the TLS layer for 0 bytes, which reports a failure.\<close>

theorem empty_ping_disconnects:
  assumes "duplex recv pending sent send" "pending s = ws_frame True 9 mk [] @ rest" "mask_ok mk"
    and "0 < fuel"
  shows "\<exists>ws' s'. read_header (ssl_read recv) send alloc fuel ws s = Inr (0, ws', s') \<and> sent s' = sent s"
proof -
  obtain k where k: "fuel = Suc k" using assms(4) by (cases fuel) auto
  have p: "pending s = frame_head True 9 mk 0 @ rest"
    using assms(2) by (simp add: ws_frame_def unmask_if_def)
  obtain s1 where s1: "read_frame (ssl_read recv) send alloc ws s =
      dispatch_frame (ssl_read recv) send alloc 9 True (mk \<noteq> None) (mask_key mk) 0 ws s1" "sent s1 = sent s"
    using byte_stream.read_frame_head [OF duplex.axioms(1) [OF assms(1)] p _ _ _ assms(3), of send alloc ws]
    by auto
  obtain s2 where s2: "ssl_read recv 0 s1 = (None, s2)" "sent s2 = sent s1"
    using byte_stream.read_nothing [OF duplex.axioms(1) [OF assms(1)], of s1]
      byte_stream.recv_sent [OF duplex.axioms(1) [OF assms(1)], of s1 0]
    by (cases "recv s1 0") (auto simp: ssl_read.simps [of recv 0] split: if_splits)
  have "dispatch_frame (ssl_read recv) send alloc 9 True (mk \<noteq> None) (mask_key mk) 0 ws s1
      = Inr (Return 0, discard_buffer ws, if alloc 0 then s2 else s1)"
    using s2(1) by (simp add: dispatch_frame_def control_frame_def)
  then show ?thesis using s1 s2 k by (cases "alloc 0") auto
qed

theorem empty_ping_disconnects_witness:
  "\<exists>ws' s'. read_header (ssl_read socket_recv) socket_send (\<lambda>_. True) 5 (websocket_init sample_header)
     ([ws_frame True 9 (Some sample_key) [] @ ws_frame True 2 (Some sample_key) [1]], []) = Inr (0, ws', s')"
  using empty_ping_disconnects [OF socket.duplex_axioms,
      of "([ws_frame True 9 (Some sample_key) [] @ ws_frame True 2 (Some sample_key) [1]], [])"
        "Some sample_key" "ws_frame True 2 (Some sample_key) [1]" 5 "\<lambda>_. True" "websocket_init sample_header"]
  by (simp add: mask_ok_def mask_key_def sample_key_def) blast

end
