(* ===== verification/Server_Framing.thy ===== *)
theory Server_Framing
  imports Server_Send Websocket_Messages
begin

text \<open>
  Framing of the packets: the websocket length that a send function declares is the number of
  bytes it goes on to write, for every packet but \<open>JSON\<close>, as long as the strings fit the length
  fields of the frames and the vectors that are written without a test are not empty.
\<close>

definition account_fits :: "account \<Rightarrow> bool" where
  "account_fits a \<longleftrightarrow> ac_id_token a \<noteq> [] \<and> length (ac_id_token a) < 65536 \<and> ac_name a \<noteq> []
     \<and> length (ac_name a) < 65536 \<and> length (ac_avatar a) < 4294967296
     \<and> length (ac_xmr_deposit_address a) < 65536"

definition player_fits :: "accounts \<Rightarrow> player \<Rightarrow> bool" where
  "player_fits acct pl \<longleftrightarrow> length (ac_name (acct (pl_account pl))) < 65536
     \<and> length (ac_avatar (acct (pl_account pl))) < 4294967296"

definition session_fits :: "nat \<Rightarrow> nat \<Rightarrow> account option \<Rightarrow> auth_session option \<Rightarrow> bool" where
  "session_fits is_ok is_logined account session \<longleftrightarrow>
    (if is_ok \<noteq> 0 \<and> is_logined \<noteq> 0 then
       account \<noteq> None \<and> account_fits (the account) \<and> session \<noteq> None \<and> length (as_token (the session)) < 65536
     else session = None \<or> as_token (the session) = [])"

fun packet_fits :: "accounts \<Rightarrow> server_packet \<Rightarrow> bool" where
  "packet_fits acct (LoginRes ok logined a s) \<longleftrightarrow> session_fits ok logined a s"
| "packet_fits acct (SignupRes ok logined st a s) \<longleftrightarrow> session_fits ok logined a s"
| "packet_fits acct (AuthSessionRes ok logined a) \<longleftrightarrow>
     (ok \<noteq> 0 \<and> logined \<noteq> 0 \<longrightarrow> a \<noteq> None \<and> account_fits (the a))"
| "packet_fits acct (AccountPacket a) \<longleftrightarrow> account_fits a"
| "packet_fits acct (PokerInfo p) \<longleftrightarrow> tb_name (pk_table p) \<noteq> [] \<and> length (tb_name (pk_table p)) < 65536
     \<and> list_all (player_fits acct) (seated p)"
| "packet_fits acct (PokerState p v) \<longleftrightarrow> list_all (player_fits acct) (seated p)"
| "packet_fits acct (PokerEnd p w e) \<longleftrightarrow> length (pk_scores p) < 256"
| "packet_fits acct (Tables off ts) \<longleftrightarrow> list_all (\<lambda>t. tb_name t \<noteq> []) ts"
| "packet_fits acct (Sessions off ps) \<longleftrightarrow>
     list_all (\<lambda>p. tb_name (pk_table p) \<noteq> [] \<and> list_all (player_fits acct) (seated p)) ps"
| "packet_fits acct (Json obj j) \<longleftrightarrow> False"
| "packet_fits acct _ \<longleftrightarrow> True"

lemma len16_id [simp]: "length bs < 65536 \<Longrightarrow> len16 bs = length bs"
  by (simp add: len16_def)

lemma len32_id [simp]: "length bs < 4294967296 \<Longrightarrow> len32 bs = length bs"
  by (simp add: len32_def)

lemma pack_not_Nil [simp]:
  assumes "length ws = length vs" "0 < sizeof ws"
  shows "pack ws vs \<noteq> []" "[] \<noteq> pack ws vs"
  using assms by (metis length_pack less_numeral_extra(3) list.size(3))+

lemma header_of_not_Nil [simp]: "header_of op \<noteq> []"
proof -
  have "length (header_of op) = 8" by (simp only: length_header_of sizeof_header_def)
  then show ?thesis by (metis list.size(3) zero_neq_numeral)
qed

lemma write_if_sound [simp]: "list_all step_sound (write_if n bs) \<longleftrightarrow> n = 0 \<or> bs \<noteq> []"
  by (auto simp: write_if_def)

lemma sizeof_frames [simp]:
  "sizeof frame_login_res = 4" "sizeof frame_signup_res = 6" "sizeof frame_auth_session_res = 2"
  "sizeof frame_login_res_account = 26" "sizeof frame_signup_res_account = 26"
  "sizeof frame_auth_session_res_account = 26" "sizeof frame_account = 26"
  "sizeof frame_poker_info = 48" "sizeof frame_poker_info_player = 28"
  "sizeof frame_poker_state = 71" "sizeof frame_poker_state_player = 24"
  "sizeof frame_poker_end = 25" "sizeof frame_poker_end_score = 16" "sizeof frame_tables = 4"
  "sizeof frame_sessions = 4" "sizeof frame_table = 32" "sizeof frame_server_info = 14"
  "sizeof frame_enter_res = 9" "sizeof frame_leave_res = 9" "sizeof frame_join_res = 9"
  "sizeof frame_unjoin_res = 9" "sizeof frame_poker_action_reflection = 26"
  "sizeof frame_poker_restarted = 8" "sizeof frame_unjoined = 12" "sizeof frame_update_account_res = 2"
  by (simp_all add: sizeof_def frame_defs)

lemma length_frames [simp]:
  "length frame_login_res = 3" "length frame_signup_res = 4" "length frame_auth_session_res = 2"
  "length frame_login_res_account = 6" "length frame_signup_res_account = 6"
  "length frame_auth_session_res_account = 6" "length frame_account = 6"
  "length frame_poker_info = 9" "length frame_poker_info_player = 10"
  "length frame_poker_state = 20" "length frame_poker_state_player = 9"
  "length frame_poker_end = 4" "length frame_poker_end_score = 2" "length frame_tables = 2"
  "length frame_sessions = 2" "length frame_table = 7" "length frame_server_info = 4"
  "length frame_enter_res = 2" "length frame_leave_res = 2" "length frame_join_res = 2"
  "length frame_unjoin_res = 2" "length frame_poker_action_reflection = 4"
  "length frame_poker_restarted = 1" "length frame_unjoined = 2" "length frame_update_account_res = 2"
  by (simp_all add: frame_defs)

lemma length_poker_values [simp]:
  "length (poker_info_values p) = 9" "length (poker_state_values p v) = 20"
  by (simp_all add: poker_info_values_def poker_state_values_def Let_def split: prod.splits)

lemma info_player_framed:
  assumes "player_fits acct pl"
  shows "length (concat (info_player acct pl)) = 28 + length (ac_name (acct (pl_account pl)))
       + length (ac_avatar (acct (pl_account pl)))"
    and "[] \<notin> set (info_player acct pl)"
  using assms by (auto simp: info_player_def player_fits_def Let_def)

lemma state_player_framed:
  assumes "player_fits acct pl"
  shows "length (concat (state_player acct pl)) = 24 + length (ac_name (acct (pl_account pl)))"
    and "[] \<notin> set (state_player acct pl)"
  using assms by (auto simp: state_player_def player_fits_def Let_def)

lemma sub_framed:
  assumes "\<And>x. x \<in> set xs \<Longrightarrow> length (concat (f x)) = g x \<and> [] \<notin> set (f x)"
  shows "length (script_bytes (map (\<lambda>x. Sub (f x)) xs)) = sum_list (map g xs)
    \<and> list_all step_sound (map (\<lambda>x. Sub (f x)) xs)"
  using assms by (induction xs) auto

lemma concat_framed:
  assumes "\<And>x. x \<in> set xs \<Longrightarrow> length (script_bytes (f x)) = g x \<and> list_all step_sound (f x)"
  shows "length (script_bytes (concat (map f xs))) = sum_list (map g xs)
    \<and> list_all step_sound (concat (map f xs))"
  using assms by (induction xs) auto

lemma infos_framed:
  assumes "list_all (player_fits acct) (seated p)"
  shows "length (script_bytes (map (\<lambda>pl. Sub (info_player acct pl)) (seated p)))
      = sum_list (map (\<lambda>pl. 28 + length (ac_name (acct (pl_account pl)))
          + length (ac_avatar (acct (pl_account pl)))) (seated p))
    \<and> list_all step_sound (map (\<lambda>pl. Sub (info_player acct pl)) (seated p))"
  using assms by (intro sub_framed) (auto simp: list_all_iff info_player_framed)

lemma login_framed:
  "session_fits ok logined a s \<Longrightarrow> well_framed acct (LoginRes ok logined a s)"
  by (auto simp: well_framed_def session_fits_def account_fits_def login_res_length_def
      login_res_script_def Let_def split: if_splits option.splits)

lemma signup_framed:
  "session_fits ok logined a s \<Longrightarrow> well_framed acct (SignupRes ok logined st a s)"
  by (auto simp: well_framed_def session_fits_def account_fits_def signup_res_length_def
      signup_res_script_def Let_def split: if_splits option.splits)

lemma auth_session_framed:
  "packet_fits acct (AuthSessionRes ok logined a) \<Longrightarrow> well_framed acct (AuthSessionRes ok logined a)"
  by (auto simp: well_framed_def account_fits_def auth_session_res_length_def
      auth_session_res_script_def Let_def split: if_splits option.splits)

lemma account_framed: "account_fits a \<Longrightarrow> well_framed acct (AccountPacket a)"
  by (auto simp: well_framed_def account_fits_def account_length_def account_script_def)

lemma poker_info_framed:
  assumes "packet_fits acct (PokerInfo p)"
  shows "well_framed acct (PokerInfo p)"
  using assms infos_framed [of acct p]
  by (auto simp: well_framed_def poker_info_length_def poker_info_script_def info_body_length_def)

lemma poker_state_framed:
  assumes "packet_fits acct (PokerState p v)"
  shows "well_framed acct (PokerState p v)"
proof -
  have "length (script_bytes (map (\<lambda>pl. Sub (state_player acct pl)) (seated p)))
      = sum_list (map (\<lambda>pl. 24 + length (ac_name (acct (pl_account pl)))) (seated p))
    \<and> list_all step_sound (map (\<lambda>pl. Sub (state_player acct pl)) (seated p))"
    using assms by (intro sub_framed) (auto simp: list_all_iff state_player_framed)
  then show ?thesis
    by (auto simp: well_framed_def poker_state_length_def poker_state_script_def)
qed

lemma poker_end_framed:
  assumes "length (pk_scores p) < 256"
  shows "well_framed acct (PokerEnd p w e)"
proof -
  let ?f = "\<lambda>(i, diff). Write (pack frame_poker_end_score [unat (diff :: 64 word),
      unat (pl_account (the_player p i))])"
  have "length (script_bytes (map ?f xs)) = 16 * length xs \<and> list_all step_sound (map ?f xs)" for xs
    by (induction xs) auto
  then show ?thesis using assms
    by (auto simp: well_framed_def poker_end_length_def poker_end_script_def)
qed

lemma tables_framed:
  assumes "list_all (\<lambda>t. tb_name t \<noteq> []) ts"
  shows "well_framed acct (Tables off ts)"
proof -
  have "length (script_bytes (concat (map table_steps ts))) = sum_list (map (\<lambda>t. 32 + length (tb_name t)) ts)
    \<and> list_all step_sound (concat (map table_steps ts))"
    using assms by (intro concat_framed) (auto simp: list_all_iff table_steps_def)
  then show ?thesis by (auto simp: well_framed_def tables_length_def tables_script_def)
qed

lemma sessions_framed:
  assumes "packet_fits acct (Sessions off ps)"
  shows "well_framed acct (Sessions off ps)"
proof -
  have "length (script_bytes (concat (map (session_steps acct) ps))) = sum_list (map (info_body_length acct) ps)
    \<and> list_all step_sound (concat (map (session_steps acct) ps))"
    using assms infos_framed
    by (intro concat_framed) (auto simp: list_all_iff session_steps_def info_body_length_def)
  then show ?thesis by (auto simp: well_framed_def sessions_length_def sessions_script_def)
qed

lemma server_info_framed: "well_framed acct (ServerInfo b v r c)"
  by (auto simp: well_framed_def server_info_length_def server_info_script_def)

text \<open>C15: Every packet that fits is framed correctly: the length announced to a websocket client is
  exactly the number of bytes that follow, no write is empty and no pointer is null.\<close>

theorem packets_framed:
  assumes "packet_fits acct p"
  shows "well_framed acct p"
proof (cases p)
  case (Json obj j)
  then show ?thesis using assms by simp
qed (use assms login_framed signup_framed auth_session_framed account_framed poker_info_framed
    poker_state_framed poker_end_framed tables_framed sessions_framed server_info_framed in
    \<open>auto simp: well_framed_def [of acct OverCapacity] well_framed_def [of acct PongPacket]
      well_framed_def [of _ "EnterRes _ _"] well_framed_def [of _ "LeaveRes _ _"]
      well_framed_def [of _ "JoinRes _ _"] well_framed_def [of _ "UnjoinRes _ _"]
      well_framed_def [of _ "ActionReflection _ _ _ _"] well_framed_def [of _ "PokerRestarted _"]
      well_framed_def [of _ "Unjoined _ _"] well_framed_def [of _ "UpdateAccountRes _ _"]\<close>)

definition sample_account :: account where
  "sample_account = \<lparr>ac_ref = ref_counted_init, ac_id = 7, ac_id_token = [97, 64], ac_name = [98],
     ac_avatar = [1, 2, 3], ac_xmr_deposit_address = [], ac_xmr_deposit_address_index = 0,
     ac_balance = 1000, ac_locked_balance = 0, ac_total_deposited = 0, ac_xmr_height = 0\<rparr>"

definition sample_session :: auth_session where
  "sample_session = \<lparr>as_ref = ref_counted_init, as_token = [65, 66], as_account = sample_account\<rparr>"

definition sample_accounts :: accounts where
  "sample_accounts = (\<lambda>_. sample_account)"

lemma sample_login_fits: "packet_fits acct (LoginRes 1 1 (Some sample_account) (Some sample_session))"
  by (simp add: session_fits_def account_fits_def sample_account_def sample_session_def)

theorem packets_framed_witness:
  "declared sample_accounts (LoginRes 1 1 (Some sample_account) (Some sample_session)) = Inr 46
    \<and> well_framed sample_accounts (LoginRes 1 1 (Some sample_account) (Some sample_session))"
  using packets_framed [OF sample_login_fits]
  by (simp add: login_res_length_def sample_account_def sample_session_def sizeof_header_def)

section \<open>Sending a packet\<close>

context reliable
begin

lemma write_sends:
  assumes "\<not> client_freed c" "bs \<noteq> []"
  shows "\<exists>r s'. net_write send bs c = Inr (r, c\<lparr>cl_conn := s'\<rparr>) \<and> 0 < r
    \<and> sent s' = sent (cl_conn c) @ bs \<and> pending s' = pending (cl_conn c)"
proof -
  obtain r s' where s: "send bs (cl_conn c) = (r, s')" by fastforce
  then show ?thesis using assms(1) send_succeeds [OF s assms(2)] send_all [OF s] send_pending [OF s]
    by (auto simp: net_write_def)
qed

lemma freed_conn [simp]: "client_freed (c\<lparr>cl_conn := s\<rparr>) = client_freed c"
  by (simp add: client_freed_def)

lemma write_all_sends:
  "\<not> client_freed c \<Longrightarrow> [] \<notin> set bss \<Longrightarrow>
    \<exists>s'. write_all send bss c = Inr (True, c\<lparr>cl_conn := s'\<rparr>)
      \<and> sent s' = sent (cl_conn c) @ concat bss \<and> pending s' = pending (cl_conn c)"
proof (induction bss arbitrary: c)
  case Nil
  show ?case by (auto intro!: exI [of _ "cl_conn c"])
next
  case (Cons bs bss)
  obtain r s1 where "net_write send bs c = Inr (r, c\<lparr>cl_conn := s1\<rparr>)" "0 < r"
    "sent s1 = sent (cl_conn c) @ bs" "pending s1 = pending (cl_conn c)"
    using write_sends [OF Cons.prems(1), of bs] Cons.prems(2) by auto
  then show ?case using Cons.IH [of "c\<lparr>cl_conn := s1\<rparr>"] Cons.prems by auto
qed

lemma run_script_sends:
  "\<not> client_freed c \<Longrightarrow> list_all step_sound steps \<Longrightarrow>
    \<exists>s'. run_script send steps c = Inr (True, c\<lparr>cl_conn := s'\<rparr>)
      \<and> sent s' = sent (cl_conn c) @ script_bytes steps \<and> pending s' = pending (cl_conn c)"
proof (induction steps arbitrary: c)
  case Nil
  show ?case by (auto intro!: exI [of _ "cl_conn c"])
next
  case (Cons st steps)
  show ?case
  proof (cases st)
    case (Write bs)
    obtain r s1 where "net_write send bs c = Inr (r, c\<lparr>cl_conn := s1\<rparr>)" "0 < r"
      "sent s1 = sent (cl_conn c) @ bs" "pending s1 = pending (cl_conn c)"
      using write_sends [OF Cons.prems(1), of bs] Cons.prems(2) Write by auto
    then show ?thesis using Cons.IH [of "c\<lparr>cl_conn := s1\<rparr>"] Cons.prems Write by auto
  next
    case (Sub bss)
    obtain s1 where "write_all send bss c = Inr (True, c\<lparr>cl_conn := s1\<rparr>)"
      "sent s1 = sent (cl_conn c) @ concat bss" "pending s1 = pending (cl_conn c)"
      using write_all_sends [OF Cons.prems(1), of bss] Cons.prems(2) Sub by auto
    then show ?thesis using Cons.IH [of "c\<lparr>cl_conn := s1\<rparr>"] Cons.prems Sub by auto
  next
    case (Crash e)
    then show ?thesis using Cons.prems by simp
  qed
qed

end

text \<open>C8: Sending a packet that fits, over a connection whose writes succeed, sends exactly the
  bytes of the packet, after the websocket header of their length where the client speaks
  websocket, reports success and changes nothing else of the client.\<close>

theorem packet_is_sent:
  assumes "reliable recv pending sent send"
    and "packet_fits acct p" "\<not> client_freed c" "body = script_bytes (script acct p)"
  shows "\<exists>s'. server_send send acct p c = Inr (True, c\<lparr>cl_conn := s'\<rparr>)
    \<and> sent s' = sent (cl_conn c) @ (if cl_is_websocket c then header_bytes (length body) else []) @ body
    \<and> pending s' = pending (cl_conn c)"
proof -
  have wf: "declared acct p = Inr (length body)" "list_all step_sound (script acct p)"
    using packets_framed [OF assms(2)] assms(4) by (simp_all add: well_framed_def)
  have freed: "client_freed (c\<lparr>cl_conn := s\<rparr>) = client_freed c" for s
    by (simp add: client_freed_def)
  show ?thesis
  proof (cases "cl_is_websocket c")
    case False
    then show ?thesis
      using reliable.run_script_sends [OF assms(1,3) wf(2)] assms(3,4)
      by (fastforce simp: server_send_def send_message_def freed)
  next
    case True
    obtain r s1 where s1: "send (header_bytes (length body)) (cl_conn c) = (r, s1)" by fastforce
    have "header_bytes (length body) \<noteq> []" by (simp add: header_bytes_def)
    then have r: "0 < r" using reliable.send_succeeds [OF assms(1) s1] by simp
    obtain s' where "run_script send (script acct p) (c\<lparr>cl_conn := s1\<rparr>) = Inr (True, c\<lparr>cl_conn := s'\<rparr>)"
      "sent s' = sent s1 @ body" "pending s' = pending s1"
      using reliable.run_script_sends [OF assms(1) _ wf(2), of "c\<lparr>cl_conn := s1\<rparr>"] assms(3,4)
      by (auto simp: freed)
    then show ?thesis
      using True r s1 duplex.send_all [OF reliable.axioms(1) [OF assms(1)] s1 r]
        duplex.send_pending [OF reliable.axioms(1) [OF assms(1)] s1] wf(1) assms(3)
      by (auto simp: server_send_def send_message_def send_header_def freed)
  qed
qed

definition sample_client :: "bool \<Rightarrow> int \<Rightarrow> bytes list \<Rightarrow> socket client" where
  "sample_client is_websocket n input = (client_new
     \<lparr>wh_plen = 0, wh_opcode = 0, wh_is_masked = False, wh_fin = False, wh_mkey = [], wh_mask_i = 0\<rparr>
     (input, []))\<lparr>cl_ref := \<lparr>rc_count = n, rc_frees = 0\<rparr>, cl_listed := True, cl_is_websocket := is_websocket\<rparr>"

lemma sample_client_live [simp]: "\<not> client_freed (sample_client w n input)"
  by (simp add: sample_client_def client_freed_def)

lemma sample_enter_bytes:
  "script_bytes (script acct (EnterRes 5 1)) = [13, 0, 0, 0, 0, 0, 0, 0, 5, 0, 0, 0, 0, 0, 0, 0, 1]"
  unfolding script.simps script_bytes_simps by code_simp

theorem packet_is_sent_witness:
  "\<exists>s'. server_send socket_send sample_accounts (EnterRes 5 1) (sample_client True 3 []) =
      Inr (True, (sample_client True 3 [])\<lparr>cl_conn := s'\<rparr>)
    \<and> snd s' = [0x82, 17, 13, 0, 0, 0, 0, 0, 0, 0, 5, 0, 0, 0, 0, 0, 0, 0, 1]"
proof -
  have "packet_fits sample_accounts (EnterRes 5 1)" "cl_is_websocket (sample_client True 3 [])"
    "cl_conn (sample_client True 3 []) = ([], [])"
    by (simp_all add: sample_client_def client_new_def)
  then show ?thesis
    using packet_is_sent [OF socket.reliable_axioms, of sample_accounts "EnterRes 5 1" "sample_client True 3 []"]
    unfolding sample_enter_bytes by (auto simp: header_bytes_def)
qed

end
