(* ===== verification/Base64.thy ===== *)
theory Base64
  imports Bytes
begin

text \<open>
  \<open>pkrsrv_util_base64_encode\<close> and \<open>pkrsrv_util_base64_decode\<close> of \<open>src/src/util.c\<close>.
\<close>

definition base64_chars :: bytes where
  "base64_chars = map of_nat ([65..<91] @ [97..<123] @ [48..<58] @ [43, 47])"

text \<open>\<open>base64_rev_table\<close> has 128 entries, those not given being 0.\<close>

definition base64_rev_table :: "nat \<Rightarrow> 32 word" where
  "base64_rev_table c =
    (if 65 \<le> c \<and> c < 91 then of_nat (c - 65) else if 97 \<le> c \<and> c < 123 then of_nat (c - 71)
     else if 48 \<le> c \<and> c < 58 then of_nat (c + 4) else if c = 43 then 62 else if c = 47 then 63 else 0)"

definition base64_mod_table :: "nat \<Rightarrow> nat" where
  "base64_mod_table k = [0, 2, 1] ! k"

definition encode_triple :: "byte \<Rightarrow> byte \<Rightarrow> byte \<Rightarrow> bytes" where
  "encode_triple a b c =
    (let triple = push_bit 16 (ucast a) + push_bit 8 (ucast b) + (ucast c :: 32 word)
     in map (\<lambda>k. base64_chars ! unat (drop_bit (k * 6) triple AND 0x3F)) [3, 2, 1, 0])"

fun encode_triples :: "bytes \<Rightarrow> bytes" where
  "encode_triples [] = []"
| "encode_triples [a] = encode_triple a 0 0"
| "encode_triples [a, b] = encode_triple a b 0"
| "encode_triples (a # b # c # data) = encode_triple a b c @ encode_triples data"

text \<open>The padding overwrites the last characters.\<close>

definition base64_encode :: "bytes \<Rightarrow> bytes" where
  "base64_encode data =
    (let len_encoded = (length data + 2) div 3 * 4
     in fold (\<lambda>i encoded. encoded[len_encoded - 1 - i := 61]) [0..<base64_mod_table (length data mod 3)]
          (encode_triples data))"

text \<open>Decoding indexes its input without a bound, except for the number of bytes written. A
  character of 128 or more indexes outside the table, and a length that is no multiple of 4
  reads past the end of the input, as the two tests of the padding do for a length below 2.\<close>

definition sextet :: "byte \<Rightarrow> (32 word) outcome" where
  "sextet b = (if b = 61 then Inr 0 else if unat b < 128 then Inr (base64_rev_table (unat b)) else Inl OutOfRange)"

definition decode_quad :: "byte \<Rightarrow> byte \<Rightarrow> byte \<Rightarrow> byte \<Rightarrow> bytes outcome" where
  "decode_quad a b c d =
    bindO (sextet a) (\<lambda>x. bindO (sextet b) (\<lambda>y. bindO (sextet c) (\<lambda>z. bindO (sextet d) (\<lambda>w.
      let triple = push_bit 18 x + push_bit 12 y + push_bit 6 z + w
      in Inr (map (\<lambda>k. ucast (drop_bit (k * 8) triple AND 0xFF)) [2, 1, 0])))))"

fun decode_quads :: "bytes \<Rightarrow> bytes outcome" where
  "decode_quads [] = Inr []"
| "decode_quads (a # b # c # d # data) =
    bindO (decode_quad a b c d) (\<lambda>bs. bindO (decode_quads data) (\<lambda>rest. Inr (bs @ rest)))"
| "decode_quads _ = Inl OutOfRange"

definition base64_decode :: "bytes \<Rightarrow> bytes outcome" where
  "base64_decode data =
    (if length data < 2 then Inl OutOfRange
     else
       let n = length data div 4 * 3;
           n = (if data ! (length data - 1) = 61 then n - 1 else n);
           n = (if data ! (length data - 2) = 61 then n - 1 else n)
       in bindO (decode_quads data) (\<lambda>output. Inr (take n output)))"

section \<open>Round trip\<close>

lemma base64_chars_sextet:
  "list_all (\<lambda>k. sextet (base64_chars ! k) = Inr (of_nat k) \<and> base64_chars ! k \<noteq> 61) [0..<64]"
  by code_simp

lemma sextet_char [simp]: "k < 64 \<Longrightarrow> sextet (base64_chars ! k) = Inr (of_nat k)"
  and char_not_pad [simp]: "k < 64 \<Longrightarrow> base64_chars ! k \<noteq> 61"
  using base64_chars_sextet by (auto simp: list_all_iff)

definition triple_value :: "byte \<Rightarrow> byte \<Rightarrow> byte \<Rightarrow> nat" where
  "triple_value a b c = unat a * 65536 + unat b * 256 + unat c"

lemma triple_bound: "triple_value a b c < 16777216"
  using unat_fits(1) [of a] unat_fits(1) [of b] unat_fits(1) [of c]
  unfolding triple_value_def by linarith

lemma unat_triple:
  "unat (push_bit 16 (ucast a) + push_bit 8 (ucast b) + (ucast c :: 32 word)) = triple_value a b c"
proof -
  have "push_bit 16 (ucast a) + push_bit 8 (ucast b) + (ucast c :: 32 word) = of_nat (triple_value a b c)"
    by (simp add: triple_value_def push_bit_eq_mult unsigned_of_nat flip: of_nat_unat [where 'a = 32])
  then show ?thesis using triple_bound [of a b c] by (simp add: unat_of_nat)
qed

lemma encode_triple_values:
  "encode_triple a b c = (let t = triple_value a b c in
     [base64_chars ! (t div 262144), base64_chars ! (t div 4096 mod 64), base64_chars ! (t div 64 mod 64),
      base64_chars ! (t mod 64)])"
proof -
  define w :: "32 word" where "w = push_bit 16 (ucast a) + push_bit 8 (ucast b) + ucast c"
  have w: "unat w = triple_value a b c" using unat_triple [of a b c] by (simp add: w_def)
  have m: "(0x3F :: 32 word) = mask 6" by (simp add: mask_eq_exp_minus_1)
  have s: "triple_value a b c mod 4294967296 = triple_value a b c" using triple_bound [of a b c] by simp
  have "unat (drop_bit n w AND 0x3F) = triple_value a b c div 2 ^ n mod 64" for n
    unfolding m take_bit_eq_mask [symmetric] unsigned_take_bit_eq unsigned_drop_bit_eq w
    by (simp add: take_bit_eq_mod drop_bit_eq_div s)
  moreover have "triple_value a b c div 262144 < 64" using triple_bound [of a b c] by (simp add: less_mult_imp_div_less)
  ultimately show ?thesis unfolding encode_triple_def w_def [symmetric] Let_def by simp
qed

lemma decode_values:
  assumes "x < 64" "y < 64" "z < 64" "w < 64" "t = x * 262144 + y * 4096 + z * 64 + w"
  shows "map (\<lambda>k. ucast (drop_bit (k * 8) (push_bit 18 (of_nat x) + push_bit 12 (of_nat y) + push_bit 6 (of_nat z)
      + (of_nat w :: 32 word)) AND 0xFF)) [2, 1, 0 :: nat] = [of_nat (t div 65536), of_nat (t div 256), of_nat t :: byte]"
proof -
  let ?v = "push_bit 18 (of_nat x) + push_bit 12 (of_nat y) + push_bit 6 (of_nat z) + (of_nat w :: 32 word)"
  have "?v = of_nat t" by (simp add: assms(5) push_bit_eq_mult)
  moreover have t: "t mod 4294967296 = t" using assms by simp
  ultimately have v: "unat ?v = t" by (simp add: unat_of_nat)
  have m: "(0xFF :: 32 word) = mask 8" by (simp add: mask_eq_exp_minus_1)
  have "(ucast (drop_bit n ?v AND 0xFF) :: byte) = of_nat (t div 2 ^ n)" for n
  proof (rule word_unat_eq_iff [THEN iffD2])
    show "unat (ucast (drop_bit n ?v AND 0xFF) :: byte) = unat (of_nat (t div 2 ^ n) :: byte)"
      unfolding m take_bit_eq_mask [symmetric] unsigned_ucast_eq unsigned_take_bit_eq unsigned_drop_bit_eq v
      by (simp add: take_bit_eq_mod drop_bit_eq_div unat_of_nat_byte t)
  qed
  then show ?thesis by simp
qed

text \<open>A padding character stands for a sextet that is 0.\<close>

definition padded :: "bool \<Rightarrow> byte \<Rightarrow> byte" where
  "padded p b = (if p then 61 else b)"

lemma decode_quad_encoded:
  assumes "encode_triple a b c = [e0, e1, e2, e3]" "p \<longrightarrow> b = 0 \<and> c = 0" "q \<longrightarrow> c = 0"
  shows "decode_quad e0 e1 (padded p e2) (padded q e3) = Inr [a, b, c]"
proof -
  let ?t = "triple_value a b c"
  define x y z w where xs: "x = ?t div 262144" "y = ?t div 4096 mod 64" "z = ?t div 64 mod 64" "w = ?t mod 64"
  have lt: "x < 64" "y < 64" "z < 64" "w < 64"
    using triple_bound [of a b c] by (simp_all add: xs less_mult_imp_div_less)
  have t: "?t = x * 262144 + y * 4096 + z * 64 + w"
  proof -
    have "?t = ?t div 64 * 64 + ?t mod 64" "?t div 64 = ?t div 64 div 64 * 64 + ?t div 64 mod 64"
      "?t div 4096 = ?t div 4096 div 64 * 64 + ?t div 4096 mod 64"
      by simp_all
    moreover have "?t div 64 div 64 = ?t div 4096" "?t div 4096 div 64 = ?t div 262144"
      by (simp_all add: div_mult2_eq [symmetric])
    ultimately show ?thesis unfolding xs by linarith
  qed
  have e: "e0 = base64_chars ! x" "e1 = base64_chars ! y" "e2 = base64_chars ! z" "e3 = base64_chars ! w"
    using assms(1) by (simp_all add: encode_triple_values Let_def xs)
  have "z = 0" if p
  proof -
    have "?t = 64 * (64 * (16 * unat a))" using that assms(2) by (simp add: triple_value_def)
    then show ?thesis unfolding xs by (simp only: nonzero_mult_div_cancel_left) simp
  qed
  moreover have "w = 0" if q
  proof -
    have "?t = 64 * (1024 * unat a + 4 * unat b)" using that assms(3) by (simp add: triple_value_def)
    then show ?thesis unfolding xs by (simp only: mod_mult_self1_is_0)
  qed
  ultimately have "sextet (padded p e2) = Inr (of_nat z)" "sextet (padded q e3) = Inr (of_nat w)"
    using lt by (auto simp: e padded_def sextet_def [of 61])
  moreover have "?t div 65536 = unat a" "?t div 256 = unat a * 256 + unat b" "of_nat ?t = c"
    "(of_nat (unat a * 256 + unat b) :: byte) = b"
  proof -
    show "?t div 65536 = unat a" "?t div 256 = unat a * 256 + unat b"
      using unat_fits(1) [of b] unat_fits(1) [of c] unfolding triple_value_def by linarith+
    have low: "(of_nat (n * 256 + unat v) :: byte) = v" for n and v :: byte
      by (rule word_unat_eq_iff [THEN iffD2]) (simp only: unat_of_nat_byte, simp add: unat_fits mod_less)
    then show "(of_nat (unat a * 256 + unat b) :: byte) = b" .
    have "?t = (unat a * 256 + unat b) * 256 + unat c" by (simp add: triple_value_def)
    then show "of_nat ?t = c" by (simp only: low)
  qed
  ultimately show ?thesis
    using decode_values [OF lt t] lt by (simp add: decode_quad_def e Let_def)
qed

lemma encode_triple_four:
  obtains e0 e1 e2 e3 where "encode_triple a b c = [e0, e1, e2, e3]"
    "e0 \<noteq> 61" "e1 \<noteq> 61" "e2 \<noteq> 61" "e3 \<noteq> 61"
proof -
  have "triple_value a b c div 262144 < 64" using triple_bound [of a b c] by (simp add: less_mult_imp_div_less)
  then show ?thesis using that by (simp add: encode_triple_values Let_def)
qed

lemma length_encode_triple [simp]: "length (encode_triple a b c) = 4"
  by (simp add: encode_triple_values Let_def)

lemma mod3_cases: "n mod 3 = 0 \<or> n mod 3 = 1 \<or> n mod 3 = (2 :: nat)"
  using mod_less_divisor [of 3 n] by linarith

lemma groups_step: "(5 + n) div 3 = Suc (Suc (Suc n) div 3)"
proof -
  have "5 + n = Suc (Suc n) + 3" by simp
  then show ?thesis by (simp only: div_add_self2)
qed

lemma mod_step: "Suc (Suc (Suc n)) mod 3 = n mod 3"
proof -
  have "Suc (Suc (Suc n)) = n + 3" by simp
  then show ?thesis by (simp only: mod_add_self2)
qed

lemma length_encode_triples: "length (encode_triples data) = (length data + 2) div 3 * 4"
  by (induction data rule: encode_triples.induct) (simp_all add: groups_step)

lemma base64_encode_tail:
  "base64_encode [] = []"
  "encode_triple a 0 0 = [e0, e1, e2, e3] \<Longrightarrow> base64_encode [a] = [e0, e1, 61, 61]"
  "encode_triple a b 0 = [e0, e1, e2, e3] \<Longrightarrow> base64_encode [a, b] = [e0, e1, e2, 61]"
  by (simp_all add: base64_encode_def base64_mod_table_def upt_rec [of 0] upt_rec [of "Suc 0"] Let_def)

lemma base64_encode_step: "base64_encode (a # b # c # data) = encode_triple a b c @ base64_encode data"
proof -
  let ?n = "(length data + 2) div 3 * 4"
  have len: "length (encode_triples data) = ?n" by (rule length_encode_triples)
  have n: "0 < ?n" if "data \<noteq> []" using that by (cases data) simp_all
  consider "length data mod 3 = 0" | "length data mod 3 = 1" | "length data mod 3 = 2"
    using mod3_cases [of "length data"] by metis
  then show ?thesis
  proof cases
    case 1
    then show ?thesis by (simp add: base64_encode_def base64_mod_table_def Let_def mod_step groups_step)
  next
    case 2
    then have "data \<noteq> []" by auto
    then obtain k where "?n = Suc (Suc k)" using n by (cases ?n; cases "?n - 1") auto
    then show ?thesis using 2 len
      by (simp add: base64_encode_def base64_mod_table_def Let_def mod_step groups_step upt_rec [of 0]
          upt_rec [of "Suc 0"] list_update_append)
  next
    case 3
    then have "data \<noteq> []" by auto
    then obtain k where "?n = Suc k" using n by (cases ?n) auto
    then show ?thesis using 3 len
      by (simp add: base64_encode_def base64_mod_table_def Let_def mod_step groups_step upt_rec [of 0] list_update_append)
  qed
qed

lemma decode_quads_step:
  assumes "decode_quad e0 e1 e2 e3 = Inr bs"
  shows "decode_quads (e0 # e1 # e2 # e3 # rest) = bindO (decode_quads rest) (\<lambda>r. Inr (bs @ r))"
  using assms by simp

lemma decode_quads_encoded:
  "decode_quads (base64_encode data) = Inr (data @ replicate (base64_mod_table (length data mod 3)) 0)"
proof (induction data rule: encode_triples.induct)
  case 1
  show ?case by (simp add: base64_encode_tail base64_mod_table_def)
next
  case (2 a)
  obtain e0 e1 e2 e3 where e: "encode_triple a 0 0 = [e0, e1, e2, e3]" by (rule encode_triple_four)
  show ?case using decode_quad_encoded [OF e, of True True]
    by (simp add: base64_encode_tail(2) [OF e] padded_def base64_mod_table_def numeral_2_eq_2)
next
  case (3 a b)
  obtain e0 e1 e2 e3 where e: "encode_triple a b 0 = [e0, e1, e2, e3]" by (rule encode_triple_four)
  show ?case using decode_quad_encoded [OF e, of False True]
    by (simp add: base64_encode_tail(3) [OF e] padded_def base64_mod_table_def numeral_2_eq_2)
next
  case (4 a b c data)
  obtain e0 e1 e2 e3 where e: "encode_triple a b c = [e0, e1, e2, e3]" by (rule encode_triple_four)
  have "decode_quad e0 e1 e2 e3 = Inr [a, b, c]"
    using decode_quad_encoded [OF e, of False False] by (simp add: padded_def)
  then show ?case using 4 by (simp add: base64_encode_step e mod_step del: decode_quads.simps
      add: decode_quads_step)
qed

lemma length_base64_encode: "length (base64_encode data) = (length data + 2) div 3 * 4"
proof (induction data rule: encode_triples.induct)
  case (2 a)
  obtain e0 e1 e2 e3 where e: "encode_triple a 0 0 = [e0, e1, e2, e3]" by (rule encode_triple_four)
  show ?case by (simp add: base64_encode_tail(2) [OF e])
next
  case (3 a b)
  obtain e0 e1 e2 e3 where e: "encode_triple a b 0 = [e0, e1, e2, e3]" by (rule encode_triple_four)
  show ?case by (simp add: base64_encode_tail(3) [OF e])
qed (simp_all add: base64_encode_tail base64_encode_step groups_step)

text \<open>The last two characters tell how much padding there is.\<close>

lemma base64_padding:
  "data \<noteq> [] \<Longrightarrow> \<exists>front x y. base64_encode data = front @ [x, y]
     \<and> (y = 61 \<longleftrightarrow> length data mod 3 \<noteq> 0) \<and> (x = 61 \<longleftrightarrow> length data mod 3 = 1)"
proof (induction data rule: encode_triples.induct)
  case 1
  then show ?case by simp
next
  case (2 a)
  obtain e0 e1 e2 e3 where e: "encode_triple a 0 0 = [e0, e1, e2, e3]" by (rule encode_triple_four)
  show ?case by (intro exI [of _ "[e0, e1]"]) (simp add: base64_encode_tail(2) [OF e])
next
  case (3 a b)
  obtain e0 e1 e2 e3 where e: "encode_triple a b 0 = [e0, e1, e2, e3]" "e2 \<noteq> 61" by (rule encode_triple_four)
  then show ?case by (intro exI [of _ "[e0, e1]"]) (simp add: base64_encode_tail(3) [OF e(1)])
next
  case (4 a b c data)
  obtain e0 e1 e2 e3 where e: "encode_triple a b c = [e0, e1, e2, e3]" "e2 \<noteq> 61" "e3 \<noteq> 61"
    by (rule encode_triple_four)
  show ?case
  proof (cases "data = []")
    case True
    then show ?thesis using e
      by (intro exI [of _ "[e0, e1]"]) (simp add: base64_encode_step base64_encode_tail(1))
  next
    case False
    then obtain front x y where "base64_encode data = front @ [x, y]"
      "y = 61 \<longleftrightarrow> length data mod 3 \<noteq> 0" "x = 61 \<longleftrightarrow> length data mod 3 = 1"
      using 4 by blast
    moreover have "length (a # b # c # data) mod 3 = length data mod 3" by (simp add: mod_step)
    ultimately show ?thesis
      by (intro exI [of _ "encode_triple a b c @ front"] exI [of _ x] exI [of _ y])
        (simp only: base64_encode_step append_assoc simp_thms)
  qed
qed

lemma base64_decode_end:
  "base64_decode (front @ [x, y]) = bindO (decode_quads (front @ [x, y])) (\<lambda>output.
     Inr (take ((length front + 2) div 4 * 3 - (if y = 61 then 1 else 0) - (if x = 61 then 1 else 0)) output))"
  by (simp add: base64_decode_def nth_append Let_def)

text \<open>Decoding what \<open>pkrsrv_util_base64_encode\<close> produced gives the data back.\<close>

theorem base64_roundtrip:
  assumes "data \<noteq> []"
  shows "base64_decode (base64_encode data) = Inr data"
proof -
  obtain front x y where f: "base64_encode data = front @ [x, y]"
    and y: "y = 61 \<longleftrightarrow> length data mod 3 \<noteq> 0" and x: "x = 61 \<longleftrightarrow> length data mod 3 = 1"
    using base64_padding [OF assms] by blast
  have "(length data + 2) div 3 * 4 div 4 * 3 = length data + base64_mod_table (length data mod 3)"
  proof -
    obtain k r where n: "length data = 3 * k + r" "r = length data mod 3"
      by (metis mult_div_mod_eq)
    have "(3 * k + r + 2) div 3 = k + (r + 2) div 3" by simp
    then show ?thesis using mod3_cases [of "length data"]
      unfolding n(2) [symmetric] by (auto simp: n(1) base64_mod_table_def)
  qed
  moreover have "base64_mod_table (length data mod 3)
      = (if y = 61 then 1 else 0) + (if x = 61 then 1 else 0)"
  proof -
    show ?thesis using mod3_cases [of "length data"] x y by (auto simp: base64_mod_table_def)
  qed
  moreover have "length front + 2 = (length data + 2) div 3 * 4"
    using length_base64_encode [of data] f by simp
  ultimately have "(length front + 2) div 4 * 3 - (if y = 61 then 1 else 0) - (if x = 61 then 1 else 0) = length data"
    by simp
  then show ?thesis using decode_quads_encoded [of data] base64_decode_end [of front x y] by (simp add: f)
qed

theorem base64_roundtrip_witness:
  "base64_encode [77] = [84, 81, 61, 61] \<and> base64_decode [84, 81, 61, 61] = Inr [77]"
proof -
  have "base64_encode [77] = [84, 81, 61, 61]" by code_simp
  then show ?thesis using base64_roundtrip [of "[77]"] by simp
qed

end
