(* ===== verification/Websocket_Http.thy ===== *)
theory Websocket_Http
  imports Websocket Base64
begin

text \<open>
  The opening handshake of a websocket, \<open>pkrsrv_websocket_read_http_header\<close> of
  \<open>src/src/websocket.c\<close>. The request is read one byte at a time by a state machine that keeps
  the header's name and value in two buffers of 41 bytes, which it never checks for room: a
  write past the end is the fault \<open>OutOfRange\<close>. SHA-1 is OpenSSL's and a parameter.
\<close>

datatype http_state = HTTP_METHOD | HTTP_PROP | HTTP_SPACE | HTTP_VAL | HTTP_CR | HTTP_END

definition HTTP_HEADER_BUFF_SIZE :: nat where "HTTP_HEADER_BUFF_SIZE = 1000"
definition HTTP_PROP_BUFF_SIZE :: nat where "HTTP_PROP_BUFF_SIZE = 40"

text \<open>\<open>ht_prop\<close> and \<open>ht_val\<close> are the bytes written so far, up to the buffer's index;
  \<open>ht_prop_done\<close> and \<open>ht_val_done\<close> are the strings as last terminated.\<close>

record http =
  ht_state :: http_state
  ht_is_cr :: bool
  ht_header_i :: nat
  ht_prop :: bytes
  ht_prop_done :: bytes
  ht_val :: bytes
  ht_val_done :: bytes
  ht_key :: "bytes option"

definition http_init :: http where
  "http_init = \<lparr>ht_state = HTTP_METHOD, ht_is_cr = False, ht_header_i = 8, ht_prop = [], ht_prop_done = [],
     ht_val = [], ht_val_done = [], ht_key = None\<rparr>"

definition ascii :: "string \<Rightarrow> bytes" where
  "ascii s = map (\<lambda>c. of_nat (of_char c)) s"

definition cstring :: "bytes \<Rightarrow> bytes" where
  "cstring bs = takeWhile (\<lambda>b. b \<noteq> 0) bs"

definition put_buffer :: "byte \<Rightarrow> bytes \<Rightarrow> bytes outcome" where
  "put_buffer b buffer = (if length buffer \<le> HTTP_PROP_BUFF_SIZE then Inr (buffer @ [b]) else Inl OutOfRange)"

text \<open>Terminating a string writes one byte at the index as well.\<close>

definition end_buffer :: "bytes \<Rightarrow> bytes outcome" where
  "end_buffer buffer = (if length buffer \<le> HTTP_PROP_BUFF_SIZE then Inr (cstring buffer) else Inl OutOfRange)"

datatype http_result = Next http | Fail | Accept bytes

text \<open>One byte of the request. The flag \<open>is_lf\<close> of the source is never set, so the request line
  is skipped and not compared with the expected one.\<close>

definition http_method :: "byte \<Rightarrow> http \<Rightarrow> http_result outcome" where
  "http_method b h =
    (if ht_is_cr h then
       (if b = 10 then Inr (Next (h\<lparr>ht_state := HTTP_PROP\<rparr>)) else Inr Fail)
     else if HTTP_HEADER_BUFF_SIZE < ht_header_i h then Inl OutOfRange
     else Inr (Next (h\<lparr>ht_is_cr := (b = 13), ht_header_i := ht_header_i h + 1\<rparr>)))"

definition http_prop :: "byte \<Rightarrow> http \<Rightarrow> http_result outcome" where
  "http_prop b h =
    (let h = (if b = 13 then h\<lparr>ht_state := HTTP_END\<rparr> else h)
     in if b \<noteq> 58 then bindO (put_buffer b (ht_prop h)) (\<lambda>p. Inr (Next (h\<lparr>ht_prop := p\<rparr>)))
        else bindO (end_buffer (ht_prop h)) (\<lambda>p.
          Inr (Next (h\<lparr>ht_state := HTTP_SPACE, ht_prop_done := p, ht_prop := []\<rparr>))))"

definition http_val :: "byte \<Rightarrow> http \<Rightarrow> http_result outcome" where
  "http_val b h =
    (if b = 13 then bindO (end_buffer (ht_val h)) (\<lambda>v.
       Inr (Next (h\<lparr>ht_state := HTTP_CR, ht_val_done := v, ht_val := []\<rparr>)))
     else bindO (put_buffer b (ht_val h)) (\<lambda>v. Inr (Next (h\<lparr>ht_val := v\<rparr>))))"

definition http_cr :: "byte \<Rightarrow> http \<Rightarrow> http_result outcome" where
  "http_cr b h =
    (if b = 10 then
       Inr (Next (if ht_prop_done h = ascii ''Sec-WebSocket-Key''
         then h\<lparr>ht_state := HTTP_PROP, ht_key := Some (ht_val_done h)\<rparr> else h\<lparr>ht_state := HTTP_PROP\<rparr>))
     else Inr Fail)"

definition http_end :: "byte \<Rightarrow> http \<Rightarrow> http_result outcome" where
  "http_end b h =
    (if b = 10 then (case ht_key h of None \<Rightarrow> Inr Fail | Some key \<Rightarrow> Inr (Accept key))
     else Inr (Next h))"

definition http_byte :: "byte \<Rightarrow> http \<Rightarrow> http_result outcome" where
  "http_byte b h =
    (case ht_state h of
      HTTP_METHOD \<Rightarrow> http_method b h
    | HTTP_PROP \<Rightarrow> http_prop b h
    | HTTP_SPACE \<Rightarrow> if b = 32 then Inr (Next (h\<lparr>ht_state := HTTP_VAL\<rparr>)) else Inr Fail
    | HTTP_VAL \<Rightarrow> http_val b h
    | HTTP_CR \<Rightarrow> http_cr b h
    | HTTP_END \<Rightarrow> http_end b h)"

definition WEBSOCKET_GUID :: bytes where
  "WEBSOCKET_GUID = ascii ''258EAFA5-E914-47DA-95CA-C5AB0DC85B11''"

definition accept_key :: "(bytes \<Rightarrow> bytes) \<Rightarrow> bytes \<Rightarrow> bytes" where
  "accept_key sha1 key = base64_encode (sha1 (key @ WEBSOCKET_GUID))"

definition crlf :: bytes where "crlf = [13, 10]"

definition handshake_response :: "bytes \<Rightarrow> bytes" where
  "handshake_response accept =
    ascii ''HTTP/1.1 101 Switching Protocols'' @ crlf @ ascii ''Upgrade: websocket'' @ crlf
    @ ascii ''Connection: Upgrade'' @ crlf @ ascii ''Sec-WebSocket-Accept: '' @ accept @ crlf
    @ ascii ''Access-Control-Allow-Origin: *'' @ crlf @ ascii ''Compression: None'' @ crlf @ crlf"

text \<open>The loop reads at most \<open>HTTP_HEADER_BUFF_SIZE\<close> bytes. The value is the number of bytes
  received, 0 for a failure.\<close>

function http_loop :: "'s reader \<Rightarrow> 's writer \<Rightarrow> (bytes \<Rightarrow> bytes) \<Rightarrow> nat \<Rightarrow> http \<Rightarrow> 's \<Rightarrow> (nat \<times> 's) outcome" where
  "http_loop rd wr sha1 received h s =
    (if HTTP_HEADER_BUFF_SIZE \<le> received then Inr (0, s)
     else case rd 1 s of
       (None, s) \<Rightarrow> Inr (0, s)
     | (Some bs, s) \<Rightarrow>
         bindO (http_byte (hd bs) h) (\<lambda>r. case r of
           Next h \<Rightarrow> http_loop rd wr sha1 (received + 1) h s
         | Fail \<Rightarrow> Inr (0, s)
         | Accept key \<Rightarrow>
             (case wr (handshake_response (accept_key sha1 key)) s of
               (written, s) \<Rightarrow> Inr (if written \<le> 0 then 0 else received + 1, s))))"
  by pat_completeness auto
termination
  by (relation "measure (\<lambda>(rd, wr, sha1, received, h, s). HTTP_HEADER_BUFF_SIZE - received)") auto

declare http_loop.simps [simp del]

definition read_http_header :: "'s reader \<Rightarrow> 's writer \<Rightarrow> (bytes \<Rightarrow> bytes) \<Rightarrow> 's \<Rightarrow> (nat \<times> 's) outcome" where
  "read_http_header rd wr sha1 s = http_loop rd wr sha1 0 http_init s"

end
