(* ===== verification/Server_Receive.thy ===== *)
theory Server_Receive
  imports Server_Send Websocket_Http
begin

text \<open>
  Receiving packets: the handlers \<open>opcode_handler_*\<close> of \<open>src/src/server.c\<close>, the table
  \<open>OPCODE_HANDLERS\<close> that selects one by the opcode of the header, and the loops
  \<open>receive_packet\<close> and \<open>receive_websocket_packet\<close>. A handler reads its frame and the strings
  whose lengths the frame gives, and posts one task; a failed read disconnects the client and
  returns. The loops only end when the client is disconnected, so they have fuel, one unit for
  each packet.
\<close>

section \<open>Handlers\<close>

text \<open>The label of \<open>opcode_handler_login\<close> frees the two strings, which are not initialised yet when
  the frame itself cannot be read.\<close>

definition handler_login :: "'s recv \<Rightarrow> 's client \<Rightarrow> 's client outcome" where
  "handler_login recv =
    read_or_return recv 4 (\<lambda>_. Inl UninitRead) (\<lambda>bs.
      let f = struct_of [2, 2] build_login bs in
      read_if_positive recv (unat (fl_id_token_length f)) (\<lambda>id_token.
        read_if_positive recv (unat (fl_password_length f)) (\<lambda>password c.
          Inr (post (ClientLogin id_token password) c))))"

text \<open>The buffer of an avatar has \<open>avatar_length + 1\<close> bytes in 32-bit arithmetic: none when the
  length is the largest, and then the first byte read is already outside it.\<close>

definition read_avatar :: "'s recv \<Rightarrow> 32 word \<Rightarrow> (bytes \<Rightarrow> 's client \<Rightarrow> 's client outcome) \<Rightarrow>
   's client \<Rightarrow> 's client outcome" where
  "read_avatar recv len k c =
    (if len + 1 = 0 then
       bindO (net_read recv 1 c) (\<lambda>(r, data, c').
         if r \<le> 0 then client_disconnected c' else Inl OutOfRange)
     else read_if_positive recv (unat len) k c)"

definition handler_signup :: "'s recv \<Rightarrow> 's client \<Rightarrow> 's client outcome" where
  "handler_signup recv =
    read_or_close recv 10 (\<lambda>bs.
      let f = struct_of [2, 2, 2, 4] build_signup bs in
      read_if_positive recv (unat (fs_id_token_length f)) (\<lambda>id_token.
        read_if_positive recv (unat (fs_password_length f)) (\<lambda>password.
          read_if_positive recv (unat (fs_name_length f)) (\<lambda>name.
            read_avatar recv (fs_avatar_length f) (\<lambda>avatar c.
              Inr (post (ClientSignup id_token password name avatar) c))))))"

text \<open>The token is read without a test of its length, so an empty one disconnects.\<close>

definition handler_auth_session :: "'s recv \<Rightarrow> 's client \<Rightarrow> 's client outcome" where
  "handler_auth_session recv =
    read_or_close recv 2 (\<lambda>bs.
      let f = struct_of [2] build_auth_session bs in
      read_or_close recv (unat (fa_token_length f)) (\<lambda>token c. Inr (post (ClientAuthSession token) c)))"

definition handler_enter :: "'s recv \<Rightarrow> 's client \<Rightarrow> 's client outcome" where
  "handler_enter recv = read_or_close recv 8 (\<lambda>bs c.
     Inr (post (ClientEnter (ft_table_id (struct_of [8] build_table bs))) c))"

definition handler_leave :: "'s recv \<Rightarrow> 's client \<Rightarrow> 's client outcome" where
  "handler_leave recv = read_or_close recv 8 (\<lambda>bs c.
     Inr (post (ClientLeave (ft_table_id (struct_of [8] build_table bs))) c))"

definition handler_join :: "'s recv \<Rightarrow> 's client \<Rightarrow> 's client outcome" where
  "handler_join recv = read_or_close recv 17 (\<lambda>bs c.
     let f = struct_of [8, 1, 8] build_join bs
     in Inr (post (ClientJoin (fj_table_id f) (fj_enterance_amount f) (fj_position f)) c))"

definition handler_unjoin :: "'s recv \<Rightarrow> 's client \<Rightarrow> 's client outcome" where
  "handler_unjoin recv = read_or_close recv 8 (\<lambda>bs c.
     Inr (post (ClientUnjoin (ft_table_id (struct_of [8] build_table bs))) c))"

definition handler_poker_action :: "'s recv \<Rightarrow> 's client \<Rightarrow> 's client outcome" where
  "handler_poker_action recv = read_or_close recv 18 (\<lambda>bs c.
     let f = struct_of [8, 2, 8] build_action bs
     in Inr (post (ClientAction (fc_table_id f) (fc_action_kind f) (fc_amount f)) c))"

definition handler_get_tables :: "'s recv \<Rightarrow> 's client \<Rightarrow> 's client outcome" where
  "handler_get_tables recv = read_or_close recv 4 (\<lambda>bs c.
     let f = struct_of [2, 2] build_window bs
     in Inr (post (ClientGetTables (fw_offset f) (fw_length f)) c))"

definition handler_get_sessions :: "'s recv \<Rightarrow> 's client \<Rightarrow> 's client outcome" where
  "handler_get_sessions recv = read_or_close recv 4 (\<lambda>bs c.
     let f = struct_of [2, 2] build_window bs
     in Inr (post (ClientGetSessions (fw_offset f) (fw_length f)) c))"

definition handler_update_account :: "'s recv \<Rightarrow> 's client \<Rightarrow> 's client outcome" where
  "handler_update_account recv =
    read_or_close recv 6 (\<lambda>bs.
      let f = struct_of [2, 4] build_update_account bs in
      read_if_positive recv (unat (fu_name_length f)) (\<lambda>name.
        read_avatar recv (fu_avatar_length f) (\<lambda>avatar c.
          Inr (post (ClientUpdateAccount name avatar) c))))"

text \<open>\<open>opcode_handler_json\<close> reads the 18 bytes of an action frame over the pointer
  \<open>json->value\<close> and the fields after it, and then posts the task of the callback
  \<open>server->on_client_json\<close>, which \<open>pkrsrv_server_new\<close> never assigns.\<close>

definition handler_json :: "'s recv \<Rightarrow> 's client \<Rightarrow> 's client outcome" where
  "handler_json recv = read_or_close recv 18 (\<lambda>bs c. Inl UninitRead)"

definition handler_ping :: "'s writer \<Rightarrow> accounts \<Rightarrow> 's client \<Rightarrow> 's client outcome" where
  "handler_ping wr acct c = bindO (server_send wr acct PongPacket c) (\<lambda>(_, c). Inr c)"

definition handler_nop :: "'s client \<Rightarrow> 's client outcome" where
  "handler_nop c = Inr c"

definition handler_meow :: "'s client \<Rightarrow> 's client outcome" where
  "handler_meow c = Inr (post ClientMeowed c)"

definition handler_get_account :: "'s client \<Rightarrow> 's client outcome" where
  "handler_get_account c = Inr (post ClientGetAccount c)"

section \<open>Dispatch\<close>

text \<open>The table in the order of the source, whose comments name the opcodes; the entry that ends
  it, at the index of \<open>OVER_CAPACITY\<close>, is the null pointer.\<close>

definition OPCODE_HANDLERS :: "'s recv \<Rightarrow> 's writer \<Rightarrow> accounts \<Rightarrow> ('s client \<Rightarrow> 's client outcome) option list" where
  "OPCODE_HANDLERS recv wr acct = map Some
    [handler_nop, handler_meow, handler_ping wr acct, handler_nop, handler_login recv, handler_nop,
     handler_signup recv, handler_nop, handler_auth_session recv, handler_nop, handler_get_account,
     handler_nop, handler_enter recv, handler_nop, handler_leave recv, handler_nop, handler_join recv,
     handler_unjoin recv, handler_nop, handler_nop, handler_nop, handler_nop, handler_poker_action recv,
     handler_nop, handler_nop, handler_nop, handler_json recv, handler_nop, handler_get_tables recv,
     handler_nop, handler_get_sessions recv, handler_nop, handler_update_account recv, handler_nop,
     handler_nop] @ [None]"

text \<open>What follows the reading of a header, in both loops: an opcode outside the enumeration
  disconnects the client and ends the loop (\<open>False\<close>).\<close>

definition dispatch :: "'s recv \<Rightarrow> 's writer \<Rightarrow> accounts \<Rightarrow> frame_header \<Rightarrow> 's client \<Rightarrow> (bool \<times> 's client) outcome" where
  "dispatch recv wr acct header c =
    (let n = unat (fh_opcode header)
     in if n \<le> opcode_number OP_NOP \<or> opcode_number OP_END \<le> n then
          bindO (client_disconnected c) (\<lambda>c. Inr (False, c))
        else case OPCODE_HANDLERS recv wr acct ! n of
          None \<Rightarrow> Inl NullCall
        | Some handler \<Rightarrow> bindO (handler c) (\<lambda>c. Inr (True, c)))"

definition header_then_dispatch :: "'s recv \<Rightarrow> 's writer \<Rightarrow> accounts \<Rightarrow> 's client \<Rightarrow> (bool \<times> 's client) outcome" where
  "header_then_dispatch recv wr acct c =
    bindO (net_read recv sizeof_header c) (\<lambda>(r, bs, c).
      if r \<le> 0 then bindO (client_disconnected c) (\<lambda>c. Inr (False, c))
      else if length bs < sizeof_header then Inl UninitRead
      else dispatch recv wr acct (struct_of [4, 4] build_header bs) c)"

text \<open>One turn of \<open>receive_websocket_packet\<close>; \<open>frames\<close> bounds the frames read for one message.\<close>

definition websocket_turn :: "'s recv \<Rightarrow> 's writer \<Rightarrow> (nat \<Rightarrow> bool) \<Rightarrow> accounts \<Rightarrow> nat \<Rightarrow> 's client \<Rightarrow>
   (bool \<times> 's client) outcome" where
  "websocket_turn recv wr alloc acct frames c =
    bindO (use_client c) (\<lambda>c.
      bindO (read_header (ssl_read recv) wr alloc frames (cl_websocket c) (cl_conn c)) (\<lambda>(n, ws, s).
        let c = c\<lparr>cl_websocket := ws, cl_conn := s\<rparr>
        in if n = 0 then bindO (client_disconnected c) (\<lambda>c. Inr (False, c))
           else header_then_dispatch recv wr acct c))"

fun receive_loop :: "('s client \<Rightarrow> (bool \<times> 's client) outcome) \<Rightarrow> nat \<Rightarrow> 's client \<Rightarrow> 's client outcome" where
  "receive_loop turn 0 c = Inl Diverges"
| "receive_loop turn (Suc fuel) c =
    bindO (turn c) (\<lambda>(again, c). if again then receive_loop turn fuel c else Inr c)"

text \<open>\<open>receive_packet\<close>: the first eight bytes tell a websocket client, which starts an HTTP
  request, from a client of the plain protocol, for which they are the first header. The
  result of the handshake is ignored.\<close>

definition is_http_get :: "bytes \<Rightarrow> bool" where
  "is_http_get bs \<longleftrightarrow> take 5 bs = [71, 69, 84, 32, 47]"

definition receive_packet ::
  "'s recv \<Rightarrow> 's writer \<Rightarrow> (nat \<Rightarrow> bool) \<Rightarrow> (bytes \<Rightarrow> bytes) \<Rightarrow> accounts \<Rightarrow> nat \<Rightarrow> nat \<Rightarrow> 's client \<Rightarrow> 's client outcome" where
  "receive_packet recv wr alloc sha1 acct frames fuel c =
    bindO (use_client c) (\<lambda>c.
      case ssl_read recv sizeof_header (cl_conn c) of
        (None, s) \<Rightarrow> client_disconnected (c\<lparr>cl_conn := s\<rparr>)
      | (Some bs, s) \<Rightarrow>
          let c = c\<lparr>cl_conn := s, cl_is_websocket := is_http_get bs, cl_is_protocol_determined := True\<rparr>
          in if cl_is_websocket c then
               bindO (read_http_header (ssl_read recv) wr sha1 s) (\<lambda>(_, s).
                 receive_loop (websocket_turn recv wr alloc acct frames) fuel (c\<lparr>cl_conn := s\<rparr>))
             else
               bindO (dispatch recv wr acct (struct_of [4, 4] build_header bs) c) (\<lambda>(again, c).
                 if again then receive_loop (header_then_dispatch recv wr acct) fuel c else Inr c))"

text \<open>The thread of a client (\<open>client_handler\<close>), and the accepting loop's treatment of a client
  that has passed the handshake: above the limit it is told so and removed, otherwise the
  thread is started with a reference of its own. \<open>length\<close> is the number of the other clients.\<close>

definition client_handler ::
  "'s recv \<Rightarrow> 's writer \<Rightarrow> (nat \<Rightarrow> bool) \<Rightarrow> (bytes \<Rightarrow> bytes) \<Rightarrow> accounts \<Rightarrow> nat \<Rightarrow> nat \<Rightarrow> 's client \<Rightarrow> 's client outcome" where
  "client_handler recv wr alloc sha1 acct frames fuel c =
    receive_packet recv wr alloc sha1 acct frames fuel (post ClientConnected c)"

definition accept_client :: "'s writer \<Rightarrow> accounts \<Rightarrow> int \<Rightarrow> nat \<Rightarrow> 's client \<Rightarrow> (bool \<times> 's client) outcome" where
  "accept_client wr acct max_clients others c =
    (let c = add_client c
     in if max_clients \<noteq> 0 \<and> max_clients < int others + 1 then
          bindO (server_send wr acct OverCapacity c) (\<lambda>(_, c).
            bindO (remove_client c) (\<lambda>c. Inr (False, c)))
        else Inr (True, client_use c))"

end
