(* ===== verification/Server_Dispatch.thy ===== *)
theory Server_Dispatch
  imports Server_Receive Server_Framing
begin

text \<open>
  What a client sends is what the event loop is asked to do: a packet built as the protocol
  prescribes makes the handler of its opcode post exactly one task with the same contents, and
  leaves the bytes after the packet unread. The handlers only rely on \<open>pkrsrv_server_net_read\<close>
  delivering the next bytes of a supply, which is the locale \<open>packet_source\<close>; it is interpreted
  for the plain protocol and for the payload of a websocket message.
\<close>

text \<open>Reading only moves the connection and the websocket state of the client.\<close>

definition same_client :: "'s client \<Rightarrow> 's client \<Rightarrow> bool" where
  "same_client c c' \<longleftrightarrow> (\<exists>s ws. c' = c\<lparr>cl_conn := s, cl_websocket := ws\<rparr>)"

lemma same_client_refl [simp]: "same_client c c"
  unfolding same_client_def by (intro exI [of _ "cl_conn c"] exI [of _ "cl_websocket c"]) simp

lemma same_client_trans: "same_client a b \<Longrightarrow> same_client b c \<Longrightarrow> same_client a c"
proof -
  assume "same_client a b" "same_client b c"
  then obtain s ws where "c = a\<lparr>cl_conn := s, cl_websocket := ws\<rparr>"
    by (auto simp: same_client_def)
  then show ?thesis unfolding same_client_def by blast
qed

lemma same_client_fields:
  assumes "same_client c c'"
  shows "cl_tasks c' = cl_tasks c" "cl_is_alive c' = cl_is_alive c" "client_freed c' = client_freed c"
    "cl_is_websocket c' = cl_is_websocket c" "cl_listed c' = cl_listed c" "client_count c' = client_count c"
  using assms by (auto simp: same_client_def client_freed_def client_count_def)

text \<open>\<open>posted c t c'\<close>: from \<open>c\<close> the handler has posted the task \<open>t\<close> and nothing else.\<close>

definition posted :: "'s client \<Rightarrow> task \<Rightarrow> 's client \<Rightarrow> bool" where
  "posted c t c' \<longleftrightarrow> (\<exists>c1. same_client c c1 \<and> c' = post t c1)"

lemma posted_fields:
  assumes "posted c t c'"
  shows "cl_tasks c' = cl_tasks c @ [t]" "cl_is_alive c' = cl_is_alive c" "client_freed c' = client_freed c"
    "cl_listed c' = cl_listed c" "client_count c' = client_count c" "cl_is_websocket c' = cl_is_websocket c"
proof -
  obtain c1 where c1: "same_client c c1" "c' = post t c1" using assms by (auto simp: posted_def)
  show "cl_tasks c' = cl_tasks c @ [t]" "cl_is_alive c' = cl_is_alive c" "client_freed c' = client_freed c"
    "cl_listed c' = cl_listed c" "client_count c' = client_count c" "cl_is_websocket c' = cl_is_websocket c"
    using same_client_fields [OF c1(1)] by (simp_all add: c1(2) post_def client_freed_def client_count_def)
qed

locale packet_source =
  fixes recv :: "'s recv" and feeds :: "bytes \<Rightarrow> 's client \<Rightarrow> bool"
  assumes feeds_read: "feeds (bs @ rest) c \<Longrightarrow> bs \<noteq> [] \<Longrightarrow> length bs < 2147483648 \<Longrightarrow>
      \<exists>c'. net_read recv (length bs) c = Inr (int (length bs), bs, c') \<and> feeds rest c' \<and> same_client c c'"
    and feeds_post: "feeds bs c \<Longrightarrow> feeds bs (post t c)"
begin

text \<open>\<open>handles h c r t\<close>: the handler, run from \<open>c\<close> with the outcome \<open>h\<close>, has posted \<open>t\<close> and
  left \<open>r\<close> unread.\<close>

definition handles :: "'s client outcome \<Rightarrow> 's client \<Rightarrow> bytes \<Rightarrow> task \<Rightarrow> bool" where
  "handles h c r t \<longleftrightarrow> (\<exists>c'. h = Inr c' \<and> feeds r c' \<and> posted c t c')"

lemma handles_post: "feeds r c \<Longrightarrow> handles (Inr (post t c)) c r t"
  by (auto simp: handles_def posted_def feeds_post intro: exI [of _ c])

lemma handles_same: "same_client c c1 \<Longrightarrow> handles h c1 r t \<Longrightarrow> handles h c r t"
  unfolding handles_def posted_def using same_client_trans by blast

lemma handles_read:
  assumes "feeds (bs @ rest) c" "bs \<noteq> []" "length bs = n" "n < 2147483648"
    and k: "\<And>c1. feeds rest c1 \<Longrightarrow> handles (k bs c1) c1 r t"
  shows "handles (read_or_return recv n cleanup k c) c r t"
proof -
  obtain c1 where c1: "net_read recv n c = Inr (int n, bs, c1)" "feeds rest c1" "same_client c c1"
    using feeds_read [OF assms(1,2)] assms(3,4) by auto
  have "0 < n" using assms(2,3) by auto
  then have "read_or_return recv n cleanup k c = k bs c1" using c1(1) assms(3) by (simp add: read_or_return_def)
  then show ?thesis using handles_same [OF c1(3) k [OF c1(2)]] by simp
qed

lemma handles_read_if:
  assumes "feeds (bs @ rest) c" "length bs = n" "n < 2147483648"
    and k: "\<And>c1. feeds rest c1 \<Longrightarrow> handles (k bs c1) c1 r t"
  shows "handles (read_if_positive recv n k c) c r t"
proof (cases "bs = []")
  case True
  then show ?thesis using k [of c] assms by (simp add: read_if_positive_def)
next
  case False
  then have "handles (read_or_close recv n k c) c r t"
    using assms k by (intro handles_read [where bs = bs and rest = rest]) auto
  then show ?thesis using False assms(2) by (auto simp: read_if_positive_def)
qed

end

section \<open>The packets of a client\<close>

text \<open>A packet is determined by the task it asks for. The strings go after the frame in the order
  of their lengths.\<close>

fun client_payload :: "task \<Rightarrow> bytes" where
  "client_payload (ClientLogin t pw) =
     struct_bytes login_fields \<lparr>fl_id_token_length = of_nat (length t), fl_password_length = of_nat (length pw)\<rparr> @ t @ pw"
| "client_payload (ClientSignup t pw n a) =
     struct_bytes signup_fields \<lparr>fs_id_token_length = of_nat (length t), fs_password_length = of_nat (length pw),
       fs_name_length = of_nat (length n), fs_avatar_length = of_nat (length a)\<rparr> @ t @ pw @ n @ a"
| "client_payload (ClientAuthSession t) = struct_bytes auth_session_fields \<lparr>fa_token_length = of_nat (length t)\<rparr> @ t"
| "client_payload (ClientEnter i) = struct_bytes table_fields \<lparr>ft_table_id = i\<rparr>"
| "client_payload (ClientLeave i) = struct_bytes table_fields \<lparr>ft_table_id = i\<rparr>"
| "client_payload (ClientUnjoin i) = struct_bytes table_fields \<lparr>ft_table_id = i\<rparr>"
| "client_payload (ClientJoin i m p) =
     struct_bytes join_fields \<lparr>fj_table_id = i, fj_position = p, fj_enterance_amount = m\<rparr>"
| "client_payload (ClientAction i k m) =
     struct_bytes action_fields \<lparr>fc_table_id = i, fc_action_kind = k, fc_amount = m\<rparr>"
| "client_payload (ClientGetTables off len) = struct_bytes window_fields \<lparr>fw_offset = off, fw_length = len\<rparr>"
| "client_payload (ClientGetSessions off len) = struct_bytes window_fields \<lparr>fw_offset = off, fw_length = len\<rparr>"
| "client_payload (ClientUpdateAccount n a) = struct_bytes update_account_fields
     \<lparr>fu_name_length = of_nat (length n), fu_avatar_length = of_nat (length a)\<rparr> @ n @ a"
| "client_payload _ = []"

fun client_opcode :: "task \<Rightarrow> opcode" where
  "client_opcode (ClientLogin t pw) = OP_LOGIN"
| "client_opcode (ClientSignup t pw n a) = OP_SIGNUP"
| "client_opcode (ClientAuthSession t) = OP_AUTH_SESSION"
| "client_opcode (ClientEnter i) = OP_ENTER"
| "client_opcode (ClientLeave i) = OP_LEAVE"
| "client_opcode (ClientJoin i m p) = OP_JOIN"
| "client_opcode (ClientUnjoin i) = OP_UNJOIN"
| "client_opcode (ClientAction i k m) = OP_POKER_ACTION"
| "client_opcode (ClientGetTables off len) = OP_GET_TABLES"
| "client_opcode (ClientGetSessions off len) = OP_GET_SESSIONS"
| "client_opcode (ClientUpdateAccount n a) = OP_UPDATE_ACCOUNT"
| "client_opcode ClientMeowed = OP_MEOW"
| "client_opcode ClientGetAccount = OP_GET_ACCOUNT"
| "client_opcode ClientConnected = OP_END"
| "client_opcode ClientDisconnected = OP_END"

definition client_packet :: "32 word \<Rightarrow> task \<Rightarrow> bytes" where
  "client_packet len t = struct_bytes header_fields
     \<lparr>fh_opcode = of_nat (opcode_number (client_opcode t)), fh_length = len\<rparr> @ client_payload t"

text \<open>Strings fit their length fields, a session token is not empty, and the limit of an avatar
  is that of the \<open>int\<close> in which the reading functions return its length. \<open>UNJOIN\<close> is left out:
  the table has its handler at the wrong place.\<close>

fun client_fits :: "task \<Rightarrow> bool" where
  "client_fits (ClientLogin t pw) \<longleftrightarrow> length t < 65536 \<and> length pw < 65536"
| "client_fits (ClientSignup t pw n a) \<longleftrightarrow> length t < 65536 \<and> length pw < 65536 \<and> length n < 65536
     \<and> length a < 2147483648"
| "client_fits (ClientAuthSession t) \<longleftrightarrow> t \<noteq> [] \<and> length t < 65536"
| "client_fits (ClientUpdateAccount n a) \<longleftrightarrow> length n < 65536 \<and> length a < 2147483648"
| "client_fits (ClientUnjoin i) \<longleftrightarrow> False"
| "client_fits ClientConnected \<longleftrightarrow> False"
| "client_fits ClientDisconnected \<longleftrightarrow> False"
| "client_fits _ \<longleftrightarrow> True"

lemma struct_lengths [simp]:
  "length (struct_bytes login_fields f1) = 4" "length (struct_bytes signup_fields f2) = 10"
  "length (struct_bytes auth_session_fields f3) = 2" "length (struct_bytes table_fields f4) = 8"
  "length (struct_bytes join_fields f5) = 17" "length (struct_bytes action_fields f6) = 18"
  "length (struct_bytes window_fields f7) = 4" "length (struct_bytes update_account_fields f8) = 6"
  "length (struct_bytes header_fields f9) = 8"
  by (simp_all add: login.length_struct signup.length_struct auth_session.length_struct
      tableid.length_struct join.length_struct action.length_struct window.length_struct
      update_account.length_struct header.length_struct frame_size_def)

lemmas join_struct [simp] = join.struct_of_bytes_exact [unfolded One_nat_def]

text \<open>The frame of a \<open>JOIN\<close>: the table, one byte for the position and eight for the stake. \<open>PROTOCOL.md\<close> describes
  16 bytes: the table, four bytes for the stake and four for the position.\<close>

lemma join_frame_layout:
  "client_payload (ClientJoin i m p) = le 8 (unat i) @ le 1 (unat p) @ le 8 (unat m)"
  "length (client_payload (ClientJoin i m p)) = 17"
  by (simp_all add: struct_bytes_def join_fields_def u8_def u64_def)

lemma struct_not_Nil [simp]:
  "struct_bytes login_fields f1 \<noteq> []" "struct_bytes signup_fields f2 \<noteq> []"
  "struct_bytes auth_session_fields f3 \<noteq> []" "struct_bytes table_fields f4 \<noteq> []"
  "struct_bytes join_fields f5 \<noteq> []" "struct_bytes action_fields f6 \<noteq> []"
  "struct_bytes window_fields f7 \<noteq> []" "struct_bytes update_account_fields f8 \<noteq> []"
  "struct_bytes header_fields f9 \<noteq> []"
  using struct_lengths by (metis list.size(3) zero_neq_numeral)+

lemma unat_length16: "length bs < 65536 \<Longrightarrow> unat (of_nat (length bs) :: 16 word) = length bs"
  and unat_length32: "length bs < 2147483648 \<Longrightarrow> unat (of_nat (length bs) :: 32 word) = length bs"
  by (simp_all add: unat_of_nat)

lemma avatar_buffer: "n < 2147483648 \<Longrightarrow> (of_nat n + 1 :: 32 word) \<noteq> 0"
proof -
  assume n: "n < 2147483648"
  have "unat (of_nat (n + 1) :: 32 word) = n + 1" using n by (simp only: unat_of_nat) simp
  then show ?thesis by (metis Suc_eq_plus1 add.commute nat.distinct(1) of_nat_1 of_nat_add unat_0)
qed

context packet_source
begin

lemma handles_avatar:
  assumes "feeds (bs @ rest) c" "length bs < 2147483648"
    and k: "\<And>c1. feeds rest c1 \<Longrightarrow> handles (k bs c1) c1 r t"
  shows "handles (read_avatar recv (of_nat (length bs)) k c) c r t"
  unfolding read_avatar_def unat_length32 [OF assms(2)] if_not_P [OF avatar_buffer [OF assms(2)]]
  by (rule handles_read_if [where bs = bs and rest = rest]) (simp_all add: assms)

lemma login_handled:
  assumes "feeds (client_payload (ClientLogin t pw) @ rest) c" "client_fits (ClientLogin t pw)"
  shows "handles (handler_login recv c) c rest (ClientLogin t pw)"
  using assms unfolding handler_login_def
  by (intro handles_read [where bs = "struct_bytes login_fields
        \<lparr>fl_id_token_length = of_nat (length t), fl_password_length = of_nat (length pw)\<rparr>"
      and rest = "t @ pw @ rest"])
    (auto simp: unat_length16 Let_def intro!: handles_post elim!: handles_read_if)

lemma signup_handled:
  assumes "feeds (client_payload (ClientSignup t pw n a) @ rest) c" "client_fits (ClientSignup t pw n a)"
  shows "handles (handler_signup recv c) c rest (ClientSignup t pw n a)"
  using assms unfolding handler_signup_def
  by (intro handles_read [where bs = "struct_bytes signup_fields
        \<lparr>fs_id_token_length = of_nat (length t), fs_password_length = of_nat (length pw),
          fs_name_length = of_nat (length n), fs_avatar_length = of_nat (length a)\<rparr>"
      and rest = "t @ pw @ n @ a @ rest"])
    (auto simp: unat_length16 Let_def intro!: handles_post elim!: handles_read_if handles_avatar)

lemma auth_session_handled:
  assumes "feeds (client_payload (ClientAuthSession t) @ rest) c" "client_fits (ClientAuthSession t)"
  shows "handles (handler_auth_session recv c) c rest (ClientAuthSession t)"
  using assms unfolding handler_auth_session_def
  by (intro handles_read [where bs = "struct_bytes auth_session_fields \<lparr>fa_token_length = of_nat (length t)\<rparr>"
      and rest = "t @ rest"])
    (auto simp: unat_length16 Let_def intro!: handles_post elim!: handles_read)

lemma update_account_handled:
  assumes "feeds (client_payload (ClientUpdateAccount n a) @ rest) c" "client_fits (ClientUpdateAccount n a)"
  shows "handles (handler_update_account recv c) c rest (ClientUpdateAccount n a)"
  using assms unfolding handler_update_account_def
  by (intro handles_read [where bs = "struct_bytes update_account_fields
        \<lparr>fu_name_length = of_nat (length n), fu_avatar_length = of_nat (length a)\<rparr>"
      and rest = "n @ a @ rest"])
    (auto simp: unat_length16 Let_def intro!: handles_post elim!: handles_read_if handles_avatar)

lemma frames_handled:
  "feeds (client_payload (ClientEnter i) @ rest) c \<Longrightarrow> handles (handler_enter recv c) c rest (ClientEnter i)"
  "feeds (client_payload (ClientLeave i) @ rest) c \<Longrightarrow> handles (handler_leave recv c) c rest (ClientLeave i)"
  "feeds (client_payload (ClientUnjoin i) @ rest) c \<Longrightarrow> handles (handler_unjoin recv c) c rest (ClientUnjoin i)"
  "feeds (client_payload (ClientJoin i m p) @ rest) c \<Longrightarrow> handles (handler_join recv c) c rest (ClientJoin i m p)"
  "feeds (client_payload (ClientAction i k m) @ rest) c \<Longrightarrow>
    handles (handler_poker_action recv c) c rest (ClientAction i k m)"
  "feeds (client_payload (ClientGetTables off len) @ rest) c \<Longrightarrow>
    handles (handler_get_tables recv c) c rest (ClientGetTables off len)"
  "feeds (client_payload (ClientGetSessions off len) @ rest) c \<Longrightarrow>
    handles (handler_get_sessions recv c) c rest (ClientGetSessions off len)"
  unfolding handler_enter_def handler_leave_def handler_unjoin_def handler_join_def
    handler_poker_action_def handler_get_tables_def handler_get_sessions_def client_payload.simps
  by (erule handles_read, simp_all add: Let_def handles_post)+

end

lemma opcode_numbers [simp]:
  "opcode_number OP_NOP = 0" "opcode_number OP_MEOW = 1" "opcode_number OP_PING = 2"
  "opcode_number OP_LOGIN = 4" "opcode_number OP_SIGNUP = 6" "opcode_number OP_AUTH_SESSION = 8"
  "opcode_number OP_GET_ACCOUNT = 10" "opcode_number OP_ENTER = 12" "opcode_number OP_LEAVE = 14"
  "opcode_number OP_JOIN = 16" "opcode_number OP_JOIN_RES = 17" "opcode_number OP_UNJOIN = 18"
  "opcode_number OP_POKER_ACTION = 22" "opcode_number OP_JSON = 26" "opcode_number OP_GET_TABLES = 28"
  "opcode_number OP_GET_SESSIONS = 30" "opcode_number OP_UPDATE_ACCOUNT = 32"
  "opcode_number OP_OVER_CAPACITY = 35" "opcode_number OP_END = 36"
  by (simp_all add: opcode_number_def opcodes_def)

definition packet_header :: "nat \<Rightarrow> 32 word \<Rightarrow> frame_header" where
  "packet_header k len = \<lparr>fh_opcode = of_nat k, fh_length = len\<rparr>"

lemma dispatch_at:
  assumes "0 < k" "k < 36"
  shows "dispatch recv wr acct (packet_header k len) c = (case OPCODE_HANDLERS recv wr acct ! k of
    None \<Rightarrow> Inl NullCall | Some h \<Rightarrow> bindO (h c) (\<lambda>c. Inr (True, c)))"
proof -
  have "unat (of_nat k :: 32 word) = k" using assms by (simp add: unat_of_nat)
  then show ?thesis using assms by (simp add: dispatch_def packet_header_def Let_def)
qed

lemma handlers_at:
  "OPCODE_HANDLERS recv wr acct ! 1 = Some handler_meow"
  "OPCODE_HANDLERS recv wr acct ! 4 = Some (handler_login recv)"
  "OPCODE_HANDLERS recv wr acct ! 6 = Some (handler_signup recv)"
  "OPCODE_HANDLERS recv wr acct ! 8 = Some (handler_auth_session recv)"
  "OPCODE_HANDLERS recv wr acct ! 10 = Some handler_get_account"
  "OPCODE_HANDLERS recv wr acct ! 12 = Some (handler_enter recv)"
  "OPCODE_HANDLERS recv wr acct ! 14 = Some (handler_leave recv)"
  "OPCODE_HANDLERS recv wr acct ! 16 = Some (handler_join recv)"
  "OPCODE_HANDLERS recv wr acct ! 17 = Some (handler_unjoin recv)"
  "OPCODE_HANDLERS recv wr acct ! 18 = Some handler_nop"
  "OPCODE_HANDLERS recv wr acct ! 22 = Some (handler_poker_action recv)"
  "OPCODE_HANDLERS recv wr acct ! 28 = Some (handler_get_tables recv)"
  "OPCODE_HANDLERS recv wr acct ! 30 = Some (handler_get_sessions recv)"
  "OPCODE_HANDLERS recv wr acct ! 32 = Some (handler_update_account recv)"
  "OPCODE_HANDLERS recv wr acct ! 35 = None"
  by (simp_all add: OPCODE_HANDLERS_def)

definition handler_for :: "'s recv \<Rightarrow> task \<Rightarrow> 's client \<Rightarrow> 's client outcome" where
  "handler_for recv t = (case t of
     ClientLogin _ _ \<Rightarrow> handler_login recv | ClientSignup _ _ _ _ \<Rightarrow> handler_signup recv
   | ClientAuthSession _ \<Rightarrow> handler_auth_session recv | ClientEnter _ \<Rightarrow> handler_enter recv
   | ClientLeave _ \<Rightarrow> handler_leave recv | ClientJoin _ _ _ \<Rightarrow> handler_join recv
   | ClientAction _ _ _ \<Rightarrow> handler_poker_action recv | ClientGetTables _ _ \<Rightarrow> handler_get_tables recv
   | ClientGetSessions _ _ \<Rightarrow> handler_get_sessions recv | ClientMeowed \<Rightarrow> handler_meow
   | ClientUpdateAccount _ _ \<Rightarrow> handler_update_account recv | _ \<Rightarrow> handler_get_account)"

lemma dispatch_task:
  assumes "client_fits t"
  shows "dispatch recv wr acct (packet_header (opcode_number (client_opcode t)) len) c =
    bindO (handler_for recv t c) (\<lambda>c. Inr (True, c))"
  using assms by (cases t) (simp_all add: dispatch_at handlers_at [unfolded One_nat_def] handler_for_def)

context packet_source
begin

lemma task_handled:
  assumes "feeds (client_payload t @ rest) c" "client_fits t"
  shows "handles (handler_for recv t c) c rest t"
  using assms login_handled signup_handled auth_session_handled update_account_handled frames_handled
    handles_post
  by (cases t) (simp_all add: handler_for_def handler_meow_def handler_get_account_def)

lemma header_read:
  assumes "feeds (client_packet len t @ rest) c"
  shows "\<exists>c1. header_then_dispatch recv wr acct c =
      dispatch recv wr acct (packet_header (opcode_number (client_opcode t)) len) c1
    \<and> feeds (client_payload t @ rest) c1 \<and> same_client c c1"
proof -
  let ?h = "struct_bytes header_fields (packet_header (opcode_number (client_opcode t)) len)"
  have "feeds (?h @ client_payload t @ rest) c"
    using assms by (simp add: client_packet_def packet_header_def)
  then obtain c1 where "net_read recv (length ?h) c = Inr (int (length ?h), ?h, c1)"
    "feeds (client_payload t @ rest) c1" "same_client c c1"
    using feeds_read [of ?h "client_payload t @ rest" c] by auto
  then show ?thesis by (auto simp: header_then_dispatch_def sizeof_header_def)
qed

lemma packet_handled:
  assumes "feeds (client_packet len t @ rest) c" "client_fits t"
  shows "\<exists>c'. header_then_dispatch recv wr acct c = Inr (True, c') \<and> feeds rest c' \<and> posted c t c'"
proof -
  obtain c1 where c1: "header_then_dispatch recv wr acct c = bindO (handler_for recv t c1) (\<lambda>c. Inr (True, c))"
    "feeds (client_payload t @ rest) c1" "same_client c c1"
    using header_read [OF assms(1)] dispatch_task [OF assms(2)] by metis
  have "handles (handler_for recv t c1) c rest t"
    using handles_same [OF c1(3) task_handled [OF c1(2) assms(2)]] .
  then show ?thesis using c1(1) by (auto simp: handles_def)
qed

text \<open>An \<open>UNJOIN\<close> packet is skipped: its body is left to be read as the next header.\<close>

lemma unjoin_skipped:
  assumes "feeds (client_packet len (ClientUnjoin i) @ rest) c"
  shows "\<exists>c'. header_then_dispatch recv wr acct c = Inr (True, c')
    \<and> feeds (client_payload (ClientUnjoin i) @ rest) c' \<and> same_client c c'"
  using header_read [OF assms] by (auto simp: dispatch_at handlers_at handler_nop_def)

end

section \<open>The two protocols as sources\<close>

definition plain_feeds :: "('s \<Rightarrow> bytes) \<Rightarrow> bytes \<Rightarrow> 's client \<Rightarrow> bool" where
  "plain_feeds pending bs c \<longleftrightarrow> \<not> client_freed c \<and> \<not> cl_is_websocket c \<and> pending (cl_conn c) = bs"

definition frame_feeds :: "('s \<Rightarrow> bytes) \<Rightarrow> bytes \<Rightarrow> bytes \<Rightarrow> 's client \<Rightarrow> bool" where
  "frame_feeds pending rest bs c \<longleftrightarrow> \<not> client_freed c \<and> cl_is_websocket c
     \<and> \<not> ws_is_fragmented (cl_websocket c) \<and> wh_is_masked (ws_current_header (cl_websocket c))
     \<and> pending (cl_conn c) = unmask (wh_mkey (ws_current_header (cl_websocket c)))
         (wh_mask_i (ws_current_header (cl_websocket c))) bs @ rest"

text \<open>What is left of a reassembled message; the buffer is freed when nothing is.\<close>

definition buffer_feeds :: "bytes \<Rightarrow> 's client \<Rightarrow> bool" where
  "buffer_feeds bs c \<longleftrightarrow> \<not> client_freed c \<and> cl_is_websocket c \<and>
     (let ws = cl_websocket c in
      if bs = [] then \<not> ws_is_fragmented ws
      else ws_is_fragmented ws \<and> (\<exists>front. ws_buffer ws = Some (front @ bs)
        \<and> ws_buffer_length ws = int (length (front @ bs)) \<and> ws_buffer_readed ws = int (length front)))"

lemma int_result_id [simp]: "n < 2147483648 \<Longrightarrow> int_result (int n) = int n"
  by (simp add: int_result_def signed_take_bit_int_eq_self)

context byte_stream
begin

lemma plain_source: "packet_source recv (plain_feeds pending)"
proof
  fix bs rest and c :: "'s client"
  assume c: "plain_feeds pending (bs @ rest) c" and bs: "bs \<noteq> []" "length bs < 2147483648"
  obtain s' where s': "ssl_read recv (length bs) (cl_conn c) = (Some bs, s')" "pending s' = rest"
    using read_prefix [of "cl_conn c" bs rest "length bs"] c bs by (auto simp: plain_feeds_def)
  have "same_client c (c\<lparr>cl_conn := s'\<rparr>)"
    unfolding same_client_def by (intro exI [of _ s'] exI [of _ "cl_websocket c"]) simp
  then show "\<exists>c'. net_read recv (length bs) c = Inr (int (length bs), bs, c')
      \<and> plain_feeds pending rest c' \<and> same_client c c'"
    using s' c bs same_client_fields by (intro exI [of _ "c\<lparr>cl_conn := s'\<rparr>"])
      (auto simp: net_read_def plain_feeds_def client_freed_def)
next
  fix bs and c :: "'s client" and t
  show "plain_feeds pending bs c \<Longrightarrow> plain_feeds pending bs (post t c)"
    by (simp add: plain_feeds_def post_def client_freed_def)
qed

lemma frame_source: "packet_source recv (frame_feeds pending after)"
proof
  fix bs rest and c :: "'s client"
  assume c: "frame_feeds pending after (bs @ rest) c" and bs: "bs \<noteq> []" "length bs < 2147483648"
  let ?h = "ws_current_header (cl_websocket c)"
  let ?key = "wh_mkey ?h" and ?i = "wh_mask_i ?h"
  have p: "pending (cl_conn c) = unmask ?key ?i bs @ unmask ?key (?i + length bs) rest @ after"
    using c by (simp add: frame_feeds_def unmask_append)
  have "length (unmask ?key ?i bs) = length bs" by simp
  then obtain s' where s': "ssl_read recv (length bs) (cl_conn c) = (Some (unmask ?key ?i bs), s')"
    "pending s' = unmask ?key (?i + length bs) rest @ after"
    using read_prefix [OF p, of "length bs"] bs(1) by (metis length_0_conv)
  define c' where "c' = c\<lparr>cl_websocket := (cl_websocket c)\<lparr>ws_current_header := ?h\<lparr>wh_mask_i := ?i + length bs\<rparr>\<rparr>,
    cl_conn := s'\<rparr>"
  have "net_read recv (length bs) c = Inr (int (length bs), bs, c')"
    using s'(1) c bs(2)
    by (simp add: net_read_def frame_feeds_def read_payload_def read_unfragmented_def Let_def c'_def)
  moreover have "frame_feeds pending after rest c'"
    using c s'(2) by (simp add: frame_feeds_def c'_def client_freed_def)
  moreover have "same_client c c'"
  proof -
    have "c' = c\<lparr>cl_conn := s', cl_websocket := (cl_websocket c)\<lparr>ws_current_header := ?h\<lparr>wh_mask_i := ?i + length bs\<rparr>\<rparr>\<rparr>"
      by (simp add: c'_def)
    then show ?thesis unfolding same_client_def by blast
  qed
  ultimately show "\<exists>c'. net_read recv (length bs) c = Inr (int (length bs), bs, c')
      \<and> frame_feeds pending after rest c' \<and> same_client c c'" by blast
next
  fix bs and c :: "'s client" and t
  show "frame_feeds pending after bs c \<Longrightarrow> frame_feeds pending after bs (post t c)"
    by (simp add: frame_feeds_def post_def client_freed_def)
qed

lemma buffer_source: "packet_source recv buffer_feeds"
proof
  fix bs rest and c :: "'s client"
  assume c: "buffer_feeds (bs @ rest) c" and bs: "bs \<noteq> []" "length bs < 2147483648"
  let ?ws = "cl_websocket c"
  obtain front where ws: "ws_is_fragmented ?ws" "ws_buffer ?ws = Some (front @ bs @ rest)"
    "ws_buffer_length ?ws = int (length (front @ bs @ rest))" "ws_buffer_readed ?ws = int (length front)"
    using c bs(1) by (auto simp: buffer_feeds_def Let_def)
  define ws' where "ws' = ?ws\<lparr>ws_buffer_readed := int (length front) + int (length bs)\<rparr>"
  define c' where "c' = c\<lparr>cl_websocket := (if rest = [] then reset_fragmentation ws' else ws')\<rparr>"
  have "net_read recv (length bs) c = Inr (int (length bs), bs, c')"
    using c bs ws
    by (auto simp: net_read_def buffer_feeds_def read_payload_def read_fragmented_def Let_def c'_def ws'_def)
  moreover have "buffer_feeds rest c'"
    using c ws by (auto simp: buffer_feeds_def Let_def c'_def ws'_def reset_fragmentation_def client_freed_def
        intro: exI [of _ "front @ bs"])
  moreover have "same_client c c'"
    unfolding same_client_def c'_def by (intro exI [of _ "cl_conn c"]) auto
  ultimately show "\<exists>c'. net_read recv (length bs) c = Inr (int (length bs), bs, c')
      \<and> buffer_feeds rest c' \<and> same_client c c'" by blast
next
  fix bs and c :: "'s client" and t
  show "buffer_feeds bs c \<Longrightarrow> buffer_feeds bs (post t c)"
    by (auto simp: buffer_feeds_def post_def client_freed_def Let_def split: if_splits)
qed

end

sublocale byte_stream \<subseteq> plain: packet_source recv "plain_feeds pending"
  by (rule plain_source)

sublocale byte_stream \<subseteq> buffered: packet_source recv buffer_feeds
  by (rule buffer_source)

interpretation socket_frame: packet_source socket_recv "frame_feeds (\<lambda>s. concat (fst s)) after" for after
  by (rule socket.frame_source)

section \<open>The properties\<close>

text \<open>C13: On the plain protocol, a \<open>LOGIN\<close>, \<open>SIGNUP\<close>, \<open>AUTH_SESSION\<close>, \<open>GET_ACCOUNT\<close>, \<open>ENTER\<close>,
  \<open>LEAVE\<close>, \<open>JOIN\<close>, \<open>POKER_ACTION\<close>, \<open>GET_TABLES\<close>, \<open>GET_SESSIONS\<close>, \<open>UPDATE_ACCOUNT\<close> or \<open>MEOW\<close>
  packet of the client makes one turn of the receive loop post exactly the task it
  describes, with the strings and numbers the client sent; the loop goes on with the bytes after the packet. The texts
  fit their length fields, an avatar is shorter than 2 GiB, and the token of an \<open>AUTH_SESSION\<close> is not empty. The other
  kinds that a client may send post no such task: \<open>UNJOIN\<close> is ignored, \<open>PING\<close> is answered without a task, and the
  handler of \<open>JSON\<close> reads over its pointer. The frames are those of the C structures: that of \<open>JOIN\<close> is
  the one of \<open>join_frame_layout\<close>, not the one of \<open>PROTOCOL.md\<close>.\<close>

theorem plain_packet_posts_task:
  assumes "byte_stream recv pending sent" "pending (cl_conn c) = client_packet len t @ rest"
    and "\<not> client_freed c" "\<not> cl_is_websocket c" "client_fits t"
  shows "\<exists>c'. header_then_dispatch recv wr acct c = Inr (True, c') \<and> cl_tasks c' = cl_tasks c @ [t]
    \<and> cl_is_alive c' = cl_is_alive c \<and> pending (cl_conn c') = rest"
proof -
  have "plain_feeds pending (client_packet len t @ rest) c" using assms by (simp add: plain_feeds_def)
  from packet_source.packet_handled [OF byte_stream.plain_source [OF assms(1)] this assms(5)]
  obtain c' where "header_then_dispatch recv wr acct c = Inr (True, c')" "plain_feeds pending rest c'"
    "posted c t c'" by blast
  then show ?thesis using posted_fields [of c t c'] by (auto simp: plain_feeds_def)
qed

theorem plain_packet_posts_task_witness:
  "\<exists>c'. header_then_dispatch socket_recv socket_send sample_accounts
      (sample_client False 3 [client_packet 0 (ClientJoin 5 1000 2) @ [9], [9]]) = Inr (True, c')
    \<and> cl_tasks c' = [ClientJoin 5 1000 2] \<and> concat (fst (cl_conn c')) = [9, 9]"
  using plain_packet_posts_task [OF socket.byte_stream_axioms, of
      "sample_client False 3 [client_packet 0 (ClientJoin 5 1000 2) @ [9], [9]]" 0 "ClientJoin 5 1000 2" "[9, 9]"
      socket_send sample_accounts]
  by (simp add: sample_client_def client_new_def client_freed_def) blast

text \<open>C14: On a websocket, a \<open>LOGIN\<close>, \<open>SIGNUP\<close>, \<open>AUTH_SESSION\<close>, \<open>GET_ACCOUNT\<close>, \<open>ENTER\<close>,
  \<open>LEAVE\<close>, \<open>JOIN\<close>, \<open>POKER_ACTION\<close>, \<open>GET_TABLES\<close>, \<open>GET_SESSIONS\<close>, \<open>UPDATE_ACCOUNT\<close> or \<open>MEOW\<close>
  packet in one masked binary frame of less than 2 GiB is handled alike, when no fragmented
  message is under way: a turn of the receive loop reads the frame's header, the packet's header and the packet, posts
  exactly the task it describes, and leaves the bytes after the frame. The texts fit their length fields, an avatar is shorter
  than 2 GiB, the token of an \<open>AUTH_SESSION\<close> is not empty, and \<open>UNJOIN\<close>, \<open>PING\<close> and \<open>JSON\<close> are left out, as on
  the plain protocol.\<close>

theorem websocket_packet_posts_task:
  assumes "reliable recv pending sent send"
    and "pending (cl_conn c) = ws_frame True 2 (Some key) (client_packet len t) @ rest"
    and "length key = 4" "length (client_packet len t) < 2147483648" "client_fits t" "0 < frames"
    and "\<not> client_freed c" "cl_is_websocket c" "\<not> ws_is_fragmented (cl_websocket c)"
  shows "\<exists>c'. websocket_turn recv send alloc acct frames c = Inr (True, c')
    \<and> cl_tasks c' = cl_tasks c @ [t] \<and> cl_is_alive c' = cl_is_alive c \<and> pending (cl_conn c') = rest"
proof -
  obtain k where k: "frames = Suc k" using assms(6) by (cases frames) auto
  let ?n = "length (client_packet len t)" and ?ws = "store_header 2 True True key (length (client_packet len t)) (cl_websocket c)"
  obtain s' where s': "read_header (ssl_read recv) send alloc frames (cl_websocket c) (cl_conn c) = Inr (int ?n, ?ws, s')"
    "pending s' = unmask key 0 (client_packet len t) @ rest"
    using reliable.single_frame_read [OF assms(1,2,3,4) _ assms(9), of alloc k] k by auto
  let ?c = "c\<lparr>cl_websocket := ?ws, cl_conn := s'\<rparr>"
  have "frame_feeds pending rest (client_packet len t @ []) ?c"
    using assms(7-9) s'(2) by (simp add: frame_feeds_def store_header_def client_freed_def)
  from packet_source.packet_handled [OF byte_stream.frame_source this assms(5)]
    duplex.axioms(1) [OF reliable.axioms(1) [OF assms(1)]]
  obtain c' where c': "header_then_dispatch recv send acct ?c = Inr (True, c')" "frame_feeds pending rest [] c'"
    "posted ?c t c'" by blast
  have "?n \<noteq> 0" by (simp add: client_packet_def)
  then have "websocket_turn recv send alloc acct frames c = Inr (True, c')"
    using s'(1) c'(1) assms(7) by (simp add: websocket_turn_def Let_def)
  then show ?thesis using posted_fields [OF c'(3)] c'(2) by (auto simp: frame_feeds_def)
qed

theorem websocket_packet_posts_task_witness:
  "\<exists>c'. websocket_turn socket_recv socket_send (\<lambda>_. True) sample_accounts 1 (sample_client True 3
        [ws_frame True 2 (Some sample_key) (client_packet 0 (ClientLogin [97] [98, 99]))]) = Inr (True, c')
    \<and> cl_tasks c' = [ClientLogin [97] [98, 99]]"
  using websocket_packet_posts_task [OF socket.reliable_axioms, of "sample_client True 3
        [ws_frame True 2 (Some sample_key) (client_packet 0 (ClientLogin [97] [98, 99]))]" sample_key 0
        "ClientLogin [97] [98, 99]" "[]" 1 "\<lambda>_. True" sample_accounts]
  by (simp add: sample_client_def client_new_def client_freed_def sample_key_def client_packet_def
      websocket_init_def) blast

text \<open>A client that sends \<open>UNJOIN\<close> as the protocol numbers it is not heard: no task is posted, and
  the table id of the packet is read as the header of the next packet. The handler of
  \<open>UNJOIN\<close> answers to the opcode of \<open>JOIN_RES\<close>.\<close>

theorem unjoin_is_ignored:
  assumes "byte_stream recv pending sent" "pending (cl_conn c) = client_packet len (ClientUnjoin i) @ rest"
    and "\<not> client_freed c" "\<not> cl_is_websocket c"
  shows "(\<exists>c'. header_then_dispatch recv wr acct c = Inr (True, c') \<and> cl_tasks c' = cl_tasks c
      \<and> pending (cl_conn c') = struct_bytes table_fields \<lparr>ft_table_id = i\<rparr> @ rest)
    \<and> OPCODE_HANDLERS recv wr acct ! opcode_number OP_JOIN_RES = Some (handler_unjoin recv)"
proof -
  have "plain_feeds pending (client_packet len (ClientUnjoin i) @ rest) c"
    using assms by (simp add: plain_feeds_def)
  from packet_source.unjoin_skipped [OF byte_stream.plain_source [OF assms(1)] this]
  obtain c' where "header_then_dispatch recv wr acct c = Inr (True, c')"
    "plain_feeds pending (client_payload (ClientUnjoin i) @ rest) c'" "same_client c c'" by blast
  then show ?thesis using same_client_fields [of c c'] by (auto simp: plain_feeds_def handlers_at)
qed

theorem unjoin_is_ignored_witness:
  "\<exists>c'. header_then_dispatch socket_recv socket_send sample_accounts
      (sample_client False 3 [client_packet 8 (ClientUnjoin 5)]) = Inr (True, c') \<and> cl_tasks c' = []"
  using unjoin_is_ignored [OF socket.byte_stream_axioms, of
      "sample_client False 3 [client_packet 8 (ClientUnjoin 5)]" 8 5 "[]" socket_send sample_accounts]
  by (simp add: sample_client_def client_new_def client_freed_def) blast

text \<open>One header is enough to stop the server: the opcode of \<open>OVER_CAPACITY\<close> passes the test of
  the opcode and selects the null pointer that ends the table.\<close>

theorem over_capacity_opcode_crashes:
  assumes "byte_stream recv pending sent" "\<not> client_freed c" "\<not> cl_is_websocket c"
    and "pending (cl_conn c) = struct_bytes header_fields (packet_header (opcode_number OP_OVER_CAPACITY) len) @ rest"
  shows "header_then_dispatch recv wr acct c = Inl NullCall"
proof -
  let ?h = "struct_bytes header_fields (packet_header (opcode_number OP_OVER_CAPACITY) len)"
  have "plain_feeds pending (?h @ rest) c" using assms by (simp add: plain_feeds_def)
  then obtain c' where "net_read recv (length ?h) c = Inr (int (length ?h), ?h, c')"
    using packet_source.feeds_read [OF byte_stream.plain_source [OF assms(1)], of ?h rest c] by auto
  then show ?thesis
    by (simp add: header_then_dispatch_def sizeof_header_def dispatch_at handlers_at)
qed

theorem over_capacity_opcode_crashes_witness:
  "header_then_dispatch socket_recv socket_send sample_accounts
     (sample_client False 3 [struct_bytes header_fields (packet_header 35 0)]) = Inl NullCall"
  using over_capacity_opcode_crashes [OF socket.byte_stream_axioms, of
      "sample_client False 3 [struct_bytes header_fields (packet_header 35 0)]" 0 "[]" socket_send sample_accounts]
  by (simp add: sample_client_def client_new_def client_freed_def)

end
