(* ===== verification/Server_Lifecycle.thy ===== *)
theory Server_Lifecycle
  imports Server_Receive Server_Framing Websocket_Messages
begin

text \<open>
  The life of a client: accepting it, disconnecting it once, and what a failed write does.
\<close>

lemma client_disconnected_alive:
  assumes "\<not> client_freed c" "cl_is_alive c"
  shows "client_disconnected c =
    (if client_count c = 1 then Inl UseAfterFree
     else Inr (client_leave (post ClientDisconnected
       ((client_leave (c\<lparr>cl_is_alive := False\<rparr>))\<lparr>cl_listed := False\<rparr>))))"
proof -
  let ?c = "c\<lparr>cl_is_alive := False\<rparr>"
  have f: "client_freed (client_leave ?c) \<longleftrightarrow> client_count c = 1"
    using assms client_leave_freed [of ?c] by (simp add: client_freed_def client_count_def)
  show ?thesis
  proof (cases "client_count c = 1")
    case True
    then show ?thesis using f assms by (simp add: client_disconnected_def remove_client_def use_client_def)
  next
    case False
    then show ?thesis using f assms by (simp add: client_disconnected_def remove_client_def use_client_def)
  qed
qed

lemma client_disconnected_dead:
  "\<not> client_freed c \<Longrightarrow> \<not> cl_is_alive c \<Longrightarrow> client_disconnected c = Inr c"
  by (simp add: client_disconnected_def)

text \<open>C34: Disconnecting a client that others still hold takes it off the list of the server, posts one
  task and gives up the two references of the list and of the thread; doing it again changes
  nothing. A client of which nobody else holds a reference is freed by it.\<close>

theorem disconnect_once:
  assumes "\<not> client_freed c" "cl_is_alive c" "2 \<le> client_count c"
  shows "\<exists>c'. client_disconnected c = Inr c' \<and> \<not> cl_is_alive c' \<and> \<not> cl_listed c'
    \<and> cl_tasks c' = cl_tasks c @ [ClientDisconnected] \<and> client_count c' = client_count c - 2
    \<and> cl_conn c' = cl_conn c \<and> (client_freed c' \<longleftrightarrow> client_count c = 2)
    \<and> (2 < client_count c \<longrightarrow> client_disconnected c' = Inr c')"
proof -
  let ?c0 = "c\<lparr>cl_is_alive := False\<rparr>"
  let ?c1 = "post ClientDisconnected ((client_leave ?c0)\<lparr>cl_listed := False\<rparr>)"
  have count: "client_count ?c1 = client_count c - 1"
    by (simp add: client_count_def post_def client_leave_def ref_counted_leave_def Let_def)
  have "\<not> client_freed (client_leave ?c0)"
    using assms client_leave_freed [of ?c0] by (simp add: client_freed_def client_count_def)
  then have "\<not> client_freed ?c1" by (simp add: client_freed_def post_def)
  then have freed: "client_freed (client_leave ?c1) \<longleftrightarrow> client_count c = 2"
    using client_leave_freed [of ?c1] count by auto
  have "client_disconnected c = Inr (client_leave ?c1)"
    using client_disconnected_alive [OF assms(1,2)] assms(3) by simp
  moreover have "\<not> cl_is_alive (client_leave ?c1)" by (simp add: post_def)
  ultimately show ?thesis
    using freed count client_disconnected_dead [of "client_leave ?c1"] by (auto simp: post_def)
qed

theorem disconnect_once_witness:
  "\<exists>c'. client_disconnected (sample_client False 3 []) = Inr c' \<and> \<not> client_freed c'
    \<and> client_count c' = 1 \<and> cl_tasks c' = [ClientDisconnected] \<and> client_disconnected c' = Inr c'"
  using disconnect_once [of "sample_client False 3 []"]
  by (auto simp: sample_client_def client_new_def client_freed_def client_count_def)

lemma failing_write:
  assumes "\<forall>bs s. fst (wr bs s) \<le> 0" "\<not> client_freed c" "script acct p = Write bs # steps"
    and "cl_is_websocket c \<longrightarrow> (\<exists>n. declared acct p = Inr n)"
  shows "\<exists>s. send_message wr acct p c =
    bindO (client_disconnected (c\<lparr>cl_conn := s\<rparr>)) (\<lambda>c. Inr (False, c))"
proof (cases "cl_is_websocket c")
  case True
  then obtain n where n: "declared acct p = Inr n" using assms(4) by auto
  obtain r s where "send_header wr n (cl_conn c) = (r, s)" by fastforce
  moreover from this have "r \<le> 0" using assms(1) by (metis fst_conv send_header_def)
  ultimately show ?thesis using True n by (auto simp: send_message_def)
next
  case False
  obtain r s where rs: "wr bs (cl_conn c) = (r, s)" by fastforce
  moreover have "r \<le> 0" using assms(1) rs by (metis fst_conv)
  ultimately show ?thesis using False assms(2,3) by (auto simp: send_message_def net_write_def)
qed

text \<open>When the first write of a packet fails, the send function reports it and the client is
  disconnected, as long as the lobby holds a reference too. Without one the client has been
  freed when the function unlocks its write mutex.\<close>

theorem failed_send_disconnects:
  assumes "\<forall>bs s. fst (wr bs s) \<le> 0" "\<not> client_freed c" "cl_is_alive c" "2 \<le> client_count c"
    and "packet_fits acct p"
  shows "if client_count c = 2 then server_send wr acct p c = Inl UseAfterFree
    else \<exists>c'. server_send wr acct p c = Inr (False, c') \<and> \<not> cl_is_alive c' \<and> \<not> cl_listed c'
      \<and> cl_tasks c' = cl_tasks c @ [ClientDisconnected] \<and> client_count c' = client_count c - 2"
proof -
  have "\<exists>bs steps. script acct p = Write bs # steps"
    by (cases p) (simp_all add: login_res_script_def signup_res_script_def auth_session_res_script_def
        account_script_def poker_info_script_def poker_state_script_def poker_end_script_def
        tables_script_def sessions_script_def server_info_script_def json_script_def Let_def)
  moreover have "\<exists>n. declared acct p = Inr n"
    using packets_framed [OF assms(5)] by (auto simp: well_framed_def)
  ultimately obtain s where s: "send_message wr acct p c =
      bindO (client_disconnected (c\<lparr>cl_conn := s\<rparr>)) (\<lambda>c. Inr (False, c))"
    using failing_write [OF assms(1,2)] by metis
  let ?c = "c\<lparr>cl_conn := s\<rparr>"
  have "\<not> client_freed ?c" "cl_is_alive ?c" "client_count ?c = client_count c"
    using assms by (simp_all add: client_freed_def client_count_def)
  then obtain c' where c': "client_disconnected ?c = Inr c'" "\<not> cl_is_alive c'" "\<not> cl_listed c'"
    "cl_tasks c' = cl_tasks c @ [ClientDisconnected]" "client_count c' = client_count c - 2"
    "client_freed c' \<longleftrightarrow> client_count c = 2"
    using disconnect_once [of ?c] assms(4) by auto
  show ?thesis
  proof (cases "client_count c = 2")
    case True
    then show ?thesis using c' s assms(2) by (simp add: server_send_def use_client_def)
  next
    case False
    then show ?thesis using c' s assms(2) by (auto simp: server_send_def)
  qed
qed

theorem failed_send_disconnects_witness:
  "(\<exists>c'. server_send (\<lambda>bs s. (-1, s)) sample_accounts PongPacket (sample_client False 3 []) = Inr (False, c')
      \<and> cl_tasks c' = [ClientDisconnected])
    \<and> server_send (\<lambda>bs s. (-1, s)) sample_accounts PongPacket (sample_client False 2 []) = Inl UseAfterFree"
  using failed_send_disconnects [of "\<lambda>bs s. (-1, s)" "sample_client False 3 []" sample_accounts PongPacket]
    failed_send_disconnects [of "\<lambda>bs s. (-1, s)" "sample_client False 2 []" sample_accounts PongPacket]
  by (auto simp: sample_client_def client_new_def client_freed_def client_count_def)

text \<open>A client that comes in over the limit is freed before it is taken off the list of the
  server, whatever the writes do: the list is its only owner, and \<open>pkrsrv_server_remove_client\<close>
  gives up the reference first.\<close>

theorem over_capacity_uses_freed_client:
  assumes "max_clients \<noteq> 0" "max_clients < int others + 1"
  shows "accept_client wr acct max_clients others (client_new garbage conn) = Inl UseAfterFree"
proof -
  define c where "c = add_client (client_new garbage conn)"
  have c: "\<not> client_freed c" "cl_is_alive c" "client_count c = 1" "\<not> cl_is_websocket c"
    by (simp_all add: c_def add_client_def client_use_def client_new_def client_freed_def client_count_def
        ref_counted_use_def ref_counted_init_def)
  obtain r s where rs: "wr (header_of OP_OVER_CAPACITY) (cl_conn c) = (r, s)" by fastforce
  let ?c = "c\<lparr>cl_conn := s\<rparr>"
  have c': "\<not> client_freed ?c" "cl_is_alive ?c" "client_count ?c = 1"
    using c by (simp_all add: client_freed_def client_count_def)
  have dead: "client_disconnected ?c = Inl UseAfterFree"
    using client_disconnected_alive [OF c'(1,2)] c'(3) by simp
  have gone: "remove_client ?c = Inl UseAfterFree"
    using client_leave_freed [of ?c] c'(3) by (simp add: remove_client_def use_client_def)
  have "server_send wr acct OverCapacity c = (if r \<le> 0 then Inl UseAfterFree else Inr (True, ?c))"
    using c rs dead c'(1) by (simp add: server_send_def send_message_def net_write_def)
  then show ?thesis
    using assms gone by (simp add: accept_client_def c_def [symmetric] Let_def)
qed

theorem over_capacity_uses_freed_client_witness:
  "accept_client socket_send sample_accounts 2 2 (client_new sample_header ([], [])) = Inl UseAfterFree"
  by (rule over_capacity_uses_freed_client) simp_all

text \<open>A client that closes the connection in the middle of a login frame makes the handler free the
  two pointers it has not assigned yet.\<close>

theorem truncated_login_frees_garbage:
  assumes "byte_stream recv pending sent" "\<not> client_freed c" "cl_is_alive c" "2 \<le> client_count c"
    and "\<not> cl_is_websocket c" "length (pending (cl_conn c)) < 4"
  shows "handler_login recv c = Inl UninitRead"
proof -
  obtain s where "ssl_read recv 4 (cl_conn c) = (None, s)"
    using byte_stream.read_short [OF assms(1,6)] by (metis prod.collapse)
  then have r: "net_read recv 4 c = Inr (0, [], c\<lparr>cl_conn := s\<rparr>)"
    using assms(2,5) by (simp add: net_read_def)
  have "\<not> client_freed (c\<lparr>cl_conn := s\<rparr>)" "client_count (c\<lparr>cl_conn := s\<rparr>) = client_count c"
    using assms(2) by (simp_all add: client_freed_def client_count_def)
  then obtain c' where "client_disconnected (c\<lparr>cl_conn := s\<rparr>) = Inr c'"
    using disconnect_once [of "c\<lparr>cl_conn := s\<rparr>"] assms(3,4) by auto
  then show ?thesis using r by (simp add: handler_login_def read_or_return_def)
qed

theorem truncated_login_frees_garbage_witness:
  "handler_login socket_recv (sample_client False 2 [[1, 2, 3]]) = Inl UninitRead"
  by (rule truncated_login_frees_garbage [OF socket.byte_stream_axioms])
    (simp_all add: sample_client_def client_new_def client_freed_def client_count_def)

lemma accepted_client:
  assumes "max_clients = 0 \<or> int others + 1 \<le> max_clients"
  shows "\<exists>c. accept_client wr acct max_clients others (client_new garbage conn) = Inr (True, c)
    \<and> client_count c = 2 \<and> cl_listed c \<and> cl_is_alive c"
  using assms by (auto simp: accept_client_def add_client_def client_use_def client_new_def
      client_count_def ref_counted_use_def ref_counted_init_def Let_def)

end
