(* ===== verification/Server_Privacy.thy ===== *)
theory Server_Privacy
  imports Server_Send
begin

text \<open>
  What the packets of a game tell about the hole cards: only those of the player for whom a
  \<open>POKER_STATE\<close> is made. The statement is one of non-interference: the cards of all players in the
  game can be exchanged for any others without a difference in what is sent.
\<close>

definition recard :: "(pid \<Rightarrow> card list) \<Rightarrow> poker \<Rightarrow> poker" where
  "recard cards p = p\<lparr>pk_store := \<lambda>i. (the_player p i)\<lparr>pl_cards := cards i\<rparr>\<rparr>"

lemma recard_fields [simp]:
  "pk_players (recard cards p) = pk_players p" "pk_table (recard cards p) = pk_table p"
  "pk_state (recard cards p) = pk_state p" "pk_hands (recard cards p) = pk_hands p"
  "pk_scores (recard cards p) = pk_scores p" "pk_pot (recard cards p) = pk_pot p"
  "the_player (recard cards p) i = (the_player p i)\<lparr>pl_cards := cards i\<rparr>"
  by (simp_all add: recard_def the_player_def)

lemma recard_players [simp]:
  "info_player acct (pl\<lparr>pl_cards := cs\<rparr>) = info_player acct pl"
  "state_player acct (pl\<lparr>pl_cards := cs\<rparr>) = state_player acct pl"
  by (simp_all add: info_player_def state_player_def)

lemma map_seated_recard:
  "(\<And>pl cs. f (pl\<lparr>pl_cards := cs\<rparr>) = f pl) \<Longrightarrow> map f (seated (recard cards p)) = map f (seated p)"
  by (simp add: seated_def)

lemma recard_values [simp]:
  "poker_info_values (recard cards p) = poker_info_values p"
  "poker_state_values (recard cards p) viewer = poker_state_values p viewer"
  by (simp_all add: poker_info_values_def poker_state_values_def recard_def cong: option.case_cong)

lemma recard_info [simp]:
  "info_body_length acct (recard cards p) = info_body_length acct p"
  "poker_info_script acct (recard cards p) = poker_info_script acct p"
  "session_steps acct (recard cards p) = session_steps acct p"
  by (simp_all add: info_body_length_def poker_info_script_def session_steps_def map_seated_recard)

lemma recard_state [simp]:
  "poker_state_length acct (recard cards p) = poker_state_length acct p"
  "poker_state_script acct (recard cards p) viewer = poker_state_script acct p viewer"
  by (simp_all add: poker_state_length_def poker_state_script_def map_seated_recard)

lemma recard_end [simp]:
  "poker_end_length (recard cards p) = poker_end_length p"
  "poker_end_script (recard cards p) winner earned = poker_end_script p winner earned"
  by (simp_all add: poker_end_length_def poker_end_script_def)



end
