(* ===== verification/Database.thy ===== *)
theory Database
  imports Account Table
begin

text \<open>
  The database as the SQL statements of \<open>src/src/account.c\<close>, \<open>src/src/table.c\<close>,
  \<open>src/src/deposit.c\<close> and \<open>src/src/db.c\<close> see it: the rows of the tables \<open>accounts\<close>, \<open>tables\<close> and
  \<open>monero_deposits\<close>, the transaction that is open, if any, and for each statement to come whether it fails (\<open>db_faults\<close>; the statements
  beyond the list succeed). A statement that fails changes nothing; inside a transaction it
  aborts it, after which every statement fails and \<open>COMMIT\<close> rolls back. A row is the tuple of
  its columns; the amounts are kept as the 64-bit numbers which the statements print and read.
\<close>

record accounts_row =
  ar_id :: "64 word"
  ar_id_token :: bytes
  ar_password :: bytes
  ar_name :: bytes
  ar_avatar :: bytes
  ar_balance :: "64 word"
  ar_xmr_deposit_address :: bytes
  ar_locked_balance :: "64 word"
  ar_total_deposited :: "64 word"
  ar_xmr_deposit_address_index :: "64 word"
  ar_xmr_height :: "64 word"

record deposit_row =
  dr_id :: "64 word"
  dr_txid :: bytes
  dr_account :: "64 word"
  dr_status :: nat
  dr_amount :: "64 word"
  dr_to_address :: bytes
  dr_timestamp :: "64 word"

type_synonym rows = "accounts_row list \<times> table_row list \<times> deposit_row list"

record db =
  db_rows :: rows
  db_saved :: "rows option"
  db_aborted :: bool
  db_faults :: "bool list"

definition db_accounts :: "db \<Rightarrow> accounts_row list" where "db_accounts d = fst (db_rows d)"
definition db_tables :: "db \<Rightarrow> table_row list" where "db_tables d = fst (snd (db_rows d))"
definition db_deposits :: "db \<Rightarrow> deposit_row list" where "db_deposits d = snd (snd (db_rows d))"

definition statement_fails :: "db \<Rightarrow> bool" where
  "statement_fails d \<longleftrightarrow> db_aborted d \<or> (db_faults d \<noteq> [] \<and> hd (db_faults d))"

definition after_statement :: "db \<Rightarrow> db" where
  "after_statement d = d\<lparr>db_faults := tl (db_faults d),
     db_aborted := (db_saved d \<noteq> None \<and> statement_fails d)\<rparr>"

text \<open>A statement that writes, and one that reads.\<close>

definition sql_update :: "(rows \<Rightarrow> rows) \<Rightarrow> db \<Rightarrow> bool \<times> db" where
  "sql_update f d =
    (if statement_fails d then (False, after_statement d)
     else (True, (after_statement d)\<lparr>db_rows := f (db_rows d)\<rparr>))"

definition sql_select :: "(rows \<Rightarrow> 'a) \<Rightarrow> db \<Rightarrow> 'a option \<times> db" where
  "sql_select f d = (if statement_fails d then None else Some (f (db_rows d)), after_statement d)"

definition transaction_begin :: "db \<Rightarrow> bool \<times> db" where
  "transaction_begin d =
    (if statement_fails d then (False, after_statement d)
     else (True, (after_statement d)\<lparr>db_saved := (case db_saved d of None \<Rightarrow> Some (db_rows d) | s \<Rightarrow> s)\<rparr>))"

definition end_transaction :: "db \<Rightarrow> rows \<Rightarrow> db" where
  "end_transaction d rows = d\<lparr>db_rows := rows, db_saved := None, db_aborted := False\<rparr>"

definition transaction_rollback :: "db \<Rightarrow> bool \<times> db" where
  "transaction_rollback d = (True, end_transaction d (case db_saved d of None \<Rightarrow> db_rows d | Some s \<Rightarrow> s))"

definition transaction_commit :: "db \<Rightarrow> bool \<times> db" where
  "transaction_commit d =
    (True, if db_aborted d then snd (transaction_rollback d) else end_transaction d (db_rows d))"

section \<open>Statements on accounts\<close>

definition set_account :: "64 word \<Rightarrow> (accounts_row \<Rightarrow> accounts_row) \<Rightarrow> rows \<Rightarrow> rows" where
  "set_account i f = apfst (map (\<lambda>r. if ar_id r = i then f r else r))"

definition find_account :: "(accounts_row \<Rightarrow> bool) \<Rightarrow> rows \<Rightarrow> accounts_row option" where
  "find_account P rows = List.find P (fst rows)"

definition account_row :: "64 word \<Rightarrow> db \<Rightarrow> accounts_row option" where
  "account_row i d = find_account (\<lambda>r. ar_id r = i) (db_rows d)"

definition set_table :: "64 word \<Rightarrow> (table_row \<Rightarrow> table_row) \<Rightarrow> rows \<Rightarrow> rows" where
  "set_table i f = apsnd (apfst (map (\<lambda>r. if of_int (tr_id r) = i then f r else r)))"

section \<open>Laws\<close>

text \<open>A database on which the coming statements succeed.\<close>

definition steady :: "db \<Rightarrow> bool" where
  "steady d \<longleftrightarrow> \<not> db_aborted d \<and> db_faults d = []"

lemma steady_succeeds [simp]: "steady d \<Longrightarrow> \<not> statement_fails d"
  by (simp add: steady_def statement_fails_def)

lemma steady_after [simp]: "steady d \<Longrightarrow> after_statement d = d"
  by (simp add: steady_def after_statement_def)

lemma steady_fields [simp]:
  "steady (d\<lparr>db_rows := r\<rparr>) = steady d" "steady (d\<lparr>db_saved := s\<rparr>) = steady d"
  by (simp_all add: steady_def)

lemma transaction_steady [simp]:
  assumes "steady d"
  shows "db_saved d = None \<Longrightarrow> transaction_begin d = (True, d\<lparr>db_saved := Some (db_rows d)\<rparr>)"
    "transaction_commit d = (True, d\<lparr>db_saved := None\<rparr>)"
  using assms by (simp_all add: transaction_begin_def transaction_commit_def end_transaction_def steady_def
      after_statement_def statement_fails_def)

lemma sql_update_steady [simp]: "steady d \<Longrightarrow> sql_update f d = (True, d\<lparr>db_rows := f (db_rows d)\<rparr>)"
  by (simp add: sql_update_def)

lemma sql_select_steady [simp]: "steady d \<Longrightarrow> sql_select f d = (Some (f (db_rows d)), d)"
  by (simp add: sql_select_def)

lemma find_account_set:
  assumes "\<And>r. ar_id (f r) = ar_id r"
  shows "find_account (\<lambda>r. ar_id r = j) (set_account i f rows) =
    (if i = j then map_option f (find_account (\<lambda>r. ar_id r = j) rows)
     else find_account (\<lambda>r. ar_id r = j) rows)"
proof -
  have "List.find (\<lambda>r. ar_id r = j) (map (\<lambda>r. if ar_id r = i then f r else r) as) =
    (if i = j then map_option f (List.find (\<lambda>r. ar_id r = j) as) else List.find (\<lambda>r. ar_id r = j) as)" for as
    by (induction as) (auto simp: assms)
  then show ?thesis by (simp add: find_account_def set_account_def)
qed

lemma account_row_set [simp]:
  assumes "\<And>r. ar_id (f r) = ar_id r"
  shows "account_row j (d\<lparr>db_rows := set_account i f (db_rows d)\<rparr>) =
    (if i = j then map_option f (account_row j d) else account_row j d)"
  using find_account_set [OF assms] by (simp add: account_row_def)

lemma db_tables_set [simp]:
  "db_tables (d\<lparr>db_rows := set_account i f (db_rows d)\<rparr>) = db_tables d"
  "db_deposits (d\<lparr>db_rows := set_account i f (db_rows d)\<rparr>) = db_deposits d"
  by (simp_all add: db_tables_def db_deposits_def set_account_def apfst_def map_prod_def split_beta)

lemma account_row_saved [simp]:
  "account_row i (d\<lparr>db_saved := s\<rparr>) = account_row i d" "db_tables (d\<lparr>db_saved := s\<rparr>) = db_tables d"
  "db_deposits (d\<lparr>db_saved := s\<rparr>) = db_deposits d"
  by (simp_all add: account_row_def db_tables_def db_deposits_def)

lemma account_row_id: "account_row i d = Some r \<Longrightarrow> ar_id r = i"
  by (auto simp: account_row_def find_account_def find_Some_iff)

end
