(* ===== verification/Account_Store.thy ===== *)
theory Account_Store
  imports Database
begin

text \<open>
  The accounts of \<open>src/src/account.c\<close>. An account object in memory is a copy of a row of the
  table, taken when it was read; several objects can be copies of the same row. The objects are
  kept in a store and the functions name them by number, as the code does by pointer. MD5 and
  the wallet that makes deposit addresses are parameters.
\<close>

record account_object = account +
  ao_on_updated :: "nat option"

record store =
  st_db :: db
  st_objects :: "nat \<Rightarrow> account_object"
  st_next :: nat
  st_notices :: "(nat \<times> nat) list"

text \<open>\<open>st_next\<close> is the next free number. \<open>st_notices\<close> are the calls of \<open>on_updated\<close>: the account
  and the parameter it was registered with.\<close>

definition object :: "nat \<Rightarrow> store \<Rightarrow> account_object" where
  "object o1 st = st_objects st o1"

definition upd_object :: "nat \<Rightarrow> (account_object \<Rightarrow> account_object) \<Rightarrow> store \<Rightarrow> store" where
  "upd_object o1 f st = st\<lparr>st_objects := (st_objects st)(o1 := f (st_objects st o1))\<rparr>"

definition with_db :: "(db \<Rightarrow> 'a \<times> db) \<Rightarrow> store \<Rightarrow> 'a \<times> store" where
  "with_db f st = (case f (st_db st) of (x, d) \<Rightarrow> (x, st\<lparr>st_db := d\<rparr>))"

text \<open>Text parameters end at their first null byte.\<close>

definition sql_text :: "bytes \<Rightarrow> bytes" where
  "sql_text bs = takeWhile (\<lambda>b. b \<noteq> 0) bs"

text \<open>\<open>atoi\<close> into an unsigned 64-bit number: the number is cut to 32 bits and sign-extended.\<close>

definition atoi_id :: "64 word \<Rightarrow> 64 word" where
  "atoi_id i = scast (ucast i :: 32 word)"

section \<open>Objects\<close>

definition account_new :: "account_object \<Rightarrow> store \<Rightarrow> nat \<times> store" where
  "account_new a st = (st_next st, st\<lparr>st_objects := (st_objects st)(st_next st := a\<lparr>ac_ref := ref_counted_init,
     ao_on_updated := None\<rparr>), st_next := st_next st + 1\<rparr>)"

definition account_of_row :: "64 word \<Rightarrow> accounts_row \<Rightarrow> account_object" where
  "account_of_row i r = \<lparr>ac_ref = ref_counted_init, ac_id = i, ac_id_token = ar_id_token r,
     ac_name = ar_name r, ac_avatar = ar_avatar r, ac_xmr_deposit_address = ar_xmr_deposit_address r,
     ac_xmr_deposit_address_index = atoi_id (ar_xmr_deposit_address_index r), ac_balance = ar_balance r,
     ac_locked_balance = ar_locked_balance r, ac_total_deposited = ar_total_deposited r,
     ac_xmr_height = ar_xmr_height r, ao_on_updated = None\<rparr>"

definition account_set_balance :: "nat \<Rightarrow> 64 word \<Rightarrow> store \<Rightarrow> store" where
  "account_set_balance o1 balance = upd_object o1 (\<lambda>a. a\<lparr>ac_balance := balance\<rparr>)"

section \<open>Balances\<close>

text \<open>The row is locked by a \<open>SELECT ... FOR UPDATE\<close>, which outside a transaction is released at
  once, and then set to the given balance.\<close>

definition account_update_balance :: "nat \<Rightarrow> 64 word \<Rightarrow> store \<Rightarrow> bool \<times> store" where
  "account_update_balance o1 balance st =
    (let i = ac_id (object o1 st) in
     case with_db (sql_select (find_account (\<lambda>r. ar_id r = i))) st of
       (None, st) \<Rightarrow> (False, st)
     | (Some _, st) \<Rightarrow>
         (case with_db (sql_update (set_account i (\<lambda>r. r\<lparr>ar_balance := balance\<rparr>))) st of
           (False, st) \<Rightarrow> (False, st)
         | (True, st) \<Rightarrow>
             let st = account_set_balance o1 balance st
             in (True, case ao_on_updated (object o1 st) of None \<Rightarrow> st
                  | Some param \<Rightarrow> st\<lparr>st_notices := st_notices st @ [(o1, param)]\<rparr>)))"

text \<open>The functions built on it return \<open>true\<close> when the update fails.\<close>

definition account_add_balance :: "nat \<Rightarrow> 64 word \<Rightarrow> store \<Rightarrow> bool \<times> store" where
  "account_add_balance o1 amount st =
    (True, snd (account_update_balance o1 (ac_balance (object o1 st) + amount) st))"

definition account_update_locked_balance :: "nat \<Rightarrow> 64 word \<Rightarrow> store \<Rightarrow> bool \<times> store" where
  "account_update_locked_balance o1 locked st =
    with_db (sql_update (set_account (ac_id (object o1 st)) (\<lambda>r. r\<lparr>ar_locked_balance := locked\<rparr>))) st"

definition account_remove_locked_balance :: "nat \<Rightarrow> 64 word \<Rightarrow> store \<Rightarrow> bool \<times> store" where
  "account_remove_locked_balance o1 amount st =
    (let locked = ac_locked_balance (object o1 st)
     in if locked < amount then (False, st)
        else (True, snd (account_update_locked_balance o1 (locked - amount) st)))"

definition move_balance :: "nat \<Rightarrow> 64 word \<Rightarrow> 64 word \<Rightarrow> store \<Rightarrow> store" where
  "move_balance o1 balance locked st =
    (case account_update_balance o1 balance st of
      (False, st) \<Rightarrow> st
    | (True, st) \<Rightarrow> snd (account_update_locked_balance o1 locked st))"

definition account_lock_balance :: "nat \<Rightarrow> 64 word \<Rightarrow> store \<Rightarrow> bool \<times> store" where
  "account_lock_balance o1 amount st =
    (let balance = ac_balance (object o1 st); locked = ac_locked_balance (object o1 st)
     in if balance < amount then (False, st)
        else (True, move_balance o1 (balance - amount) (locked + amount) st))"

definition account_unlock_balance :: "nat \<Rightarrow> 64 word \<Rightarrow> store \<Rightarrow> bool \<times> store" where
  "account_unlock_balance o1 amount st =
    (let balance = ac_balance (object o1 st); locked = ac_locked_balance (object o1 st)
     in if locked < amount then (False, st)
        else (True, move_balance o1 (balance + amount) (locked - amount) st))"

definition revert_row :: "accounts_row \<Rightarrow> accounts_row" where
  "revert_row r = (if 0 < ar_locked_balance r
     then r\<lparr>ar_balance := ar_balance r + ar_locked_balance r, ar_locked_balance := 0\<rparr> else r)"

definition account_revert_locked_balances :: "store \<Rightarrow> bool \<times> store" where
  "account_revert_locked_balances = with_db (sql_update (apfst (map revert_row)))"

definition account_update_xmr_height :: "nat \<Rightarrow> 64 word \<Rightarrow> store \<Rightarrow> bool \<times> store" where
  "account_update_xmr_height o1 height st =
    with_db (sql_update (set_account (ac_id (object o1 st)) (\<lambda>r. r\<lparr>ar_xmr_height := height\<rparr>))) st"

section \<open>Profiles\<close>

text \<open>The answer's fields \<open>is_ok\<close> and \<open>is_avatar_too_big\<close>; the second is never set.\<close>

definition account_update :: "64 word \<Rightarrow> bytes \<Rightarrow> bytes \<Rightarrow> store \<Rightarrow> (bool \<times> bool) \<times> store" where
  "account_update i name avatar st =
    (case with_db (sql_update (set_account i (\<lambda>r. r\<lparr>ar_name := sql_text name,
        ar_avatar := (if avatar = [] then ar_avatar r else avatar)\<rparr>))) st of
      (ok, st) \<Rightarrow> ((ok, False), st))"

definition account_read :: "(accounts_row \<Rightarrow> 64 word) \<Rightarrow> (accounts_row \<Rightarrow> bool) \<Rightarrow> store \<Rightarrow> nat option \<times> store" where
  "account_read id_of P st =
    (case with_db (sql_select (find_account P)) st of
      (Some (Some r), st) \<Rightarrow> (case account_new (account_of_row (id_of r) r) st of (o1, st) \<Rightarrow> (Some o1, st))
    | (_, st) \<Rightarrow> (None, st))"

definition account_getby_credentials :: "(bytes \<Rightarrow> bytes) \<Rightarrow> bytes \<Rightarrow> bytes \<Rightarrow> store \<Rightarrow> nat option \<times> store" where
  "account_getby_credentials md5 id_token password =
    account_read (\<lambda>r. atoi_id (ar_id r))
      (\<lambda>r. ar_id_token r = sql_text id_token \<and> ar_password r = md5 password)"

definition account_getby_id :: "64 word \<Rightarrow> store \<Rightarrow> nat option \<times> store" where
  "account_getby_id i = account_read (\<lambda>_. i) (\<lambda>r. ar_id r = i)"

definition account_getby_id_token :: "bytes \<Rightarrow> store \<Rightarrow> nat option \<times> store" where
  "account_getby_id_token id_token = account_read (\<lambda>r. atoi_id (ar_id r)) (\<lambda>r. ar_id_token r = sql_text id_token)"

text \<open>An account that cannot be read back is a null pointer, which is used after an assertion that
  only prints.\<close>

definition account_fetch :: "nat \<Rightarrow> store \<Rightarrow> store outcome" where
  "account_fetch o1 st =
    (case account_getby_id (ac_id (object o1 st)) st of
      (None, st) \<Rightarrow> Inl NullDeref
    | (Some o2, st) \<Rightarrow>
        let b = object o2 st
        in Inr (upd_object o1 (\<lambda>a. a\<lparr>ac_xmr_deposit_address := ac_xmr_deposit_address b, ac_name := ac_name b,
             ac_avatar := ac_avatar b, ac_balance := ac_balance b, ac_locked_balance := ac_locked_balance b,
             ac_total_deposited := ac_total_deposited b, ac_xmr_height := ac_xmr_height b,
             ac_xmr_deposit_address_index := ac_xmr_deposit_address_index b\<rparr>) st))"

section \<open>Creating an account\<close>

text \<open>The row that the insertion makes: its id and address index come from the database.\<close>

definition new_row :: "64 word \<Rightarrow> 64 word \<Rightarrow> bytes \<Rightarrow> bytes \<Rightarrow> bytes \<Rightarrow> bytes \<Rightarrow> 64 word \<Rightarrow> bytes \<Rightarrow> accounts_row" where
  "new_row i index id_token password name avatar balance address =
    \<lparr>ar_id = i, ar_id_token = sql_text id_token, ar_password = password, ar_name = sql_text name,
     ar_avatar = avatar, ar_balance = balance, ar_xmr_deposit_address = sql_text address,
     ar_locked_balance = 0, ar_total_deposited = 0, ar_xmr_deposit_address_index = index,
     ar_xmr_height = 0\<rparr>"

record new_account =
  na_id_token :: bytes
  na_password :: bytes
  na_name :: bytes
  na_avatar :: bytes
  na_balance :: "64 word"
  na_address :: "bytes option"

text \<open>What the database chooses and what the fields of \<open>new_params\<close> that are never assigned hold.\<close>

record chosen =
  ch_id :: "64 word"
  ch_index :: "64 word"
  ch_garbage_index :: "64 word"
  ch_garbage_height :: "64 word"

text \<open>The address of the account is the given one, or is made by the wallet and stored. The label
  \<open>RETURN\<close> gives up the reference to the address made: before the insertion has succeeded the
  variable is not initialised, and after a failed update the address has been freed.\<close>

definition account_create ::
  "(bytes \<Rightarrow> bytes) \<Rightarrow> (64 word \<Rightarrow> bytes option) \<Rightarrow> chosen \<Rightarrow> new_account \<Rightarrow> store \<Rightarrow>
   ((nat option \<times> bool) \<times> store) outcome" where
  "account_create md5 create_address ch na st =
    (let i = ch_id ch;
         st = snd (with_db transaction_begin st);
         row = new_row i (ch_index ch) (na_id_token na) (md5 (na_password na)) (na_name na) (na_avatar na)
           (na_balance na) (case na_address na of None \<Rightarrow> [] | Some a \<Rightarrow> a);
         created = (\<lambda>address st.
           let st = snd (with_db transaction_commit st);
               (o1, st) = account_new \<lparr>ac_ref = ref_counted_init, ac_id = atoi_id i, ac_id_token = na_id_token na,
                 ac_name = na_name na, ac_avatar = na_avatar na, ac_xmr_deposit_address = address,
                 ac_xmr_deposit_address_index = ch_garbage_index ch, ac_balance = na_balance na,
                 ac_locked_balance = 0, ac_total_deposited = 0, ac_xmr_height = ch_garbage_height ch,
                 ao_on_updated = None\<rparr> st
           in Inr ((Some o1, False), st))
     in case with_db (sql_update (apfst (\<lambda>rows. rows @ [row]))) st of
       (False, st) \<Rightarrow> Inl UninitRead
     | (True, st) \<Rightarrow>
         (case na_address na of
           Some address \<Rightarrow> created address st
         | None \<Rightarrow>
             (case create_address (atoi_id (ch_index ch)) of
               None \<Rightarrow> Inr ((None, False), snd (with_db transaction_rollback st))
             | Some address \<Rightarrow>
                 (case with_db (sql_update (set_account i
                     (\<lambda>r. r\<lparr>ar_xmr_deposit_address := sql_text address\<rparr>))) st of
                   (False, st) \<Rightarrow> Inl UseAfterFree
                 | (True, st) \<Rightarrow> created address st))))"

end
