(* ===== verification/Account_Balance.thy ===== *)
theory Account_Balance
  imports Account_Store
begin

text \<open>
  What the functions on accounts keep: a transfer between the balance and the locked balance of
  an up-to-date object moves exactly its amount in the row; an account created can be logged in
  to; and the ways in which money and references are lost.
\<close>

text \<open>An object agrees with its row on the balances.\<close>

definition fresh :: "nat \<Rightarrow> store \<Rightarrow> bool" where
  "fresh o1 st \<longleftrightarrow> (\<exists>r. account_row (ac_id (object o1 st)) (st_db st) = Some r
     \<and> ar_balance r = ac_balance (object o1 st) \<and> ar_locked_balance r = ac_locked_balance (object o1 st))"

definition row_of :: "nat \<Rightarrow> store \<Rightarrow> accounts_row option" where
  "row_of o1 st = account_row (ac_id (object o1 st)) (st_db st)"

lemma upd_object_simps [simp]:
  "object o1 (upd_object o2 f st) = (if o1 = o2 then f (object o1 st) else object o1 st)"
  "st_db (upd_object o2 f st) = st_db st" "st_notices (upd_object o2 f st) = st_notices st"
  "st_next (upd_object o2 f st) = st_next st"
  by (simp_all add: upd_object_def object_def)

lemma store_update_simps [simp]:
  "object o1 (st\<lparr>st_db := d\<rparr>) = object o1 st" "object o1 (st\<lparr>st_notices := ns\<rparr>) = object o1 st"
  by (simp_all add: object_def)

lemma with_db_steady [simp]:
  "steady (st_db st) \<Longrightarrow> with_db (sql_update f) st =
    (True, st\<lparr>st_db := (st_db st)\<lparr>db_rows := f (db_rows (st_db st))\<rparr>\<rparr>)"
  "steady (st_db st) \<Longrightarrow> with_db (sql_select g) st = (Some (g (db_rows (st_db st))), st)"
  by (simp_all add: with_db_def)

text \<open>\<open>set_row st o1 f st'\<close>: the store after the row of the object has been changed by \<open>f\<close>, and no
  other row; objects keep their identity.\<close>

definition row_changed :: "nat \<Rightarrow> (accounts_row \<Rightarrow> accounts_row) \<Rightarrow> store \<Rightarrow> store \<Rightarrow> bool" where
  "row_changed o1 f st st' \<longleftrightarrow> (let i = ac_id (object o1 st) in
     (\<forall>j. account_row j (st_db st') = (if j = i then map_option f (account_row j (st_db st)) else account_row j (st_db st)))
     \<and> steady (st_db st') \<and> db_saved (st_db st') = db_saved (st_db st) \<and> db_tables (st_db st') = db_tables (st_db st)
     \<and> db_deposits (st_db st') = db_deposits (st_db st)
     \<and> (\<forall>o2. ac_id (object o2 st') = ac_id (object o2 st) \<and> ac_locked_balance (object o2 st') = ac_locked_balance (object o2 st))
     \<and> st_next st' = st_next st)"

lemma row_changed_trans:
  assumes "row_changed o1 f st st1" "row_changed o1 g st1 st2"
  shows "row_changed o1 (\<lambda>r. g (f r)) st st2"
proof -
  have i: "ac_id (object o1 st1) = ac_id (object o1 st)" using assms(1) by (simp add: row_changed_def Let_def)
  show ?thesis using assms unfolding row_changed_def Let_def i
    by (auto simp: option.map_comp comp_def)
qed

lemma update_balance_changes:
  assumes "steady (st_db st)"
  shows "\<exists>st'. account_update_balance o1 b st = (True, st') \<and> row_changed o1 (\<lambda>r. r\<lparr>ar_balance := b\<rparr>) st st'
    \<and> ac_balance (object o1 st') = b \<and> (\<forall>o2. o2 \<noteq> o1 \<longrightarrow> object o2 st' = object o2 st)"
  using assms
  by (auto simp: account_update_balance_def Let_def account_set_balance_def row_changed_def split: option.splits)

lemma update_locked_changes:
  assumes "steady (st_db st)"
  shows "\<exists>st'. account_update_locked_balance o1 b st = (True, st') \<and> row_changed o1 (\<lambda>r. r\<lparr>ar_locked_balance := b\<rparr>) st st'
    \<and> (\<forall>o2. object o2 st' = object o2 st) \<and> st_notices st' = st_notices st"
  using assms by (auto simp: account_update_locked_balance_def row_changed_def Let_def)

lemma move_balance_changes:
  assumes "steady (st_db st)"
  shows "\<exists>st'. move_balance o1 b l st = st' \<and> row_changed o1 (\<lambda>r. r\<lparr>ar_balance := b, ar_locked_balance := l\<rparr>) st st'
    \<and> ac_balance (object o1 st') = b \<and> (\<forall>o2. o2 \<noteq> o1 \<longrightarrow> object o2 st' = object o2 st)"
proof -
  obtain st1 where s1: "account_update_balance o1 b st = (True, st1)"
    "row_changed o1 (\<lambda>r. r\<lparr>ar_balance := b\<rparr>) st st1" "ac_balance (object o1 st1) = b"
    "\<forall>o2. o2 \<noteq> o1 \<longrightarrow> object o2 st1 = object o2 st"
    using update_balance_changes [OF assms] by blast
  then have "steady (st_db st1)" by (simp add: row_changed_def Let_def)
  then obtain st2 where s2: "account_update_locked_balance o1 l st1 = (True, st2)"
    "row_changed o1 (\<lambda>r. r\<lparr>ar_locked_balance := l\<rparr>) st1 st2" "\<forall>o2. object o2 st2 = object o2 st1"
    using update_locked_changes by blast
  show ?thesis using s1 s2 row_changed_trans [OF s1(2) s2(2)] by (simp add: move_balance_def)
qed


lemma row_changed_row:
  assumes "row_changed o1 f st st'"
  shows "row_of o1 st' = map_option f (row_of o1 st)" "steady (st_db st')"
    "j \<noteq> ac_id (object o1 st) \<Longrightarrow> account_row j (st_db st') = account_row j (st_db st)"
    "ac_id (object o2 st') = ac_id (object o2 st)" "ac_locked_balance (object o2 st') = ac_locked_balance (object o2 st)"
    "db_saved (st_db st') = db_saved (st_db st)" "db_tables (st_db st') = db_tables (st_db st)"
    "db_deposits (st_db st') = db_deposits (st_db st)" "st_next st' = st_next st"
  using assms by (simp_all add: row_changed_def Let_def row_of_def)

lemma fresh_row: "fresh o1 st \<Longrightarrow> \<exists>r. row_of o1 st = Some r \<and> ar_balance r = ac_balance (object o1 st)
    \<and> ar_locked_balance r = ac_locked_balance (object o1 st)"
  by (simp add: fresh_def row_of_def)

lemma lock_balance_changes:
  assumes "steady (st_db st)" "fresh o1 st" "amount \<le> ac_balance (object o1 st)"
  shows "\<exists>st'. account_lock_balance o1 amount st = (True, st') \<and> row_changed o1 (\<lambda>r. r\<lparr>ar_balance := ac_balance (object o1 st) - amount,
      ar_locked_balance := ac_locked_balance (object o1 st) + amount\<rparr>) st st'
    \<and> (\<forall>o2. o2 \<noteq> o1 \<longrightarrow> object o2 st' = object o2 st)"
  using move_balance_changes [OF assms(1)] assms(3) by (auto simp: account_lock_balance_def Let_def)

text \<open>Reading the row again brings every number of the object up to date.\<close>

lemma fetch_fresh:
  assumes "steady (st_db st)" "row_of o1 st = Some r" "o1 < st_next st"
  shows "\<exists>st'. account_fetch o1 st = Inr st' \<and> st_db st' = st_db st \<and> st_notices st' = st_notices st
    \<and> ac_id (object o1 st') = ac_id (object o1 st) \<and> ac_balance (object o1 st') = ar_balance r
    \<and> ac_locked_balance (object o1 st') = ar_locked_balance r \<and> fresh o1 st'
    \<and> (\<forall>o2. o2 < st_next st \<longrightarrow> o2 \<noteq> o1 \<longrightarrow> object o2 st' = object o2 st) \<and> st_next st < st_next st'
    \<and> ao_on_updated (object o1 st') = ao_on_updated (object o1 st)"
  using assms
  by (auto simp: account_fetch_def account_getby_id_def account_read_def account_new_def Let_def row_of_def
      account_row_def account_of_row_def fresh_def object_def upd_object_def)

lemma unlock_balance_changes:
  assumes "steady (st_db st)" "fresh o1 st" "amount \<le> ac_locked_balance (object o1 st)"
  shows "\<exists>st'. account_unlock_balance o1 amount st = (True, st') \<and> row_changed o1 (\<lambda>r. r\<lparr>ar_balance := ac_balance (object o1 st) + amount,
      ar_locked_balance := ac_locked_balance (object o1 st) - amount\<rparr>) st st'"
  using move_balance_changes [OF assms(1)] assms(3) by (auto simp: account_unlock_balance_def Let_def)

text \<open>Locking an amount of an up-to-date account moves it within the row and leaves the other rows
  alone; the amount can be unlocked again after the object has been read back, and the row is
  then as it was.\<close>

theorem lock_unlock_roundtrip:
  assumes "steady (st_db st)" "fresh o1 st" "amount \<le> ac_balance (object o1 st)" "o1 < st_next st"
    and "unat (ac_locked_balance (object o1 st)) + unat amount < 2 ^ 64"
  shows "\<exists>r st1 st2 st3. row_of o1 st = Some r \<and> account_lock_balance o1 amount st = (True, st1)
    \<and> row_of o1 st1 = Some (r\<lparr>ar_balance := ar_balance r - amount, ar_locked_balance := ar_locked_balance r + amount\<rparr>)
    \<and> (\<forall>j. j \<noteq> ac_id (object o1 st) \<longrightarrow> account_row j (st_db st1) = account_row j (st_db st))
    \<and> account_fetch o1 st1 = Inr st2 \<and> account_unlock_balance o1 amount st2 = (True, st3)
    \<and> row_of o1 st3 = Some r"
proof -
  obtain r where r: "row_of o1 st = Some r" "ar_balance r = ac_balance (object o1 st)"
    "ar_locked_balance r = ac_locked_balance (object o1 st)"
    using fresh_row [OF assms(2)] by blast
  let ?b = "ar_balance r" and ?l = "ar_locked_balance r"
  let ?f = "\<lambda>r. r\<lparr>ar_balance := ?b - amount, ar_locked_balance := ?l + amount\<rparr>"
  obtain st1 where s1: "account_lock_balance o1 amount st = (True, st1)" "row_changed o1 ?f st st1"
    using lock_balance_changes [OF assms(1-3)] r by auto
  have row1: "row_of o1 st1 = Some (?f r)" using row_changed_row(1) [OF s1(2)] r(1) by simp
  have "o1 < st_next st1" using s1(2) assms(4) by (simp add: row_changed_def Let_def)
  then obtain st2 where s2: "account_fetch o1 st1 = Inr st2" "st_db st2 = st_db st1"
    "ac_id (object o1 st2) = ac_id (object o1 st1)" "ac_balance (object o1 st2) = ?b - amount"
    "ac_locked_balance (object o1 st2) = ?l + amount" "fresh o1 st2"
    using fetch_fresh [OF row_changed_row(2) [OF s1(2)] row1] by auto
  have "amount \<le> ?l + amount"
  proof -
    have "unat (?l + amount) = unat ?l + unat amount"
      using assms(5) r(3) unat_plus_if' [of ?l amount] by simp
    then show ?thesis by (simp add: word_le_nat_alt)
  qed
  then obtain st3 where s3: "account_unlock_balance o1 amount st2 = (True, st3)"
    "row_changed o1 (\<lambda>r. r\<lparr>ar_balance := ?b, ar_locked_balance := ?l\<rparr>) st2 st3"
    using unlock_balance_changes [OF _ s2(6), of amount] row_changed_row(2) [OF s1(2)] s2(2,4,5) by auto
  have "row_of o1 st2 = Some (?f r)" using row1 s2(2,3) by (simp add: row_of_def)
  then have "row_of o1 st3 = Some r" using row_changed_row(1) [OF s3(2)] by simp
  then show ?thesis using r(1) s1(1) row1 s2(1) s3(1) row_changed_row(3) [OF s1(2)] by auto
qed


definition sample_row :: accounts_row where
  "sample_row = new_row 7 1 [65] [1, 2] [66] [] 100 [88]"

definition sample_store :: store where
  "sample_store = \<lparr>st_db = \<lparr>db_rows = ([sample_row], [], []), db_saved = None, db_aborted = False, db_faults = []\<rparr>,
     st_objects = (\<lambda>_. account_of_row 7 sample_row), st_next = 2, st_notices = []\<rparr>"

lemma sample_store_fresh [simp]:
  "steady (st_db sample_store)" "fresh o1 sample_store" "ac_id (object o1 sample_store) = 7"
  "ac_balance (object o1 sample_store) = 100" "ac_locked_balance (object o1 sample_store) = 0"
  "row_of o1 sample_store = Some sample_row" "st_next sample_store = 2"
  by (simp_all add: sample_store_def steady_def fresh_def object_def account_of_row_def sample_row_def
      new_row_def account_row_def find_account_def row_of_def)

theorem lock_unlock_roundtrip_witness:
  "\<exists>st1 st2 st3. account_lock_balance 0 30 sample_store = (True, st1)
    \<and> row_of 0 st1 = Some (sample_row\<lparr>ar_balance := 70, ar_locked_balance := 30\<rparr>)
    \<and> account_fetch 0 st1 = Inr st2 \<and> account_unlock_balance 0 30 st2 = (True, st3)
    \<and> row_of 0 st3 = Some sample_row"
proof -
  have "(30 :: 64 word) \<le> ac_balance (object 0 sample_store)"
    "unat (ac_locked_balance (object 0 sample_store)) + unat (30 :: 64 word) < 2 ^ 64" by simp_all
  then obtain r st1 st2 st3 where "row_of 0 sample_store = Some r" "account_lock_balance 0 30 sample_store = (True, st1)"
    "row_of 0 st1 = Some (r\<lparr>ar_balance := ar_balance r - 30, ar_locked_balance := ar_locked_balance r + 30\<rparr>)"
    "account_fetch 0 st1 = Inr st2" "account_unlock_balance 0 30 st2 = (True, st3)" "row_of 0 st3 = Some r"
    using lock_unlock_roundtrip [of sample_store 0 30] by auto
  then show ?thesis by (auto simp: sample_row_def new_row_def)
qed

text \<open>Balances are written as absolute numbers computed from the object in memory. When two objects
  are copies of one row, which two connections or the deposit thread have, the second addition
  erases the first.\<close>

theorem deposit_is_lost:
  assumes "steady (st_db st)" "fresh o1 st" "o1 \<noteq> o2" "ac_id (object o2 st) = ac_id (object o1 st)"
    and "ac_balance (object o2 st) = ac_balance (object o1 st)"
  shows "\<exists>st1 st2. account_add_balance o1 a st = (True, st1) \<and> account_add_balance o2 b st1 = (True, st2)
    \<and> map_option ar_balance (row_of o1 st1) = Some (ac_balance (object o1 st) + a)
    \<and> map_option ar_balance (row_of o1 st2) = Some (ac_balance (object o1 st) + b)"
proof -
  let ?i = "ac_id (object o1 st)" and ?x = "ac_balance (object o1 st)"
  obtain r where r: "row_of o1 st = Some r" using fresh_row [OF assms(2)] by blast
  obtain st1 where s1: "account_update_balance o1 (?x + a) st = (True, st1)"
    "row_changed o1 (\<lambda>r. r\<lparr>ar_balance := ?x + a\<rparr>) st st1" "\<forall>o2. o2 \<noteq> o1 \<longrightarrow> object o2 st1 = object o2 st"
    using update_balance_changes [OF assms(1)] by blast
  have o2: "object o2 st1 = object o2 st" using s1(3) assms(3) by simp
  obtain st2 where s2: "account_update_balance o2 (?x + b) st1 = (True, st2)"
    "row_changed o2 (\<lambda>r. r\<lparr>ar_balance := ?x + b\<rparr>) st1 st2"
    using update_balance_changes [OF row_changed_row(2) [OF s1(2)]] by blast
  have same: "row_of o2 st1 = row_of o1 st1" "row_of o2 st2 = row_of o1 st2"
    using row_changed_row(4) [OF s1(2)] row_changed_row(4) [OF s2(2)] assms(4) by (simp_all add: row_of_def)
  show ?thesis
    using s1(1) s2(1) o2 assms(4,5) r row_changed_row(1) [OF s1(2)] row_changed_row(1) [OF s2(2)] same
    by (simp add: account_add_balance_def)
qed

theorem deposit_is_lost_witness:
  "\<exists>st1 st2. account_add_balance 0 10 sample_store = (True, st1) \<and> account_add_balance 1 5 st1 = (True, st2)
    \<and> map_option ar_balance (row_of 0 st2) = Some 105"
  using deposit_is_lost [of sample_store 0 1 10 5] by auto

text \<open>A statement that fails changes no row, and the functions say that they succeeded.\<close>

theorem failed_transfer_reported_as_done:
  assumes "statement_fails (st_db st)"
  shows "fst (account_add_balance o1 a st) \<and> row_of o1 (snd (account_add_balance o1 a st)) = row_of o1 st
    \<and> (a \<le> ac_balance (object o1 st) \<longrightarrow> fst (account_lock_balance o1 a st)
        \<and> row_of o1 (snd (account_lock_balance o1 a st)) = row_of o1 st)"
  using assms
  by (auto simp: account_add_balance_def account_lock_balance_def move_balance_def account_update_balance_def
      Let_def with_db_def sql_select_def row_of_def account_row_def after_statement_def object_def dest: leD)

definition broken_store :: store where
  "broken_store = sample_store\<lparr>st_db := (st_db sample_store)\<lparr>db_faults := [True]\<rparr>\<rparr>"

theorem failed_transfer_reported_as_done_witness:
  "fst (account_lock_balance 0 30 broken_store) \<and> row_of 0 (snd (account_lock_balance 0 30 broken_store)) = Some sample_row"
proof -
  have "statement_fails (st_db broken_store)" "row_of 0 broken_store = Some sample_row"
    "(30 :: 64 word) \<le> ac_balance (object 0 broken_store)"
    using sample_store_fresh(4,6) [of 0]
    by (simp_all add: broken_store_def statement_fails_def row_of_def account_row_def)
  then show ?thesis using failed_transfer_reported_as_done [of broken_store 0 30] by simp
qed

text \<open>At the start of the server every locked balance goes back to its balance: no row keeps a
  locked amount, and the sum of each row stays.\<close>

theorem revert_unlocks_everything:
  assumes "steady (st_db st)"
  shows "\<exists>st'. account_revert_locked_balances st = (True, st')
    \<and> list_all2 (\<lambda>r r'. ar_id r' = ar_id r \<and> ar_locked_balance r' = 0
        \<and> ar_balance r' + ar_locked_balance r' = ar_balance r + ar_locked_balance r)
      (db_accounts (st_db st)) (db_accounts (st_db st'))"
  using assms
  by (auto simp: account_revert_locked_balances_def db_accounts_def list_all2_conv_all_nth revert_row_def
      apfst_def map_prod_def word_gt_0 split: prod.splits)

theorem revert_unlocks_everything_witness:
  "\<exists>st'. account_revert_locked_balances sample_store = (True, st')
    \<and> list_all (\<lambda>r. ar_locked_balance r = 0) (db_accounts (st_db st'))"
  using revert_unlocks_everything [of sample_store]
  by (auto simp: list_all2_conv_all_nth list_all_length)


section \<open>Creating an account and logging in\<close>

text \<open>A steady database after the insertion of the row of \<open>account_create\<close>.\<close>

lemma find_account_append:
  "find_account P (apfst (\<lambda>rows. rows @ [row]) rows) =
    (case find_account P rows of None \<Rightarrow> if P row then Some row else None | Some r \<Rightarrow> Some r)"
proof -
  have "List.find P (xs @ [row]) = (case List.find P xs of None \<Rightarrow> if P row then Some row else None | Some r \<Rightarrow> Some r)"
    for xs by (induction xs) auto
  then show ?thesis by (simp add: find_account_def apfst_def map_prod_def split_beta)
qed

lemma find_account_map:
  assumes "\<And>r. P (f r) = P r"
  shows "find_account P (set_account i f rows) = map_option (\<lambda>r. if ar_id r = i then f r else r) (find_account P rows)"
proof -
  have "List.find P (map (\<lambda>r. if ar_id r = i then f r else r) xs) = map_option (\<lambda>r. if ar_id r = i then f r else r) (List.find P xs)"
    for xs by (induction xs) (auto simp: assms)
  then show ?thesis by (simp add: find_account_def set_account_def apfst_def map_prod_def split_beta)
qed

lemma with_db_transaction [simp]:
  "steady (st_db st) \<Longrightarrow> db_saved (st_db st) = None \<Longrightarrow>
    with_db transaction_begin st = (True, st\<lparr>st_db := (st_db st)\<lparr>db_saved := Some (db_rows (st_db st))\<rparr>\<rparr>)"
  "steady (st_db st) \<Longrightarrow> with_db transaction_commit st = (True, st\<lparr>st_db := (st_db st)\<lparr>db_saved := None\<rparr>\<rparr>)"
  by (simp_all add: with_db_def)

text \<open>C25: An account created with an address of its own can be logged in to with its name and password,
  and only the row of the new account has been added.\<close>

theorem create_then_login:
  assumes "steady (st_db st)" "db_saved (st_db st) = None" "create_address (atoi_id (ch_index ch)) = Some address"
    and "na_address na = None"
    and "find_account (\<lambda>r. ar_id_token r = sql_text (na_id_token na)) (db_rows (st_db st)) = None"
  shows "\<exists>o1 st1 o2 st2. account_create md5 create_address ch na st = Inr ((Some o1, False), st1)
    \<and> account_getby_credentials md5 (na_id_token na) (na_password na) st1 = (Some o2, st2)
    \<and> ac_id (object o2 st2) = atoi_id (ch_id ch) \<and> ac_balance (object o2 st2) = na_balance na
    \<and> ac_name (object o2 st2) = sql_text (na_name na) \<and> ac_avatar (object o2 st2) = na_avatar na
    \<and> ac_xmr_deposit_address (object o2 st2) = sql_text address
    \<and> (\<forall>j. j \<noteq> ch_id ch \<longrightarrow> account_row j (st_db st1) = account_row j (st_db st))"
proof -
  let ?i = "ch_id ch" and ?rows = "db_rows (st_db st)"
  let ?row = "new_row ?i (ch_index ch) (na_id_token na) (md5 (na_password na)) (na_name na) (na_avatar na) (na_balance na) []"
  let ?rows' = "set_account ?i (\<lambda>r. r\<lparr>ar_xmr_deposit_address := sql_text address\<rparr>) (apfst (\<lambda>rows. rows @ [?row]) ?rows)"
  let ?P = "\<lambda>r. ar_id_token r = sql_text (na_id_token na) \<and> ar_password r = md5 (na_password na)"
  obtain o1 st1 where c: "account_create md5 create_address ch na st = Inr ((Some o1, False), st1)"
    and rows: "db_rows (st_db st1) = ?rows'" and st1: "steady (st_db st1)"
    using assms(1-4) by (simp add: account_create_def Let_def account_new_def)
  have "find_account ?P ?rows = None"
    using assms(5) by (auto simp: find_account_def find_None_iff)
  then have "find_account ?P ?rows' = Some (?row\<lparr>ar_xmr_deposit_address := sql_text address\<rparr>)"
    by (simp add: find_account_map find_account_append new_row_def)
  then obtain o2 st2 where l: "account_getby_credentials md5 (na_id_token na) (na_password na) st1 = (Some o2, st2)"
    and o2: "object o2 st2 = account_of_row (atoi_id ?i) (?row\<lparr>ar_xmr_deposit_address := sql_text address\<rparr>)"
    using st1 rows by (simp add: account_getby_credentials_def account_read_def account_new_def object_def
        account_of_row_def new_row_def)
  have "account_row j (st_db st1) = account_row j (st_db st)" if "j \<noteq> ?i" for j
    using that rows by (auto simp: account_row_def find_account_set find_account_append new_row_def split: option.splits)
  then show ?thesis using c l o2 by (simp add: account_of_row_def new_row_def)
qed

theorem create_then_login_witness:
  "\<exists>o1 st1 o2 st2. account_create (\<lambda>bs. bs) (\<lambda>_. Some [77]) \<lparr>ch_id = 8, ch_index = 2, ch_garbage_index = 0, ch_garbage_height = 0\<rparr>
      \<lparr>na_id_token = [70], na_password = [9], na_name = [71], na_avatar = [], na_balance = 5, na_address = None\<rparr> sample_store
      = Inr ((Some o1, False), st1)
    \<and> account_getby_credentials (\<lambda>bs. bs) [70] [9] st1 = (Some o2, st2) \<and> ac_balance (object o2 st2) = 5"
proof -
  have "find_account (\<lambda>r. ar_id_token r = sql_text [70]) (db_rows (st_db sample_store)) = None"
    "db_saved (st_db sample_store) = None"
    by (simp_all add: sample_store_def sample_row_def new_row_def sql_text_def find_account_def account_row_def)
  then show ?thesis
    using create_then_login [of sample_store "\<lambda>_. Some [77]"
        "\<lparr>ch_id = 8, ch_index = 2, ch_garbage_index = 0, ch_garbage_height = 0\<rparr>" "[77]"
        "\<lparr>na_id_token = [70], na_password = [9], na_name = [71], na_avatar = [], na_balance = 5, na_address = None\<rparr>"
        "\<lambda>bs. bs"] by auto
qed

text \<open>When the insertion fails, as for a name that is taken, the function reads a pointer it has not
  initialised instead of reporting that the account exists.\<close>

theorem taken_name_reads_garbage:
  assumes "db_faults (st_db st) = [False, True]" "\<not> db_aborted (st_db st)"
  shows "account_create md5 create_address ch na st = Inl UninitRead"
  using assms
  by (simp add: account_create_def Let_def with_db_def transaction_begin_def statement_fails_def
      after_statement_def sql_update_def)

theorem taken_name_reads_garbage_witness:
  "account_create (\<lambda>bs. bs) (\<lambda>_. None) \<lparr>ch_id = 8, ch_index = 2, ch_garbage_index = 0, ch_garbage_height = 0\<rparr>
     \<lparr>na_id_token = [65], na_password = [9], na_name = [71], na_avatar = [], na_balance = 5, na_address = None\<rparr>
     (sample_store\<lparr>st_db := (st_db sample_store)\<lparr>db_faults := [False, True]\<rparr>\<rparr>) = Inl UninitRead"
  by (rule taken_name_reads_garbage) (simp_all add: sample_store_def)

end
