(* ===== verification/Eventloop.thy ===== *)
theory Eventloop
  imports RefCount
begin

text \<open>
  The event loop of \<open>src/src/eventloop.c\<close>: one queue of tasks that every thread may add to and
  one thread takes from, and the threads that sleep before they add a delayed task. Tasks are
  named by number in a store; \<open>et_what\<close> is the function a task calls with its parameters. Every
  change of the queue is made under the mutex of the loop, so an interleaving of the threads is a
  sequence of the operations below. The reference counts are kept, because a task is freed while
  other threads may still name it.
\<close>

section \<open>Data\<close>

record 't evtask =
  et_ref :: ref_counted
  et_what :: 't
  et_delay :: int
  et_queued :: bool
  et_popped :: bool
  et_called :: bool
  et_cancelled :: bool

text \<open>\<open>el_sleeping\<close> are the threads of delayed tasks: the task, and whether it goes to the front.\<close>

record 't eventloop =
  el_running :: bool
  el_queue :: "nat list"
  el_store :: "nat \<Rightarrow> 't evtask"
  el_next :: nat
  el_sleeping :: "(nat \<times> bool) list"

definition eventloop_new :: "(nat \<Rightarrow> 't evtask) \<Rightarrow> 't eventloop" where
  "eventloop_new memory = \<lparr>el_running = False, el_queue = [], el_store = memory, el_next = 0, el_sleeping = []\<rparr>"

definition the_task :: "'t eventloop \<Rightarrow> nat \<Rightarrow> 't evtask" where
  "the_task el i = el_store el i"

definition upd_task :: "nat \<Rightarrow> ('t evtask \<Rightarrow> 't evtask) \<Rightarrow> 't eventloop \<Rightarrow> 't eventloop" where
  "upd_task i f el = el\<lparr>el_store := (el_store el)(i := f (el_store el i))\<rparr>"

definition task_use :: "nat \<Rightarrow> 't eventloop \<Rightarrow> 't eventloop" where
  "task_use i = upd_task i (\<lambda>t. t\<lparr>et_ref := ref_counted_use (et_ref t)\<rparr>)"

definition task_leave :: "nat \<Rightarrow> 't eventloop \<Rightarrow> 't eventloop" where
  "task_leave i = upd_task i (\<lambda>t. t\<lparr>et_ref := ref_counted_leave (et_ref t)\<rparr>)"

section \<open>The queue\<close>

definition task_new :: "'t \<Rightarrow> 't eventloop \<Rightarrow> nat \<times> 't eventloop" where
  "task_new t el =
    (let i = el_next el
     in (i, (upd_task i (\<lambda>_. \<lparr>et_ref = ref_counted_init, et_what = t, et_delay = 0, et_queued = False,
           et_popped = False, et_called = False, et_cancelled = False\<rparr>) el)\<lparr>el_next := i + 1\<rparr>))"

definition tasks_push :: "nat \<Rightarrow> 't eventloop \<Rightarrow> 't eventloop" where
  "tasks_push i el =
    upd_task i (\<lambda>t. t\<lparr>et_queued := True\<rparr>) ((task_use i el)\<lparr>el_queue := el_queue el @ [i]\<rparr>)"

definition tasks_prepend :: "nat \<Rightarrow> 't eventloop \<Rightarrow> 't eventloop" where
  "tasks_prepend i el =
    upd_task i (\<lambda>t. t\<lparr>et_queued := True\<rparr>) ((task_use i el)\<lparr>el_queue := i # el_queue el\<rparr>)"

definition tasks_pop :: "'t eventloop \<Rightarrow> nat option \<times> 't eventloop" where
  "tasks_pop el = (case el_queue el of
      [] \<Rightarrow> (None, el)
    | i # is \<Rightarrow> (Some i, task_leave i ((upd_task i (\<lambda>t. t\<lparr>et_popped := True\<rparr>) el)\<lparr>el_queue := is\<rparr>)))"

definition tasks_remove :: "nat \<Rightarrow> 't eventloop \<Rightarrow> 't eventloop" where
  "tasks_remove i el = task_leave i (el\<lparr>el_queue := remove1 i (el_queue el)\<rparr>)"

section \<open>Calls\<close>

definition task_call :: "nat \<Rightarrow> 't eventloop \<Rightarrow> 't eventloop" where
  "task_call i el = tasks_push i (task_use i el)"

definition task_call_immediate :: "nat \<Rightarrow> 't eventloop \<Rightarrow> 't eventloop" where
  "task_call_immediate i el = tasks_prepend i (task_use i el)"

text \<open>One reference is for the task in flight and one for the thread that is started.\<close>

definition task_call_after :: "nat \<Rightarrow> int \<Rightarrow> 't eventloop \<Rightarrow> 't eventloop" where
  "task_call_after i delay el =
    (let el = upd_task i (\<lambda>t. t\<lparr>et_delay := delay\<rparr>) (task_use i (task_use i el))
     in el\<lparr>el_sleeping := el_sleeping el @ [(i, False)]\<rparr>)"

definition task_call_immediate_after :: "nat \<Rightarrow> int \<Rightarrow> 't eventloop \<Rightarrow> 't eventloop" where
  "task_call_immediate_after i delay el =
    (let el = upd_task i (\<lambda>t. t\<lparr>et_delay := delay\<rparr>) (task_use i (task_use i el))
     in el\<lparr>el_sleeping := el_sleeping el @ [(i, True)]\<rparr>)"

definition eventloop_call :: "'t \<Rightarrow> 't eventloop \<Rightarrow> nat \<times> 't eventloop" where
  "eventloop_call t el = (case task_new t el of (i, el) \<Rightarrow> (i, tasks_push i (task_use i el)))"

definition eventloop_call_immediate :: "'t \<Rightarrow> 't eventloop \<Rightarrow> nat \<times> 't eventloop" where
  "eventloop_call_immediate t el = (case task_new t el of (i, el) \<Rightarrow> (i, tasks_prepend i (task_use i el)))"

definition eventloop_call_after :: "'t \<Rightarrow> int \<Rightarrow> 't eventloop \<Rightarrow> nat \<times> 't eventloop" where
  "eventloop_call_after t delay el = (case task_new t el of (i, el) \<Rightarrow> (i, task_call_after i delay el))"

definition eventloop_call_immediate_after :: "'t \<Rightarrow> int \<Rightarrow> 't eventloop \<Rightarrow> nat \<times> 't eventloop" where
  "eventloop_call_immediate_after t delay el =
    (case task_new t el of (i, el) \<Rightarrow> (i, task_call_immediate_after i delay el))"

text \<open>\<open>pkrsrv_eventloop_call_after_thread_f\<close> and \<open>pkrsrv_eventloop_call_immediate_after_thread_f\<close>
  once the sleep is over.\<close>

definition thread_wakes :: "nat \<Rightarrow> bool \<Rightarrow> 't eventloop \<Rightarrow> 't eventloop" where
  "thread_wakes i immediate el =
    (let el = el\<lparr>el_sleeping := remove1 (i, immediate) (el_sleeping el)\<rparr>;
         el = (if \<not> et_cancelled (the_task el i)
               then if immediate then tasks_prepend i el else tasks_push i el
               else task_leave i el)
     in task_leave i el)"

definition task_cancel :: "nat \<Rightarrow> 't eventloop \<Rightarrow> 't eventloop" where
  "task_cancel i el =
    (if et_cancelled (the_task el i) then el
     else
       let el = upd_task i (\<lambda>t. t\<lparr>et_cancelled := True\<rparr>) el
       in if et_queued (the_task el i) \<and> \<not> et_popped (the_task el i) then tasks_remove i el else el)"

section \<open>The loop\<close>

text \<open>One turn of \<open>pkrsrv_eventloop_run\<close>: the task is taken under the mutex, run if it is not
  cancelled, marked and given up. \<open>run\<close> is what the function of the task does with the loop.\<close>

definition finish_task :: "nat \<Rightarrow> bool \<Rightarrow> 't eventloop \<Rightarrow> 't eventloop" where
  "finish_task i is_cancelled el =
    task_leave i (if is_cancelled then el else upd_task i (\<lambda>t. t\<lparr>et_called := True\<rparr>) el)"

definition eventloop_turn :: "('t \<Rightarrow> 't eventloop \<Rightarrow> 't eventloop) \<Rightarrow> 't eventloop \<Rightarrow> 't eventloop" where
  "eventloop_turn run el = (case tasks_pop el of
      (None, el) \<Rightarrow> el
    | (Some i, el) \<Rightarrow>
        let is_cancelled = et_cancelled (the_task el i);
            el = (if is_cancelled then el else run (et_what (the_task el i)) el)
        in finish_task i is_cancelled el)"

definition eventloop_stop :: "'t eventloop \<Rightarrow> 't eventloop" where
  "eventloop_stop el = el\<lparr>el_running := False\<rparr>"

text \<open>A loop that is stopped while it waits gives up what is queued.\<close>

definition drain :: "'t eventloop \<Rightarrow> 't eventloop" where
  "drain el = fold (\<lambda>i el. task_leave i (tasks_remove i el)) (el_queue el) el"

section \<open>Frame lemmas\<close>

lemma the_task_upd [simp]:
  "the_task (upd_task i f el) j = (if j = i then f (the_task el i) else the_task el j)"
  by (simp add: the_task_def upd_task_def)

lemma the_task_fields [simp]:
  "the_task (el\<lparr>el_queue := q\<rparr>) = the_task el" "the_task (el\<lparr>el_sleeping := s\<rparr>) = the_task el"
  "the_task (el\<lparr>el_next := n\<rparr>) = the_task el" "the_task (el\<lparr>el_running := b\<rparr>) = the_task el"
  by (simp_all add: the_task_def fun_eq_iff)

lemma upd_task_fields [simp]:
  "el_queue (upd_task i f el) = el_queue el" "el_sleeping (upd_task i f el) = el_sleeping el"
  "el_next (upd_task i f el) = el_next el" "el_running (upd_task i f el) = el_running el"
  by (simp_all add: upd_task_def)

lemmas loop_defs = task_use_def task_leave_def tasks_push_def tasks_prepend_def tasks_pop_def tasks_remove_def
  task_call_def task_call_immediate_def task_call_after_def task_call_immediate_after_def task_new_def
  eventloop_call_def eventloop_call_immediate_def eventloop_call_after_def eventloop_call_immediate_after_def
  thread_wakes_def task_cancel_def finish_task_def

end
