(* ===== verification/Eventloop_Safety.thy ===== *)
theory Eventloop_Safety
  imports Eventloop "HOL-Library.Sublist"
begin

text \<open>
  The event loop as a transition system: the steps of the threads that post and cancel tasks, of
  the sleeping threads and of the loop itself, in any order. The invariant \<open>loop_ok\<close> relates the
  flags of a task and its reference count to where the task is; from it come the safety of the
  memory, that a task runs at most once and never after it was cancelled in time, and that tasks
  run in the order of the queue.
\<close>

text \<open>\<open>rn_owners\<close> counts the references that the program keeps for itself, \<open>rn_current\<close> is the task
  taken and whether it was cancelled then, and \<open>rn_runs\<close> are the tasks run so far.\<close>

record 't running =
  rn_loop :: "'t eventloop"
  rn_current :: "(nat \<times> bool) option"
  rn_runs :: "nat list"
  rn_owners :: "nat \<Rightarrow> nat"

abbreviation task_of :: "'t running \<Rightarrow> nat \<Rightarrow> 't evtask" where
  "task_of s i \<equiv> the_task (rn_loop s) i"

abbreviation live_task :: "'t running \<Rightarrow> nat \<Rightarrow> bool" where
  "live_task s i \<equiv> 0 < rc_count (et_ref (task_of s i))"

inductive ev_step :: "'t running \<Rightarrow> 't running \<Rightarrow> bool" where
  Call: "ev_step s (s\<lparr>rn_loop := snd (eventloop_call t (rn_loop s))\<rparr>)"
| CallImmediate: "ev_step s (s\<lparr>rn_loop := snd (eventloop_call_immediate t (rn_loop s))\<rparr>)"
| CallAfter: "ev_step s (s\<lparr>rn_loop := snd (eventloop_call_after t d (rn_loop s))\<rparr>)"
| CallImmediateAfter: "ev_step s (s\<lparr>rn_loop := snd (eventloop_call_immediate_after t d (rn_loop s))\<rparr>)"
| Own: "i < el_next (rn_loop s) \<Longrightarrow> live_task s i \<Longrightarrow>
    ev_step s (s\<lparr>rn_loop := task_use i (rn_loop s), rn_owners := (rn_owners s)(i := rn_owners s i + 1)\<rparr>)"
| Disown: "i < el_next (rn_loop s) \<Longrightarrow> 0 < rn_owners s i \<Longrightarrow>
    ev_step s (s\<lparr>rn_loop := task_leave i (rn_loop s), rn_owners := (rn_owners s)(i := rn_owners s i - 1)\<rparr>)"
| Cancel: "i < el_next (rn_loop s) \<Longrightarrow> live_task s i \<Longrightarrow> ev_step s (s\<lparr>rn_loop := task_cancel i (rn_loop s)\<rparr>)"
| Wake: "(i, imm) \<in> set (el_sleeping (rn_loop s)) \<Longrightarrow> ev_step s (s\<lparr>rn_loop := thread_wakes i imm (rn_loop s)\<rparr>)"
| Take: "rn_current s = None \<Longrightarrow> tasks_pop (rn_loop s) = (Some i, el) \<Longrightarrow>
    ev_step s (s\<lparr>rn_loop := el, rn_current := Some (i, et_cancelled (the_task el i)),
      rn_runs := (if et_cancelled (the_task el i) then rn_runs s else rn_runs s @ [i])\<rparr>)"
| Finish: "rn_current s = Some (i, cancelled) \<Longrightarrow>
    ev_step s (s\<lparr>rn_loop := finish_task i cancelled (rn_loop s), rn_current := None\<rparr>)"

inductive_cases ev_stepE: "ev_step s s'"

definition running_new :: "'t eventloop \<Rightarrow> 't running" where
  "running_new el = \<lparr>rn_loop = el, rn_current = None, rn_runs = [], rn_owners = (\<lambda>_. 0)\<rparr>"

definition ev_reachable :: "(nat \<Rightarrow> 't evtask) \<Rightarrow> 't running \<Rightarrow> bool" where
  "ev_reachable memory s \<longleftrightarrow> ev_step\<^sup>*\<^sup>* (running_new (eventloop_new memory)) s"

section \<open>The invariant\<close>

text \<open>The references to a task: of the queue, of its thread, of those who own it, and the one for
  the task in flight, which a task cancelled in the queue keeps for ever.\<close>

definition in_flight :: "'t running \<Rightarrow> nat \<Rightarrow> bool" where
  "in_flight s i \<longleftrightarrow> i \<in> set (el_queue (rn_loop s)) \<or> i \<in> fst ` set (el_sleeping (rn_loop s)) \<or> i \<in> fst ` set_option (rn_current s)"

definition leaked :: "'t running \<Rightarrow> nat \<Rightarrow> bool" where
  "leaked s i \<longleftrightarrow> et_queued (task_of s i) \<and> et_cancelled (task_of s i) \<and> \<not> et_popped (task_of s i)"

definition references :: "'t running \<Rightarrow> nat \<Rightarrow> int" where
  "references s i = of_bool (i \<in> set (el_queue (rn_loop s))) + of_bool (i \<in> fst ` set (el_sleeping (rn_loop s)))
     + of_bool (in_flight s i \<or> leaked s i) + int (rn_owners s i)"

definition task_ok :: "'t running \<Rightarrow> nat \<Rightarrow> bool" where
  "task_ok s i \<longleftrightarrow>
     rc_count (et_ref (task_of s i)) = references s i
   \<and> rc_frees (et_ref (task_of s i)) = of_bool (references s i = 0)
   \<and> (i \<in> set (el_queue (rn_loop s)) \<longleftrightarrow> et_queued (task_of s i) \<and> \<not> et_popped (task_of s i)
        \<and> \<not> et_cancelled (task_of s i))
   \<and> (i \<in> fst ` set (el_sleeping (rn_loop s)) \<longrightarrow> \<not> et_queued (task_of s i) \<and> \<not> et_popped (task_of s i))
   \<and> (i \<in> set (rn_runs s) \<or> i \<in> fst ` set_option (rn_current s) \<longrightarrow> et_popped (task_of s i))
   \<and> (et_popped (task_of s i) \<longrightarrow> i \<in> set (rn_runs s))"

definition loop_ok :: "'t running \<Rightarrow> bool" where
  "loop_ok s \<longleftrightarrow> (\<forall>i < el_next (rn_loop s). task_ok s i)
     \<and> distinct (el_queue (rn_loop s)) \<and> distinct (map fst (el_sleeping (rn_loop s))) \<and> distinct (rn_runs s)
     \<and> (\<forall>i. in_flight s i \<or> i \<in> set (rn_runs s) \<or> 0 < rn_owners s i \<longrightarrow> i < el_next (rn_loop s))"

lemma loop_okD:
  assumes "loop_ok s"
  shows "i < el_next (rn_loop s) \<Longrightarrow> task_ok s i" "distinct (el_queue (rn_loop s))"
    "distinct (map fst (el_sleeping (rn_loop s)))" "distinct (rn_runs s)"
    "in_flight s i \<Longrightarrow> i < el_next (rn_loop s)" "i \<in> set (rn_runs s) \<Longrightarrow> i < el_next (rn_loop s)"
    "0 < rn_owners s i \<Longrightarrow> i < el_next (rn_loop s)"
  using assms by (auto simp: loop_ok_def)

lemmas task_ok_simps = task_ok_def references_def in_flight_def leaked_def
lemmas ref_simps = ref_counted_use_def ref_counted_leave_def ref_counted_init_def Let_def

text \<open>A step keeps the invariant if it keeps it for the task it is about and leaves the others, and
  the place of the others, as they were.\<close>

definition same_place :: "'t running \<Rightarrow> 't running \<Rightarrow> nat \<Rightarrow> bool" where
  "same_place s s' j \<longleftrightarrow> task_of s' j = task_of s j
    \<and> (j \<in> set (el_queue (rn_loop s')) \<longleftrightarrow> j \<in> set (el_queue (rn_loop s)))
    \<and> (j \<in> fst ` set (el_sleeping (rn_loop s')) \<longleftrightarrow> j \<in> fst ` set (el_sleeping (rn_loop s)))
    \<and> (j \<in> fst ` set_option (rn_current s') \<longleftrightarrow> j \<in> fst ` set_option (rn_current s))
    \<and> (j \<in> set (rn_runs s') \<longleftrightarrow> j \<in> set (rn_runs s)) \<and> rn_owners s' j = rn_owners s j"

lemma one_task:
  assumes ok: "loop_ok s" and i: "task_ok s' i" "i < el_next (rn_loop s')"
    and others: "\<And>j. j \<noteq> i \<Longrightarrow> same_place s s' j"
    and next': "el_next (rn_loop s') = el_next (rn_loop s)
      \<or> el_next (rn_loop s') = Suc (el_next (rn_loop s)) \<and> i = el_next (rn_loop s)"
    and d: "distinct (el_queue (rn_loop s'))" "distinct (map fst (el_sleeping (rn_loop s')))" "distinct (rn_runs s')"
  shows "loop_ok s'"
proof -
  have "task_ok s' j" if "j < el_next (rn_loop s')" for j
  proof (cases "j = i")
    case False
    then have "j < el_next (rn_loop s)" using that next' by auto
    then have "task_ok s j" by (rule loop_okD(1) [OF ok])
    with others [OF False] show ?thesis
      unfolding same_place_def task_ok_simps by (elim conjE) (simp only: simp_thms)
  qed (simp add: i)
  moreover have "j < el_next (rn_loop s')" if "in_flight s' j \<or> j \<in> set (rn_runs s') \<or> 0 < rn_owners s' j" for j
  proof (cases "j = i")
    case False
    then have "in_flight s j \<or> j \<in> set (rn_runs s) \<or> 0 < rn_owners s j"
      using that others [OF False] by (simp add: same_place_def in_flight_def)
    then show ?thesis using loop_okD(5-7) [OF ok] next' less_Suc_eq by auto
  qed (simp add: i)
  ultimately show ?thesis using d by (simp add: loop_ok_def)
qed

section \<open>The steps keep the invariant\<close>

lemma new_task_fresh:
  assumes "loop_ok s"
  shows "el_next (rn_loop s) \<notin> set (el_queue (rn_loop s))" "el_next (rn_loop s) \<notin> fst ` set (el_sleeping (rn_loop s))"
    "el_next (rn_loop s) \<notin> fst ` set_option (rn_current s)" "el_next (rn_loop s) \<notin> set (rn_runs s)"
    "rn_owners s (el_next (rn_loop s)) = 0"
  using loop_okD(5,6,7) [OF assms, of "el_next (rn_loop s)"] by (auto simp: in_flight_def)

lemma call_ok:
  assumes "loop_ok s"
  shows "loop_ok (s\<lparr>rn_loop := snd (eventloop_call t (rn_loop s))\<rparr>)"
  using new_task_fresh [OF assms] loop_okD(2-4) [OF assms]
  by (intro one_task [OF assms, where i = "el_next (rn_loop s)"])
    (simp_all add: task_ok_simps same_place_def loop_defs ref_simps)

lemma call_immediate_ok:
  assumes "loop_ok s"
  shows "loop_ok (s\<lparr>rn_loop := snd (eventloop_call_immediate t (rn_loop s))\<rparr>)"
  using new_task_fresh [OF assms] loop_okD(2-4) [OF assms]
  by (intro one_task [OF assms, where i = "el_next (rn_loop s)"])
    (simp_all add: task_ok_simps same_place_def loop_defs ref_simps)

lemma call_after_ok:
  assumes "loop_ok s"
  shows "loop_ok (s\<lparr>rn_loop := snd (eventloop_call_after t d (rn_loop s))\<rparr>)"
  using new_task_fresh [OF assms] loop_okD(2-4) [OF assms]
  by (intro one_task [OF assms, where i = "el_next (rn_loop s)"])
    (simp_all add: task_ok_simps same_place_def loop_defs ref_simps)

lemma call_immediate_after_ok:
  assumes "loop_ok s"
  shows "loop_ok (s\<lparr>rn_loop := snd (eventloop_call_immediate_after t d (rn_loop s))\<rparr>)"
  using new_task_fresh [OF assms] loop_okD(2-4) [OF assms]
  by (intro one_task [OF assms, where i = "el_next (rn_loop s)"])
    (simp_all add: task_ok_simps same_place_def loop_defs ref_simps)

text \<open>What the invariant says of a task, as separate facts.\<close>

lemma task_okD:
  assumes "task_ok s i"
  shows "rc_count (et_ref (task_of s i)) = references s i"
    "rc_frees (et_ref (task_of s i)) = of_bool (references s i = 0)"
    "i \<in> set (el_queue (rn_loop s)) \<Longrightarrow> et_queued (task_of s i)"
    "i \<in> set (el_queue (rn_loop s)) \<Longrightarrow> \<not> et_popped (task_of s i)"
    "i \<in> set (el_queue (rn_loop s)) \<Longrightarrow> \<not> et_cancelled (task_of s i)"
    "i \<in> set (el_queue (rn_loop s)) \<Longrightarrow> i \<notin> fst ` set (el_sleeping (rn_loop s))"
    "et_queued (task_of s i) \<Longrightarrow> \<not> et_popped (task_of s i) \<Longrightarrow> \<not> et_cancelled (task_of s i) \<Longrightarrow> i \<in> set (el_queue (rn_loop s))"
    "i \<in> fst ` set (el_sleeping (rn_loop s)) \<Longrightarrow> \<not> et_queued (task_of s i)"
    "i \<in> fst ` set (el_sleeping (rn_loop s)) \<Longrightarrow> \<not> et_popped (task_of s i)"
    "i \<in> set (rn_runs s) \<Longrightarrow> et_popped (task_of s i)"
    "i \<in> fst ` set_option (rn_current s) \<Longrightarrow> et_popped (task_of s i)"
    "et_popped (task_of s i) \<Longrightarrow> i \<in> set (rn_runs s)"
  using assms unfolding task_ok_def by blast+

lemma same_place_owner [simp]:
  "j \<noteq> i \<Longrightarrow> same_place s (s\<lparr>rn_loop := upd_task i f (rn_loop s), rn_owners := (rn_owners s)(i := n)\<rparr>) j"
  by (simp add: same_place_def)

lemma owner_ok:
  assumes ok: "loop_ok s" and i: "i < el_next (rn_loop s)"
    and counts: "rc_count (r (et_ref (task_of s i))) = references s i + int n - int (rn_owners s i)"
      "rc_frees (r (et_ref (task_of s i))) = of_bool (references s i + int n - int (rn_owners s i) = 0)"
  shows "loop_ok (s\<lparr>rn_loop := upd_task i (\<lambda>t. t\<lparr>et_ref := r (et_ref t)\<rparr>) (rn_loop s),
    rn_owners := (rn_owners s)(i := n)\<rparr>)" (is "loop_ok ?s")
proof (rule one_task [OF ok, where i = i])
  have refs: "references ?s i = references s i + int n - int (rn_owners s i)"
    by (simp add: references_def in_flight_def leaked_def)
  show "task_ok ?s i"
    using loop_okD(1) [OF ok i] counts unfolding task_ok_def refs by simp
qed (use loop_okD(2-4) [OF ok] i in simp_all)

lemma own_ok:
  assumes "loop_ok s" "i < el_next (rn_loop s)" "live_task s i"
  shows "loop_ok (s\<lparr>rn_loop := task_use i (rn_loop s), rn_owners := (rn_owners s)(i := rn_owners s i + 1)\<rparr>)"
  using task_okD(1,2) [OF loop_okD(1) [OF assms(1,2)]] assms(3) unfolding task_use_def
  by (intro owner_ok [OF assms(1,2)]) (simp_all add: ref_counted_use_def)

lemma disown_ok:
  assumes "loop_ok s" "i < el_next (rn_loop s)" "0 < rn_owners s i"
  shows "loop_ok (s\<lparr>rn_loop := task_leave i (rn_loop s), rn_owners := (rn_owners s)(i := rn_owners s i - 1)\<rparr>)"
proof -
  have "0 < references s i" using assms(3) by (simp add: references_def)
  then show ?thesis
    using task_okD(1,2) [OF loop_okD(1) [OF assms(1,2)]] assms(3) unfolding task_leave_def
    by (intro owner_ok [OF assms(1,2)]) (auto simp add: ref_counted_leave_def Let_def of_nat_diff)
qed

lemma cancel_ok:
  assumes ok: "loop_ok s" and i: "i < el_next (rn_loop s)"
  shows "loop_ok (s\<lparr>rn_loop := task_cancel i (rn_loop s)\<rparr>)" (is "loop_ok ?s")
proof (cases "et_cancelled (task_of s i)")
  case True
  then show ?thesis using ok by (simp add: task_cancel_def)
next
  case False
  note t = loop_okD(1) [OF ok i]
  show ?thesis
  proof (rule one_task [OF ok, where i = i])
    show "task_ok ?s i"
    proof (cases "et_queued (task_of s i) \<and> \<not> et_popped (task_of s i)")
      case True
      then have q: "i \<in> set (el_queue (rn_loop s))" "i \<notin> fst ` set (el_sleeping (rn_loop s))"
        "i \<notin> fst ` set_option (rn_current s)" "i \<notin> set (rn_runs s)"
        using task_okD(6,7,9,10,11) [OF t] False by auto
      then have "2 \<le> references s i" "references ?s i = references s i - 1"
        using True False loop_okD(2) [OF ok]
        by (simp_all add: references_def in_flight_def leaked_def task_cancel_def tasks_remove_def task_leave_def)
      then show ?thesis using task_okD(1,2) [OF t] True False q loop_okD(2) [OF ok]
        unfolding task_ok_def
        by (simp add: task_cancel_def tasks_remove_def task_leave_def ref_counted_leave_def Let_def)
    next
      case no: False
      have c: "task_cancel i (rn_loop s) = upd_task i (\<lambda>t. t\<lparr>et_cancelled := True\<rparr>) (rn_loop s)"
        using no False by (auto simp: task_cancel_def Let_def)
      have eqs: "references ?s i = references s i" "el_queue (rn_loop ?s) = el_queue (rn_loop s)"
        "el_sleeping (rn_loop ?s) = el_sleeping (rn_loop s)"
        "task_of ?s i = (task_of s i)\<lparr>et_cancelled := True\<rparr>"
        using no False unfolding references_def in_flight_def leaked_def by (auto simp: c)
      have "i \<notin> set (el_queue (rn_loop s))" using task_okD(3,4) [OF t] no by blast
      with t no show ?thesis unfolding task_ok_def eqs by (elim conjE) simp
    qed
  qed (use loop_okD(2-4) [OF ok] i in \<open>simp_all add: task_cancel_def tasks_remove_def task_leave_def same_place_def Let_def\<close>)
qed

lemma distinct_map_remove1: "distinct (map f xs) \<Longrightarrow> distinct (map f (remove1 x xs))"
  by (induction xs) (auto dest: notin_set_remove1 intro: imageI, meson image_iff notin_set_remove1)

text \<open>When a thread wakes, its task goes to the queue or, if cancelled, loses its last two references.\<close>

lemma wake_effect:
  assumes ok: "loop_ok s" and w: "(i, imm) \<in> set (el_sleeping (rn_loop s))"
  defines "s' \<equiv> s\<lparr>rn_loop := thread_wakes i imm (rn_loop s)\<rparr>"
  shows "el_sleeping (rn_loop s') = remove1 (i, imm) (el_sleeping (rn_loop s))"
    "i \<notin> fst ` set (el_sleeping (rn_loop s'))"
    "el_queue (rn_loop s') = (if et_cancelled (task_of s i) then el_queue (rn_loop s)
       else if imm then i # el_queue (rn_loop s) else el_queue (rn_loop s) @ [i])"
    "j \<noteq> i \<Longrightarrow> same_place s s' j" "el_next (rn_loop s') = el_next (rn_loop s)"
    "rn_current s' = rn_current s" "rn_runs s' = rn_runs s" "rn_owners s' = rn_owners s"
    "task_of s' i = (task_of s i)\<lparr>et_queued := et_queued (task_of s i) \<or> \<not> et_cancelled (task_of s i),
       et_ref := (if et_cancelled (task_of s i) then ref_counted_leave (ref_counted_leave (et_ref (task_of s i)))
         else ref_counted_leave (ref_counted_use (et_ref (task_of s i))))\<rparr>"
proof -
  show *: "el_sleeping (rn_loop s') = remove1 (i, imm) (el_sleeping (rn_loop s))"
    by (simp add: s'_def loop_defs Let_def)
  have d: "distinct (map fst (el_sleeping (rn_loop s)))" by (rule loop_okD(3) [OF ok])
  then have "distinct (el_sleeping (rn_loop s))" by (simp add: distinct_map)
  then have set: "set (remove1 (i, imm) (el_sleeping (rn_loop s))) = set (el_sleeping (rn_loop s)) - {(i, imm)}" by simp
  show "i \<notin> fst ` set (el_sleeping (rn_loop s'))"
    unfolding * set using w by (auto dest: eq_key_imp_eq_value [OF d w])
  show "j \<noteq> i \<Longrightarrow> same_place s s' j"
  proof -
    assume "j \<noteq> i"
    then have "j \<in> fst ` set (el_sleeping (rn_loop s')) \<longleftrightarrow> j \<in> fst ` set (el_sleeping (rn_loop s))"
      unfolding * set by force
    then show ?thesis using \<open>j \<noteq> i\<close> unfolding same_place_def by (simp add: s'_def loop_defs Let_def)
  qed
qed (simp_all add: s'_def loop_defs Let_def)

lemma wake_ok:
  assumes ok: "loop_ok s" and w: "(i, imm) \<in> set (el_sleeping (rn_loop s))"
  shows "loop_ok (s\<lparr>rn_loop := thread_wakes i imm (rn_loop s)\<rparr>)" (is "loop_ok ?s")
proof -
  note e = wake_effect [OF ok w]
  have sl: "i \<in> fst ` set (el_sleeping (rn_loop s))" using w by force
  then have i: "i < el_next (rn_loop s)" using loop_okD(5) [OF ok] by (simp add: in_flight_def)
  note t = loop_okD(1) [OF ok i]
  have q: "i \<notin> set (el_queue (rn_loop s))" "\<not> et_queued (task_of s i)" "\<not> et_popped (task_of s i)"
    "i \<notin> fst ` set_option (rn_current s)" "i \<notin> set (rn_runs s)"
    using task_okD(6,8,9,10,11) [OF t] sl by blast+
  then have "references s i = 2 + int (rn_owners s i)"
    "references ?s i = (if et_cancelled (task_of s i) then 0 else 2) + int (rn_owners s i)"
    using sl e(2) unfolding references_def in_flight_def leaked_def e(3,6,8,9) by simp_all
  then have "task_ok ?s i"
    using task_okD(1,2) [OF t] e(2) q unfolding task_ok_def e(3,6,7,9)
    by (auto simp add: ref_simps)
  then show ?thesis
  proof (rule one_task [OF ok])
    show "distinct (map fst (el_sleeping (rn_loop ?s)))"
      unfolding e(1) using loop_okD(3) [OF ok] by (rule distinct_map_remove1)
    show "distinct (el_queue (rn_loop ?s))" unfolding e(3) using q(1) loop_okD(2) [OF ok] by simp
    show "distinct (rn_runs ?s)" unfolding e(7) by (rule loop_okD(4) [OF ok])
  qed (use e(4,5) i in simp_all)
qed

lemma take_ok:
  assumes ok: "loop_ok s" and c: "rn_current s = None" and q: "el_queue (rn_loop s) = i # is"
  shows "loop_ok (s\<lparr>rn_loop := snd (tasks_pop (rn_loop s)), rn_current := Some (i, b), rn_runs := rn_runs s @ [i]\<rparr>)"
    (is "loop_ok ?s")
proof -
  have i: "i < el_next (rn_loop s)" using loop_okD(5) [OF ok, of i] q by (simp add: in_flight_def)
  note t = loop_okD(1) [OF ok i]
  have f: "\<not> et_popped (task_of s i)" "i \<notin> set (rn_runs s)" "i \<notin> fst ` set (el_sleeping (rn_loop s))" "i \<notin> set is"
    "\<not> et_cancelled (task_of s i)"
    using task_okD(3-6,10) [OF t] q loop_okD(2) [OF ok] by auto
  have new: "task_of ?s i = (task_of s i)\<lparr>et_popped := True, et_ref := ref_counted_leave (et_ref (task_of s i))\<rparr>"
    "el_queue (rn_loop ?s) = is" "el_sleeping (rn_loop ?s) = el_sleeping (rn_loop s)"
    by (simp_all add: q tasks_pop_def task_leave_def)
  have "references s i = 2 + int (rn_owners s i)" "references ?s i = 1 + int (rn_owners s i)"
    using f q c unfolding references_def in_flight_def leaked_def new by simp_all
  then have "task_ok ?s i"
    using task_okD(1,2) [OF t] f unfolding task_ok_def new by (simp add: ref_simps)
  then show ?thesis
    using i f q loop_okD(2-4) [OF ok] c
    by (intro one_task [OF ok, where i = i]) (auto simp: same_place_def tasks_pop_def task_leave_def)
qed

lemma finish_ok:
  assumes ok: "loop_ok s" and c: "rn_current s = Some (i, b)"
  shows "loop_ok (s\<lparr>rn_loop := finish_task i b (rn_loop s), rn_current := None\<rparr>)" (is "loop_ok ?s")
proof -
  have i: "i < el_next (rn_loop s)" using loop_okD(5) [OF ok, of i] c by (simp add: in_flight_def)
  note t = loop_okD(1) [OF ok i]
  have f: "et_popped (task_of s i)" "i \<notin> set (el_queue (rn_loop s))" "i \<notin> fst ` set (el_sleeping (rn_loop s))"
    using task_okD(4,9,11) [OF t] c by auto
  have new: "task_of ?s i = (task_of s i)\<lparr>et_called := et_called (task_of s i) \<or> \<not> b, et_ref := ref_counted_leave (et_ref (task_of s i))\<rparr>"
    "el_queue (rn_loop ?s) = el_queue (rn_loop s)" "el_sleeping (rn_loop ?s) = el_sleeping (rn_loop s)"
    by (simp_all add: finish_task_def task_leave_def)
  have "references s i = 1 + int (rn_owners s i)" "references ?s i = int (rn_owners s i)"
    using f c unfolding references_def in_flight_def leaked_def new by simp_all
  then have "task_ok ?s i"
    using task_okD(1,2,12) [OF t] f unfolding task_ok_def new by (simp add: ref_simps)
  then show ?thesis
    using i c loop_okD(2-4) [OF ok]
    by (intro one_task [OF ok, where i = i]) (auto simp: same_place_def finish_task_def task_leave_def)
qed

lemma ev_step_ok:
  assumes "ev_step s s'" "loop_ok s"
  shows "loop_ok s'"
  using assms
proof (induction rule: ev_step.induct)
  case (Take s i el)
  then obtain "is" where q: "el_queue (rn_loop s) = i # is" and el: "el = snd (tasks_pop (rn_loop s))"
    by (auto simp: tasks_pop_def split: list.splits)
  have "i < el_next (rn_loop s)" using loop_okD(5) [OF Take.prems, of i] q by (simp add: in_flight_def)
  then have "\<not> et_cancelled (task_of s i)" using task_okD(5) [OF loop_okD(1) [OF Take.prems]] q by auto
  then have "\<not> et_cancelled (the_task el i)" using q by (simp add: el tasks_pop_def task_leave_def)
  then show ?case using take_ok [OF Take.prems Take.hyps(1) q, of False] by (simp add: el)
qed (blast intro: call_ok call_immediate_ok call_after_ok call_immediate_after_ok own_ok disown_ok cancel_ok
    wake_ok finish_ok)+

lemma reachable_loop_ok: "ev_reachable memory s \<Longrightarrow> loop_ok s"
  unfolding ev_reachable_def
proof (induction rule: rtranclp_induct)
  case base
  show ?case by (simp add: loop_ok_def running_new_def eventloop_new_def in_flight_def)
next
  case (step s s')
  then show ?case by (blast intro: ev_step_ok)
qed

section \<open>What the steps keep for ever\<close>

text \<open>The steps of a run from a reachable state, with the invariant at hand.\<close>

lemma ev_run_induct:
  assumes "ev_step\<^sup>*\<^sup>* s s'" "loop_ok s" "P s"
    and "\<And>t t'. loop_ok t \<Longrightarrow> loop_ok t' \<Longrightarrow> ev_step t t' \<Longrightarrow> P t \<Longrightarrow> P t'"
  shows "loop_ok s' \<and> P s'"
  using assms(1)
proof (induction rule: rtranclp_induct)
  case base
  then show ?case using assms(2,3) by blast
next
  case (step t t')
  then show ?case using assms(4) ev_step_ok by blast
qed

text \<open>A task that was cancelled before it was taken.\<close>

definition called_off :: "nat \<Rightarrow> 't running \<Rightarrow> bool" where
  "called_off i s \<longleftrightarrow> i < el_next (rn_loop s) \<and> et_cancelled (task_of s i) \<and> \<not> et_popped (task_of s i)"

lemma called_off_step:
  assumes "ev_step s s'" "loop_ok s" "called_off i s"
  shows "called_off i s'"
  using assms
proof (induction rule: ev_step.induct)
  case (Take s k el)
  then obtain "is" where q: "el_queue (rn_loop s) = k # is" and el: "el = snd (tasks_pop (rn_loop s))"
    by (auto simp: tasks_pop_def split: list.splits)
  have "k \<noteq> i" using task_okD(5) [OF loop_okD(1), of s i] Take.prems q by (auto simp: called_off_def)
  then show ?case using Take.prems q by (simp add: el called_off_def tasks_pop_def task_leave_def)
qed (auto simp: called_off_def loop_defs Let_def)

lemma called_off_not_run: "loop_ok s \<Longrightarrow> called_off i s \<Longrightarrow> i \<notin> set (rn_runs s)"
  using task_okD(10) [OF loop_okD(1)] by (auto simp: called_off_def)

lemma called_off_run:
  assumes "ev_step\<^sup>*\<^sup>* s s'" "loop_ok s" "called_off i s"
  shows "loop_ok s' \<and> called_off i s'"
  by (rule ev_run_induct [where P = "called_off i", OF assms]) (rule called_off_step)

text \<open>C7: At any time, a task is run at most once, a task in the queue, asleep or running has not been
  freed, and no task is freed twice.\<close>

theorem loop_runs_and_frees_once:
  assumes "ev_reachable memory s"
  shows "distinct (rn_runs s) \<and> (\<forall>i. in_flight s i \<longrightarrow> rc_frees (et_ref (task_of s i)) = 0)
    \<and> (\<forall>i < el_next (rn_loop s). rc_frees (et_ref (task_of s i)) \<le> 1
        \<and> (rc_frees (et_ref (task_of s i)) = 1 \<longleftrightarrow> references s i = 0))"
proof -
  have ok: "loop_ok s" using assms by (rule reachable_loop_ok)
  have pos: "0 < references s i" if "in_flight s i" for i
    using that by (simp add: references_def)
  show ?thesis using loop_okD(4) [OF ok] task_okD(2) [OF loop_okD(1) [OF ok]] loop_okD(5) [OF ok] pos
    by (auto simp: of_bool_def) (metis less_irrefl)
qed

text \<open>C21: A task cancelled before it is taken never runs.\<close>

theorem cancelled_never_runs:
  assumes "ev_reachable memory s" "i < el_next (rn_loop s)" "live_task s i" "\<not> et_popped (task_of s i)"
    and "ev_step\<^sup>*\<^sup>* (s\<lparr>rn_loop := task_cancel i (rn_loop s)\<rparr>) s'"
  shows "i \<notin> set (rn_runs s')"
proof -
  have ok: "loop_ok (s\<lparr>rn_loop := task_cancel i (rn_loop s)\<rparr>)"
    by (rule cancel_ok [OF reachable_loop_ok [OF assms(1)] assms(2)])
  have "called_off i (s\<lparr>rn_loop := task_cancel i (rn_loop s)\<rparr>)"
    using assms(2,4) by (auto simp: called_off_def loop_defs Let_def)
  then show ?thesis using called_off_run [OF assms(5) ok] called_off_not_run by blast
qed

section \<open>The order of the queue\<close>

text \<open>What has been run and what is queued, in order.\<close>

abbreviation schedule :: "'t running \<Rightarrow> nat list" where
  "schedule s \<equiv> rn_runs s @ el_queue (rn_loop s)"

lemma subseq_insert: "subseq xs (as @ bs) \<Longrightarrow> subseq xs (as @ cs @ bs)"
proof -
  have "subseq (as @ bs) (as @ cs @ bs)" by (simp add: subseq_append' subseq_drop_many)
  then show "subseq xs (as @ bs) \<Longrightarrow> subseq xs (as @ cs @ bs)" by (blast intro: subseq_order.trans)
qed

lemma subseq_grows:
  "subseq xs (as @ bs) \<Longrightarrow> subseq xs (as @ bs @ [n])" "subseq xs (as @ bs) \<Longrightarrow> subseq xs (as @ n # bs)"
  using subseq_rev_drop_many [of xs "as @ bs" "[n]"] subseq_insert [of xs as bs "[n]"] by simp_all

lemma subseq_pair_remove:
  assumes "subseq [i, j] (as @ bs)" "k \<notin> {i, j}"
  shows "subseq [i, j] (as @ remove1 k bs)"
proof (cases "k \<in> set bs")
  case True
  then obtain cs ds where bs: "bs = cs @ k # ds" "k \<notin> set cs" by (metis split_list_first)
  have "subseq (filter (\<lambda>x. x \<noteq> k) [i, j]) (filter (\<lambda>x. x \<noteq> k) (as @ bs))"
    using assms(1) by (rule subseq_filter)
  then have "subseq [i, j] (filter (\<lambda>x. x \<noteq> k) as @ filter (\<lambda>x. x \<noteq> k) cs @ filter (\<lambda>x. x \<noteq> k) ds)"
    using assms(2) bs by auto
  moreover have "subseq (filter (\<lambda>x. x \<noteq> k) as @ filter (\<lambda>x. x \<noteq> k) cs @ filter (\<lambda>x. x \<noteq> k) ds) (as @ cs @ ds)"
    by (intro list_emb_append_mono subseq_filter_left)
  ultimately show ?thesis using bs by (auto simp: remove1_append intro: subseq_order.trans)
qed (simp add: assms(1) remove1_idem)

lemma schedule_step:
  assumes "ev_step s s'" "loop_ok s" "subseq [i, j] (schedule s)"
  shows "subseq [i, j] (schedule s') \<or> called_off i s' \<or> called_off j s'"
  using assms
proof (induction rule: ev_step.induct)
  case (Cancel k s)
  show ?case
  proof (cases "k \<in> {i, j}")
    case True
    have "el_queue (task_cancel k (rn_loop s)) = el_queue (rn_loop s) \<or> called_off k (s\<lparr>rn_loop := task_cancel k (rn_loop s)\<rparr>)"
      using Cancel by (auto simp: loop_defs Let_def called_off_def)
    then show ?thesis using True Cancel by auto
  next
    case False
    then show ?thesis using Cancel subseq_pair_remove [of i j "rn_runs s" "el_queue (rn_loop s)" k]
      by (auto simp: loop_defs Let_def)
  qed
next
  case (Take s k el)
  then show ?case
    by (auto simp: tasks_pop_def task_leave_def split: list.splits)
      (metis (no_types, lifting) loop_okD(1) loop_okD(5) in_flight_def list.set_intros(1) task_okD(5))
qed (auto simp: loop_defs Let_def subseq_insert intro: subseq_grows)

text \<open>Of two tasks in the queue the first runs first: if the second has run, the first has run before
  it or was cancelled in time. Tasks put to the front by others do not change this.\<close>

theorem runs_in_queue_order:
  assumes "ev_reachable memory s" "subseq [i, j] (el_queue (rn_loop s))" "ev_step\<^sup>*\<^sup>* s s'" "j \<in> set (rn_runs s')"
  shows "subseq [i, j] (rn_runs s') \<or> (et_cancelled (task_of s' i) \<and> i \<notin> set (rn_runs s'))"
proof -
  have ok: "loop_ok s" using assms(1) by (rule reachable_loop_ok)
  let ?P = "\<lambda>s. subseq [i, j] (schedule s) \<or> called_off i s \<or> called_off j s"
  have "loop_ok s' \<and> ?P s'"
  proof (rule ev_run_induct [where P = ?P, OF assms(3) ok])
    show "?P s" using assms(2) by (simp add: list_emb_append2)
    show "?P t'" if "loop_ok t" "ev_step t t'" "?P t" for t t'
      using schedule_step [OF that(2,1)] called_off_step [OF that(2,1)] that(3) by blast
  qed
  then have ok': "loop_ok s'" and P: "?P s'" by blast+
  have "\<not> called_off j s'" using called_off_not_run [OF ok'] assms(4) by blast
  moreover have "subseq [i, j] (rn_runs s')" if sub: "subseq [i, j] (schedule s')"
  proof -
    have "j \<notin> set (el_queue (rn_loop s'))"
      using task_okD(4,10) [OF loop_okD(1) [OF ok' loop_okD(6) [OF ok' assms(4)]]] assms(4) by blast
    obtain us vs where "[i, j] = us @ vs" "subseq us (rn_runs s')" "subseq vs (el_queue (rn_loop s'))"
      using sub by (auto simp: subseq_append_iff)
    have "vs = []"
    proof (rule ccontr)
      assume "vs \<noteq> []"
      then have "j \<in> set vs" using \<open>[i, j] = us @ vs\<close> by (metis last.simps last_appendR last_in_set list.distinct(1))
      then show False using list_emb_set [OF \<open>subseq vs _\<close>] \<open>j \<notin> _\<close> by blast
    qed
    then show ?thesis using \<open>[i, j] = us @ vs\<close> \<open>subseq us _\<close> by simp
  qed
  ultimately show ?thesis using P called_off_not_run [OF ok', of i] by (auto simp: called_off_def)
qed

section \<open>A task cancelled in the queue is never freed\<close>

lemma queued_step:
  assumes "ev_step s s'" "loop_ok s" "i < el_next (rn_loop s)" "et_queued (task_of s i)"
  shows "et_queued (task_of s' i)"
  using assms by (induction rule: ev_step.induct) (auto simp: loop_defs Let_def split: list.splits)

text \<open>A task cancelled while it waits in the queue loses the reference of the queue and keeps the one
  for the task in flight, which nobody gives up: it is never freed.\<close>

theorem cancelled_in_queue_leaks:
  assumes "ev_reachable memory s" "i \<in> set (el_queue (rn_loop s))"
    and "ev_step\<^sup>*\<^sup>* (s\<lparr>rn_loop := task_cancel i (rn_loop s)\<rparr>) s'"
  shows "rc_frees (et_ref (task_of s' i)) = 0 \<and> i \<notin> set (el_queue (rn_loop s'))"
proof -
  let ?s = "s\<lparr>rn_loop := task_cancel i (rn_loop s)\<rparr>"
  have ok: "loop_ok s" using assms(1) by (rule reachable_loop_ok)
  have i: "i < el_next (rn_loop s)" using loop_okD(5) [OF ok] assms(2) by (simp add: in_flight_def)
  note t = task_okD(3-5) [OF loop_okD(1) [OF ok i]]
  have ok1: "loop_ok ?s" by (rule cancel_ok [OF ok i])
  let ?P = "\<lambda>s. called_off i s \<and> et_queued (task_of s i)"
  have "loop_ok s' \<and> ?P s'"
  proof (rule ev_run_induct [where P = ?P, OF assms(3) ok1])
    show "?P ?s" using t assms(2) i by (auto simp: called_off_def loop_defs Let_def)
    show "?P t'" if "loop_ok t" "ev_step t t'" "?P t" for t t'
      using called_off_step [OF that(2,1)] queued_step [OF that(2,1)] that(3) by (auto simp: called_off_def)
  qed
  then have ok': "loop_ok s'" and c: "called_off i s'" and q: "et_queued (task_of s' i)" by blast+
  note t' = loop_okD(1) [OF ok', of i]
  have "0 < references s' i" using c q by (simp add: references_def leaked_def called_off_def)
  then show ?thesis using task_okD(2,5) [OF t'] c by (auto simp: called_off_def)
qed

section \<open>A run\<close>

text \<open>Two tasks are called; the loop takes and finishes the first and takes the second.\<close>

definition sample_memory :: "nat \<Rightarrow> nat evtask" where
  "sample_memory = (\<lambda>_. \<lparr>et_ref = ref_counted_init, et_what = 0, et_delay = 0, et_queued = False,
     et_popped = False, et_called = False, et_cancelled = False\<rparr>)"

definition two_called :: "nat running" where
  "two_called = running_new (snd (eventloop_call 8 (snd (eventloop_call 7 (eventloop_new sample_memory)))))"

definition two_run :: "nat running" where
  "two_run = (let el = snd (tasks_pop (rn_loop two_called)); el = finish_task 0 False el
     in \<lparr>rn_loop = snd (tasks_pop el), rn_current = Some (1, False), rn_runs = [0, 1], rn_owners = (\<lambda>_. 0)\<rparr>)"

lemmas sample_simps = two_called_def two_run_def running_new_def eventloop_new_def sample_memory_def loop_defs Let_def

lemma two_called_reachable: "ev_reachable sample_memory two_called"
proof -
  have "ev_step (running_new (eventloop_new sample_memory)) (running_new (snd (eventloop_call 7 (eventloop_new sample_memory))))"
    using ev_step.Call [of "running_new (eventloop_new sample_memory)" 7] by (simp add: running_new_def)
  moreover have "ev_step (running_new (snd (eventloop_call 7 (eventloop_new sample_memory)))) two_called"
    using ev_step.Call [of "running_new (snd (eventloop_call 7 (eventloop_new sample_memory)))" 8]
    by (simp add: running_new_def two_called_def)
  ultimately show ?thesis unfolding ev_reachable_def by (meson r_into_rtranclp rtranclp.rtrancl_into_rtrancl)
qed

lemma two_called_queue [simp]:
  "el_queue (rn_loop two_called) = [0, 1]" "el_next (rn_loop two_called) = 2"
  "live_task two_called 1" "\<not> et_popped (task_of two_called 1)"
  by (simp_all add: sample_simps ref_simps)

lemma two_run_steps: "ev_step\<^sup>*\<^sup>* two_called two_run"
proof -
  let ?l0 = "rn_loop two_called"
  let ?l1 = "snd (tasks_pop ?l0)"
  let ?l2 = "finish_task 0 False ?l1"
  have "ev_step two_called (two_called\<lparr>rn_loop := ?l1, rn_current := Some (0, False), rn_runs := [0]\<rparr>)" (is "ev_step _ ?s1")
    using ev_step.Take [of two_called 0 ?l1] by (simp add: sample_simps)
  moreover have "ev_step ?s1 (?s1\<lparr>rn_loop := ?l2, rn_current := None\<rparr>)" (is "ev_step _ ?s2")
    using ev_step.Finish [of ?s1 0 False] by simp
  moreover have "ev_step ?s2 two_run"
    using ev_step.Take [of ?s2 1 "snd (tasks_pop ?l2)"] by (simp add: sample_simps)
  ultimately show ?thesis by (meson r_into_rtranclp rtranclp.rtrancl_into_rtrancl)
qed

theorem loop_runs_and_frees_once_witness:
  "in_flight two_called 0 \<and> rc_frees (et_ref (task_of two_called 0)) = 0 \<and> distinct (rn_runs two_called)"
  using loop_runs_and_frees_once [OF two_called_reachable] by (auto simp: in_flight_def)

definition one_cancelled :: "nat running" where
  "one_cancelled = (let s = two_called\<lparr>rn_loop := task_cancel 1 (rn_loop two_called)\<rparr>
     in s\<lparr>rn_loop := snd (tasks_pop (rn_loop s)), rn_current := Some (0, False), rn_runs := [0]\<rparr>)"

lemma one_cancelled_steps: "ev_step\<^sup>*\<^sup>* (two_called\<lparr>rn_loop := task_cancel 1 (rn_loop two_called)\<rparr>) one_cancelled"
proof -
  let ?s = "two_called\<lparr>rn_loop := task_cancel 1 (rn_loop two_called)\<rparr>"
  have "ev_step ?s one_cancelled"
    using ev_step.Take [of ?s 0 "snd (tasks_pop (rn_loop ?s))"] by (simp add: one_cancelled_def sample_simps ref_simps)
  then show ?thesis by (rule r_into_rtranclp)
qed

theorem cancelled_never_runs_witness: "1 \<notin> set (rn_runs one_cancelled) \<and> rn_runs one_cancelled = [0]"
  using cancelled_never_runs [OF two_called_reachable _ _ _ one_cancelled_steps]
  by (simp add: one_cancelled_def Let_def)

theorem runs_in_queue_order_witness: "subseq [0, 1] (rn_runs two_run) \<or> et_cancelled (task_of two_run 0)"
  using runs_in_queue_order [OF two_called_reachable _ two_run_steps, of 0 1] by (auto simp: two_run_def Let_def)

theorem cancelled_in_queue_leaks_witness:
  "rc_frees (et_ref (task_of (two_called\<lparr>rn_loop := task_cancel 0 (rn_loop two_called)\<rparr>) 0)) = 0"
  using cancelled_in_queue_leaks [OF two_called_reachable _ rtranclp.rtrancl_refl, of 0] by simp

end
