(* ===== verification/Table_Store.thy ===== *)
theory Table_Store
  imports Account_Store "HOL-Library.Product_Lexorder"
begin

text \<open>
  The functions of \<open>src/src/table.c\<close> that read and write the table \<open>tables\<close>, and the part of the
  Redis cache that they and \<open>src/src/auth.c\<close> use: the counters of a table and the tokens of
  authenticated sessions. A Redis command fails as a whole while \<open>rd_up\<close> is false, and a failing
  command changes nothing.
\<close>

record redis =
  rd_up :: bool
  rd_tokens :: "bytes \<Rightarrow> bytes option"
  rd_players :: "64 word \<Rightarrow> int option"
  rd_watchers :: "64 word \<Rightarrow> int option"

section \<open>Reading tables\<close>

text \<open>The id is cast to a 32-bit integer by the statement, which fails when it does not fit.\<close>

definition sql_error :: "db \<Rightarrow> db" where
  "sql_error d = (after_statement d)\<lparr>db_aborted := db_saved d \<noteq> None\<rparr>"

definition find_table :: "64 word \<Rightarrow> rows \<Rightarrow> table_row option" where
  "find_table i rows = List.find (\<lambda>r. of_int (tr_id r) = i) (fst (snd rows))"

definition table_get :: "64 word \<Rightarrow> db \<Rightarrow> table option \<times> db" where
  "table_get i d =
    (if 2 ^ 31 \<le> unat i then (None, sql_error d)
     else case sql_select (find_table i) d of
         (Some (Some r), d) \<Rightarrow> (Some (table_of_row r), d)
       | (_, d) \<Rightarrow> (None, d))"

text \<open>The page of the tables with most players, then most watchers. The database may give tables
  that agree on both in any order; here it is the order of the rows.\<close>

definition popular :: "table_row list \<Rightarrow> table_row list" where
  "popular = sort_key (\<lambda>r. (- tr_players_count r, - tr_watchers_count r))"

definition table_get_list :: "nat \<Rightarrow> nat \<Rightarrow> db \<Rightarrow> table list \<times> db" where
  "table_get_list offset len d =
    (case sql_select (\<lambda>rows. take len (drop offset (popular (fst (snd rows))))) d of
       (Some rs, d) \<Rightarrow> (map table_of_row rs, d)
     | (None, d) \<Rightarrow> ([], d))"

section \<open>Counting players and watchers\<close>

text \<open>The object is updated first, then the row, then the cache; a failure of either is only
  printed.\<close>

definition table_set_players_num :: "int \<Rightarrow> table \<Rightarrow> db \<Rightarrow> redis \<Rightarrow> table \<times> db \<times> redis" where
  "table_set_players_num num t d rd =
    (t\<lparr>tb_players_count := num\<rparr>,
     snd (sql_update (set_table (tb_id t) (\<lambda>r. r\<lparr>tr_players_count := num\<rparr>)) d),
     if rd_up rd then rd\<lparr>rd_players := (rd_players rd)(tb_id t := Some num)\<rparr> else rd)"

definition table_set_watchers_num :: "int \<Rightarrow> table \<Rightarrow> db \<Rightarrow> redis \<Rightarrow> table \<times> db \<times> redis" where
  "table_set_watchers_num num t d rd =
    (t\<lparr>tb_watchers_count := num\<rparr>,
     snd (sql_update (set_table (tb_id t) (\<lambda>r. r\<lparr>tr_watchers_count := num\<rparr>)) d),
     if rd_up rd then rd\<lparr>rd_watchers := (rd_watchers rd)(tb_id t := Some num)\<rparr> else rd)"

definition cached :: "int option \<Rightarrow> int" where
  "cached n = (case n of None \<Rightarrow> 0 | Some k \<Rightarrow> k)"

definition table_incr_players_num :: "int \<Rightarrow> table \<Rightarrow> db \<Rightarrow> redis \<Rightarrow> table \<times> db \<times> redis" where
  "table_incr_players_num by_num t d rd =
    (t\<lparr>tb_players_count := tb_players_count t + by_num\<rparr>,
     snd (sql_update (set_table (tb_id t) (\<lambda>r. r\<lparr>tr_players_count := tr_players_count r + by_num\<rparr>)) d),
     if rd_up rd then rd\<lparr>rd_players := (rd_players rd)(tb_id t := Some (cached (rd_players rd (tb_id t)) + by_num))\<rparr>
     else rd)"

definition table_incr_watchers_num :: "int \<Rightarrow> table \<Rightarrow> db \<Rightarrow> redis \<Rightarrow> table \<times> db \<times> redis" where
  "table_incr_watchers_num by_num t d rd =
    (t\<lparr>tb_watchers_count := tb_watchers_count t + by_num\<rparr>,
     snd (sql_update (set_table (tb_id t) (\<lambda>r. r\<lparr>tr_watchers_count := tr_watchers_count r + by_num\<rparr>)) d),
     if rd_up rd then rd\<lparr>rd_watchers := (rd_watchers rd)(tb_id t := Some (cached (rd_watchers rd (tb_id t)) + by_num))\<rparr>
     else rd)"

section \<open>Authenticated sessions\<close>

text \<open>\<open>src/src/auth.c\<close>: a session object is a token and the account it belongs to; Redis keeps the
  token with the account's \<open>id_token\<close>. The expiration of a key is a change of \<open>rd_tokens\<close> from
  outside.\<close>

record auth_object =
  au_token :: bytes
  au_account :: nat

definition auth_session_new :: "nat \<Rightarrow> bytes \<Rightarrow> auth_object" where
  "auth_session_new o1 token = \<lparr>au_token = token, au_account = o1\<rparr>"

text \<open>The key of a token: the format writes it up to its first null byte. \<open>token\<close> of
  \<open>auth_session_create\<close> is the random token that is generated.\<close>

definition auth_session_create :: "bytes \<Rightarrow> nat \<Rightarrow> store \<Rightarrow> redis \<Rightarrow> auth_object option \<times> redis" where
  "auth_session_create token o1 st rd =
    (if rd_up rd
     then (Some (auth_session_new o1 token),
       rd\<lparr>rd_tokens := (rd_tokens rd)(sql_text token := Some (sql_text (ac_id_token (object o1 st))))\<rparr>)
     else (None, rd))"

definition auth_session_destroy :: "auth_object \<Rightarrow> redis \<Rightarrow> bool \<times> redis" where
  "auth_session_destroy au rd =
    (if rd_up rd then (True, rd\<lparr>rd_tokens := (rd_tokens rd)(sql_text (au_token au) := None)\<rparr>)
     else (False, rd))"

definition auth_session_getby_token :: "bytes \<Rightarrow> store \<Rightarrow> redis \<Rightarrow> auth_object option \<times> store" where
  "auth_session_getby_token token st rd =
    (case (if rd_up rd then rd_tokens rd (sql_text token) else None) of
       None \<Rightarrow> (None, st)
     | Some id_token \<Rightarrow>
         (case account_getby_id_token id_token st of
            (None, st) \<Rightarrow> (None, st)
          | (Some o1, st) \<Rightarrow> (Some (auth_session_new o1 token), st)))"

section \<open>Laws\<close>

text \<open>The list is ordered by popularity and is a page of the rows of the database.\<close>

lemma popular_sorted: "sorted (map (\<lambda>r. (- tr_players_count r, - tr_watchers_count r)) (popular rs))"
  by (simp add: popular_def)

lemma popular_mset [simp]: "mset (popular rs) = mset rs"
  by (simp add: popular_def)

lemma table_of_row_id [simp]: "tb_id (table_of_row r) = of_int (tr_id r)"
  by (simp add: table_of_row_def table_new_def)

lemma table_get_id: "table_get i d = (Some t, d') \<Longrightarrow> tb_id t = i"
  by (auto simp: table_get_def sql_select_def find_table_def find_Some_iff split: if_splits option.splits)

lemma set_num_fields [simp]:
  "tb_id (fst (table_set_players_num n t d rd)) = tb_id t"
  "tb_id (fst (table_set_watchers_num n t d rd)) = tb_id t"
  by (simp_all add: table_set_players_num_def table_set_watchers_num_def)

lemma find_account_set_table [simp]: "find_account P (set_table i f rows) = find_account P rows"
  by (simp add: find_account_def set_table_def)

text \<open>A token can be exchanged for its account as long as it is in the cache.\<close>

theorem token_roundtrip:
  assumes "rd_up rd" "steady (st_db st)"
    and "find_account (\<lambda>r. ar_id_token r = sql_text (ac_id_token (object o1 st))) (db_rows (st_db st)) = Some row"
    and "auth_session_create token o1 st rd = (au, rd')"
  shows "\<exists>o2 st'. au = Some (auth_session_new o1 token)
    \<and> auth_session_getby_token token st rd' = (Some (auth_session_new o2 token), st')
    \<and> ac_id_token (object o2 st') = sql_text (ac_id_token (object o1 st))
    \<and> (\<forall>other. sql_text other \<noteq> sql_text token \<longrightarrow> rd_tokens rd' (sql_text other) = rd_tokens rd (sql_text other))"
proof -
  have tok: "ar_id_token row = sql_text (ac_id_token (object o1 st))"
    using assms(3) by (auto simp: find_account_def find_Some_iff)
  have idem: "sql_text (sql_text bs) = sql_text bs" for bs
    by (simp add: sql_text_def takeWhile_idem)
  obtain o2 st' where g: "account_getby_id_token (sql_text (ac_id_token (object o1 st))) st = (Some o2, st')"
    "ac_id_token (object o2 st') = ar_id_token row"
    using assms(2,3) idem
    by (auto simp: account_getby_id_token_def account_read_def with_db_def account_new_def object_def
        account_of_row_def split: prod.splits)
  show ?thesis using assms(1,4) g tok
    by (auto simp: auth_session_create_def auth_session_getby_token_def)
qed

end
