(* ===== verification/Lobby.thy ===== *)
theory Lobby
  imports Table_Store Eventloop Poker_Game Server_Send
begin

text \<open>
  The state of the lobby (\<open>src/src/lobby.c\<close>, \<open>src/include/lobby.h\<close>), which connects clients,
  accounts and games, and its lookups. Every object of the lobby is named by number in a store of
  its kind: connections of the server (\<open>conn\<close>), lobby clients, sessions, the lists of the sessions
  a client has entered, and authenticated sessions. Two lobby clients can share one list. An
  intrusive list is the HOL list of its elements, and memory is not freed: the reference counts of
  these objects are not modelled.

  Handlers run on the thread of the event loop, one after another. A packet that is sent is
  appended to \<open>lb_sent\<close> as a value of \<open>server_packet\<close>; \<open>Server_Send\<close> models the bytes it makes. The
  connection of every lobby client has its own database connection; the model has one, since only one
  handler runs at a time.
\<close>

section \<open>Data\<close>

text \<open>\<open>cn_up\<close> says whether a write to the peer succeeds.\<close>

record conn =
  cn_owner :: "nat option"
  cn_alive :: bool
  cn_determined :: bool
  cn_websocket :: bool
  cn_up :: bool

record lobby_client =
  lc_client :: nat
  lc_sessions :: nat
  lc_account :: "nat option"
  lc_auth_session :: "nat option"
  lc_tolerant_disconnected :: bool
  lc_disconnected :: bool
  lc_connected :: bool
  lc_revived :: bool
  lc_tolerated_task :: "nat option"

record session_client =
  sc_id :: nat
  sc_client :: nat
  sc_joined :: bool

record client_session =
  cs_id :: nat
  cs_session :: nat
  cs_joined :: bool

record session =
  se_id :: "64 word"
  se_poker :: poker
  se_running :: bool
  se_proceed_task :: "nat option"
  se_start_task :: "nat option"
  se_restart_task :: "nat option"
  se_clients :: "session_client list"
  se_joined_count :: int

text \<open>The functions a task of the event loop calls, with their parameters. An action posted by a game
  carries a copy of the account that it names.\<close>

datatype lobby_task =
    ClientTask nat task
  | Tolerated nat
  | AccountUpdated nat nat
  | Proceed nat
  | StartGame nat
  | RestartGame nat
  | PokerActed nat pid action "64 word"

record lobby =
  lb_store :: store
  lb_redis :: redis
  lb_loop :: "lobby_task eventloop"
  lb_sessions :: "nat list"
  lb_session :: "nat \<Rightarrow> session"
  lb_client :: "nat \<Rightarrow> lobby_client"
  lb_lists :: "nat \<Rightarrow> client_session list"
  lb_auth :: "nat \<Rightarrow> auth_object"
  lb_authorized :: "bytes \<Rightarrow> nat option"
  lb_conn :: "nat \<Rightarrow> conn"
  lb_listed :: "nat list"
  lb_next :: nat
  lb_sent :: "(nat \<times> server_packet) list"

text \<open>What the handlers take from outside: the clock, the password hash, the wallet, random tokens
  and ids for the object with the next number, the values the database chooses for a new account,
  the random draws of a new game, and the strings of the build.\<close>

record env =
  en_now :: "64 word"
  en_md5 :: "bytes \<Rightarrow> bytes"
  en_address :: "64 word \<Rightarrow> bytes option"
  en_token :: "nat \<Rightarrow> bytes"
  en_uid :: "nat \<Rightarrow> 64 word"
  en_chosen :: chosen
  en_draws :: "int list"
  en_build :: "64 word"
  en_version :: bytes
  en_revision :: bytes
  en_compiler :: bytes

section \<open>Access\<close>

definition upd_session :: "nat \<Rightarrow> (session \<Rightarrow> session) \<Rightarrow> lobby \<Rightarrow> lobby" where
  "upd_session s f lb = lb\<lparr>lb_session := (lb_session lb)(s := f (lb_session lb s))\<rparr>"

definition upd_client :: "nat \<Rightarrow> (lobby_client \<Rightarrow> lobby_client) \<Rightarrow> lobby \<Rightarrow> lobby" where
  "upd_client c f lb = lb\<lparr>lb_client := (lb_client lb)(c := f (lb_client lb c))\<rparr>"

definition upd_list :: "nat \<Rightarrow> (client_session list \<Rightarrow> client_session list) \<Rightarrow> lobby \<Rightarrow> lobby" where
  "upd_list l f lb = lb\<lparr>lb_lists := (lb_lists lb)(l := f (lb_lists lb l))\<rparr>"

definition upd_conn :: "nat \<Rightarrow> (conn \<Rightarrow> conn) \<Rightarrow> lobby \<Rightarrow> lobby" where
  "upd_conn k f lb = lb\<lparr>lb_conn := (lb_conn lb)(k := f (lb_conn lb k))\<rparr>"

definition upd_poker :: "nat \<Rightarrow> (poker \<Rightarrow> poker) \<Rightarrow> lobby \<Rightarrow> lobby" where
  "upd_poker s f = upd_session s (\<lambda>se. se\<lparr>se_poker := f (se_poker se)\<rparr>)"

definition with_loop :: "(lobby_task eventloop \<Rightarrow> nat \<times> lobby_task eventloop) \<Rightarrow> lobby \<Rightarrow> nat \<times> lobby" where
  "with_loop f lb = (case f (lb_loop lb) of (i, el) \<Rightarrow> (i, lb\<lparr>lb_loop := el\<rparr>))"

definition call :: "lobby_task \<Rightarrow> lobby \<Rightarrow> lobby" where
  "call t lb = snd (with_loop (eventloop_call t) lb)"

definition alloc :: "lobby \<Rightarrow> nat \<times> lobby" where
  "alloc lb = (lb_next lb, lb\<lparr>lb_next := lb_next lb + 1\<rparr>)"

definition poker_of :: "nat \<Rightarrow> lobby \<Rightarrow> poker" where
  "poker_of s lb = se_poker (lb_session lb s)"

definition table_id :: "nat \<Rightarrow> lobby \<Rightarrow> 64 word" where
  "table_id s lb = tb_id (pk_table (poker_of s lb))"

definition players_length :: "nat \<Rightarrow> lobby \<Rightarrow> nat" where
  "players_length s lb = length (pk_players (poker_of s lb))"

definition entered :: "nat \<Rightarrow> lobby \<Rightarrow> client_session list" where
  "entered c lb = lb_lists lb (lc_sessions (lb_client lb c))"

definition set_joined :: "nat \<Rightarrow> bool \<Rightarrow> client_session list \<Rightarrow> client_session list" where
  "set_joined k b = map (\<lambda>cs. if cs_id cs = k then cs\<lparr>cs_joined := b\<rparr> else cs)"

definition set_client_joined :: "nat \<Rightarrow> bool \<Rightarrow> session_client list \<Rightarrow> session_client list" where
  "set_client_joined k b = map (\<lambda>sc. if sc_id sc = k then sc\<lparr>sc_joined := b\<rparr> else sc)"

section \<open>Accounts\<close>

text \<open>Calls of \<open>on_updated\<close>, which \<open>Account_Store\<close> records, post \<open>on_account_updated__async\<close>.\<close>

definition on_account_updated :: "nat \<times> nat \<Rightarrow> lobby \<Rightarrow> lobby" where
  "on_account_updated = (\<lambda>(o1, c) lb. call (AccountUpdated o1 c) lb)"

definition set_store :: "store \<Rightarrow> lobby \<Rightarrow> lobby" where
  "set_store st lb = fold on_account_updated (st_notices st) (lb\<lparr>lb_store := st\<lparr>st_notices := []\<rparr>\<rparr>)"

definition with_store :: "(store \<Rightarrow> 'a \<times> store) \<Rightarrow> lobby \<Rightarrow> 'a \<times> lobby" where
  "with_store f lb = (case f (lb_store lb) of (x, st) \<Rightarrow> (x, set_store st lb))"

definition account_packet :: "nat \<Rightarrow> lobby \<Rightarrow> account" where
  "account_packet o1 lb = account.truncate (object o1 (lb_store lb))"

definition account_id :: "nat \<Rightarrow> lobby \<Rightarrow> 64 word" where
  "account_id o1 lb = ac_id (object o1 (lb_store lb))"

definition fetch :: "nat \<Rightarrow> lobby \<Rightarrow> lobby outcome" where
  "fetch o1 lb = bindO (account_fetch o1 (lb_store lb)) (\<lambda>st. Inr (set_store st lb))"

section \<open>Sending\<close>

text \<open>A null account or session that a packet is written from.\<close>

definition packet_null :: "bool \<Rightarrow> server_packet \<Rightarrow> bool" where
  "packet_null websocket p = (case p of
      LoginRes ok logined a s \<Rightarrow> ok \<noteq> 0 \<and> logined \<noteq> 0 \<and> (a = None \<or> websocket \<and> s = None)
    | SignupRes ok logined st a s \<Rightarrow> ok \<noteq> 0 \<and> logined \<noteq> 0 \<and> (a = None \<or> websocket \<and> s = None)
    | AuthSessionRes ok logined a \<Rightarrow> ok \<noteq> 0 \<and> logined \<noteq> 0 \<and> a = None
    | _ \<Rightarrow> False)"

text \<open>Sending to connection \<open>k\<close>: a write that fails disconnects a client that is still alive, which
  unlinks it from the clients of the server and posts the task \<open>on_client_disconnected\<close>.\<close>

definition disconnected :: "nat \<Rightarrow> lobby \<Rightarrow> lobby" where
  "disconnected k lb =
    (if cn_alive (lb_conn lb k)
     then call (ClientTask k ClientDisconnected)
       ((upd_conn k (\<lambda>cn. cn\<lparr>cn_alive := False\<rparr>) lb)\<lparr>lb_listed := remove1 k (lb_listed lb)\<rparr>)
     else lb)"

definition send_packet :: "nat \<Rightarrow> server_packet \<Rightarrow> lobby \<Rightarrow> (bool \<times> lobby) outcome" where
  "send_packet k p lb =
    (if packet_null (cn_websocket (lb_conn lb k)) p then Inl NullDeref
     else if cn_up (lb_conn lb k) then Inr (True, lb\<lparr>lb_sent := lb_sent lb @ [(k, p)]\<rparr>)
     else Inr (False, disconnected k lb))"

text \<open>Most callers ignore the result.\<close>

definition send :: "nat \<Rightarrow> server_packet \<Rightarrow> lobby \<Rightarrow> lobby outcome" where
  "send k p lb = bindO (send_packet k p lb) (\<lambda>(_, lb). Inr lb)"

text \<open>\<open>LIST_FOREACH\<close> over the elements a list has when the loop begins; the loops of the lobby remove
  at most the element they are at.\<close>

fun each :: "('a \<Rightarrow> 'l \<Rightarrow> 'l outcome) \<Rightarrow> 'a list \<Rightarrow> 'l \<Rightarrow> 'l outcome" where
  "each f [] lb = Inr lb"
| "each f (x # xs) lb = bindO (f x lb) (each f xs)"

section \<open>Lookups\<close>

definition session_getby_id :: "64 word \<Rightarrow> lobby \<Rightarrow> nat option" where
  "session_getby_id i lb = List.find (\<lambda>s. se_id (lb_session lb s) = i) (lb_sessions lb)"

definition session_getby_table_id :: "64 word \<Rightarrow> lobby \<Rightarrow> nat option" where
  "session_getby_table_id i lb = List.find (\<lambda>s. table_id s lb = i) (lb_sessions lb)"

definition client_session_getby_session_id :: "nat \<Rightarrow> 64 word \<Rightarrow> lobby \<Rightarrow> client_session option" where
  "client_session_getby_session_id c i lb = List.find (\<lambda>cs. se_id (lb_session lb (cs_session cs)) = i) (entered c lb)"

definition client_session_getby_table_id :: "nat \<Rightarrow> 64 word \<Rightarrow> lobby \<Rightarrow> client_session option" where
  "client_session_getby_table_id c i lb = List.find (\<lambda>cs. table_id (cs_session cs) lb = i) (entered c lb)"

text \<open>The account is looked up through the connection: \<open>client->owner->account->id\<close>.\<close>

definition owner_account :: "nat \<Rightarrow> lobby \<Rightarrow> 64 word outcome" where
  "owner_account c lb =
    bindO (deref (cn_owner (lb_conn lb (lc_client (lb_client lb c))))) (\<lambda>owner.
    bindO (deref (lc_account (lb_client lb owner))) (\<lambda>o1. Inr (account_id o1 lb)))"

fun find_account_client :: "64 word \<Rightarrow> lobby \<Rightarrow> session_client list \<Rightarrow> session_client option outcome" where
  "find_account_client i lb [] = Inr None"
| "find_account_client i lb (sc # scs) =
    bindO (owner_account (sc_client sc) lb) (\<lambda>j. if j = i then Inr (Some sc) else find_account_client i lb scs)"

definition session_client_getby_account_id :: "nat \<Rightarrow> 64 word \<Rightarrow> lobby \<Rightarrow> session_client option outcome" where
  "session_client_getby_account_id s i lb = find_account_client i lb (se_clients (lb_session lb s))"

text \<open>The player of a client in a game, through \<open>session_client->client->account->id\<close>.\<close>

definition receiver_player :: "nat \<Rightarrow> session_client \<Rightarrow> lobby \<Rightarrow> pid option outcome" where
  "receiver_player s sc lb =
    bindO (deref (lc_account (lb_client lb (sc_client sc)))) (\<lambda>o1.
      Inr (getby_id (poker_of s lb) (account_id o1 lb)))"

section \<open>Sending to the clients of a session\<close>

definition send_state :: "nat \<Rightarrow> session_client \<Rightarrow> lobby \<Rightarrow> lobby outcome" where
  "send_state s sc lb =
    bindO (receiver_player s sc lb) (\<lambda>i.
      send (lc_client (lb_client lb (sc_client sc)))
        (PokerState (poker_of s lb) (map_option (the_player (poker_of s lb)) i)) lb)"

definition send_states :: "nat \<Rightarrow> lobby \<Rightarrow> lobby outcome" where
  "send_states s lb = each (send_state s) (se_clients (lb_session lb s)) lb"

definition send_info_and_state :: "nat \<Rightarrow> session_client \<Rightarrow> lobby \<Rightarrow> lobby outcome" where
  "send_info_and_state s sc lb =
    bindO (receiver_player s sc lb) (\<lambda>i.
    bindO (send (lc_client (lb_client lb (sc_client sc))) (PokerInfo (poker_of s lb)) lb) (\<lambda>lb.
      send (lc_client (lb_client lb (sc_client sc)))
        (PokerState (poker_of s lb) (map_option (the_player (poker_of s lb)) i)) lb))"

definition session_pokers :: "lobby \<Rightarrow> poker list" where
  "session_pokers lb = map (\<lambda>s. poker_of s lb) (lb_sessions lb)"

definition broadcast_sessions :: "lobby \<Rightarrow> lobby outcome" where
  "broadcast_sessions lb =
    each (\<lambda>k lb. if \<not> cn_determined (lb_conn lb k) then Inr lb
                 else send k (Sessions 0 (session_pokers lb)) lb) (lb_listed lb) lb"

section \<open>The order of the sessions\<close>

text \<open>The sessions are listed by their number of players, most first. A session whose number has
  changed is put before the first one, from its old place on when the number fell and from the
  start when it grew, that has no more players than it.\<close>

definition place :: "nat \<Rightarrow> lobby \<Rightarrow> nat list \<Rightarrow> nat list" where
  "place s lb others =
    takeWhile (\<lambda>o1. players_length s lb < players_length o1 lb) others
      @ s # dropWhile (\<lambda>o1. players_length s lb < players_length o1 lb) others"

definition reorder_updated_session :: "nat \<Rightarrow> nat \<Rightarrow> lobby \<Rightarrow> lobby" where
  "reorder_updated_session s old_length lb =
    (let n = players_length s lb; before = takeWhile (\<lambda>o1. o1 \<noteq> s) (lb_sessions lb);
         after = tl (dropWhile (\<lambda>o1. o1 \<noteq> s) (lb_sessions lb))
     in if n = old_length then lb
        else if n < old_length \<and> s \<noteq> last (lb_sessions lb)
        then lb\<lparr>lb_sessions := before @ place s lb after\<rparr>
        else if n > old_length \<and> s \<noteq> hd (lb_sessions lb)
        then lb\<lparr>lb_sessions := place s lb (before @ after)\<rparr>
        else lb)"

end
