(* ===== verification/Lobby_Session.thy ===== *)
theory Lobby_Session
  imports Lobby
begin

text \<open>
  What a client does with a session (\<open>enter\<close>, \<open>join\<close>, \<open>unjoin\<close>, \<open>leave\<close>) and the tasks by which a
  session drives its game (\<open>proceed\<close>, \<open>start\<close>, \<open>restart\<close>), as \<open>src/src/lobby.c\<close> has them.
\<close>

section \<open>Tasks of a session\<close>

definition task_at :: "lobby_task \<Rightarrow> lobby \<Rightarrow> nat \<times> lobby" where
  "task_at t = with_loop (task_new t)"

definition on_loop :: "(lobby_task eventloop \<Rightarrow> lobby_task eventloop) \<Rightarrow> lobby \<Rightarrow> lobby" where
  "on_loop f lb = lb\<lparr>lb_loop := f (lb_loop lb)\<rparr>"

text \<open>The task that looks at the game again, at once or after a second.\<close>

definition post_proceed :: "nat \<Rightarrow> int option \<Rightarrow> lobby \<Rightarrow> lobby" where
  "post_proceed s delay lb =
    (case task_at (Proceed s) lb of (i, lb) \<Rightarrow>
       on_loop (case delay of None \<Rightarrow> task_call i | Some d \<Rightarrow> task_call_after i d)
         (upd_session s (\<lambda>se. se\<lparr>se_proceed_task := Some i\<rparr>) lb))"

definition session_start :: "nat \<Rightarrow> lobby \<Rightarrow> lobby" where
  "session_start s lb = post_proceed s None (upd_session s (\<lambda>se. se\<lparr>se_running := True\<rparr>) lb)"

definition cancel_and_leave :: "nat option \<Rightarrow> lobby \<Rightarrow> lobby" where
  "cancel_and_leave task lb = (case task of None \<Rightarrow> lb
     | Some i \<Rightarrow> on_loop (\<lambda>el. task_leave i (task_cancel i el)) lb)"

definition session_stop :: "nat \<Rightarrow> lobby \<Rightarrow> lobby" where
  "session_stop s lb =
    (let lb = upd_session s (\<lambda>se. se\<lparr>se_running := False\<rparr>) lb;
         lb = upd_session s (\<lambda>se. se\<lparr>se_start_task := None\<rparr>) (cancel_and_leave (se_start_task (lb_session lb s)) lb);
         lb = upd_session s (\<lambda>se. se\<lparr>se_restart_task := None\<rparr>) (cancel_and_leave (se_restart_task (lb_session lb s)) lb)
     in if se_proceed_task (lb_session lb s) = None then post_proceed s None lb else lb)"

text \<open>The tasks of the game's \<open>on_action\<close> go to the event loop; \<open>acct\<close> is the account in the action.\<close>

definition post_actions :: "nat \<Rightarrow> (pid \<Rightarrow> 64 word) \<Rightarrow> lobby \<Rightarrow> lobby" where
  "post_actions s acct lb =
    fold (\<lambda>(i, a). call (PokerActed s i a (acct i))) (pk_posted (poker_of s lb))
      (upd_poker s (\<lambda>p. p\<lparr>pk_posted := []\<rparr>) lb)"

definition own_account :: "nat \<Rightarrow> lobby \<Rightarrow> pid \<Rightarrow> 64 word" where
  "own_account s lb i = pl_account (the_player (poker_of s lb) i)"

text \<open>Leaving the task first and cancelling it afterwards is what \<open>unjoin\<close> does.\<close>

definition leave_and_cancel :: "nat option \<Rightarrow> lobby \<Rightarrow> lobby" where
  "leave_and_cancel task lb = (case task of None \<Rightarrow> lb
     | Some i \<Rightarrow> on_loop (\<lambda>el. task_cancel i (task_leave i el)) lb)"

section \<open>Entering\<close>

definition set_players_num :: "nat \<Rightarrow> int \<Rightarrow> lobby \<Rightarrow> lobby" where
  "set_players_num s num lb =
    (case table_set_players_num num (pk_table (poker_of s lb)) (st_db (lb_store lb)) (lb_redis lb) of (t, d, rd) \<Rightarrow>
       (upd_poker s (\<lambda>p. p\<lparr>pk_table := t\<rparr>) lb)\<lparr>lb_store := (lb_store lb)\<lparr>st_db := d\<rparr>, lb_redis := rd\<rparr>)"

definition set_watchers_num :: "nat \<Rightarrow> int \<Rightarrow> lobby \<Rightarrow> lobby" where
  "set_watchers_num s num lb =
    (case table_set_watchers_num num (pk_table (poker_of s lb)) (st_db (lb_store lb)) (lb_redis lb) of (t, d, rd) \<Rightarrow>
       (upd_poker s (\<lambda>p. p\<lparr>pk_table := t\<rparr>) lb)\<lparr>lb_store := (lb_store lb)\<lparr>st_db := d\<rparr>, lb_redis := rd\<rparr>)"

definition watchers :: "nat \<Rightarrow> lobby \<Rightarrow> int" where
  "watchers s lb = tb_watchers_count (pk_table (poker_of s lb))"

definition players_num :: "nat \<Rightarrow> lobby \<Rightarrow> int" where
  "players_num s lb = tb_players_count (pk_table (poker_of s lb))"

definition session_client_new :: "nat \<Rightarrow> lobby \<Rightarrow> session_client \<times> lobby" where
  "session_client_new c lb = (case alloc lb of (k, lb) \<Rightarrow> (\<lparr>sc_id = k, sc_client = c, sc_joined = False\<rparr>, lb))"

definition client_session_new :: "nat \<Rightarrow> lobby \<Rightarrow> client_session \<times> lobby" where
  "client_session_new s lb = (case alloc lb of (k, lb) \<Rightarrow> (\<lparr>cs_id = k, cs_session = s, cs_joined = False\<rparr>, lb))"

definition enter_session :: "nat \<Rightarrow> nat \<Rightarrow> lobby \<Rightarrow> (bool \<times> lobby) outcome" where
  "enter_session c s lb =
    (case lc_account (lb_client lb c) of None \<Rightarrow> Inr (False, lb)
     | Some o1 \<Rightarrow>
        bindO (session_client_getby_account_id s (account_id o1 lb) lb) (\<lambda>existing.
          if existing \<noteq> None \<or> getby_id (poker_of s lb) (account_id o1 lb) \<noteq> None then Inr (False, lb)
          else
            let (sc, lb) = session_client_new c lb;
                lb = upd_session s (\<lambda>se. se\<lparr>se_clients := se_clients se @ [sc]\<rparr>) lb;
                (cs, lb) = client_session_new s lb;
                lb = upd_list (lc_sessions (lb_client lb c)) (\<lambda>l. l @ [cs]) lb
            in Inr (True, set_watchers_num s (watchers s lb + 1) lb)))"

section \<open>Joining\<close>

text \<open>The two flags and the count that say who has joined.\<close>

definition mark_joined :: "nat \<Rightarrow> nat \<Rightarrow> session_client \<Rightarrow> client_session \<Rightarrow> bool \<Rightarrow> lobby \<Rightarrow> lobby" where
  "mark_joined c s sc cs b lb =
    (let lb = upd_session s (\<lambda>se. se\<lparr>se_clients := set_client_joined (sc_id sc) b (se_clients se)\<rparr>) lb;
         lb = upd_list (lc_sessions (lb_client lb c)) (set_joined (cs_id cs) b) lb
     in upd_session s (\<lambda>se. se\<lparr>se_joined_count := se_joined_count se + (if b then 1 else -1)\<rparr>) lb)"

text \<open>The seat is taken, the sessions are announced and the stake is locked before the new player,
  which is null when the table is full, is used. The result of the lock is ignored.\<close>

definition starts :: "nat \<Rightarrow> lobby \<Rightarrow> bool" where
  "starts s lb \<longleftrightarrow> players_length s lb = 2 \<and> pk_state (poker_of s lb) = W4P"

definition schedule_start :: "env \<Rightarrow> nat \<Rightarrow> lobby \<Rightarrow> lobby" where
  "schedule_start en s lb =
    (let lb = upd_poker s (poker_starting (en_now en)) lb
     in case task_at (StartGame s) lb of (i, lb) \<Rightarrow>
       on_loop (\<lambda>el. task_call_after i 10000 (task_use i el))
         (upd_session s (\<lambda>se. se\<lparr>se_start_task := Some i\<rparr>) lb))"

definition join_session :: "env \<Rightarrow> nat \<Rightarrow> nat \<Rightarrow> 64 word \<Rightarrow> int \<Rightarrow> lobby \<Rightarrow> (bool \<times> lobby) outcome" where
  "join_session en c s amount position lb =
    (case lc_account (lb_client lb c) of None \<Rightarrow> Inr (False, lb)
     | Some o1 \<Rightarrow>
        bindO (session_client_getby_account_id s (account_id o1 lb) lb) (\<lambda>found.
          case found of None \<Rightarrow> Inr (False, lb)
          | Some sc \<Rightarrow>
            (case client_session_getby_session_id c (se_id (lb_session lb s)) lb of None \<Rightarrow> Inr (False, lb)
             | Some cs \<Rightarrow>
               if cs_joined cs then Inr (False, lb)
               else
                 let lb = mark_joined c s sc cs True lb;
                     old_length = players_length s lb;
                     (i, lb) = alloc lb;
                     (p, player) = players_addby_account (poker_of s lb) i (account_id o1 lb) position;
                     lb = reorder_updated_session s old_length (upd_poker s (\<lambda>_. p) lb)
                 in bindO (broadcast_sessions lb) (\<lambda>lb.
                    let lb = snd (with_store (account_lock_balance o1 amount) lb)
                    in bindO (deref player) (\<lambda>i.
                    let lb = upd_poker s (upd_player i (\<lambda>pl. pl\<lparr>pl_enterance_balance := amount, pl_balance := amount\<rparr>)) lb;
                        lb = set_players_num s (players_num s lb + 1) lb
                    in Inr (True, if starts s lb then schedule_start en s lb else lb))))))"

section \<open>Unjoining\<close>

text \<open>The stake leaves the locked balance and the chips of the player are added to the balance, in
  one transaction. \<open>account_remove_locked_balance\<close> does not change the object, so the object is
  fetched before.\<close>

definition pay_out :: "nat \<Rightarrow> player \<Rightarrow> lobby \<Rightarrow> lobby" where
  "pay_out o1 pl lb =
    (let lb = snd (with_store (with_db transaction_begin) lb);
         (removed, lb) = with_store (account_remove_locked_balance o1 (pl_enterance_balance pl)) lb;
         (result, lb) = (if removed then with_store (account_add_balance o1 (pl_balance pl)) lb else (False, lb))
     in snd (with_store (with_db (if result then transaction_commit else transaction_rollback)) lb))"

definition remove_player :: "nat \<Rightarrow> pid \<Rightarrow> lobby \<Rightarrow> lobby outcome" where
  "remove_player s i lb =
    (let lb = (if pk_state (poker_of s lb) = DONE
               then upd_poker s (upd_player i (\<lambda>pl. pl\<lparr>pl_ref := ref_counted_use (pl_ref pl)\<rparr>)) lb else lb);
         old_length = players_length s lb;
         lb = reorder_updated_session s old_length (upd_poker s (\<lambda>p. players_remove p i) lb)
     in bindO (broadcast_sessions lb) (\<lambda>lb.
        Inr (if players_length s lb = 1 \<and> pk_state (poker_of s lb) \<le> STARTING
             then upd_poker s (\<lambda>p. p\<lparr>pk_state := W4P\<rparr>) lb else lb)))"

definition stop_waiting :: "nat \<Rightarrow> lobby \<Rightarrow> lobby" where
  "stop_waiting s lb =
    (if se_joined_count (lb_session lb s) \<noteq> 1 then lb
     else
       let lb = upd_session s (\<lambda>se. se\<lparr>se_start_task := None\<rparr>) (leave_and_cancel (se_start_task (lb_session lb s)) lb)
       in upd_session s (\<lambda>se. se\<lparr>se_restart_task := None\<rparr>) (leave_and_cancel (se_restart_task (lb_session lb s)) lb))"

definition unjoin_session :: "nat \<Rightarrow> nat \<Rightarrow> lobby \<Rightarrow> (bool \<times> lobby) outcome" where
  "unjoin_session c s lb =
    bindO (deref (lc_account (lb_client lb c))) (\<lambda>o1.
    bindO (session_client_getby_account_id s (account_id o1 lb) lb) (\<lambda>found.
      case found of None \<Rightarrow> Inr (False, lb)
      | Some sc \<Rightarrow>
        bindO (deref (client_session_getby_session_id c (se_id (lb_session lb s)) lb)) (\<lambda>cs.
          if \<not> cs_joined cs then Inr (False, lb)
          else
            let lb = mark_joined c s sc cs False lb
            in (case getby_id (poker_of s lb) (account_id o1 lb) of None \<Rightarrow> Inr (False, lb)
                | Some i \<Rightarrow>
                  let lb = upd_poker s (upd_player i (\<lambda>pl. pl\<lparr>pl_left := True\<rparr>)) lb
                  in bindO (fetch o1 lb) (\<lambda>lb.
                     let lb = pay_out o1 (the_player (poker_of s lb) i) lb;
                         st = pk_state (poker_of s lb)
                     in bindO (if st \<le> STARTING \<or> st = DONE then remove_player s i lb else Inr lb) (\<lambda>lb.
                        bindO (send (lc_client (lb_client lb c)) (Unjoined (table_id s lb) 0) lb) (\<lambda>lb.
                        bindO (each (send_info_and_state s) (se_clients (lb_session lb s)) lb) (\<lambda>lb.
                          Inr (True, stop_waiting s (set_players_num s (players_num s lb - 1) lb))))))))))"

section \<open>Leaving\<close>

text \<open>The session client that is removed is found by the account; a null one is an element that is
  unlinked. The last client to leave stops the session and takes it off the lobby's list.\<close>

definition forget_client :: "nat \<Rightarrow> client_session \<Rightarrow> session_client \<Rightarrow> lobby \<Rightarrow> lobby" where
  "forget_client c cs sc lb =
    (let lb = upd_session (cs_session cs) (\<lambda>se. se\<lparr>se_clients := filter (\<lambda>x. sc_id x \<noteq> sc_id sc) (se_clients se)\<rparr>) lb
     in upd_list (lc_sessions (lb_client lb c)) (filter (\<lambda>x. cs_id x \<noteq> cs_id cs)) lb)"

definition close_if_empty :: "nat \<Rightarrow> lobby \<Rightarrow> lobby outcome" where
  "close_if_empty s lb =
    (if se_clients (lb_session lb s) = []
     then let lb = session_stop s lb in broadcast_sessions (lb\<lparr>lb_sessions := remove1 s (lb_sessions lb)\<rparr>)
     else Inr lb)"

definition leave_session :: "nat \<Rightarrow> client_session \<Rightarrow> lobby \<Rightarrow> lobby outcome" where
  "leave_session c cs lb =
    (let s = cs_session cs
     in bindO (if cs_joined cs then bindO (unjoin_session c s lb) (\<lambda>(_, lb). Inr lb) else Inr lb) (\<lambda>lb.
        bindO (deref (lc_account (lb_client lb c))) (\<lambda>o1.
        bindO (session_client_getby_account_id s (account_id o1 lb) lb) (\<lambda>found.
        bindO (deref found) (\<lambda>sc.
        bindO (close_if_empty s (forget_client c cs sc lb)) (\<lambda>lb.
        bindO (send_states s lb) (\<lambda>lb.
          Inr (set_watchers_num s (watchers s lb - 1) lb))))))))"

section \<open>Driving the game\<close>

text \<open>The end of a game is told to every client, and a client whose player cannot pay the entrance
  again is made to unjoin.\<close>

definition poker_end_packet :: "poker \<Rightarrow> server_packet" where
  "poker_end_packet p = (case pk_winner p of
      Some w \<Rightarrow> PokerEnd p (pl_account (the_player p w)) (pk_pot p)
    | None \<Rightarrow> PokerEnd p 0 0)"

definition end_for_client :: "nat \<Rightarrow> session_client \<Rightarrow> lobby \<Rightarrow> lobby outcome" where
  "end_for_client s sc lb =
    bindO (send (lc_client (lb_client lb (sc_client sc))) (poker_end_packet (poker_of s lb)) lb) (\<lambda>lb.
    bindO (receiver_player s sc lb) (\<lambda>i. case i of
        None \<Rightarrow> Inr lb
      | Some i \<Rightarrow>
          if pl_balance (the_player (poker_of s lb) i) < tb_enterance_min (pk_table (poker_of s lb))
          then bindO (unjoin_session (sc_client sc) s lb) (\<lambda>(_, lb). Inr lb) else Inr lb))"

definition remove_left :: "poker \<Rightarrow> poker" where
  "remove_left p = fold (\<lambda>i p. if pl_left (the_player p i) then players_remove p i else p) (pk_players p) p"

definition schedule_restart :: "nat \<Rightarrow> lobby \<Rightarrow> lobby" where
  "schedule_restart s lb =
    (case task_at (RestartGame s) lb of (i, lb) \<Rightarrow>
       on_loop (\<lambda>el. task_call_after i 10000 (task_use i el))
         (upd_session s (\<lambda>se. se\<lparr>se_restart_task := Some i\<rparr>) lb))"

definition run_poker :: "nat \<Rightarrow> (poker \<Rightarrow> poker outcome) \<Rightarrow> lobby \<Rightarrow> lobby outcome" where
  "run_poker s f lb =
    bindO (f (poker_of s lb)) (\<lambda>p. let lb = upd_poker s (\<lambda>_. p) lb in Inr (post_actions s (own_account s lb) lb))"

text \<open>After the players who left are removed, the length given to \<open>reorder_updated_session\<close> as the old
  one is already the new one.\<close>

definition session_proceed :: "env \<Rightarrow> nat \<Rightarrow> lobby \<Rightarrow> lobby outcome" where
  "session_proceed en s lb =
    (let lb = upd_session s (\<lambda>se. se\<lparr>se_proceed_task := None\<rparr>) lb
     in if \<not> se_running (lb_session lb s) then Inr lb
        else if pk_state (poker_of s lb) = DONE then
          bindO (each (end_for_client s) (se_clients (lb_session lb s)) lb) (\<lambda>lb.
            let lb = upd_poker s remove_left lb;
                lb = reorder_updated_session s (players_length s lb) lb
            in bindO (broadcast_sessions lb) (\<lambda>lb.
               bindO (send_states s (upd_poker s (poker_starting (en_now en)) lb)) (\<lambda>lb.
                 run_poker s (poker_proceed (en_now en)) (schedule_restart s lb))))
        else run_poker s (poker_proceed (en_now en)) (post_proceed s (Some 1000) lb))"

definition leave_task :: "nat option \<Rightarrow> lobby \<Rightarrow> lobby" where
  "leave_task task lb = (case task of None \<Rightarrow> lb | Some i \<Rightarrow> on_loop (task_leave i) lb)"

definition session_poker_start :: "env \<Rightarrow> nat \<Rightarrow> lobby \<Rightarrow> lobby outcome" where
  "session_poker_start en s lb =
    (let lb = upd_session s (\<lambda>se. se\<lparr>se_start_task := None\<rparr>) (leave_task (se_start_task (lb_session lb s)) lb)
     in bindO (poker_start (en_now en) (poker_of s lb)) (\<lambda>(p, is_started).
        let lb = upd_poker s (\<lambda>_. p) lb; lb = post_actions s (own_account s lb) lb
        in if is_started then send_states s lb else Inr lb))"

definition send_restarted :: "nat \<Rightarrow> session_client \<Rightarrow> lobby \<Rightarrow> lobby outcome" where
  "send_restarted s sc lb =
    bindO (receiver_player s sc lb) (\<lambda>_.
    bindO (send (lc_client (lb_client lb (sc_client sc))) (PokerRestarted (table_id s lb)) lb) (\<lambda>lb.
      send_info_and_state s sc lb))"

definition session_poker_restart :: "env \<Rightarrow> nat \<Rightarrow> lobby \<Rightarrow> lobby outcome" where
  "session_poker_restart en s lb =
    (let lb = upd_session s (\<lambda>se. se\<lparr>se_restart_task := None\<rparr>) (leave_task (se_restart_task (lb_session lb s)) lb)
     in bindO (poker_restart (en_now en) (poker_of s lb)) (\<lambda>(p, _).
        let lb = upd_poker s (\<lambda>_. p) lb; lb = post_actions s (own_account s lb) lb
        in bindO (each (send_restarted s) (se_clients (lb_session lb s)) lb) (\<lambda>lb.
           Inr (post_proceed s (Some 1000) lb))))"

section \<open>Actions of a game\<close>

text \<open>When the turn has come to a player who left during the game, the lobby folds for it, in the name
  of the account of the player who acted before.\<close>

definition kind_number :: "action_kind \<Rightarrow> nat" where
  "kind_number k = (case k of ActSmallBlind \<Rightarrow> 0 | ActBigBlind \<Rightarrow> 1 | ActRaise \<Rightarrow> 2 | ActCheck \<Rightarrow> 3 | ActFold \<Rightarrow> 4
     | ActOther n \<Rightarrow> n)"

definition kind_of_number :: "nat \<Rightarrow> action_kind" where
  "kind_of_number n = (if n = 0 then ActSmallBlind else if n = 1 then ActBigBlind else if n = 2 then ActRaise
     else if n = 3 then ActCheck else if n = 4 then ActFold else ActOther n)"

definition reflect :: "nat \<Rightarrow> action \<Rightarrow> 64 word \<Rightarrow> session_client \<Rightarrow> lobby \<Rightarrow> lobby outcome" where
  "reflect s a account sc lb =
    bindO (send (lc_client (lb_client lb (sc_client sc)))
      (ActionReflection (table_id s lb) account (kind_number (act_kind a)) (act_amount a)) lb) (\<lambda>lb.
      send_state s sc lb)"

definition on_poker_action :: "env \<Rightarrow> nat \<Rightarrow> pid \<Rightarrow> action \<Rightarrow> 64 word \<Rightarrow> lobby \<Rightarrow> lobby outcome" where
  "on_poker_action en s i a account lb =
    bindO (each (reflect s a account) (se_clients (lb_session lb s)) lb) (\<lambda>lb.
      let p = poker_of s lb
      in bindO (deref (getby_position p (pk_playing_position p))) (\<lambda>j.
         if pl_left (the_player p j) \<and> pl_playing (the_player p j)
         then bindO (do_action (en_now en) p j fold_action) (\<lambda>(p', _).
              Inr (post_actions s (\<lambda>_. pl_account (the_player p i)) (upd_poker s (\<lambda>_. p') lb)))
         else Inr lb))"

end
