(* ===== verification/Lobby_Handlers.thy ===== *)
theory Lobby_Handlers
  imports Lobby_Session
begin

text \<open>
  The handlers that the lobby gives to the server, one for each kind of task that a connection
  posts, and the turn of the event loop that runs them (\<open>src/src/lobby.c\<close>).
\<close>

section \<open>Logging in\<close>

definition account_owner :: "nat \<Rightarrow> nat \<Rightarrow> store \<Rightarrow> store" where
  "account_owner o1 c = upd_object o1 (\<lambda>a. a\<lparr>ao_on_updated := Some c\<rparr>)"

text \<open>A session of another account object is given up; without one, a new session is created, which
  is null when Redis fails.\<close>

definition new_auth :: "env \<Rightarrow> nat \<Rightarrow> lobby \<Rightarrow> nat option \<times> lobby" where
  "new_auth en o1 lb =
    (case alloc lb of (k, lb) \<Rightarrow>
       (case auth_session_create (en_token en k) o1 (lb_store lb) (lb_redis lb) of
          (None, rd) \<Rightarrow> (None, lb\<lparr>lb_redis := rd\<rparr>)
        | (Some au, rd) \<Rightarrow> (Some k, lb\<lparr>lb_redis := rd, lb_auth := (lb_auth lb)(k := au)\<rparr>)))"

definition client_set_account :: "env \<Rightarrow> nat \<Rightarrow> nat \<Rightarrow> lobby \<Rightarrow> lobby" where
  "client_set_account en c o1 lb =
    (let keep = (case lc_auth_session (lb_client lb c) of None \<Rightarrow> None
                 | Some k \<Rightarrow> if au_account (lb_auth lb k) \<noteq> o1 then None else Some k);
         (au, lb) = (case keep of None \<Rightarrow> new_auth en o1 lb | Some k \<Rightarrow> (Some k, lb))
     in upd_client c (\<lambda>lc. lc\<lparr>lc_auth_session := au, lc_account := Some o1\<rparr>) lb)"

definition auth_packet :: "nat option \<Rightarrow> lobby \<Rightarrow> auth_session option" where
  "auth_packet au lb = map_option (\<lambda>k. let a = lb_auth lb k
     in \<lparr>as_ref = ref_counted_init, as_token = au_token a, as_account = account_packet (au_account a) lb\<rparr>) au"

definition account_of :: "nat \<Rightarrow> lobby \<Rightarrow> account option" where
  "account_of c lb = map_option (\<lambda>o1. account_packet o1 lb) (lc_account (lb_client lb c))"

definition send_sessions :: "nat \<Rightarrow> 16 word \<Rightarrow> lobby \<Rightarrow> lobby outcome" where
  "send_sessions k offset lb = send k (Sessions offset (session_pokers lb)) lb"

definition on_client_login :: "env \<Rightarrow> nat \<Rightarrow> bytes \<Rightarrow> bytes \<Rightarrow> lobby \<Rightarrow> lobby outcome" where
  "on_client_login en k id_token password lb =
    (case with_store (account_getby_credentials (en_md5 en) id_token password) lb of
      (None, lb) \<Rightarrow> send k (LoginRes 1 0 None None) lb
    | (Some o1, lb) \<Rightarrow>
        bindO (deref (cn_owner (lb_conn lb k))) (\<lambda>c.
        let lb = client_set_account en c o1 (set_store (account_owner o1 c (lb_store lb)) lb);
            au = lc_auth_session (lb_client lb c)
        in bindO (send_packet k (LoginRes 1 1 (account_of c lb) (auth_packet au lb)) lb) (\<lambda>(result, lb).
           if \<not> result then Inr lb
           else bindO (deref au) (\<lambda>a.
             let lb = lb\<lparr>lb_authorized := (lb_authorized lb)(sql_text (au_token (lb_auth lb a)) := Some c)\<rparr>
             in send_sessions k 0 lb))))"

definition starting_balance :: "64 word" where
  "starting_balance = 10000000000000"

text \<open>After \<open>client_set_account\<close> has created a session for the account, a second one is created and its token
  is the one the client is told; neither is put into \<open>authorized_clients\<close>.\<close>

definition on_client_signup :: "env \<Rightarrow> nat \<Rightarrow> bytes \<Rightarrow> bytes \<Rightarrow> bytes \<Rightarrow> bytes \<Rightarrow> lobby \<Rightarrow> lobby outcome" where
  "on_client_signup en k id_token password name avatar lb =
    bindO (account_create (en_md5 en) (en_address en) (en_chosen en)
      \<lparr>na_id_token = id_token, na_password = password, na_name = name, na_avatar = avatar,
       na_balance = starting_balance, na_address = None\<rparr> (lb_store lb)) (\<lambda>((account, is_already_exists), st).
      let lb = set_store st lb
      in case account of
          None \<Rightarrow> send k (SignupRes 0 0 (if is_already_exists then 2 else 1) None None) lb
        | Some o1 \<Rightarrow>
            bindO (deref (cn_owner (lb_conn lb k))) (\<lambda>c.
            let lb = client_set_account en c o1 (set_store (account_owner o1 c (lb_store lb)) lb);
                (au, lb) = new_auth en o1 lb
            in bindO (send k (SignupRes 1 1 0 (account_of c lb) (auth_packet au lb)) lb) (\<lambda>lb.
               send_sessions k 0 lb)))"

section \<open>Coming back\<close>

definition refuse_auth :: "nat \<Rightarrow> lobby \<Rightarrow> lobby outcome" where
  "refuse_auth k lb = send k (AuthSessionRes 1 0 None) lb"

definition revive :: "nat \<Rightarrow> nat \<Rightarrow> lobby \<Rightarrow> lobby" where
  "revive c r lb =
    (let k = lc_client (lb_client lb c);
         lb = upd_client r (\<lambda>lc. lc\<lparr>lc_revived := True, lc_client := k, lc_tolerant_disconnected := False,
           lc_disconnected := False, lc_connected := True\<rparr>) lb
     in upd_conn k (\<lambda>cn. cn\<lparr>cn_owner := Some r\<rparr>) lb)"

text \<open>Session clients whose session token is the token object of the packet; tokens are compared as
  pointers, so it is the same session object.\<close>

definition retarget :: "nat \<Rightarrow> nat \<Rightarrow> session_client \<Rightarrow> lobby \<Rightarrow> session_client" where
  "retarget r a sc lb =
    (if lc_auth_session (lb_client lb (sc_client sc)) = Some a then sc\<lparr>sc_client := r\<rparr> else sc)"

definition retarget_sessions :: "nat \<Rightarrow> nat \<Rightarrow> lobby \<Rightarrow> lobby" where
  "retarget_sessions r a lb =
    fold (\<lambda>cs lb. upd_session (cs_session cs)
      (\<lambda>se. se\<lparr>se_clients := map (\<lambda>sc. retarget r a sc lb) (se_clients se)\<rparr>) lb) (entered r lb) lb"

text \<open>The lobby client \<open>r\<close> that the token belongs to is taken up by the connection, with a new account object
  and, since that is another object, with a new session.\<close>

definition take_up :: "nat \<Rightarrow> nat \<Rightarrow> nat \<Rightarrow> bytes \<Rightarrow> lobby \<Rightarrow> lobby" where
  "take_up c r a token lb =
    (let lb = retarget_sessions r a (revive c r lb);
         lb = upd_client c (\<lambda>lc. lc\<lparr>lc_sessions := lc_sessions (lb_client lb r)\<rparr>) lb
     in lb\<lparr>lb_authorized := (lb_authorized lb)(sql_text token := Some r)\<rparr>)"

definition accept_auth :: "env \<Rightarrow> nat \<Rightarrow> nat \<Rightarrow> nat \<Rightarrow> nat \<Rightarrow> nat \<Rightarrow> bytes \<Rightarrow> lobby \<Rightarrow> lobby outcome" where
  "accept_auth en k c r a o1 token lb =
    (let lb = take_up c r a token lb;
         lb = client_set_account en r o1 (set_store (account_owner o1 r (lb_store lb)) lb)
     in bindO (send_packet k (AuthSessionRes 1 1 (account_of r lb)) lb) (\<lambda>(result, lb).
        if \<not> result then Inr lb
        else send_sessions k 0
          (upd_client r (\<lambda>lc. lc\<lparr>lc_tolerant_disconnected := False, lc_revived := False\<rparr>) lb)))"

definition on_client_auth_session :: "env \<Rightarrow> nat \<Rightarrow> bytes \<Rightarrow> lobby \<Rightarrow> lobby outcome" where
  "on_client_auth_session en k token lb =
    bindO (deref (cn_owner (lb_conn lb k))) (\<lambda>c.
      if lc_auth_session (lb_client lb c) \<noteq> None \<and> \<not> lc_tolerant_disconnected (lb_client lb c)
      then send k (AuthSessionRes 1 1 (account_of c lb)) lb
      else
        case auth_session_getby_token token (lb_store lb) (lb_redis lb) of
          (None, st) \<Rightarrow> refuse_auth k (set_store st lb)
        | (Some au, st) \<Rightarrow>
            let (a, lb) = alloc (set_store st lb);
                lb = (upd_client c (\<lambda>lc. lc\<lparr>lc_auth_session := Some a\<rparr>) lb)\<lparr>lb_auth := (lb_auth lb)(a := au)\<rparr>
            in case lb_authorized lb (sql_text token) of
                None \<Rightarrow> refuse_auth k lb
              | Some r \<Rightarrow>
                  bindO (deref (lc_account (lb_client lb r))) (\<lambda>o2.
                  if account_id o2 lb \<noteq> account_id (au_account au) lb then refuse_auth k lb
                  else accept_auth en k c r a (au_account au) token lb))"

section \<open>Accounts\<close>

definition on_client_get_account :: "nat \<Rightarrow> lobby \<Rightarrow> lobby outcome" where
  "on_client_get_account k lb =
    bindO (deref (cn_owner (lb_conn lb k))) (\<lambda>c.
      case lc_account (lb_client lb c) of None \<Rightarrow> Inr lb
      | Some o1 \<Rightarrow> bindO (fetch o1 lb) (\<lambda>lb. send k (AccountPacket (account_packet o1 lb)) lb))"

text \<open>The avatar of the packet is measured up to its first null byte, and it is not terminated:
  \<open>beyond\<close> is what lies behind it in memory.\<close>

definition on_client_update_account :: "bytes \<Rightarrow> nat \<Rightarrow> bytes \<Rightarrow> bytes \<Rightarrow> lobby \<Rightarrow> lobby outcome" where
  "on_client_update_account beyond k name avatar lb =
    bindO (deref (cn_owner (lb_conn lb k))) (\<lambda>c.
      case lc_account (lb_client lb c) of None \<Rightarrow> send k (UpdateAccountRes False False) lb
      | Some o1 \<Rightarrow>
          let ((is_ok, too_big), lb) = with_store (account_update (account_id o1 lb) name avatar) lb;
              lb = (if is_ok then set_store (upd_object o1 (\<lambda>a. a\<lparr>ac_avatar := sql_text (avatar @ beyond)\<rparr>)
                (lb_store lb)) lb else lb)
          in bindO (send k (UpdateAccountRes is_ok too_big) lb) (\<lambda>lb.
             bindO (fetch o1 lb) (\<lambda>lb. send k (AccountPacket (account_packet o1 lb)) lb)))"

definition account_updated :: "nat \<Rightarrow> nat \<Rightarrow> lobby \<Rightarrow> lobby outcome" where
  "account_updated o1 c lb = send (lc_client (lb_client lb c)) (AccountPacket (account_packet o1 lb)) lb"

section \<open>Tables and sessions\<close>

definition session_new :: "env \<Rightarrow> table \<Rightarrow> lobby \<Rightarrow> nat \<times> lobby" where
  "session_new en t lb =
    (case alloc lb of (s, lb) \<Rightarrow>
       (s, upd_session s (\<lambda>old. \<lparr>se_id = en_uid en s,
         se_poker = poker_new t (pk_store (se_poker old)) (pk_proceed_time (se_poker old)) (en_draws en),
         se_running = False, se_proceed_task = None, se_start_task = None, se_restart_task = None,
         se_clients = [], se_joined_count = 0\<rparr>) lb))"

text \<open>The session of the table, or a new one.\<close>

definition find_or_open :: "env \<Rightarrow> 64 word \<Rightarrow> lobby \<Rightarrow> nat option \<times> lobby" where
  "find_or_open en i lb =
    (case session_getby_table_id i lb of Some s \<Rightarrow> (Some s, lb)
     | None \<Rightarrow>
         (case with_store (with_db (table_get i)) lb of
            (None, lb) \<Rightarrow> (None, lb)
          | (Some t, lb) \<Rightarrow>
              (case session_new en (t\<lparr>tb_players_count := 0, tb_watchers_count := 0\<rparr>) lb of (s, lb) \<Rightarrow>
                 (Some s, session_start s (lb\<lparr>lb_sessions := lb_sessions lb @ [s]\<rparr>)))))"

definition on_client_enter :: "env \<Rightarrow> nat \<Rightarrow> 64 word \<Rightarrow> lobby \<Rightarrow> lobby outcome" where
  "on_client_enter en k i lb =
    bindO (deref (cn_owner (lb_conn lb k))) (\<lambda>c.
      if lc_account (lb_client lb c) = None then send k (EnterRes i 0) lb
      else case find_or_open en i lb of
          (None, lb) \<Rightarrow> send k (EnterRes i 0) lb
        | (Some s, lb) \<Rightarrow>
            bindO (enter_session c s lb) (\<lambda>(is_entered, lb).
            bindO (send k (EnterRes (table_id s lb) (of_bool is_entered)) lb) (\<lambda>lb.
              if is_entered then send k (PokerInfo (poker_of s lb)) lb else Inr lb)))"

definition on_client_leave :: "nat \<Rightarrow> 64 word \<Rightarrow> lobby \<Rightarrow> lobby outcome" where
  "on_client_leave k i lb =
    bindO (deref (cn_owner (lb_conn lb k))) (\<lambda>c.
      case client_session_getby_table_id c i lb of None \<Rightarrow> Inr lb
      | Some cs \<Rightarrow> bindO (leave_session c cs lb) (\<lambda>lb. send k (LeaveRes i 1) lb))"

definition on_client_join :: "env \<Rightarrow> nat \<Rightarrow> 64 word \<Rightarrow> 64 word \<Rightarrow> 8 word \<Rightarrow> lobby \<Rightarrow> lobby outcome" where
  "on_client_join en k i amount position lb =
    bindO (deref (cn_owner (lb_conn lb k))) (\<lambda>c.
      case lc_account (lb_client lb c) of None \<Rightarrow> send k (JoinRes i 0) lb
      | Some o1 \<Rightarrow>
          bindO (fetch o1 lb) (\<lambda>lb.
          if ac_balance (object o1 (lb_store lb)) < amount then send k (JoinRes i 0) lb
          else case session_getby_table_id i lb of None \<Rightarrow> send k (JoinRes i 0) lb
          | Some s \<Rightarrow>
              bindO (join_session en c s amount (uint position) lb) (\<lambda>(is_joined, lb).
              bindO (send k (JoinRes (table_id s lb) (of_bool is_joined)) lb) (\<lambda>lb.
                if \<not> is_joined then Inr lb
                else bindO (send k (PokerInfo (poker_of s lb)) lb) (\<lambda>lb.
                  each (send_info_and_state s) (se_clients (lb_session lb s)) lb)))))"

definition on_client_unjoin :: "nat \<Rightarrow> 64 word \<Rightarrow> lobby \<Rightarrow> lobby outcome" where
  "on_client_unjoin k i lb =
    bindO (deref (cn_owner (lb_conn lb k))) (\<lambda>c.
    bindO (deref (client_session_getby_table_id c i lb)) (\<lambda>cs.
    bindO (unjoin_session c (cs_session cs) lb) (\<lambda>(result, lb).
      send k (UnjoinRes i (of_bool result)) lb)))"

definition on_client_action :: "env \<Rightarrow> nat \<Rightarrow> 64 word \<Rightarrow> 16 word \<Rightarrow> 64 word \<Rightarrow> lobby \<Rightarrow> lobby outcome" where
  "on_client_action en k i kind amount lb =
    bindO (deref (cn_owner (lb_conn lb k))) (\<lambda>c.
      case client_session_getby_table_id c i lb of None \<Rightarrow> Inr lb
      | Some cs \<Rightarrow>
          bindO (deref (lc_account (lb_client lb c))) (\<lambda>o1.
          let s = cs_session cs
          in case getby_id (poker_of s lb) (account_id o1 lb) of None \<Rightarrow> Inr lb
          | Some pl \<Rightarrow>
              bindO (do_action (en_now en) (poker_of s lb) pl
                \<lparr>act_kind = kind_of_number (unat kind), act_amount = amount\<rparr>) (\<lambda>(p, _).
                Inr (post_actions s (\<lambda>_. account_id o1 lb) (upd_poker s (\<lambda>_. p) lb)))))"

definition on_client_get_tables :: "nat \<Rightarrow> 16 word \<Rightarrow> 16 word \<Rightarrow> lobby \<Rightarrow> lobby outcome" where
  "on_client_get_tables k offset len lb =
    (case with_store (with_db (table_get_list (unat offset) (unat len))) lb of (ts, lb) \<Rightarrow>
       send k (Tables offset ts) lb)"

definition on_client_get_sessions :: "nat \<Rightarrow> 16 word \<Rightarrow> lobby \<Rightarrow> lobby outcome" where
  "on_client_get_sessions k offset lb = send_sessions k offset lb"

definition on_client_meowed :: "env \<Rightarrow> nat \<Rightarrow> lobby \<Rightarrow> lobby outcome" where
  "on_client_meowed en k lb = send k (ServerInfo (en_build en) (en_version en) (en_revision en) (en_compiler en)) lb"

section \<open>Connecting and disconnecting\<close>

definition on_client_connected :: "nat \<Rightarrow> lobby \<Rightarrow> lobby" where
  "on_client_connected k lb =
    (let (c, lb) = alloc lb; (l, lb) = alloc lb;
         lb = upd_list l (\<lambda>_. []) lb;
         lb = upd_client c (\<lambda>_. \<lparr>lc_client = k, lc_sessions = l, lc_account = None, lc_auth_session = None,
           lc_tolerant_disconnected = False, lc_disconnected = False, lc_connected = True, lc_revived = False,
           lc_tolerated_task = None\<rparr>) lb
     in upd_conn k (\<lambda>cn. cn\<lparr>cn_owner := Some c\<rparr>) lb)"

definition DISCONNECTION_TOLERANCE :: int where "DISCONNECTION_TOLERANCE = 20000"

definition on_client_disconnected :: "nat \<Rightarrow> lobby \<Rightarrow> lobby outcome" where
  "on_client_disconnected k lb =
    bindO (deref (cn_owner (lb_conn lb k))) (\<lambda>c.
      let lb = upd_client c (\<lambda>lc. lc\<lparr>lc_tolerant_disconnected := True, lc_connected := False\<rparr>) lb;
          lb = cancel_and_leave (lc_tolerated_task (lb_client lb c)) lb;
          (i, lb) = task_at (Tolerated k) lb
      in Inr (on_loop (\<lambda>el. task_use i (task_call_after i DISCONNECTION_TOLERANCE el))
           (upd_client c (\<lambda>lc. lc\<lparr>lc_tolerated_task := Some i\<rparr>) lb)))"

definition on_client_disconnected_tolerated :: "nat \<Rightarrow> lobby \<Rightarrow> lobby outcome" where
  "on_client_disconnected_tolerated k lb =
    bindO (deref (cn_owner (lb_conn lb k))) (\<lambda>c.
      let lc = lb_client lb c
      in if \<not> lc_tolerant_disconnected lc \<and> \<not> lc_disconnected lc \<and> lc_connected lc then Inr lb
         else
           let lb = upd_client c (\<lambda>lc. lc\<lparr>lc_disconnected := True\<rparr>) lb;
               lb = (case lc_auth_session lc of None \<Rightarrow> lb
                     | Some a \<Rightarrow> if lc_revived lc then lb
                         else lb\<lparr>lb_authorized := (lb_authorized lb)(sql_text (au_token (lb_auth lb a)) := None)\<rparr>)
           in bindO (if lc_revived lc then Inr lb else each (leave_session c) (entered c lb) lb) (\<lambda>lb.
              Inr (upd_client c (\<lambda>lc. lc\<lparr>lc_tolerated_task := None\<rparr>) lb)))"

section \<open>The event loop\<close>

definition run_client_task :: "env \<Rightarrow> bytes \<Rightarrow> nat \<Rightarrow> task \<Rightarrow> lobby \<Rightarrow> lobby outcome" where
  "run_client_task en beyond k t lb = (case t of
      ClientConnected \<Rightarrow> Inr (on_client_connected k lb)
    | ClientDisconnected \<Rightarrow> on_client_disconnected k lb
    | ClientMeowed \<Rightarrow> on_client_meowed en k lb
    | ClientGetAccount \<Rightarrow> on_client_get_account k lb
    | ClientLogin id_token password \<Rightarrow> on_client_login en k id_token password lb
    | ClientSignup id_token password name avatar \<Rightarrow> on_client_signup en k id_token password name avatar lb
    | ClientAuthSession token \<Rightarrow> on_client_auth_session en k token lb
    | ClientEnter i \<Rightarrow> on_client_enter en k i lb
    | ClientLeave i \<Rightarrow> on_client_leave k i lb
    | ClientJoin i amount position \<Rightarrow> on_client_join en k i amount position lb
    | ClientUnjoin i \<Rightarrow> on_client_unjoin k i lb
    | ClientAction i kind amount \<Rightarrow> on_client_action en k i kind amount lb
    | ClientGetTables offset len \<Rightarrow> on_client_get_tables k offset len lb
    | ClientGetSessions offset len \<Rightarrow> on_client_get_sessions k offset lb
    | ClientUpdateAccount name avatar \<Rightarrow> on_client_update_account beyond k name avatar lb)"

definition run_task :: "env \<Rightarrow> bytes \<Rightarrow> lobby_task \<Rightarrow> lobby \<Rightarrow> lobby outcome" where
  "run_task en beyond t lb = (case t of
      ClientTask k t \<Rightarrow> run_client_task en beyond k t lb
    | Tolerated k \<Rightarrow> on_client_disconnected_tolerated k lb
    | AccountUpdated o1 c \<Rightarrow> account_updated o1 c lb
    | Proceed s \<Rightarrow> session_proceed en s lb
    | StartGame s \<Rightarrow> session_poker_start en s lb
    | RestartGame s \<Rightarrow> session_poker_restart en s lb
    | PokerActed s i a account \<Rightarrow> on_poker_action en s i a account lb)"

text \<open>One turn of the loop: the next task is taken, run unless it is cancelled, and given up.\<close>

definition lobby_turn :: "env \<Rightarrow> bytes \<Rightarrow> lobby \<Rightarrow> lobby outcome" where
  "lobby_turn en beyond lb = (case tasks_pop (lb_loop lb) of
      (None, el) \<Rightarrow> Inr lb
    | (Some i, el) \<Rightarrow>
        let lb = lb\<lparr>lb_loop := el\<rparr>; t = the_task el i
        in bindO (if et_cancelled t then Inr lb else run_task en beyond (et_what t) lb) (\<lambda>lb.
           Inr (on_loop (finish_task i (et_cancelled t)) lb)))"

section \<open>The beginning\<close>

text \<open>\<open>memory\<close> is what lies in memory before the objects of the lobby are made.\<close>

definition lobby_new :: "lobby \<Rightarrow> store \<Rightarrow> redis \<Rightarrow> lobby" where
  "lobby_new memory st rd = memory\<lparr>lb_store := st, lb_redis := rd, lb_loop := eventloop_new (el_store (lb_loop memory)),
     lb_sessions := [], lb_authorized := (\<lambda>_. None), lb_listed := [], lb_next := 0, lb_sent := []\<rparr>"

end
