(* ===== verification/Lobby_Frames.thy ===== *)
theory Lobby_Frames
  imports Lobby_Handlers Account_Balance
begin

text \<open>
  What sending leaves alone. A packet changes the connections and the event loop and nothing else
  of the lobby (\<open>quiet\<close>), so the effects of the handlers on accounts, seats and sessions can be
  read off the steps between the packets.
\<close>

definition quiet :: "lobby \<Rightarrow> lobby \<Rightarrow> bool" where
  "quiet lb lb' \<longleftrightarrow>
     lb' = lb\<lparr>lb_sent := lb_sent lb', lb_loop := lb_loop lb', lb_listed := lb_listed lb', lb_conn := lb_conn lb'\<rparr>
     \<and> (\<forall>k. cn_owner (lb_conn lb' k) = cn_owner (lb_conn lb k))"

lemma quiet_refl [simp, intro]: "quiet lb lb"
  by (simp add: quiet_def)

lemma quietD:
  assumes "quiet lb lb'"
  shows "lb_store lb' = lb_store lb" "lb_redis lb' = lb_redis lb" "lb_sessions lb' = lb_sessions lb"
    "lb_session lb' = lb_session lb" "lb_client lb' = lb_client lb" "lb_lists lb' = lb_lists lb"
    "lb_auth lb' = lb_auth lb" "lb_authorized lb' = lb_authorized lb" "lb_next lb' = lb_next lb"
    "cn_owner (lb_conn lb' k) = cn_owner (lb_conn lb k)"
proof -
  obtain sent el listed cn where
    "lb' = lb\<lparr>lb_sent := sent, lb_loop := el, lb_listed := listed, lb_conn := cn\<rparr>"
    using assms unfolding quiet_def by blast
  then show "lb_store lb' = lb_store lb" "lb_redis lb' = lb_redis lb" "lb_sessions lb' = lb_sessions lb"
    "lb_session lb' = lb_session lb" "lb_client lb' = lb_client lb" "lb_lists lb' = lb_lists lb"
    "lb_auth lb' = lb_auth lb" "lb_authorized lb' = lb_authorized lb" "lb_next lb' = lb_next lb"
    by simp_all
  show "cn_owner (lb_conn lb' k) = cn_owner (lb_conn lb k)" using assms by (simp add: quiet_def)
qed

lemma quietI:
  assumes "lb_store lb' = lb_store lb" "lb_redis lb' = lb_redis lb" "lb_sessions lb' = lb_sessions lb"
    "lb_session lb' = lb_session lb" "lb_client lb' = lb_client lb" "lb_lists lb' = lb_lists lb"
    "lb_auth lb' = lb_auth lb" "lb_authorized lb' = lb_authorized lb" "lb_next lb' = lb_next lb"
    "\<And>k. cn_owner (lb_conn lb' k) = cn_owner (lb_conn lb k)"
  shows "quiet lb lb'"
  using assms by (simp add: quiet_def)

lemma quiet_trans [trans]: "quiet a b \<Longrightarrow> quiet b c \<Longrightarrow> quiet a c"
  by (rule quietI) (simp_all add: quietD)

lemma quiet_derived:
  assumes "quiet lb lb'"
  shows "poker_of s lb' = poker_of s lb" "table_id s lb' = table_id s lb" "players_length s lb' = players_length s lb"
    "entered c lb' = entered c lb" "account_id o1 lb' = account_id o1 lb" "watchers s lb' = watchers s lb"
    "players_num s lb' = players_num s lb" "session_pokers lb' = session_pokers lb"
    "owner_account c lb' = owner_account c lb" "receiver_player s sc lb' = receiver_player s sc lb"
    "client_session_getby_session_id c i lb' = client_session_getby_session_id c i lb"
    "client_session_getby_table_id c i lb' = client_session_getby_table_id c i lb"
    "session_getby_table_id i lb' = session_getby_table_id i lb"
  using quietD [OF assms]
  by (simp_all add: poker_of_def table_id_def players_length_def entered_def account_id_def watchers_def
      players_num_def session_pokers_def owner_account_def receiver_player_def client_session_getby_session_id_def
      client_session_getby_table_id_def session_getby_table_id_def)

lemma quiet_find: "quiet lb lb' \<Longrightarrow> find_account_client i lb' scs = find_account_client i lb scs"
  by (induction scs) (simp_all add: quiet_derived cong: if_cong)

lemma quiet_getby_account:
  "quiet lb lb' \<Longrightarrow> session_client_getby_account_id s i lb' = session_client_getby_account_id s i lb"
  by (simp add: session_client_getby_account_id_def quiet_find quietD)

section \<open>The steps that are quiet\<close>

lemma call_quiet [simp, intro]: "quiet lb (call t lb)"
  by (rule quietI) (simp_all add: call_def with_loop_def eventloop_call_def task_new_def Let_def)

lemma on_loop_quiet [simp, intro]: "quiet lb (on_loop f lb)"
  by (rule quietI) (simp_all add: on_loop_def)

lemma task_at_quiet: "task_at t lb = (i, lb') \<Longrightarrow> quiet lb lb'"
  by (rule quietI) (auto simp: task_at_def with_loop_def split: prod.splits)

lemma disconnected_quiet [simp, intro]: "quiet lb (disconnected k lb)"
proof -
  have "quiet lb ((upd_conn k (\<lambda>cn. cn\<lparr>cn_alive := False\<rparr>) lb)\<lparr>lb_listed := remove1 k (lb_listed lb)\<rparr>)"
    by (rule quietI) (simp_all add: upd_conn_def)
  then show ?thesis by (auto simp: disconnected_def intro: quiet_trans)
qed

lemma send_packet_quiet:
  assumes "\<not> packet_null (cn_websocket (lb_conn lb k)) p"
  shows "\<exists>ok lb'. send_packet k p lb = Inr (ok, lb') \<and> quiet lb lb'"
proof -
  have "quiet lb (lb\<lparr>lb_sent := lb_sent lb @ [(k, p)]\<rparr>)" by (rule quietI) simp_all
  then show ?thesis using assms by (auto simp: send_packet_def)
qed

lemma send_quiet:
  assumes "\<not> packet_null (cn_websocket (lb_conn lb k)) p"
  shows "\<exists>lb'. send k p lb = Inr lb' \<and> quiet lb lb'"
  using send_packet_quiet [OF assms] by (auto simp: send_def)

lemma packet_null_simps [simp]:
  "\<not> packet_null w (PokerState p v)" "\<not> packet_null w (PokerInfo p)" "\<not> packet_null w (Sessions off ps)"
  "\<not> packet_null w (Unjoined t rs)" "\<not> packet_null w (PokerEnd p a e)" "\<not> packet_null w (PokerRestarted t)"
  "\<not> packet_null w (ActionReflection t a k m)" "\<not> packet_null w (EnterRes t ok)" "\<not> packet_null w (LeaveRes t ok)"
  "\<not> packet_null w (JoinRes t ok)" "\<not> packet_null w (UnjoinRes t ok)" "\<not> packet_null w (AccountPacket ac)"
  "\<not> packet_null w (Tables off ts)" "\<not> packet_null w (UpdateAccountRes b1 b2)" "\<not> packet_null w (ServerInfo n ve re x)"
  by (simp_all add: packet_null_def)

lemma each_quiet:
  assumes "\<And>x lb1. x \<in> set xs \<Longrightarrow> quiet lb lb1 \<Longrightarrow> \<exists>lb2. f x lb1 = Inr lb2 \<and> quiet lb1 lb2"
  shows "\<exists>lb'. each f xs lb = Inr lb' \<and> quiet lb lb'"
  using assms
proof (induction xs arbitrary: lb)
  case (Cons x xs)
  obtain lb1 where lb1: "f x lb = Inr lb1" "quiet lb lb1" using Cons.prems by force
  have "\<exists>lb'. each f xs lb1 = Inr lb' \<and> quiet lb1 lb'"
    using Cons.prems lb1(2) by (intro Cons.IH) (auto intro: quiet_trans)
  then show ?case using lb1 by (auto intro: quiet_trans)
qed auto

lemma broadcast_quiet: "\<exists>lb'. broadcast_sessions lb = Inr lb' \<and> quiet lb lb'"
  unfolding broadcast_sessions_def by (rule each_quiet) (auto intro: send_quiet)

text \<open>Every client of a session is logged in and connected through its owner.\<close>

definition clients_ok :: "nat \<Rightarrow> lobby \<Rightarrow> bool" where
  "clients_ok s lb \<longleftrightarrow> (\<forall>sc \<in> set (se_clients (lb_session lb s)).
     lc_account (lb_client lb (sc_client sc)) \<noteq> None \<and> (\<exists>i. owner_account (sc_client sc) lb = Inr i))"

lemma send_info_and_state_quiet:
  assumes "lc_account (lb_client lb (sc_client sc)) \<noteq> None"
  shows "\<exists>lb'. send_info_and_state s sc lb = Inr lb' \<and> quiet lb lb'"
proof -
  obtain i where i: "receiver_player s sc lb = Inr i" using assms by (auto simp: receiver_player_def)
  let ?k = "lc_client (lb_client lb (sc_client sc))"
  obtain lb1 where lb1: "send ?k (PokerInfo (poker_of s lb)) lb = Inr lb1" "quiet lb lb1"
    using send_quiet [of lb ?k "PokerInfo (poker_of s lb)"] by auto
  obtain lb2 where lb2: "send ?k (PokerState (poker_of s lb) (map_option (the_player (poker_of s lb)) i)) lb1 = Inr lb2" "quiet lb1 lb2"
    using send_quiet [of lb1 ?k "PokerState (poker_of s lb) (map_option (the_player (poker_of s lb)) i)"] by auto
  show ?thesis using i lb1 lb2 quiet_derived [OF lb1(2)] quietD [OF lb1(2)]
    by (auto simp: send_info_and_state_def intro: quiet_trans)
qed

lemma send_state_quiet:
  assumes "lc_account (lb_client lb (sc_client sc)) \<noteq> None"
  shows "\<exists>lb'. send_state s sc lb = Inr lb' \<and> quiet lb lb'"
  using assms by (auto simp: send_state_def receiver_player_def intro!: send_quiet)

lemma send_infos_quiet:
  assumes "clients_ok s lb"
  shows "\<exists>lb'. each (send_info_and_state s) (se_clients (lb_session lb s)) lb = Inr lb' \<and> quiet lb lb'"
  by (rule each_quiet, rule send_info_and_state_quiet) (use assms in \<open>auto simp: clients_ok_def quietD\<close>)

lemma send_states_quiet:
  assumes "clients_ok s lb"
  shows "\<exists>lb'. send_states s lb = Inr lb' \<and> quiet lb lb'"
  unfolding send_states_def
  by (rule each_quiet, rule send_state_quiet) (use assms in \<open>auto simp: clients_ok_def quietD\<close>)

lemma find_account_client_ok:
  assumes "\<forall>sc \<in> set scs. \<exists>i. owner_account (sc_client sc) lb = Inr i"
  shows "\<exists>r. find_account_client i lb scs = Inr r"
  using assms
proof (induction scs)
  case (Cons sc scs)
  then obtain j r where "owner_account (sc_client sc) lb = Inr j" "find_account_client i lb scs = Inr r" by auto
  then show ?case by (cases "j = i") simp_all
qed simp

section \<open>Updates of the store\<close>

lemma set_store_simps [simp]:
  "lb_store (set_store st lb) = st\<lparr>st_notices := []\<rparr>" "lb_redis (set_store st lb) = lb_redis lb"
  "lb_sessions (set_store st lb) = lb_sessions lb" "lb_session (set_store st lb) = lb_session lb"
  "lb_client (set_store st lb) = lb_client lb" "lb_lists (set_store st lb) = lb_lists lb"
  "lb_auth (set_store st lb) = lb_auth lb" "lb_authorized (set_store st lb) = lb_authorized lb"
  "lb_next (set_store st lb) = lb_next lb" "lb_conn (set_store st lb) = lb_conn lb" "lb_sent (set_store st lb) = lb_sent lb"
proof -
  have "lb_store (fold on_account_updated ns l) = lb_store l \<and> lb_redis (fold on_account_updated ns l) = lb_redis l
    \<and> lb_sessions (fold on_account_updated ns l) = lb_sessions l \<and> lb_session (fold on_account_updated ns l) = lb_session l
    \<and> lb_client (fold on_account_updated ns l) = lb_client l \<and> lb_lists (fold on_account_updated ns l) = lb_lists l
    \<and> lb_auth (fold on_account_updated ns l) = lb_auth l \<and> lb_authorized (fold on_account_updated ns l) = lb_authorized l
    \<and> lb_next (fold on_account_updated ns l) = lb_next l \<and> lb_conn (fold on_account_updated ns l) = lb_conn l
    \<and> lb_sent (fold on_account_updated ns l) = lb_sent l"
    for ns l
    by (induction ns arbitrary: l)
      (simp_all add: on_account_updated_def call_def with_loop_def eventloop_call_def task_new_def Let_def split: prod.split)
  then show "lb_store (set_store st lb) = st\<lparr>st_notices := []\<rparr>" "lb_redis (set_store st lb) = lb_redis lb"
    "lb_sessions (set_store st lb) = lb_sessions lb" "lb_session (set_store st lb) = lb_session lb"
    "lb_client (set_store st lb) = lb_client lb" "lb_lists (set_store st lb) = lb_lists lb"
    "lb_auth (set_store st lb) = lb_auth lb" "lb_authorized (set_store st lb) = lb_authorized lb"
    "lb_next (set_store st lb) = lb_next lb" "lb_conn (set_store st lb) = lb_conn lb" "lb_sent (set_store st lb) = lb_sent lb"
    by (simp_all add: set_store_def)
qed

text \<open>The components of the updates of one session, client, list or connection.\<close>

lemma upd_session_simps [simp]:
  "lb_session (upd_session s f lb) = (lb_session lb)(s := f (lb_session lb s))"
  "lb_store (upd_session s f lb) = lb_store lb" "lb_redis (upd_session s f lb) = lb_redis lb"
  "lb_sessions (upd_session s f lb) = lb_sessions lb" "lb_client (upd_session s f lb) = lb_client lb"
  "lb_lists (upd_session s f lb) = lb_lists lb" "lb_conn (upd_session s f lb) = lb_conn lb"
  "lb_next (upd_session s f lb) = lb_next lb" "lb_auth (upd_session s f lb) = lb_auth lb"
  "lb_authorized (upd_session s f lb) = lb_authorized lb" "lb_sent (upd_session s f lb) = lb_sent lb"
  "lb_loop (upd_session s f lb) = lb_loop lb" "lb_listed (upd_session s f lb) = lb_listed lb"
  by (simp_all add: upd_session_def)

lemma upd_list_simps [simp]:
  "lb_lists (upd_list l f lb) = (lb_lists lb)(l := f (lb_lists lb l))"
  "lb_store (upd_list l f lb) = lb_store lb" "lb_redis (upd_list l f lb) = lb_redis lb"
  "lb_sessions (upd_list l f lb) = lb_sessions lb" "lb_client (upd_list l f lb) = lb_client lb"
  "lb_session (upd_list l f lb) = lb_session lb" "lb_conn (upd_list l f lb) = lb_conn lb"
  "lb_next (upd_list l f lb) = lb_next lb" "lb_auth (upd_list l f lb) = lb_auth lb"
  "lb_authorized (upd_list l f lb) = lb_authorized lb" "lb_sent (upd_list l f lb) = lb_sent lb"
  "lb_loop (upd_list l f lb) = lb_loop lb" "lb_listed (upd_list l f lb) = lb_listed lb"
  by (simp_all add: upd_list_def)

lemma upd_client_simps [simp]:
  "lb_client (upd_client c f lb) = (lb_client lb)(c := f (lb_client lb c))"
  "lb_store (upd_client c f lb) = lb_store lb" "lb_redis (upd_client c f lb) = lb_redis lb"
  "lb_sessions (upd_client c f lb) = lb_sessions lb" "lb_lists (upd_client c f lb) = lb_lists lb"
  "lb_session (upd_client c f lb) = lb_session lb" "lb_conn (upd_client c f lb) = lb_conn lb"
  "lb_next (upd_client c f lb) = lb_next lb" "lb_auth (upd_client c f lb) = lb_auth lb"
  "lb_authorized (upd_client c f lb) = lb_authorized lb" "lb_sent (upd_client c f lb) = lb_sent lb"
  "lb_loop (upd_client c f lb) = lb_loop lb" "lb_listed (upd_client c f lb) = lb_listed lb"
  by (simp_all add: upd_client_def)

lemma upd_conn_simps [simp]:
  "lb_conn (upd_conn k f lb) = (lb_conn lb)(k := f (lb_conn lb k))"
  "lb_store (upd_conn k f lb) = lb_store lb" "lb_redis (upd_conn k f lb) = lb_redis lb"
  "lb_sessions (upd_conn k f lb) = lb_sessions lb" "lb_lists (upd_conn k f lb) = lb_lists lb"
  "lb_session (upd_conn k f lb) = lb_session lb" "lb_client (upd_conn k f lb) = lb_client lb"
  "lb_next (upd_conn k f lb) = lb_next lb" "lb_auth (upd_conn k f lb) = lb_auth lb"
  "lb_authorized (upd_conn k f lb) = lb_authorized lb" "lb_sent (upd_conn k f lb) = lb_sent lb"
  "lb_loop (upd_conn k f lb) = lb_loop lb" "lb_listed (upd_conn k f lb) = lb_listed lb"
  by (simp_all add: upd_conn_def)

lemma alloc_simps [simp]: "alloc lb = (lb_next lb, lb\<lparr>lb_next := lb_next lb + 1\<rparr>)"
  by (simp add: alloc_def)

lemma lb_next_simps [simp]:
  "poker_of s (lb\<lparr>lb_next := n\<rparr>) = poker_of s lb" "account_id o1 (lb\<lparr>lb_next := n\<rparr>) = account_id o1 lb"
  "players_length s (lb\<lparr>lb_next := n\<rparr>) = players_length s lb" "entered c (lb\<lparr>lb_next := n\<rparr>) = entered c lb"
  by (simp_all add: poker_of_def account_id_def players_length_def entered_def)

lemma poker_of_upd_poker [simp]:
  "poker_of s2 (upd_poker s f lb) = (if s2 = s then f (poker_of s lb) else poker_of s2 lb)"
  by (simp add: poker_of_def upd_poker_def)

lemma players_length_upd [simp]: "players_length s (upd_poker s f lb) = length (pk_players (f (poker_of s lb)))"
  by (simp add: players_length_def poker_of_def upd_poker_def)

end
