(* ===== verification/Lobby_Money.thy ===== *)
theory Lobby_Money
  imports Lobby_Frames
begin

text \<open>
  The money of a session: joining a game moves the stake of the account from its balance to its
  locked balance and puts it before the new player, unjoining pays the chips of the player out.
\<close>

section \<open>Paying out\<close>

lemma with_store_simps [simp]:
  "lb_store (snd (with_store f lb)) = (snd (f (lb_store lb)))\<lparr>st_notices := []\<rparr>"
  "fst (with_store f lb) = fst (f (lb_store lb))"
  "lb_redis (snd (with_store f lb)) = lb_redis lb" "lb_sessions (snd (with_store f lb)) = lb_sessions lb"
  "lb_session (snd (with_store f lb)) = lb_session lb" "lb_client (snd (with_store f lb)) = lb_client lb"
  "lb_lists (snd (with_store f lb)) = lb_lists lb" "lb_auth (snd (with_store f lb)) = lb_auth lb"
  "lb_authorized (snd (with_store f lb)) = lb_authorized lb" "lb_next (snd (with_store f lb)) = lb_next lb"
  "lb_conn (snd (with_store f lb)) = lb_conn lb" "lb_sent (snd (with_store f lb)) = lb_sent lb"
  by (simp_all add: with_store_def split_beta)

text \<open>A database between transactions on which the coming statements succeed.\<close>

definition calm :: "lobby \<Rightarrow> bool" where
  "calm lb \<longleftrightarrow> steady (st_db (lb_store lb)) \<and> db_saved (st_db (lb_store lb)) = None"

text \<open>One row of the accounts is changed, and of the objects at most that of the account.\<close>

definition paid :: "nat \<Rightarrow> (accounts_row \<Rightarrow> accounts_row) \<Rightarrow> lobby \<Rightarrow> lobby \<Rightarrow> bool" where
  "paid o1 f lb lb' \<longleftrightarrow> row_changed o1 f (lb_store lb) (lb_store lb')
     \<and> lb_redis lb' = lb_redis lb \<and> lb_sessions lb' = lb_sessions lb \<and> lb_session lb' = lb_session lb
     \<and> lb_client lb' = lb_client lb \<and> lb_lists lb' = lb_lists lb \<and> lb_auth lb' = lb_auth lb
     \<and> lb_authorized lb' = lb_authorized lb \<and> lb_next lb' = lb_next lb \<and> lb_conn lb' = lb_conn lb"

lemma row_changed_notices [simp]:
  "row_changed o1 f st (st'\<lparr>st_notices := ns\<rparr>) = row_changed o1 f st st'"
  "row_changed o1 f (st\<lparr>st_notices := ns\<rparr>) st' = row_changed o1 f st st'"
  by (simp_all add: row_changed_def)

lemma row_of_notices [simp]: "row_of o1 (st\<lparr>st_notices := ns\<rparr>) = row_of o1 st"
  by (simp add: row_of_def)

lemma pay_out_paid:
  assumes "calm lb" "fresh o1 (lb_store lb)"
    and "pl_enterance_balance pl \<le> ac_locked_balance (object o1 (lb_store lb))"
  shows "paid o1 (\<lambda>r. r\<lparr>ar_locked_balance := ac_locked_balance (object o1 (lb_store lb)) - pl_enterance_balance pl,
      ar_balance := ac_balance (object o1 (lb_store lb)) + pl_balance pl\<rparr>) lb (pay_out o1 pl lb) \<and> calm (pay_out o1 pl lb)"
proof -
  let ?st = "lb_store lb"
  let ?b = "ac_balance (object o1 ?st)" and ?l = "ac_locked_balance (object o1 ?st)"
  let ?st1 = "?st\<lparr>st_db := (st_db ?st)\<lparr>db_saved := Some (db_rows (st_db ?st))\<rparr>, st_notices := []\<rparr>"
  have b: "(snd (with_db transaction_begin ?st))\<lparr>st_notices := []\<rparr> = ?st1"
    using assms(1) by (simp add: calm_def)
  have st1: "steady (st_db ?st1)" using assms(1) by (simp add: calm_def)
  obtain st2 where s2: "account_update_locked_balance o1 (?l - pl_enterance_balance pl) ?st1 = (True, st2)"
    "row_changed o1 (\<lambda>r. r\<lparr>ar_locked_balance := ?l - pl_enterance_balance pl\<rparr>) ?st1 st2"
    "\<forall>o2. object o2 st2 = object o2 ?st1"
    using update_locked_changes [OF st1] by blast
  then have remove: "account_remove_locked_balance o1 (pl_enterance_balance pl) ?st1 = (True, st2)"
    using assms(3) by (simp add: account_remove_locked_balance_def Let_def leD)
  let ?st2 = "st2\<lparr>st_notices := []\<rparr>"
  have st2: "steady (st_db ?st2)" using row_changed_row(2) [OF s2(2)] by simp
  obtain st3 where s3: "account_update_balance o1 (?b + pl_balance pl) ?st2 = (True, st3)"
    "row_changed o1 (\<lambda>r. r\<lparr>ar_balance := ?b + pl_balance pl\<rparr>) ?st2 st3"
    using update_balance_changes [OF st2] by blast
  have add: "account_add_balance o1 (pl_balance pl) ?st2 = (True, st3)"
    using s2(3) s3(1) by (simp add: account_add_balance_def)
  have st3: "steady (st_db (st3\<lparr>st_notices := []\<rparr>))" using row_changed_row(2) [OF s3(2)] by simp
  let ?st4 = "st3\<lparr>st_db := (st_db st3)\<lparr>db_saved := None\<rparr>, st_notices := []\<rparr>"
  have commit: "(snd (with_db transaction_commit (st3\<lparr>st_notices := []\<rparr>)))\<lparr>st_notices := []\<rparr> = ?st4"
    using st3 by (simp add: with_db_def)
  have final: "lb_store (pay_out o1 pl lb) = ?st4"
    by (simp add: pay_out_def Let_def split_beta b remove add commit)
  have "row_changed o1 (\<lambda>r. r\<lparr>ar_locked_balance := ?l - pl_enterance_balance pl, ar_balance := ?b + pl_balance pl\<rparr>) ?st1 st3"
    using row_changed_trans [OF s2(2), of "\<lambda>r. r\<lparr>ar_balance := ?b + pl_balance pl\<rparr>" st3] s3(2) by simp
  then have "row_changed o1 (\<lambda>r. r\<lparr>ar_locked_balance := ?l - pl_enterance_balance pl, ar_balance := ?b + pl_balance pl\<rparr>)
      ?st (lb_store (pay_out o1 pl lb))"
    using assms(1) unfolding final calm_def row_changed_def by simp
  then show ?thesis using st3
    by (simp add: paid_def calm_def final)
      (simp add: pay_out_def Let_def split_beta)
qed

section \<open>Who is at a table\<close>

text \<open>Two states with the same clients, entered sessions and account ids.\<close>

definition same_people :: "lobby \<Rightarrow> lobby \<Rightarrow> bool" where
  "same_people lb lb' \<longleftrightarrow> lb_client lb' = lb_client lb \<and> (\<forall>k. cn_owner (lb_conn lb' k) = cn_owner (lb_conn lb k))
     \<and> lb_lists lb' = lb_lists lb
     \<and> (\<forall>s. se_id (lb_session lb' s) = se_id (lb_session lb s) \<and> se_clients (lb_session lb' s) = se_clients (lb_session lb s))
     \<and> st_next (lb_store lb) \<le> st_next (lb_store lb')
     \<and> (\<forall>o1 < st_next (lb_store lb). account_id o1 lb' = account_id o1 lb)"

definition accounts_ok :: "lobby \<Rightarrow> bool" where
  "accounts_ok lb \<longleftrightarrow> (\<forall>c o1. lc_account (lb_client lb c) = Some o1 \<longrightarrow> o1 < st_next (lb_store lb))"

lemma same_people_refl [simp]: "same_people lb lb"
  by (simp add: same_people_def)

lemma same_people_trans [trans]: "same_people a b \<Longrightarrow> same_people b c \<Longrightarrow> same_people a c"
  by (simp add: same_people_def)

lemma quiet_same_people: "quiet lb lb' \<Longrightarrow> same_people lb lb'"
  by (simp add: same_people_def quietD quiet_derived)

lemma paid_same_people: "paid o1 f lb lb' \<Longrightarrow> same_people lb lb'"
  by (simp add: same_people_def paid_def row_changed_def Let_def account_id_def)

lemma session_same_people:
  assumes "\<And>se. se_id (f se) = se_id se" "\<And>se. se_clients (f se) = se_clients se"
  shows "same_people lb (upd_session s f lb)"
  using assms by (simp add: same_people_def account_id_def)

lemma poker_same_people [simp, intro]: "same_people lb (upd_poker s f lb)"
  unfolding upd_poker_def by (rule session_same_people) simp_all

lemma reorder_fields [simp]:
  "lb_session (reorder_updated_session s n lb) = lb_session lb" "lb_store (reorder_updated_session s n lb) = lb_store lb"
  "lb_client (reorder_updated_session s n lb) = lb_client lb" "lb_lists (reorder_updated_session s n lb) = lb_lists lb"
  "lb_conn (reorder_updated_session s n lb) = lb_conn lb" "lb_next (reorder_updated_session s n lb) = lb_next lb"
  by (simp_all add: reorder_updated_session_def Let_def)

lemma reorder_same_people [simp, intro]: "same_people lb (reorder_updated_session s n lb)"
  by (simp add: same_people_def account_id_def)

lemma set_players_num_fields [simp]:
  "lb_client (set_players_num s n lb) = lb_client lb" "lb_lists (set_players_num s n lb) = lb_lists lb"
  "lb_conn (set_players_num s n lb) = lb_conn lb" "lb_next (set_players_num s n lb) = lb_next lb"
  "account_id o1 (set_players_num s n lb) = account_id o1 lb"
  "object o1 (lb_store (set_players_num s n lb)) = object o1 (lb_store lb)"
  "st_next (lb_store (set_players_num s n lb)) = st_next (lb_store lb)"
  "poker_of s (set_players_num s n lb) = (poker_of s lb)\<lparr>pk_table := (pk_table (poker_of s lb))\<lparr>tb_players_count := n\<rparr>\<rparr>"
  "se_joined_count (lb_session (set_players_num s n lb) s2) = se_joined_count (lb_session lb s2)"
  "se_start_task (lb_session (set_players_num s n lb) s2) = se_start_task (lb_session lb s2)"
  "se_restart_task (lb_session (set_players_num s n lb) s2) = se_restart_task (lb_session lb s2)"
  by (simp_all add: set_players_num_def table_set_players_num_def account_id_def upd_poker_def poker_of_def)

lemma set_players_num_same_people [simp, intro]: "same_people lb (set_players_num s n lb)"
  by (simp add: same_people_def) (simp add: set_players_num_def table_set_players_num_def upd_poker_def)

lemma set_players_num_db:
  assumes "calm lb"
  shows "calm (set_players_num s n lb)" "row_of o1 (lb_store (set_players_num s n lb)) = row_of o1 (lb_store lb)"
proof -
  have obj: "object o1 (st\<lparr>st_db := d\<rparr>) = object o1 st" for o1 st d by (simp add: object_def)
  show "calm (set_players_num s n lb)"
    using assms by (simp add: calm_def set_players_num_def table_set_players_num_def upd_poker_def)
  show "row_of o1 (lb_store (set_players_num s n lb)) = row_of o1 (lb_store lb)"
    using assms by (simp add: calm_def set_players_num_def table_set_players_num_def upd_poker_def row_of_def
        account_row_def obj)
qed

lemma same_people_lookups:
  assumes "same_people lb lb'" "accounts_ok lb"
  shows "owner_account c lb' = owner_account c lb"
    "session_client_getby_account_id s i lb' = session_client_getby_account_id s i lb"
    "client_session_getby_session_id c i lb' = client_session_getby_session_id c i lb"
    "lc_account (lb_client lb c) = Some o1 \<Longrightarrow> account_id o1 lb' = account_id o1 lb"
    "clients_ok s lb' = clients_ok s lb" "accounts_ok lb'"
    "se_id (lb_session lb' s) = se_id (lb_session lb s)" "se_clients (lb_session lb' s) = se_clients (lb_session lb s)"
    "lb_client lb' = lb_client lb" "entered c lb' = entered c lb"
proof -
  note eqs = assms(1) [unfolded same_people_def]
  show own: "owner_account c lb' = owner_account c lb" for c
    using eqs assms(2) by (cases "cn_owner (lb_conn lb (lc_client (lb_client lb c)))")
      (auto simp: owner_account_def accounts_ok_def bindO_def deref_def split: option.splits)
  have "find_account_client i lb' scs = find_account_client i lb scs" for scs
    by (induction scs) (simp_all add: own cong: if_cong)
  then show "session_client_getby_account_id s i lb' = session_client_getby_account_id s i lb"
    using eqs by (simp add: session_client_getby_account_id_def)
  show "client_session_getby_session_id c i lb' = client_session_getby_session_id c i lb"
    using eqs by (simp add: client_session_getby_session_id_def entered_def)
  show "lc_account (lb_client lb c) = Some o1 \<Longrightarrow> account_id o1 lb' = account_id o1 lb"
    using eqs assms(2) by (auto simp: accounts_ok_def)
  show "clients_ok s lb' = clients_ok s lb" using eqs own by (simp add: clients_ok_def)
  show "accounts_ok lb'" using eqs assms(2) by (force simp: accounts_ok_def)
qed (use assms(1) in \<open>simp_all add: same_people_def entered_def\<close>)

end
