(* ===== verification/Lobby_Join.thy ===== *)
theory Lobby_Join
  imports Lobby_Money
begin

text \<open>
  Joining and unjoining: the effect of each on the account, on the game and on the state of the
  client, and what follows for a client that does one after the other.
\<close>

text \<open>Client \<open>c\<close>, logged in with the account object \<open>o1\<close>, has entered session \<open>s\<close> and has, or has
  not, joined its game.\<close>

definition at_table :: "nat \<Rightarrow> nat \<Rightarrow> nat \<Rightarrow> bool \<Rightarrow> lobby \<Rightarrow> bool" where
  "at_table c s o1 joined lb \<longleftrightarrow>
     lc_account (lb_client lb c) = Some o1 \<and> clients_ok s lb \<and> accounts_ok lb
     \<and> (\<exists>sc. session_client_getby_account_id s (account_id o1 lb) lb = Inr (Some sc))
     \<and> (\<exists>cs. client_session_getby_session_id c (se_id (lb_session lb s)) lb = Some cs \<and> cs_joined cs = joined)"

lemma at_table_same:
  assumes "at_table c s o1 j lb" "same_people lb lb'"
  shows "at_table c s o1 j lb'"
proof -
  have ok: "accounts_ok lb" using assms(1) by (simp add: at_table_def)
  note l = same_people_lookups [OF assms(2) ok]
  show ?thesis using assms(1) l(4) [of c o1] unfolding at_table_def l(2,3,5,7,9)
    by (simp add: l(6))
qed

lemma at_table_account: "at_table c s o1 j lb \<Longrightarrow> o1 < st_next (lb_store lb)"
  by (auto simp: at_table_def accounts_ok_def)

section \<open>The flags\<close>

lemma mark_joined_fields [simp]:
  "lb_client (mark_joined c s sc cs b lb) = lb_client lb" "lb_conn (mark_joined c s sc cs b lb) = lb_conn lb"
  "lb_store (mark_joined c s sc cs b lb) = lb_store lb" "lb_next (mark_joined c s sc cs b lb) = lb_next lb"
  "se_id (lb_session (mark_joined c s sc cs b lb) s2) = se_id (lb_session lb s2)"
  "poker_of s2 (mark_joined c s sc cs b lb) = poker_of s2 lb"
  "account_id o1 (mark_joined c s sc cs b lb) = account_id o1 lb"
  by (simp_all add: mark_joined_def Let_def poker_of_def account_id_def)

lemma find_account_client_map:
  assumes "\<And>sc. sc_client (f sc) = sc_client sc"
    and "\<And>c. owner_account c lb' = owner_account c lb"
  shows "find_account_client i lb' (map f scs) = bindO (find_account_client i lb scs) (\<lambda>r. Inr (map_option f r))"
proof (induction scs)
  case (Cons sc scs)
  show ?case
  proof (cases "owner_account (sc_client sc) lb")
    case (Inr j)
    then show ?thesis using Cons assms by (cases "j = i") simp_all
  qed (simp add: assms)
qed simp

lemma find_map_same: "(\<And>x. P (f x) = P x) \<Longrightarrow> List.find P (map f xs) = map_option f (List.find P xs)"
  by (induction xs) auto

lemma mark_joined_at_table:
  assumes "at_table c s o1 j lb" "client_session_getby_session_id c (se_id (lb_session lb s)) lb = Some cs"
  shows "at_table c s o1 b (mark_joined c s sc cs b lb)"
proof -
  let ?lb = "mark_joined c s sc cs b lb"
  have own: "owner_account c2 ?lb = owner_account c2 lb" for c2 by (simp add: owner_account_def)
  have clients: "se_clients (lb_session ?lb s) = set_client_joined (sc_id sc) b (se_clients (lb_session lb s))"
    by (simp add: mark_joined_def Let_def)
  have entered: "entered c ?lb = set_joined (cs_id cs) b (entered c lb)"
    by (simp add: mark_joined_def Let_def entered_def)
  obtain sc0 where "session_client_getby_account_id s (account_id o1 lb) lb = Inr (Some sc0)"
    using assms(1) by (auto simp: at_table_def)
  then have "\<exists>sc. session_client_getby_account_id s (account_id o1 lb) ?lb = Inr (Some sc)"
    unfolding session_client_getby_account_id_def clients set_client_joined_def
    by (subst find_account_client_map [OF _ own]) simp_all
  moreover have "client_session_getby_session_id c (se_id (lb_session lb s)) ?lb = Some (cs\<lparr>cs_joined := b\<rparr>)"
    using assms(2) unfolding client_session_getby_session_id_def entered set_joined_def
    by (subst find_map_same) auto
  moreover have "clients_ok s ?lb"
    using assms(1) by (auto simp: at_table_def clients_ok_def own clients set_client_joined_def)
  ultimately show ?thesis using assms(1) by (simp add: at_table_def accounts_ok_def)
qed

section \<open>Reading the account again\<close>

lemma fetch_effect:
  assumes "calm lb" "row_of o1 (lb_store lb) = Some r" "o1 < st_next (lb_store lb)"
  shows "\<exists>lb'. fetch o1 lb = Inr lb' \<and> same_people lb lb' \<and> calm lb' \<and> row_of o1 (lb_store lb') = Some r
    \<and> fresh o1 (lb_store lb') \<and> ac_balance (object o1 (lb_store lb')) = ar_balance r
    \<and> ac_locked_balance (object o1 (lb_store lb')) = ar_locked_balance r
    \<and> lb_session lb' = lb_session lb \<and> lb_next lb' = lb_next lb \<and> st_db (lb_store lb') = st_db (lb_store lb)"
proof -
  obtain st where st: "account_fetch o1 (lb_store lb) = Inr st" "st_db st = st_db (lb_store lb)"
    "ac_id (object o1 st) = ac_id (object o1 (lb_store lb))" "ac_balance (object o1 st) = ar_balance r"
    "ac_locked_balance (object o1 st) = ar_locked_balance r" "fresh o1 st"
    "\<forall>o2 < st_next (lb_store lb). o2 \<noteq> o1 \<longrightarrow> object o2 st = object o2 (lb_store lb)"
    "st_next (lb_store lb) < st_next st"
    using fetch_fresh [OF _ assms(2,3)] assms(1) by (auto simp: calm_def)
  have obj: "object o2 (st\<lparr>st_notices := ns\<rparr>) = object o2 st" for o2 ns by (simp add: object_def)
  have "same_people lb (set_store st lb)"
    using st(3,7,8) by (auto simp: same_people_def account_id_def obj)
  moreover have "row_of o1 st = Some r" using assms(2) st(2,3) by (simp add: row_of_def)
  ultimately show ?thesis using st assms(1) by (auto simp: fetch_def calm_def obj fresh_def)
qed

section \<open>Joining\<close>

lemma addby_account_effect:
  assumes "\<not> tb_max_players (pk_table p) < int (length (pk_players p))"
  shows "\<exists>p'. players_addby_account p i a pos = (p', Some i) \<and> pk_players p' = pk_players p @ [i]
    \<and> pk_state p' = pk_state p \<and> pk_table p' = pk_table p
    \<and> pl_account (the_player p' i) = a \<and> \<not> pl_left (the_player p' i)
    \<and> (\<forall>j. j \<noteq> i \<longrightarrow> the_player p' j = the_player p j)"
  using assms by (simp add: players_addby_account_def players_add_def Let_def player_new_def)

text \<open>What a new player adds to the game, apart from the announcements.\<close>

lemma join_effect:
  assumes at: "at_table c s o1 False lb" and calm: "calm lb"
    and fresh: "fresh o1 (lb_store lb)" "amount \<le> ac_balance (object o1 (lb_store lb))"
    and room: "\<not> tb_max_players (pk_table (poker_of s lb)) < int (players_length s lb)"
    and new: "lb_next lb \<notin> set (pk_players (poker_of s lb))"
  shows "\<exists>lb'. join_session en c s amount pos lb = Inr (True, lb') \<and> at_table c s o1 True lb' \<and> calm lb'
    \<and> account_id o1 lb' = account_id o1 lb
    \<and> row_of o1 (lb_store lb') = map_option (\<lambda>r. r\<lparr>ar_balance := ar_balance r - amount,
        ar_locked_balance := ar_locked_balance r + amount\<rparr>) (row_of o1 (lb_store lb))
    \<and> pk_players (poker_of s lb') = pk_players (poker_of s lb) @ [lb_next lb]
    \<and> (\<forall>j. j \<noteq> lb_next lb \<longrightarrow> the_player (poker_of s lb') j = the_player (poker_of s lb) j)
    \<and> pl_account (the_player (poker_of s lb') (lb_next lb)) = account_id o1 lb
    \<and> pl_balance (the_player (poker_of s lb') (lb_next lb)) = amount
    \<and> pl_enterance_balance (the_player (poker_of s lb') (lb_next lb)) = amount
    \<and> lb_next lb < lb_next lb' \<and> tb_max_players (pk_table (poker_of s lb')) = tb_max_players (pk_table (poker_of s lb))
    \<and> (pk_state (poker_of s lb) \<noteq> W4P \<longrightarrow> pk_state (poker_of s lb') = pk_state (poker_of s lb))
    \<and> (pk_state (poker_of s lb) = W4P \<longrightarrow> pk_state (poker_of s lb') \<in> {W4P, STARTING})"
proof -
  let ?i = "lb_next lb"
  obtain sc cs where sc: "session_client_getby_account_id s (account_id o1 lb) lb = Inr (Some sc)"
    and cs: "client_session_getby_session_id c (se_id (lb_session lb s)) lb = Some cs" "\<not> cs_joined cs"
    using at by (auto simp: at_table_def)
  have acct: "lc_account (lb_client lb c) = Some o1" using at by (simp add: at_table_def)
  let ?lb1 = "mark_joined c s sc cs True lb"
  have at1: "at_table c s o1 True ?lb1" by (rule mark_joined_at_table [OF at cs(1)])
  obtain p where p: "players_addby_account (poker_of s lb) ?i (account_id o1 lb) pos = (p, Some ?i)"
    "pk_players p = pk_players (poker_of s lb) @ [?i]" "pk_state p = pk_state (poker_of s lb)"
    "pk_table p = pk_table (poker_of s lb)" "pl_account (the_player p ?i) = account_id o1 lb"
    "\<forall>j. j \<noteq> ?i \<longrightarrow> the_player p j = the_player (poker_of s lb) j"
    using addby_account_effect [of "poker_of s lb" ?i "account_id o1 lb" pos] room by (auto simp: players_length_def)
  let ?lb2 = "reorder_updated_session s (players_length s ?lb1)
    (upd_poker s (\<lambda>_. p) (?lb1\<lparr>lb_next := ?i + 1\<rparr>))"
  have same2: "same_people ?lb1 ?lb2"
    by (rule same_people_trans [OF _ reorder_same_people], rule same_people_trans [OF _ poker_same_people])
      (simp add: same_people_def account_id_def)
  obtain lb3 where lb3: "broadcast_sessions ?lb2 = Inr lb3" "quiet ?lb2 lb3" using broadcast_quiet by blast
  have p3: "poker_of s lb3 = p" using quiet_derived(1) [OF lb3(2)] by (simp add: poker_of_def upd_poker_def)
  have store3: "lb_store lb3 = lb_store lb" using quietD(1) [OF lb3(2)] by (simp add: upd_poker_def)
  have next3: "lb_next lb3 = ?i + 1" using quietD(9) [OF lb3(2)] by (simp add: upd_poker_def)
  let ?b = "ac_balance (object o1 (lb_store lb))" and ?l = "ac_locked_balance (object o1 (lb_store lb))"
  obtain st where st: "account_lock_balance o1 amount (lb_store lb) = (True, st)"
    "row_changed o1 (\<lambda>r. r\<lparr>ar_balance := ?b - amount, ar_locked_balance := ?l + amount\<rparr>) (lb_store lb) st"
    using lock_balance_changes [OF _ fresh] calm by (auto simp: calm_def)
  let ?lb4 = "snd (with_store (account_lock_balance o1 amount) lb3)"
  have paid: "paid o1 (\<lambda>r. r\<lparr>ar_balance := ?b - amount, ar_locked_balance := ?l + amount\<rparr>) lb3 ?lb4"
    using st by (simp add: paid_def store3)
  let ?lb5 = "upd_poker s (upd_player ?i (\<lambda>pl. pl\<lparr>pl_enterance_balance := amount, pl_balance := amount\<rparr>)) ?lb4"
  let ?lb6 = "set_players_num s (players_num s ?lb5 + 1) ?lb5"
  let ?lb7 = "if starts s ?lb6 then schedule_start en s ?lb6 else ?lb6"
  have join: "join_session en c s amount pos lb = Inr (True, ?lb7)"
    using acct sc cs p(1) lb3(1) by (simp add: join_session_def Let_def)
  have sched: "same_people l (schedule_start en s l) \<and> lb_store (schedule_start en s l) = lb_store l
    \<and> lb_next (schedule_start en s l) = lb_next l \<and> poker_of s (schedule_start en s l) = poker_starting (en_now en) (poker_of s l)" for l
    by (auto simp: schedule_start_def Let_def task_at_def with_loop_def on_loop_def same_people_def account_id_def
        upd_poker_def poker_of_def task_new_def)
  note same2
  also have "same_people ?lb2 lb3" by (rule quiet_same_people [OF lb3(2)])
  also have "same_people lb3 ?lb4" by (rule paid_same_people [OF paid])
  also have "same_people ?lb4 ?lb5" by (rule poker_same_people)
  also have "same_people ?lb5 ?lb6" by (rule set_players_num_same_people)
  finally have "same_people ?lb1 ?lb6" .
  then have same: "same_people ?lb1 ?lb7" using sched same_people_trans by auto
  have calm5: "calm ?lb5" using paid calm by (simp add: calm_def paid_def row_changed_def Let_def upd_poker_def store3)
  have calm7: "calm ?lb7" using set_players_num_db(1) [OF calm5] sched by (auto simp: calm_def)
  have "row_of o1 (lb_store ?lb7) = row_of o1 (lb_store ?lb5)"
    using set_players_num_db(2) [OF calm5] sched by auto
  also have "\<dots> = map_option (\<lambda>r. r\<lparr>ar_balance := ?b - amount, ar_locked_balance := ?l + amount\<rparr>) (row_of o1 (lb_store lb))"
    using row_changed_row(1) [OF st(2)] by (simp add: upd_poker_def store3 st(1))
  also have "\<dots> = map_option (\<lambda>r. r\<lparr>ar_balance := ar_balance r - amount,
        ar_locked_balance := ar_locked_balance r + amount\<rparr>) (row_of o1 (lb_store lb))"
    using fresh_row [OF fresh(1)] by auto
  finally have row: "row_of o1 (lb_store ?lb7) = \<dots>" .
  have poker4: "poker_of s ?lb4 = p" using p3 by (simp add: poker_of_def)
  have poker6: "poker_of s ?lb6 = (upd_player ?i (\<lambda>pl. pl\<lparr>pl_enterance_balance := amount, pl_balance := amount\<rparr>) p)
      \<lparr>pk_table := (pk_table p)\<lparr>tb_players_count := players_num s ?lb5 + 1\<rparr>\<rparr>"
    using poker4 by simp
  have poker7: "poker_of s ?lb7 = (if starts s ?lb6 then poker_starting (en_now en) (poker_of s ?lb6) else poker_of s ?lb6)"
    using sched by simp
  have player: "the_player (poker_of s ?lb7) j = (if j = ?i then (the_player p ?i)\<lparr>pl_enterance_balance := amount, pl_balance := amount\<rparr>
      else the_player (poker_of s lb) j)" for j
    using p(6) unfolding poker7 poker6 by (simp add: poker_starting_def the_player_def upd_player_def)
  have next7: "lb_next ?lb7 = ?i + 1" using next3 sched by (simp add: upd_poker_def)
  have rest: "pk_players (poker_of s ?lb7) = pk_players (poker_of s lb) @ [?i]"
    "tb_max_players (pk_table (poker_of s ?lb7)) = tb_max_players (pk_table (poker_of s lb))"
    "pk_state (poker_of s lb) \<noteq> W4P \<longrightarrow> pk_state (poker_of s ?lb7) = pk_state (poker_of s lb)"
    "pk_state (poker_of s lb) = W4P \<longrightarrow> pk_state (poker_of s ?lb7) \<in> {W4P, STARTING}"
    using p(2-4) unfolding poker7 starts_def by (simp_all add: poker4 sched poker_starting_def)
  have "account_id o1 ?lb7 = account_id o1 lb"
    using same_people_lookups(4) [OF same, of c o1] at1 acct by (simp add: at_table_def)
  then show ?thesis
    using join at_table_same [OF at1 same] calm7 row player next7 rest p(5) by (intro exI [of _ ?lb7]) simp
qed

end
