(* ===== verification/Lobby_Unjoin.thy ===== *)
theory Lobby_Unjoin
  imports Lobby_Join
begin

text \<open>
  Unjoining: the chips of the player are paid out and the stake leaves the locked balance; before a
  game and after its end the player is removed, during a game it stays and is marked as left.
\<close>

section \<open>The steps\<close>

definition removes :: "poker_state \<Rightarrow> bool" where
  "removes st \<longleftrightarrow> st \<le> STARTING \<or> st = DONE"

text \<open>A list of seats and what is at them, after the player \<open>i\<close> has been removed or marked.\<close>

definition same_seats :: "(pid list \<Rightarrow> pid list) \<Rightarrow> poker \<Rightarrow> poker \<Rightarrow> bool" where
  "same_seats f p p' \<longleftrightarrow> pk_players p' = f (pk_players p) \<and> tb_max_players (pk_table p') = tb_max_players (pk_table p)
     \<and> (\<forall>j. pl_account (the_player p' j) = pl_account (the_player p j) \<and> pl_balance (the_player p' j) = pl_balance (the_player p j)
       \<and> pl_enterance_balance (the_player p' j) = pl_enterance_balance (the_player p j)
       \<and> pl_left (the_player p' j) = pl_left (the_player p j))"

lemma remove_player_effect:
  "\<exists>lb'. remove_player s i lb = Inr lb' \<and> same_people lb lb' \<and> lb_store lb' = lb_store lb \<and> lb_next lb' = lb_next lb
     \<and> same_seats (remove1 i) (poker_of s lb) (poker_of s lb')
     \<and> (\<not> pk_state (poker_of s lb) \<le> STARTING \<longrightarrow> pk_state (poker_of s lb') = pk_state (poker_of s lb))"
proof -
  let ?lb1 = "if pk_state (poker_of s lb) = DONE
    then upd_poker s (upd_player i (\<lambda>pl. pl\<lparr>pl_ref := ref_counted_use (pl_ref pl)\<rparr>)) lb else lb"
  let ?lb2 = "reorder_updated_session s (players_length s ?lb1) (upd_poker s (\<lambda>p. players_remove p i) ?lb1)"
  obtain lb3 where lb3: "broadcast_sessions ?lb2 = Inr lb3" "quiet ?lb2 lb3" using broadcast_quiet by blast
  let ?lb4 = "if players_length s lb3 = 1 \<and> pk_state (poker_of s lb3) \<le> STARTING
             then upd_poker s (\<lambda>p. p\<lparr>pk_state := W4P\<rparr>) lb3 else lb3"
  have run: "remove_player s i lb = Inr ?lb4" using lb3(1) by (simp add: remove_player_def Let_def)
  have "same_people lb ?lb1" by (simp add: poker_same_people)
  also have "same_people ?lb1 (upd_poker s (\<lambda>p. players_remove p i) ?lb1)" by (rule poker_same_people)
  also have "same_people \<dots> ?lb2" by (rule reorder_same_people)
  also have "same_people ?lb2 lb3" by (rule quiet_same_people [OF lb3(2)])
  also have "same_people lb3 ?lb4" by simp
  finally have same: "same_people lb ?lb4" .
  have poker3: "poker_of s lb3 = players_remove (poker_of s ?lb1) i"
    using quiet_derived(1) [OF lb3(2)] by (simp add: poker_of_def upd_poker_def)
  have seats: "same_seats (remove1 i) (poker_of s lb) (poker_of s lb3)" "pk_state (poker_of s lb3) = pk_state (poker_of s lb)"
    unfolding poker3 by (simp_all add: same_seats_def players_remove_def Let_def the_player_def upd_player_def)
  have poker4: "poker_of s ?lb4 = (if players_length s lb3 = 1 \<and> pk_state (poker_of s lb3) \<le> STARTING
      then (poker_of s lb3)\<lparr>pk_state := W4P\<rparr> else poker_of s lb3)" by simp
  have "same_seats (remove1 i) (poker_of s lb) (poker_of s ?lb4)"
    using seats(1) unfolding poker4 by (simp add: same_seats_def the_player_def)
  moreover have "\<not> pk_state (poker_of s lb) \<le> STARTING \<longrightarrow> pk_state (poker_of s ?lb4) = pk_state (poker_of s lb)"
    using seats(2) unfolding poker4 by simp
  moreover have "lb_store ?lb4 = lb_store lb" "lb_next ?lb4 = lb_next lb"
    using quietD(1,9) [OF lb3(2)] by (simp_all add: upd_poker_def)
  ultimately show ?thesis using run same by blast
qed

lemma stop_waiting_effect:
  "same_people lb (stop_waiting s lb)" "lb_store (stop_waiting s lb) = lb_store lb"
  "lb_next (stop_waiting s lb) = lb_next lb" "poker_of s (stop_waiting s lb) = poker_of s lb"
  by (simp_all add: stop_waiting_def Let_def leave_and_cancel_def on_loop_def same_people_def account_id_def
      poker_of_def split: option.split)

lemma same_seats_trans: "same_seats f a b \<Longrightarrow> same_seats g b c \<Longrightarrow> same_seats (\<lambda>l. g (f l)) a c"
  by (simp add: same_seats_def)

section \<open>Unjoining\<close>

lemma unjoin_effect:
  assumes at: "at_table c s o1 True lb" and calm: "calm lb" and row: "row_of o1 (lb_store lb) = Some r"
    and player: "getby_id (poker_of s lb) (account_id o1 lb) = Some i"
    and stake: "pl_enterance_balance (the_player (poker_of s lb) i) \<le> ar_locked_balance r"
  shows "\<exists>lb'. unjoin_session c s lb = Inr (True, lb') \<and> at_table c s o1 False lb' \<and> calm lb'
    \<and> account_id o1 lb' = account_id o1 lb
    \<and> row_of o1 (lb_store lb') = Some (r\<lparr>
        ar_locked_balance := ar_locked_balance r - pl_enterance_balance (the_player (poker_of s lb) i),
        ar_balance := ar_balance r + pl_balance (the_player (poker_of s lb) i)\<rparr>)
    \<and> same_seats (if removes (pk_state (poker_of s lb)) then remove1 i else (\<lambda>l. l))
        (upd_player i (\<lambda>pl. pl\<lparr>pl_left := True\<rparr>) (poker_of s lb)) (poker_of s lb')
    \<and> (\<not> pk_state (poker_of s lb) \<le> STARTING \<longrightarrow> pk_state (poker_of s lb') = pk_state (poker_of s lb))
    \<and> lb_next lb' = lb_next lb"
proof -
  obtain sc cs where sc: "session_client_getby_account_id s (account_id o1 lb) lb = Inr (Some sc)"
    and cs: "client_session_getby_session_id c (se_id (lb_session lb s)) lb = Some cs" "cs_joined cs"
    using at by (auto simp: at_table_def)
  have acct: "lc_account (lb_client lb c) = Some o1" using at by (simp add: at_table_def)
  let ?p = "upd_player i (\<lambda>pl. pl\<lparr>pl_left := True\<rparr>) (poker_of s lb)"
  let ?lb1 = "mark_joined c s sc cs False lb"
  have at1: "at_table c s o1 False ?lb1" by (rule mark_joined_at_table [OF at cs(1)])
  let ?lb2 = "upd_poker s (upd_player i (\<lambda>pl. pl\<lparr>pl_left := True\<rparr>)) ?lb1"
  have p2: "poker_of s ?lb2 = ?p" by simp
  have "calm ?lb2" "row_of o1 (lb_store ?lb2) = Some r" "o1 < st_next (lb_store ?lb2)"
    using calm row at_table_account [OF at] by (simp_all add: calm_def upd_poker_def)
  then obtain lb3 where lb3: "fetch o1 ?lb2 = Inr lb3" "same_people ?lb2 lb3" "calm lb3"
    "row_of o1 (lb_store lb3) = Some r" "fresh o1 (lb_store lb3)" "ac_balance (object o1 (lb_store lb3)) = ar_balance r"
    "ac_locked_balance (object o1 (lb_store lb3)) = ar_locked_balance r"
    "lb_session lb3 = lb_session ?lb2" "lb_next lb3 = lb_next ?lb2"
    using fetch_effect by metis
  have p3: "poker_of s lb3 = ?p" using lb3(8) p2 by (simp add: poker_of_def)
  let ?pl = "the_player ?p i"
  let ?lb4 = "pay_out o1 ?pl lb3"
  let ?f = "\<lambda>r'. r'\<lparr>ar_locked_balance := ar_locked_balance r - pl_enterance_balance ?pl, ar_balance := ar_balance r + pl_balance ?pl\<rparr>"
  have paid: "paid o1 ?f lb3 ?lb4" "calm ?lb4"
    using pay_out_paid [OF lb3(3,5), of ?pl] stake lb3(6,7) by simp_all
  have p4: "poker_of s ?lb4 = ?p" using paid(1) p3 by (simp add: paid_def poker_of_def)
  obtain lb5 where lb5: "(if pk_state (poker_of s ?lb4) \<le> STARTING \<or> pk_state (poker_of s ?lb4) = DONE then remove_player s i ?lb4 else Inr ?lb4) = Inr lb5"
    "same_people ?lb4 lb5" "lb_store lb5 = lb_store ?lb4" "lb_next lb5 = lb_next ?lb4"
    "same_seats (if removes (pk_state (poker_of s lb)) then remove1 i else (\<lambda>l. l)) ?p (poker_of s lb5)"
    "\<not> pk_state (poker_of s lb) \<le> STARTING \<longrightarrow> pk_state (poker_of s lb5) = pk_state (poker_of s lb)"
  proof (cases "removes (pk_state (poker_of s lb))")
    case True
    then show ?thesis using remove_player_effect [of s i ?lb4] p4 that by (auto simp: removes_def)
  next
    case False
    then show ?thesis using p4 that [of ?lb4] by (simp add: removes_def same_seats_def)
  qed
  have people5: "same_people ?lb1 lb5"
  proof -
    have "same_people ?lb1 ?lb2" by (rule poker_same_people)
    also note lb3(2)
    also have "same_people lb3 ?lb4" by (rule paid_same_people [OF paid(1)])
    also note lb5(2)
    finally show ?thesis .
  qed
  have at5: "at_table c s o1 False lb5" by (rule at_table_same [OF at1 people5])
  obtain lb6 where lb6: "send (lc_client (lb_client lb5 c)) (Unjoined (table_id s lb5) 0) lb5 = Inr lb6" "quiet lb5 lb6"
    using send_quiet [of lb5 "lc_client (lb_client lb5 c)" "Unjoined (table_id s lb5) 0"] by auto
  have "clients_ok s lb6" using at_table_same [OF at5 quiet_same_people [OF lb6(2)]] by (simp add: at_table_def)
  then obtain lb7 where lb7: "each (send_info_and_state s) (se_clients (lb_session lb6 s)) lb6 = Inr lb7" "quiet lb6 lb7"
    using send_infos_quiet by blast
  let ?lb8 = "set_players_num s (players_num s lb7 - 1) lb7"
  let ?lb9 = "stop_waiting s ?lb8"
  have q: "quiet lb5 lb7" by (rule quiet_trans [OF lb6(2) lb7(2)])
  have run: "unjoin_session c s lb = Inr (True, ?lb9)"
    by (simp add: unjoin_session_def Let_def acct sc cs player lb3(1) p3 lb5(1) lb6(1) lb7(1)
        del: the_player_upd split del: if_split cong: if_cong)
  have "same_people lb5 lb7" by (rule quiet_same_people [OF q])
  also have "same_people lb7 ?lb8" by (rule set_players_num_same_people)
  also have "same_people ?lb8 ?lb9" by (rule stop_waiting_effect)
  finally have same: "same_people lb5 ?lb9" .
  have store7: "lb_store lb7 = lb_store ?lb4" using quietD(1) [OF q] lb5(3) by simp
  then have calm7: "calm lb7" using paid(2) by (simp add: calm_def)
  have at9: "at_table c s o1 False ?lb9" by (rule at_table_same [OF at5 same])
  have calm9: "calm ?lb9" using set_players_num_db(1) [OF calm7] by (simp add: calm_def stop_waiting_effect)
  have "row_of o1 (lb_store ?lb9) = row_of o1 (lb_store ?lb4)"
    using set_players_num_db(2) [OF calm7] store7 by (simp add: stop_waiting_effect)
  also have "\<dots> = Some (?f r)" using paid(1) row_changed_row(1) lb3(4) by (auto simp: paid_def)
  finally have row9: "row_of o1 (lb_store ?lb9) = Some (?f r)" .
  have poker9: "poker_of s ?lb9 = (poker_of s lb5)\<lparr>pk_table := (pk_table (poker_of s lb5))\<lparr>tb_players_count := players_num s lb7 - 1\<rparr>\<rparr>"
    using quiet_derived(1) [OF q] by (simp add: stop_waiting_effect)
  have seats: "same_seats (if removes (pk_state (poker_of s lb)) then remove1 i else (\<lambda>l. l)) ?p (poker_of s ?lb9)"
    using lb5(5) unfolding poker9 by (simp add: same_seats_def the_player_def)
  have "account_id o1 ?lb9 = account_id o1 lb"
    using same_people_lookups(4) [OF same_people_trans [OF people5 same], of c o1] at1 acct by (simp add: at_table_def)
  moreover have "lb_next ?lb9 = lb_next lb"
    using quietD(9) [OF q] lb5(4) paid(1) lb3(9) by (simp add: stop_waiting_effect paid_def upd_poker_def)
  ultimately show ?thesis
    using run at9 calm9 row9 seats lb5(6) poker9 by (intro exI [of _ ?lb9]) simp
qed

end
