(* ===== verification/Lobby_Cash.thy ===== *)
theory Lobby_Cash
  imports Lobby_Unjoin Poker_Samples
begin

text \<open>
  What joining and unjoining do together: a client that unjoins at once has its balances back; a
  client that unjoins during a hand and joins again is paid twice for the same chips; and the requests
  that dereference a null pointer.
\<close>

section \<open>A lobby for the witnesses\<close>

definition sample_session :: "poker \<Rightarrow> bool \<Rightarrow> session" where
  "sample_session p joined = \<lparr>se_id = 77, se_poker = p, se_running = True, se_proceed_task = None, se_start_task = None,
     se_restart_task = None, se_clients = [\<lparr>sc_id = 100, sc_client = 0, sc_joined = joined\<rparr>],
     se_joined_count = of_bool joined\<rparr>"

definition sample_client :: lobby_client where
  "sample_client = \<lparr>lc_client = 5, lc_sessions = 0, lc_account = Some 0, lc_auth_session = None,
     lc_tolerant_disconnected = False, lc_disconnected = False, lc_connected = True, lc_revived = False,
     lc_tolerated_task = None\<rparr>"

definition sample_lobby :: "store \<Rightarrow> poker \<Rightarrow> bool \<Rightarrow> lobby" where
  "sample_lobby st p joined = \<lparr>lb_store = st,
     lb_redis = \<lparr>rd_up = True, rd_tokens = (\<lambda>_. None), rd_players = (\<lambda>_. None), rd_watchers = (\<lambda>_. None)\<rparr>,
     lb_loop = eventloop_new (\<lambda>_. undefined), lb_sessions = [0], lb_session = (\<lambda>_. sample_session p joined),
     lb_client = (\<lambda>_. sample_client), lb_lists = (\<lambda>_. [\<lparr>cs_id = 101, cs_session = 0, cs_joined = joined\<rparr>]),
     lb_auth = (\<lambda>_. undefined), lb_authorized = (\<lambda>_. None),
     lb_conn = (\<lambda>_. \<lparr>cn_owner = Some 0, cn_alive = True, cn_determined = True, cn_websocket = False, cn_up = True\<rparr>),
     lb_listed = [5], lb_next = 102, lb_sent = []\<rparr>"

lemma sample_lobby_fields [simp]:
  "lb_store (sample_lobby st p j) = st" "poker_of s (sample_lobby st p j) = p" "lb_next (sample_lobby st p j) = 102"
  "account_id 0 (sample_lobby st p j) = ac_id (object 0 st)" "players_length s (sample_lobby st p j) = length (pk_players p)"
  by (simp_all add: sample_lobby_def sample_session_def poker_of_def account_id_def players_length_def)

lemma sample_lobby_at_table: "0 < st_next st \<Longrightarrow> at_table 0 0 0 j (sample_lobby st p j)"
  by (simp add: at_table_def sample_lobby_def sample_client_def sample_session_def accounts_ok_def clients_ok_def
      owner_account_def session_client_getby_account_id_def client_session_getby_session_id_def entered_def account_id_def)

definition sample_env :: env where
  "sample_env = \<lparr>en_now = 5, en_md5 = (\<lambda>b. b), en_address = (\<lambda>_. None), en_token = (\<lambda>_. []), en_uid = of_nat,
     en_chosen = undefined, en_draws = [], en_build = 1, en_version = [], en_revision = [], en_compiler = []\<rparr>"

section \<open>Joining and unjoining\<close>

text \<open>C5: Joining at a table takes the stake out of the balance and locks it; a client that unjoins at once has everything
  back, the row of its account being what it was, and in a state in which players are removed (before a
  hand or at its end) the list of players is the old one too. This is for a client that has entered the table and has not
  joined, when no player of its account is in the game: with a player left over from a hand, unjoining pays that
  player's chips once more (\<open>chips_paid_twice\<close>). The balance covers the stake, the locked balance does not
  wrap, the table has room, all clients of the table are logged in, the account's object agrees with its row, no
  transaction is open and no statement of the database fails.\<close>

theorem join_unjoin_restores:
  assumes "at_table c s o1 False lb" "calm lb" "fresh o1 (lb_store lb)" "row_of o1 (lb_store lb) = Some r"
    and "amount \<le> ar_balance r" "unat (ar_locked_balance r) + unat amount < 2 ^ 64"
    and "\<not> tb_max_players (pk_table (poker_of s lb)) < int (players_length s lb)"
    and "lb_next lb \<notin> set (pk_players (poker_of s lb))" "getby_id (poker_of s lb) (account_id o1 lb) = None"
  shows "\<exists>lb1 lb2. join_session en c s amount pos lb = Inr (True, lb1)
    \<and> row_of o1 (lb_store lb1) = Some (r\<lparr>ar_balance := ar_balance r - amount, ar_locked_balance := ar_locked_balance r + amount\<rparr>)
    \<and> unjoin_session c s lb1 = Inr (True, lb2) \<and> row_of o1 (lb_store lb2) = Some r
    \<and> (removes (pk_state (poker_of s lb)) \<longrightarrow> pk_players (poker_of s lb2) = pk_players (poker_of s lb))"
proof -
  let ?i = "lb_next lb" and ?p = "poker_of s lb"
  obtain r0 where r0: "row_of o1 (lb_store lb) = Some r0" "ar_balance r0 = ac_balance (object o1 (lb_store lb))"
    using fresh_row [OF assms(3)] by blast
  have am: "amount \<le> ac_balance (object o1 (lb_store lb))" using r0 assms(4,5) by simp
  obtain lb1 where lb1: "join_session en c s amount pos lb = Inr (True, lb1)" "at_table c s o1 True lb1" "calm lb1"
    "account_id o1 lb1 = account_id o1 lb"
    "row_of o1 (lb_store lb1) = map_option (\<lambda>r. r\<lparr>ar_balance := ar_balance r - amount,
        ar_locked_balance := ar_locked_balance r + amount\<rparr>) (row_of o1 (lb_store lb))"
    "pk_players (poker_of s lb1) = pk_players ?p @ [?i]"
    "\<forall>j. j \<noteq> ?i \<longrightarrow> the_player (poker_of s lb1) j = the_player ?p j"
    "pl_account (the_player (poker_of s lb1) ?i) = account_id o1 lb"
    "pl_balance (the_player (poker_of s lb1) ?i) = amount"
    "pl_enterance_balance (the_player (poker_of s lb1) ?i) = amount"
    "pk_state ?p \<noteq> W4P \<longrightarrow> pk_state (poker_of s lb1) = pk_state ?p"
    "pk_state ?p = W4P \<longrightarrow> pk_state (poker_of s lb1) \<in> {W4P, STARTING}"
    using join_effect [OF assms(1-3) am assms(7,8), of en pos] by blast
  have "List.find (\<lambda>i. pl_account (the_player (poker_of s lb1) i) = account_id o1 lb) (pk_players ?p) = None"
    using assms(8,9) lb1(7) unfolding getby_id_def find_None_iff by metis
  then have player: "getby_id (poker_of s lb1) (account_id o1 lb1) = Some ?i"
    using lb1(4,6,8) by (simp add: getby_id_def find_append)
  let ?r1 = "r\<lparr>ar_balance := ar_balance r - amount, ar_locked_balance := ar_locked_balance r + amount\<rparr>"
  have row1: "row_of o1 (lb_store lb1) = Some ?r1" using lb1(5) assms(4) by simp
  have "unat (ar_locked_balance r + amount) = unat (ar_locked_balance r) + unat amount"
    using assms(6) unat_plus_if' [of "ar_locked_balance r" amount] by simp
  then have stake: "pl_enterance_balance (the_player (poker_of s lb1) ?i) \<le> ar_locked_balance ?r1"
    using lb1(10) by (simp add: word_le_nat_alt)
  obtain lb2 where lb2: "unjoin_session c s lb1 = Inr (True, lb2)"
    "row_of o1 (lb_store lb2) = Some (?r1\<lparr>
        ar_locked_balance := ar_locked_balance ?r1 - pl_enterance_balance (the_player (poker_of s lb1) ?i),
        ar_balance := ar_balance ?r1 + pl_balance (the_player (poker_of s lb1) ?i)\<rparr>)"
    "same_seats (if removes (pk_state (poker_of s lb1)) then remove1 ?i else (\<lambda>l. l))
        (upd_player ?i (\<lambda>pl. pl\<lparr>pl_left := True\<rparr>) (poker_of s lb1)) (poker_of s lb2)"
    using unjoin_effect [OF lb1(2,3) row1 player stake] by blast
  have "removes (pk_state (poker_of s lb1))" if "removes (pk_state ?p)"
    using that lb1(11,12) by (cases "pk_state ?p = W4P") (auto simp: removes_def state_less_simps)
  then have "pk_players (poker_of s lb2) = pk_players ?p" if "removes (pk_state ?p)"
    using that lb2(3) lb1(6) assms(8) by (simp add: same_seats_def remove1_append)
  then show ?thesis using lb1(1) row1 lb2(1,2) lb1(9,10) by auto
qed

theorem join_unjoin_restores_witness:
  "\<exists>lb1 lb2. join_session sample_env 0 0 30 4 (sample_lobby sample_store sample_game False) = Inr (True, lb1)
    \<and> map_option ar_balance (row_of 0 (lb_store lb1)) = Some 70
    \<and> unjoin_session 0 0 lb1 = Inr (True, lb2) \<and> row_of 0 (lb_store lb2) = Some sample_row"
proof -
  let ?lb = "sample_lobby sample_store sample_game False"
  have at: "at_table 0 0 0 False ?lb" "calm ?lb" "fresh 0 (lb_store ?lb)" "row_of 0 (lb_store ?lb) = Some sample_row"
    using sample_lobby_at_table [of sample_store False sample_game]
    by (simp_all add: calm_def) (simp add: sample_store_def)
  have r: "(30 :: 64 word) \<le> ar_balance sample_row" "unat (ar_locked_balance sample_row) + unat (30 :: 64 word) < 2 ^ 64"
    by (simp_all add: sample_row_def new_row_def)
  have p: "\<not> tb_max_players (pk_table (poker_of 0 ?lb)) < int (players_length 0 ?lb)"
    "lb_next ?lb \<notin> set (pk_players (poker_of 0 ?lb))" "getby_id (poker_of 0 ?lb) (account_id 0 ?lb) = None"
    by (simp_all add: getby_id_def) (simp add: sample_simps)
  show ?thesis using join_unjoin_restores [OF at r p, of sample_env 4] by (auto simp: sample_row_def new_row_def)
qed

section \<open>The same chips twice\<close>

text \<open>C35: During a hand the player of a client who unjoins stays in the list, and the next unjoining finds it
  by the account before the player of the next joining: its chips are paid again.\<close>

theorem chips_paid_twice:
  assumes "at_table c s o1 True lb" "calm lb" "row_of o1 (lb_store lb) = Some r"
    and "getby_id (poker_of s lb) (account_id o1 lb) = Some i"
    and "stake = pl_enterance_balance (the_player (poker_of s lb) i)" "chips = pl_balance (the_player (poker_of s lb) i)"
    and "\<not> removes (pk_state (poker_of s lb))" "stake \<le> ar_locked_balance r"
    and "amount \<le> ar_balance r + chips" "stake \<le> ar_locked_balance r - stake + amount"
    and "\<not> tb_max_players (pk_table (poker_of s lb)) < int (players_length s lb)"
    and "lb_next lb \<notin> set (pk_players (poker_of s lb))"
  shows "\<exists>lb1 lb2 lb3 lb4. unjoin_session c s lb = Inr (True, lb1)
    \<and> map_option ar_balance (row_of o1 (lb_store lb1)) = Some (ar_balance r + chips)
    \<and> fetch o1 lb1 = Inr lb2 \<and> join_session en c s amount pos lb2 = Inr (True, lb3)
    \<and> unjoin_session c s lb3 = Inr (True, lb4)
    \<and> map_option ar_balance (row_of o1 (lb_store lb4)) = Some (ar_balance r + chips - amount + chips)"
proof -
  let ?p = "poker_of s lb"
  obtain lb1 where lb1: "unjoin_session c s lb = Inr (True, lb1)" "at_table c s o1 False lb1" "calm lb1"
    "account_id o1 lb1 = account_id o1 lb"
    "row_of o1 (lb_store lb1) = Some (r\<lparr>ar_locked_balance := ar_locked_balance r - stake, ar_balance := ar_balance r + chips\<rparr>)"
    "same_seats (\<lambda>l. l) (upd_player i (\<lambda>pl. pl\<lparr>pl_left := True\<rparr>) ?p) (poker_of s lb1)"
    "lb_next lb1 = lb_next lb"
    using unjoin_effect [OF assms(1-4)] assms(5-8) by auto
  let ?r1 = "r\<lparr>ar_locked_balance := ar_locked_balance r - stake, ar_balance := ar_balance r + chips\<rparr>"
  have seats1: "pk_players (poker_of s lb1) = pk_players ?p" "tb_max_players (pk_table (poker_of s lb1)) = tb_max_players (pk_table ?p)"
    "pl_account (the_player (poker_of s lb1) j) = pl_account (the_player ?p j)"
    "pl_balance (the_player (poker_of s lb1) j) = pl_balance (the_player ?p j)"
    "pl_enterance_balance (the_player (poker_of s lb1) j) = pl_enterance_balance (the_player ?p j)" for j
    using lb1(6) by (simp_all add: same_seats_def)
  obtain lb2 where lb2: "fetch o1 lb1 = Inr lb2" "same_people lb1 lb2" "calm lb2" "row_of o1 (lb_store lb2) = Some ?r1"
    "fresh o1 (lb_store lb2)" "ac_balance (object o1 (lb_store lb2)) = ar_balance ?r1"
    "lb_session lb2 = lb_session lb1" "lb_next lb2 = lb_next lb1"
    using fetch_effect [OF lb1(3,5) at_table_account [OF lb1(2)]] by blast
  have at2: "at_table c s o1 False lb2" by (rule at_table_same [OF lb1(2) lb2(2)])
  have id2: "account_id o1 lb2 = account_id o1 lb"
    using same_people_lookups(4) [OF lb2(2), of c o1] lb1(2,4) by (simp add: at_table_def)
  have p2: "poker_of s lb2 = poker_of s lb1" using lb2(7) by (simp add: poker_of_def)
  have am: "amount \<le> ac_balance (object o1 (lb_store lb2))" using lb2(6) assms(9) by simp
  have room: "\<not> tb_max_players (pk_table (poker_of s lb2)) < int (players_length s lb2)"
    using assms(11) seats1(1,2) p2 by (simp add: players_length_def)
  have new: "lb_next lb2 \<notin> set (pk_players (poker_of s lb2))"
    using assms(12) seats1(1) lb2(8) lb1(7) p2 by simp
  obtain lb3 where lb3: "join_session en c s amount pos lb2 = Inr (True, lb3)" "at_table c s o1 True lb3" "calm lb3"
    "account_id o1 lb3 = account_id o1 lb2"
    "row_of o1 (lb_store lb3) = map_option (\<lambda>r. r\<lparr>ar_balance := ar_balance r - amount,
        ar_locked_balance := ar_locked_balance r + amount\<rparr>) (row_of o1 (lb_store lb2))"
    "pk_players (poker_of s lb3) = pk_players (poker_of s lb2) @ [lb_next lb2]"
    "\<forall>j. j \<noteq> lb_next lb2 \<longrightarrow> the_player (poker_of s lb3) j = the_player (poker_of s lb2) j"
    using join_effect [OF at2 lb2(3,5) am room new, of en pos] by blast
  have i: "List.find (\<lambda>i. pl_account (the_player ?p i) = account_id o1 lb) (pk_players ?p) = Some i"
    using assms(4) by (simp add: getby_id_def)
  then have i_in: "i \<in> set (pk_players ?p)" by (auto simp: find_Some_iff)
  then have old: "the_player (poker_of s lb3) j = the_player (poker_of s lb1) j" if "j \<in> set (pk_players ?p)" for j
  proof -
    have "j \<noteq> lb_next lb2" using that new p2 seats1(1) by auto
    then show ?thesis using lb3(7) p2 by simp
  qed
  have "List.find (\<lambda>i. pl_account (the_player (poker_of s lb3) i) = account_id o1 lb) (pk_players ?p) = Some i"
    using i old seats1(3) by (subst find_cong [OF refl]) auto
  then have player: "getby_id (poker_of s lb3) (account_id o1 lb3) = Some i"
    using lb3(4,6) id2 seats1(1) p2 by (simp add: getby_id_def find_append)
  let ?r3 = "?r1\<lparr>ar_balance := ar_balance ?r1 - amount, ar_locked_balance := ar_locked_balance ?r1 + amount\<rparr>"
  have row3: "row_of o1 (lb_store lb3) = Some ?r3" using lb3(5) lb2(4) by simp
  have again: "pl_enterance_balance (the_player (poker_of s lb3) i) = stake" "pl_balance (the_player (poker_of s lb3) i) = chips"
    using old [OF i_in] seats1(4,5) assms(5,6) by simp_all
  then have "pl_enterance_balance (the_player (poker_of s lb3) i) \<le> ar_locked_balance ?r3" using assms(10) by simp
  then obtain lb4 where "unjoin_session c s lb3 = Inr (True, lb4)"
    "row_of o1 (lb_store lb4) = Some (?r3\<lparr>ar_locked_balance := ar_locked_balance ?r3 - pl_enterance_balance (the_player (poker_of s lb3) i),
        ar_balance := ar_balance ?r3 + pl_balance (the_player (poker_of s lb3) i)\<rparr>)"
    using unjoin_effect [OF lb3(2,3) row3 player] by blast
  then show ?thesis using lb1(1,5) lb2(1) lb3(1) again by auto
qed

definition playing_row :: accounts_row where
  "playing_row = sample_row\<lparr>ar_locked_balance := 40\<rparr>"

definition playing_store :: store where
  "playing_store = sample_store\<lparr>st_db := (st_db sample_store)\<lparr>db_rows := ([playing_row], [], [])\<rparr>\<rparr>"

definition playing_game :: poker where
  "playing_game = upd_player 2 (\<lambda>pl. pl\<lparr>pl_account := 7, pl_enterance_balance := 40\<rparr>) sample_game"

theorem chips_paid_twice_witness:
  "\<exists>lb1 lb2 lb3 lb4. unjoin_session 0 0 (sample_lobby playing_store playing_game True) = Inr (True, lb1)
    \<and> fetch 0 lb1 = Inr lb2 \<and> join_session sample_env 0 0 50 4 lb2 = Inr (True, lb3)
    \<and> unjoin_session 0 0 lb3 = Inr (True, lb4)
    \<and> map_option ar_balance (row_of 0 (lb_store lb4)) = Some 2050"
proof -
  let ?lb = "sample_lobby playing_store playing_game True"
  have st: "st_next playing_store = 2" "object 0 playing_store = object 0 sample_store" "calm ?lb"
    "row_of 0 playing_store = Some playing_row"
    using sample_store_fresh(6) [of 0]
    by (simp_all add: playing_store_def calm_def row_of_def account_row_def find_account_def object_def
        sample_store_def steady_def playing_row_def sample_row_def new_row_def account_of_row_def)
  have at: "at_table 0 0 0 True ?lb" using sample_lobby_at_table [of playing_store True playing_game] st(1) by simp
  have row: "row_of 0 (lb_store ?lb) = Some playing_row" using st(4) by simp
  have player: "getby_id (poker_of 0 ?lb) (account_id 0 ?lb) = Some 2"
    using st(2) by (simp add: getby_id_def playing_game_def)
  have "(40 :: 64 word) = pl_enterance_balance (the_player (poker_of 0 ?lb) 2)"
    "(1000 :: 64 word) = pl_balance (the_player (poker_of 0 ?lb) 2)" "\<not> removes (pk_state (poker_of 0 ?lb))"
    by (simp_all add: playing_game_def removes_def state_less_simps)
  note p = this
  have nums: "(40 :: 64 word) \<le> ar_locked_balance playing_row" "(50 :: 64 word) \<le> ar_balance playing_row + 1000"
    "(40 :: 64 word) \<le> ar_locked_balance playing_row - 40 + 50"
    by (simp_all add: playing_row_def sample_row_def new_row_def)
  have room: "\<not> tb_max_players (pk_table (poker_of 0 ?lb)) < int (players_length 0 ?lb)"
    "lb_next ?lb \<notin> set (pk_players (poker_of 0 ?lb))"
    by (simp_all add: playing_game_def) (simp add: sample_simps)
  show ?thesis
    using chips_paid_twice [OF at st(3) row player p nums room, of sample_env 4]
    by (auto simp: playing_row_def sample_row_def new_row_def)
qed

end
