(* ===== verification/Lobby_Faults.thy ===== *)
theory Lobby_Faults
  imports Lobby_Cash
begin

text \<open>
  Requests of a client that dereference a null pointer in the lobby.
\<close>

text \<open>A seat is refused when the table has one player more than its size, and the new player, which is null
  then, is used without a test, after the stake has been locked.\<close>

theorem full_table_crashes:
  assumes "at_table c s o1 False lb" "tb_max_players (pk_table (poker_of s lb)) < int (players_length s lb)"
  shows "join_session en c s amount pos lb = Inl NullDeref"
proof -
  obtain sc cs where sc: "session_client_getby_account_id s (account_id o1 lb) lb = Inr (Some sc)"
    and cs: "client_session_getby_session_id c (se_id (lb_session lb s)) lb = Some cs" "\<not> cs_joined cs"
    using assms(1) by (auto simp: at_table_def)
  have acct: "lc_account (lb_client lb c) = Some o1" using assms(1) by (simp add: at_table_def)
  let ?lb1 = "mark_joined c s sc cs True lb"
  have add: "players_addby_account (poker_of s lb) (lb_next lb) (account_id o1 lb) pos = (poker_of s lb, None)"
    using assms(2) by (simp add: players_addby_account_def players_length_def)
  obtain lb3 where "broadcast_sessions (reorder_updated_session s (players_length s ?lb1)
      (upd_poker s (\<lambda>_. poker_of s lb) (?lb1\<lparr>lb_next := lb_next lb + 1\<rparr>))) = Inr lb3"
    using broadcast_quiet by blast
  then show ?thesis using acct sc cs add by (simp add: join_session_def Let_def)
qed

definition crowded_game :: poker where
  "crowded_game = sample_game\<lparr>pk_table := (pk_table sample_game)\<lparr>tb_max_players := 2\<rparr>\<rparr>"

theorem full_table_crashes_witness:
  "join_session sample_env 0 0 30 4 (sample_lobby sample_store crowded_game False) = Inl NullDeref"
  using full_table_crashes [OF sample_lobby_at_table [of sample_store False crowded_game]]
  by (simp add: crowded_game_def)

text \<open>A request to unjoin a table that the client has not entered.\<close>

theorem unjoin_elsewhere_crashes:
  assumes "cn_owner (lb_conn lb k) = Some c" "\<forall>cs \<in> set (entered c lb). table_id (cs_session cs) lb \<noteq> i"
  shows "on_client_unjoin k i lb = Inl NullDeref"
proof -
  have "client_session_getby_table_id c i lb = None"
    using assms(2) by (simp add: client_session_getby_table_id_def find_None_iff)
  then show ?thesis using assms(1) by (simp add: on_client_unjoin_def)
qed

theorem unjoin_elsewhere_crashes_witness: "on_client_unjoin 5 999 (sample_lobby sample_store sample_game False) = Inl NullDeref"
proof -
  have t: "table_id s (sample_lobby sample_store sample_game False) = 1" for s
    by (simp add: table_id_def) (simp add: sample_simps)
  show ?thesis
    by (rule unjoin_elsewhere_crashes [where c = 0]) (simp add: sample_lobby_def, simp add: t)
qed

text \<open>A connection that presents the token of a session which is known to Redis and not to the lobby is
  refused, and crashes the server when it presents any token again: its client has a session and no
  account.\<close>

theorem second_auth_crashes:
  assumes "cn_owner (lb_conn lb k) = Some c" "lc_account (lb_client lb c) = None" "lc_auth_session (lb_client lb c) = None"
    and "\<not> lc_tolerant_disconnected (lb_client lb c)" "cn_up (lb_conn lb k)"
    and "auth_session_getby_token token (lb_store lb) (lb_redis lb) = (Some au, st)" "lb_authorized lb (sql_text token) = None"
  shows "\<exists>lb1. on_client_auth_session en k token lb = Inr lb1 \<and> (k, AuthSessionRes 1 0 None) \<in> set (lb_sent lb1)
    \<and> on_client_auth_session en k token2 lb1 = Inl NullDeref"
proof -
  let ?lb = "set_store st lb"
  let ?lb1 = "(upd_client c (\<lambda>lc. lc\<lparr>lc_auth_session := Some (lb_next lb)\<rparr>) (?lb\<lparr>lb_next := lb_next lb + 1\<rparr>))
    \<lparr>lb_auth := (lb_auth lb)(lb_next lb := au)\<rparr>"
  let ?lb2 = "?lb1\<lparr>lb_sent := lb_sent lb @ [(k, AuthSessionRes 1 0 None)]\<rparr>"
  have first: "on_client_auth_session en k token lb = Inr ?lb2"
    using assms by (simp add: on_client_auth_session_def Let_def refuse_auth_def send_def send_packet_def packet_null_def)
  have "on_client_auth_session en k token2 ?lb2 = Inl NullDeref"
    using assms by (simp add: on_client_auth_session_def send_def send_packet_def packet_null_def account_of_def)
  then show ?thesis using first by auto
qed

text \<open>Redis holds the token of account 7, which the lobby does not know.\<close>

definition stranger :: lobby where
  "stranger = (sample_lobby sample_store sample_game False)
     \<lparr>lb_client := (\<lambda>_. sample_client\<lparr>lc_account := None\<rparr>),
      lb_redis := \<lparr>rd_up = True, rd_tokens = (\<lambda>_. Some [65]), rd_players = (\<lambda>_. None), rd_watchers = (\<lambda>_. None)\<rparr>\<rparr>"

lemma sample_token:
  "\<exists>st. auth_session_getby_token [84] sample_store (lb_redis stranger) = (Some (auth_session_new 2 [84]), st)
    \<and> object 2 st = account_of_row 7 sample_row \<and> object 0 st = account_of_row 7 sample_row \<and> st_db st = st_db sample_store"
  by (simp add: auth_session_getby_token_def stranger_def account_getby_id_token_def account_read_def with_db_def
      sample_store_def find_account_def sample_row_def new_row_def sql_text_def sql_select_def statement_fails_def
      after_statement_def account_new_def object_def atoi_id_def account_of_row_def)

theorem second_auth_crashes_witness:
  "\<exists>lb1. on_client_auth_session sample_env 5 [84] stranger = Inr lb1 \<and> on_client_auth_session sample_env 5 [] lb1 = Inl NullDeref"
proof -
  obtain st where "auth_session_getby_token [84] (lb_store stranger) (lb_redis stranger) = (Some (auth_session_new 2 [84]), st)"
    using sample_token by (auto simp: stranger_def)
  then show ?thesis
    using second_auth_crashes [of stranger 5 0 "[84]" "auth_session_new 2 [84]" st sample_env "[]"]
    by (auto simp: stranger_def sample_lobby_def sample_client_def)
qed

end
