(* ===== verification/Lobby_Return.thy ===== *)
theory Lobby_Return
  imports Lobby_Faults
begin

text \<open>
  Coming back: a client that presents its token takes up the lobby client it had, which the task
  that was to end it then leaves alone.
\<close>

lemma retarget_fields [simp]:
  "lb_client (retarget_sessions r a lb) = lb_client lb" "lb_conn (retarget_sessions r a lb) = lb_conn lb"
  "lb_lists (retarget_sessions r a lb) = lb_lists lb" "lb_store (retarget_sessions r a lb) = lb_store lb"
  "lb_authorized (retarget_sessions r a lb) = lb_authorized lb" "lb_auth (retarget_sessions r a lb) = lb_auth lb"
  "lb_redis (retarget_sessions r a lb) = lb_redis lb" "lb_next (retarget_sessions r a lb) = lb_next lb"
proof -
  let ?f = "\<lambda>cs lb. upd_session (cs_session cs) (\<lambda>se. se\<lparr>se_clients := map (\<lambda>sc. retarget r a sc lb) (se_clients se)\<rparr>) lb"
  have "lb_client (fold ?f xs l) = lb_client l \<and> lb_conn (fold ?f xs l) = lb_conn l \<and> lb_lists (fold ?f xs l) = lb_lists l
    \<and> lb_store (fold ?f xs l) = lb_store l \<and> lb_authorized (fold ?f xs l) = lb_authorized l \<and> lb_auth (fold ?f xs l) = lb_auth l
    \<and> lb_redis (fold ?f xs l) = lb_redis l \<and> lb_next (fold ?f xs l) = lb_next l" for xs l
    by (induction xs arbitrary: l) simp_all
  from this [of "entered r lb" lb]
  show "lb_client (retarget_sessions r a lb) = lb_client lb" "lb_conn (retarget_sessions r a lb) = lb_conn lb"
    "lb_lists (retarget_sessions r a lb) = lb_lists lb" "lb_store (retarget_sessions r a lb) = lb_store lb"
    "lb_authorized (retarget_sessions r a lb) = lb_authorized lb" "lb_auth (retarget_sessions r a lb) = lb_auth lb"
    "lb_redis (retarget_sessions r a lb) = lb_redis lb" "lb_next (retarget_sessions r a lb) = lb_next lb"
    unfolding retarget_sessions_def by blast+
qed

lemma revive_fields [simp]:
  "lb_store (revive c r lb) = lb_store lb" "lb_authorized (revive c r lb) = lb_authorized lb"
  "lb_lists (revive c r lb) = lb_lists lb" "lb_auth (revive c r lb) = lb_auth lb" "lb_next (revive c r lb) = lb_next lb"
  by (simp_all add: revive_def Let_def)

text \<open>Setting the account of a client touches no other client, no list and no connection.\<close>

lemma client_set_account_fields:
  "lb_conn (client_set_account en c o1 lb) = lb_conn lb" "lb_lists (client_set_account en c o1 lb) = lb_lists lb"
  "lb_authorized (client_set_account en c o1 lb) = lb_authorized lb" "lb_store (client_set_account en c o1 lb) = lb_store lb"
  "c2 \<noteq> c \<Longrightarrow> lb_client (client_set_account en c o1 lb) c2 = lb_client lb c2"
  "\<exists>au. lb_client (client_set_account en c o1 lb) c = (lb_client lb c)\<lparr>lc_auth_session := au, lc_account := Some o1\<rparr>"
  by (auto simp: client_set_account_def new_auth_def Let_def split: option.splits prod.splits)

lemma send_fields:
  assumes "\<not> packet_null (cn_websocket (lb_conn lb k)) p" "cn_up (lb_conn lb k)"
  shows "send_packet k p lb = Inr (True, lb\<lparr>lb_sent := lb_sent lb @ [(k, p)]\<rparr>)"
  using assms by (simp add: send_packet_def)

text \<open>Connection \<open>k\<close>, of the lobby client \<open>c\<close>, presents a token that belongs to the lobby client \<open>r\<close>.\<close>

definition presents :: "nat \<Rightarrow> nat \<Rightarrow> nat \<Rightarrow> bytes \<Rightarrow> auth_object \<Rightarrow> store \<Rightarrow> lobby \<Rightarrow> bool" where
  "presents k c r token au st lb \<longleftrightarrow> cn_owner (lb_conn lb k) = Some c \<and> lc_client (lb_client lb c) = k \<and> c \<noteq> r
     \<and> cn_up (lb_conn lb k) \<and> (lc_auth_session (lb_client lb c) = None \<or> lc_tolerant_disconnected (lb_client lb c))
     \<and> auth_session_getby_token token (lb_store lb) (lb_redis lb) = (Some au, st) \<and> lb_authorized lb (sql_text token) = Some r
     \<and> (\<exists>o2. lc_account (lb_client lb r) = Some o2 \<and> ac_id (object o2 st) = ac_id (object (au_account au) st))"

text \<open>A session that is not of the new account object is replaced by one with a new token.\<close>

lemma client_set_account_auth:
  assumes "\<forall>a. lc_auth_session (lb_client lb c) = Some a \<longrightarrow> au_account (lb_auth lb a) \<noteq> o1"
    and "lc_auth_session (lb_client (client_set_account en c o1 lb) c) = Some a"
  shows "\<exists>n. au_token (lb_auth (client_set_account en c o1 lb) a) = en_token en n"
proof -
  have keep: "(case lc_auth_session (lb_client lb c) of None \<Rightarrow> None
                 | Some k \<Rightarrow> if au_account (lb_auth lb k) \<noteq> o1 then None else Some k) = None"
    using assms(1) by (auto split: option.split)
  show ?thesis
    using assms(2) unfolding client_set_account_def keep
    by (auto simp: new_auth_def auth_session_create_def auth_session_new_def Let_def split: if_splits)
qed

lemma return_effect:
  assumes "presents k c r token au st lb"
  shows "\<exists>lb'. on_client_auth_session en k token lb = Inr lb'
    \<and> cn_owner (lb_conn lb' k) = Some r \<and> lc_client (lb_client lb' r) = k \<and> lc_account (lb_client lb' r) = Some (au_account au)
    \<and> entered r lb' = entered r lb \<and> (\<exists>a. (k, AuthSessionRes 1 1 (Some a)) \<in> set (lb_sent lb'))
    \<and> (\<forall>k0. cn_owner (lb_conn lb k0) = Some r \<longrightarrow> cn_owner (lb_conn lb' k0) = Some r)
    \<and> \<not> lc_tolerant_disconnected (lb_client lb' r) \<and> \<not> lc_disconnected (lb_client lb' r) \<and> lc_connected (lb_client lb' r)
    \<and> \<not> lc_revived (lb_client lb' r) \<and> lb_authorized lb' (sql_text token) = Some r
    \<and> ((\<forall>a. lc_auth_session (lb_client lb r) = Some a \<longrightarrow> a \<noteq> lb_next lb \<and> au_account (lb_auth lb a) \<noteq> au_account au)
        \<longrightarrow> (\<forall>a. lc_auth_session (lb_client lb' r) = Some a \<longrightarrow> (\<exists>n. au_token (lb_auth lb' a) = en_token en n)))"
proof -
  obtain o2 where assms: "cn_owner (lb_conn lb k) = Some c" "lc_client (lb_client lb c) = k" "c \<noteq> r" "cn_up (lb_conn lb k)"
    "lc_auth_session (lb_client lb c) = None \<or> lc_tolerant_disconnected (lb_client lb c)"
    "auth_session_getby_token token (lb_store lb) (lb_redis lb) = (Some au, st)" "lb_authorized lb (sql_text token) = Some r"
    "lc_account (lb_client lb r) = Some o2" "ac_id (object o2 st) = ac_id (object (au_account au) st)"
    using assms by (auto simp: presents_def)
  let ?a = "lb_next lb"
  let ?lb1 = "(upd_client c (\<lambda>lc. lc\<lparr>lc_auth_session := Some ?a\<rparr>) ((set_store st lb)\<lparr>lb_next := ?a + 1\<rparr>))
    \<lparr>lb_auth := (lb_auth lb)(?a := au)\<rparr>"
  let ?o1 = "au_account au"
  let ?lb3 = "take_up c r ?a token ?lb1"
  let ?lb4 = "set_store (account_owner ?o1 r (lb_store ?lb3)) ?lb3"
  let ?lb5 = "client_set_account en r ?o1 ?lb4"
  note f5 = client_set_account_fields(1,2,3,6) [of en r ?o1 ?lb4]
  have conn2: "lb_conn ?lb3 = (lb_conn lb)(k := (lb_conn lb k)\<lparr>cn_owner := Some r\<rparr>)"
    using assms(2) by (simp add: take_up_def revive_def Let_def)
  have client2: "lb_client ?lb3 r = (lb_client lb r)\<lparr>lc_revived := True, lc_client := k, lc_tolerant_disconnected := False,
           lc_disconnected := False, lc_connected := True\<rparr>"
    using assms(2,3) by (simp add: take_up_def revive_def Let_def)
  have conn5: "lb_conn ?lb5 = (lb_conn lb)(k := (lb_conn lb k)\<lparr>cn_owner := Some r\<rparr>)"
    using f5(1) conn2 by simp
  obtain x where client5: "lb_client ?lb5 r = (lb_client lb r)\<lparr>lc_revived := True, lc_client := k, lc_tolerant_disconnected := False,
           lc_disconnected := False, lc_connected := True, lc_auth_session := x, lc_account := Some ?o1\<rparr>"
    using f5(4) client2 assms(3) by auto
  have lists5: "lb_lists ?lb5 = lb_lists lb" using f5(2) by (simp add: take_up_def Let_def)
  have accept: "on_client_auth_session en k token lb = accept_auth en k c r ?a ?o1 token ?lb1"
    using assms(5) assms(3)
    by (elim disjE) (simp_all add: on_client_auth_session_def Let_def account_id_def assms(1,6-9))
  have auth: "on_client_auth_session en k token lb =
      bindO (send_packet k (AuthSessionRes 1 1 (account_of r ?lb5)) ?lb5) (\<lambda>(result, lb).
        if \<not> result then Inr lb else send_sessions k 0
          (upd_client r (\<lambda>lc. lc\<lparr>lc_tolerant_disconnected := False, lc_revived := False\<rparr>) lb))"
    unfolding accept accept_auth_def Let_def ..
  obtain acct where acct: "account_of r ?lb5 = Some acct" using client5 by (simp add: account_of_def)
  let ?lb6 = "?lb5\<lparr>lb_sent := lb_sent ?lb5 @ [(k, AuthSessionRes 1 1 (Some acct))]\<rparr>"
  have sent: "send_packet k (AuthSessionRes 1 1 (account_of r ?lb5)) ?lb5 = Inr (True, ?lb6)"
    using send_fields [of ?lb5 k "AuthSessionRes 1 1 (Some acct)"] conn5 assms(4) acct by (simp add: packet_null_def)
  let ?lb7 = "upd_client r (\<lambda>lc. lc\<lparr>lc_tolerant_disconnected := False, lc_revived := False\<rparr>) ?lb6"
  let ?lb8 = "?lb7\<lparr>lb_sent := lb_sent ?lb7 @ [(k, Sessions 0 (session_pokers ?lb7))]\<rparr>"
  have run: "on_client_auth_session en k token lb = Inr ?lb8"
    unfolding auth sent
    using send_fields [of ?lb7 k "Sessions 0 (session_pokers ?lb7)"] conn5 assms(4)
    by (simp add: send_sessions_def send_def)
  have client8: "lb_client ?lb8 r = (lb_client lb r)\<lparr>lc_revived := False, lc_client := k, lc_tolerant_disconnected := False,
           lc_disconnected := False, lc_connected := True, lc_auth_session := x, lc_account := Some ?o1\<rparr>"
    using client5 by simp
  have conn8: "lb_conn ?lb8 = (lb_conn lb)(k := (lb_conn lb k)\<lparr>cn_owner := Some r\<rparr>)" using conn5 by simp
  have e8: "entered r ?lb8 = entered r lb" using lists5 client8 by (simp add: entered_def)
  have k8: "cn_owner (lb_conn ?lb8 k) = Some r" using conn8 by simp
  have o8: "\<forall>k0. cn_owner (lb_conn lb k0) = Some r \<longrightarrow> cn_owner (lb_conn ?lb8 k0) = Some r" using conn8 by simp
  have s8: "\<exists>a. (k, AuthSessionRes 1 1 (Some a)) \<in> set (lb_sent ?lb8)" by (rule exI [of _ acct]) simp
  have z8: "lb_authorized ?lb8 (sql_text token) = Some r" using f5(3) by (simp add: take_up_def Let_def)
  have t8: "\<exists>n. au_token (lb_auth ?lb8 a) = en_token en n"
    if old: "\<forall>a. lc_auth_session (lb_client lb r) = Some a \<longrightarrow> a \<noteq> lb_next lb \<and> au_account (lb_auth lb a) \<noteq> au_account au"
      and new: "lc_auth_session (lb_client ?lb8 r) = Some a" for a
  proof -
    have "lb_auth ?lb4 = (lb_auth lb)(?a := au)" by (simp add: take_up_def Let_def)
    then have "\<forall>a. lc_auth_session (lb_client ?lb4 r) = Some a \<longrightarrow> au_account (lb_auth ?lb4 a) \<noteq> ?o1"
      using old client2 by auto
    moreover have "lc_auth_session (lb_client ?lb5 r) = Some a" using new by simp
    ultimately show ?thesis using client_set_account_auth [of ?lb4 r ?o1 en a] by simp
  qed
  have f8: "lc_client (lb_client ?lb8 r) = k" "lc_account (lb_client ?lb8 r) = Some ?o1"
    "\<not> lc_tolerant_disconnected (lb_client ?lb8 r)" "\<not> lc_disconnected (lb_client ?lb8 r)"
    "lc_connected (lb_client ?lb8 r)" "\<not> lc_revived (lb_client ?lb8 r)"
    unfolding client8 by simp_all
  have u8: "(\<forall>a. lc_auth_session (lb_client lb r) = Some a \<longrightarrow> a \<noteq> lb_next lb \<and> au_account (lb_auth lb a) \<noteq> au_account au)
      \<longrightarrow> (\<forall>a. lc_auth_session (lb_client ?lb8 r) = Some a \<longrightarrow> (\<exists>n. au_token (lb_auth ?lb8 a) = en_token en n))"
    by (intro impI allI, rule t8)
  show ?thesis
    using run e8 k8 o8 s8 z8 u8 f8 by (intro exI [of _ ?lb8] conjI)
qed

text \<open>C20: A token of an authorized client on a new connection: the connection gets the old lobby client with the
  sessions it had entered, and the pending end of the old connection does nothing.\<close>

theorem return_within_tolerance:
  assumes "presents k c r token au st lb"
  shows "\<exists>lb'. on_client_auth_session en k token lb = Inr lb'
    \<and> cn_owner (lb_conn lb' k) = Some r \<and> lc_client (lb_client lb' r) = k \<and> lc_account (lb_client lb' r) = Some (au_account au)
    \<and> entered r lb' = entered r lb \<and> (\<exists>a. (k, AuthSessionRes 1 1 (Some a)) \<in> set (lb_sent lb'))
    \<and> (\<forall>k0. cn_owner (lb_conn lb k0) = Some r \<longrightarrow> on_client_disconnected_tolerated k0 lb' = Inr lb')"
proof -
  obtain lb' where lb': "on_client_auth_session en k token lb = Inr lb'" "cn_owner (lb_conn lb' k) = Some r"
    "lc_client (lb_client lb' r) = k" "lc_account (lb_client lb' r) = Some (au_account au)" "entered r lb' = entered r lb"
    "\<exists>a. (k, AuthSessionRes 1 1 (Some a)) \<in> set (lb_sent lb')"
    "\<forall>k0. cn_owner (lb_conn lb k0) = Some r \<longrightarrow> cn_owner (lb_conn lb' k0) = Some r"
    "\<not> lc_tolerant_disconnected (lb_client lb' r)" "\<not> lc_disconnected (lb_client lb' r)" "lc_connected (lb_client lb' r)"
    using return_effect [OF assms, of en] by blast
  have "on_client_disconnected_tolerated k0 lb' = Inr lb'" if "cn_owner (lb_conn lb k0) = Some r" for k0
    using lb'(7-10) that by (simp add: on_client_disconnected_tolerated_def Let_def)
  then show ?thesis using lb'(1-6) by blast
qed

lemma disconnected_effect:
  assumes "cn_owner (lb_conn lb k) = Some r" "\<not> lc_revived (lb_client lb r)"
  shows "\<exists>lb2. on_client_disconnected k lb = Inr lb2 \<and> lb_conn lb2 = lb_conn lb \<and> lb_lists lb2 = lb_lists lb
    \<and> lb_authorized lb2 = lb_authorized lb \<and> lb_auth lb2 = lb_auth lb
    \<and> lc_auth_session (lb_client lb2 r) = lc_auth_session (lb_client lb r) \<and> lc_sessions (lb_client lb2 r) = lc_sessions (lb_client lb r)
    \<and> \<not> lc_revived (lb_client lb2 r) \<and> lc_tolerant_disconnected (lb_client lb2 r)"
  using assms by (cases "lc_tolerated_task (lb_client lb r)")
    (simp_all add: on_client_disconnected_def Let_def cancel_and_leave_def on_loop_def task_at_def with_loop_def
      task_new_def upd_client_def)

text \<open>The lobby client has a new token then, and it is this one that is removed when the client is gone
  for good: the token it came back with still leads to it.\<close>

theorem old_token_stays:
  assumes "presents k c r token au st lb" "entered r lb = []" "\<forall>n. sql_text (en_token en n) \<noteq> sql_text token"
    and "\<forall>a. lc_auth_session (lb_client lb r) = Some a \<longrightarrow> a \<noteq> lb_next lb \<and> au_account (lb_auth lb a) \<noteq> au_account au"
  shows "\<exists>lb1 lb2 lb3. on_client_auth_session en k token lb = Inr lb1 \<and> on_client_disconnected k lb1 = Inr lb2
    \<and> on_client_disconnected_tolerated k lb2 = Inr lb3
    \<and> lc_disconnected (lb_client lb3 r) \<and> lb_authorized lb3 (sql_text token) = Some r"
proof -
  obtain lb1 where lb1: "on_client_auth_session en k token lb = Inr lb1" "cn_owner (lb_conn lb1 k) = Some r"
    "entered r lb1 = []" "\<not> lc_revived (lb_client lb1 r)" "lb_authorized lb1 (sql_text token) = Some r"
    "\<forall>a. lc_auth_session (lb_client lb1 r) = Some a \<longrightarrow> (\<exists>n. au_token (lb_auth lb1 a) = en_token en n)"
    using return_effect [OF assms(1), of en] assms(2,4) by metis
  obtain lb2 where lb2: "on_client_disconnected k lb1 = Inr lb2" "lb_conn lb2 = lb_conn lb1" "lb_lists lb2 = lb_lists lb1"
    "lb_authorized lb2 = lb_authorized lb1" "lb_auth lb2 = lb_auth lb1"
    "lc_auth_session (lb_client lb2 r) = lc_auth_session (lb_client lb1 r)" "lc_sessions (lb_client lb2 r) = lc_sessions (lb_client lb1 r)"
    "\<not> lc_revived (lb_client lb2 r)" "lc_tolerant_disconnected (lb_client lb2 r)"
    using disconnected_effect [OF lb1(2,4)] by blast
  have "entered r lb2 = []" using lb1(3) lb2(3,7) by (simp add: entered_def)
  then have "\<exists>lb3. on_client_disconnected_tolerated k lb2 = Inr lb3 \<and> lc_disconnected (lb_client lb3 r)
    \<and> lb_authorized lb3 (sql_text token) = Some r"
    using lb1(2,5,6) lb2(2,4-9) assms(3)
    by (cases "lc_auth_session (lb_client lb1 r)")
      (auto simp: on_client_disconnected_tolerated_def Let_def entered_def)
  then show ?thesis using lb1(1) lb2(1) by blast
qed

text \<open>Connection 5 presents the token of the lobby client 1, which has not entered a session.\<close>

definition returning :: lobby where
  "returning = stranger\<lparr>lb_client := (\<lambda>c. if c = 1 then sample_client\<lparr>lc_auth_session := Some 50\<rparr> else sample_client\<lparr>lc_account := None\<rparr>),
     lb_lists := (\<lambda>_. []), lb_auth := (\<lambda>_. auth_session_new 0 [84]), lb_authorized := (\<lambda>_. Some 1)\<rparr>"

lemma returning_presents: "\<exists>st. presents 5 0 1 [84] (auth_session_new 2 [84]) st returning"
proof -
  obtain st where st: "auth_session_getby_token [84] sample_store (lb_redis stranger) = (Some (auth_session_new 2 [84]), st)"
    "object 2 st = account_of_row 7 sample_row" "object 0 st = account_of_row 7 sample_row"
    using sample_token by blast
  have "presents 5 0 1 [84] (auth_session_new 2 [84]) st returning"
    unfolding presents_def
  proof (intro conjI)
    show "auth_session_getby_token [84] (lb_store returning) (lb_redis returning) = (Some (auth_session_new 2 [84]), st)"
      using st(1) by (simp add: returning_def stranger_def sample_lobby_def)
    show "\<exists>o2. lc_account (lb_client returning 1) = Some o2
        \<and> ac_id (object o2 st) = ac_id (object (au_account (auth_session_new 2 [84])) st)"
      using st(2,3) by (simp add: returning_def sample_client_def auth_session_new_def)
  qed (simp_all add: returning_def stranger_def sample_lobby_def sample_client_def)
  then show ?thesis by blast
qed

theorem return_within_tolerance_witness:
  "\<exists>lb'. on_client_auth_session sample_env 5 [84] returning = Inr lb' \<and> cn_owner (lb_conn lb' 5) = Some 1"
  using returning_presents return_within_tolerance by blast

theorem old_token_stays_witness:
  "\<exists>lb1 lb2 lb3. on_client_auth_session sample_env 5 [84] returning = Inr lb1 \<and> on_client_disconnected 5 lb1 = Inr lb2
    \<and> on_client_disconnected_tolerated 5 lb2 = Inr lb3 \<and> lb_authorized lb3 (sql_text [84]) = Some 1"
proof -
  obtain st where p: "presents 5 0 1 [84] (auth_session_new 2 [84]) st returning" using returning_presents by blast
  have e: "entered 1 returning = []" by (simp add: returning_def entered_def)
  have n: "\<forall>n. sql_text (en_token sample_env n) \<noteq> sql_text [84]" by (simp add: sample_env_def sql_text_def)
  have a: "\<forall>a. lc_auth_session (lb_client returning 1) = Some a \<longrightarrow> a \<noteq> lb_next returning
      \<and> au_account (lb_auth returning a) \<noteq> au_account (auth_session_new 2 [84])"
    by (simp add: returning_def stranger_def sample_lobby_def sample_client_def auth_session_new_def)
  show ?thesis using old_token_stays [OF p e n a] by blast
qed

end
