(* ===== verification/Linked_List.thy ===== *)
theory Linked_List
  imports Prelude
begin

text \<open>
  The intrusive lists of \<open>src/include/sugar.h\<close>. A list has a first and a last node and a count; each
  node has the links \<open>next\<close> and \<open>prev\<close>. The macros are the updates of the links that the code does, in its
  order; \<open>holds\<close> says that the links are those of a HOL list.
\<close>

record links =
  ln_next :: "nat \<Rightarrow> nat option"
  ln_prev :: "nat \<Rightarrow> nat option"
  ls_next :: "nat option"
  ls_terminal :: "nat option"
  ls_length :: int

definition set_next :: "nat \<Rightarrow> nat option \<Rightarrow> links \<Rightarrow> links" where
  "set_next n x l = l\<lparr>ln_next := (ln_next l)(n := x)\<rparr>"

definition set_prev :: "nat \<Rightarrow> nat option \<Rightarrow> links \<Rightarrow> links" where
  "set_prev n x l = l\<lparr>ln_prev := (ln_prev l)(n := x)\<rparr>"

text \<open>An assignment through a pointer that has been tested.\<close>

definition if_some :: "nat option \<Rightarrow> (nat \<Rightarrow> links \<Rightarrow> links) \<Rightarrow> links \<Rightarrow> links" where
  "if_some p f l = (case p of None \<Rightarrow> l | Some n \<Rightarrow> f n l)"

lemma if_some_simps [simp]: "if_some None f l = l" "if_some (Some n) f l = f n l"
  by (simp_all add: if_some_def)

section \<open>The macros\<close>

definition LIST_INIT :: "links \<Rightarrow> links" where
  "LIST_INIT l = l\<lparr>ls_next := None, ls_terminal := None, ls_length := 0\<rparr>"

definition LIST_ITEM_INIT :: "nat \<Rightarrow> links \<Rightarrow> links" where
  "LIST_ITEM_INIT n l = set_next n None (set_prev n None l)"

definition LIST_APPEND :: "nat \<Rightarrow> links \<Rightarrow> links" where
  "LIST_APPEND n l =
    (let l = (if ls_next l = None then l\<lparr>ls_next := Some n\<rparr> else l);
         l = set_prev n (ls_terminal l) l;
         l = if_some (ls_terminal l) (\<lambda>t. set_next t (Some n)) l;
         l = l\<lparr>ls_terminal := Some n\<rparr>
     in l\<lparr>ls_length := ls_length l + 1\<rparr>)"

definition LIST_PREPEND :: "nat \<Rightarrow> links \<Rightarrow> links" where
  "LIST_PREPEND n l =
    (let l = set_prev n None l;
         l = (case ls_next l of
             None \<Rightarrow> l\<lparr>ls_next := Some n, ls_terminal := Some n\<rparr>
           | Some h \<Rightarrow> (set_prev h (Some n) (set_next n (Some h) l))\<lparr>ls_next := Some n\<rparr>)
     in l\<lparr>ls_length := ls_length l + 1\<rparr>)"

definition LIST_REMOVE :: "nat \<Rightarrow> links \<Rightarrow> links" where
  "LIST_REMOVE n l =
    (let l = (if ls_terminal l = Some n
              then l\<lparr>ls_terminal := (if ln_next l n \<noteq> None then ln_next l n else ln_prev l n)\<rparr> else l);
         l = (if ls_next l = Some n then l\<lparr>ls_next := ln_next l n\<rparr> else l);
         l = if_some (ln_next l n) (\<lambda>m. set_prev m (ln_prev l n)) l;
         l = if_some (ln_prev l n) (\<lambda>m. set_next m (ln_next l n)) l
     in l\<lparr>ls_length := ls_length l - 1\<rparr>)"

text \<open>The nodes that \<open>LIST_FOREACH\<close> visits from a node on; the fuel bounds their number, and a list
  whose links run in a circle is visited for ever.\<close>

fun visit :: "nat \<Rightarrow> links \<Rightarrow> nat option \<Rightarrow> nat list outcome" where
  "visit 0 l p = (if p = None then Inr [] else Inl Diverges)"
| "visit (Suc fuel) l p = (case p of None \<Rightarrow> Inr []
     | Some n \<Rightarrow> bindO (visit fuel l (ln_next l n)) (\<lambda>ns. Inr (n # ns)))"

definition LIST_FOREACH :: "nat \<Rightarrow> links \<Rightarrow> nat list outcome" where
  "LIST_FOREACH fuel l = visit fuel l (ls_next l)"

section \<open>Segments\<close>

definition first_or :: "nat option \<Rightarrow> nat list \<Rightarrow> nat option" where
  "first_or q xs = (case xs of [] \<Rightarrow> q | x # _ \<Rightarrow> Some x)"

definition last_or :: "nat option \<Rightarrow> nat list \<Rightarrow> nat option" where
  "last_or p xs = (if xs = [] then p else Some (last xs))"

lemma first_or_simps [simp]: "first_or q [] = q" "first_or q (x # xs) = Some x"
  "first_or q (xs @ ys) = first_or (first_or q ys) xs"
  by (simp_all add: first_or_def split: list.split)

lemma last_or_simps [simp]: "last_or p [] = p" "last_or p (x # xs) = last_or (Some x) xs"
  "last_or p (xs @ ys) = last_or (last_or p xs) ys"
  by (simp_all add: last_or_def)

text \<open>The links of \<open>xs\<close>, between the nodes \<open>p\<close> and \<open>q\<close>.\<close>

fun seg :: "links \<Rightarrow> nat option \<Rightarrow> nat list \<Rightarrow> nat option \<Rightarrow> bool" where
  "seg l p [] q \<longleftrightarrow> True"
| "seg l p (x # xs) q \<longleftrightarrow> ln_prev l x = p \<and> ln_next l x = first_or q xs \<and> seg l (Some x) xs q"

lemma seg_append [simp]: "seg l p (xs @ ys) q \<longleftrightarrow> seg l p xs (first_or q ys) \<and> seg l (last_or p xs) ys q"
  by (induction xs arbitrary: p) auto

lemma seg_frame:
  assumes "\<And>x. x \<in> set xs \<Longrightarrow> ln_next l' x = ln_next l x" "\<And>x. x \<in> set xs \<Longrightarrow> ln_prev l' x = ln_prev l x"
  shows "seg l' p xs q = seg l p xs q"
  using assms by (induction xs arbitrary: p) auto

lemma set_link_simps [simp]:
  "ln_next (set_next n x l) = (ln_next l)(n := x)" "ln_prev (set_next n x l) = ln_prev l"
  "ls_next (set_next n x l) = ls_next l" "ls_terminal (set_next n x l) = ls_terminal l" "ls_length (set_next n x l) = ls_length l"
  "ln_next (set_prev n x l) = ln_next l" "ln_prev (set_prev n x l) = (ln_prev l)(n := x)"
  "ls_next (set_prev n x l) = ls_next l" "ls_terminal (set_prev n x l) = ls_terminal l" "ls_length (set_prev n x l) = ls_length l"
  by (simp_all add: set_next_def set_prev_def)

lemma seg_fields [simp]:
  "seg (l\<lparr>ls_next := a\<rparr>) p xs q = seg l p xs q" "seg (l\<lparr>ls_terminal := a\<rparr>) p xs q = seg l p xs q"
  "seg (l\<lparr>ls_length := k\<rparr>) p xs q = seg l p xs q"
  "n \<notin> set xs \<Longrightarrow> seg (set_next n x l) p xs q = seg l p xs q"
  "n \<notin> set xs \<Longrightarrow> seg (set_prev n x l) p xs q = seg l p xs q"
  by (rule seg_frame; auto)+

text \<open>Changing the link at an end of a segment.\<close>

lemma seg_set_last:
  assumes "seg l p xs q" "xs \<noteq> []" "distinct xs"
  shows "seg (set_next (last xs) q' l) p xs q'"
  using assms
proof (induction xs arbitrary: p)
  case (Cons x xs)
  show ?case
  proof (cases xs)
    case (Cons y ys)
    then have "x \<noteq> last xs" using Cons.prems(3) by auto
    then show ?thesis using Cons.IH [of "Some x"] Cons.prems Cons by simp
  qed (use Cons.prems in simp)
qed simp

lemma seg_set_first:
  assumes "seg l p (x # xs) q" "x \<notin> set xs"
  shows "seg (set_prev x p' l) p' (x # xs) q"
  using assms by simp

section \<open>A list and its links\<close>

definition holds :: "links \<Rightarrow> nat list \<Rightarrow> bool" where
  "holds l xs \<longleftrightarrow> distinct xs \<and> seg l None xs None \<and> ls_next l = first_or None xs \<and> ls_terminal l = last_or None xs
     \<and> ls_length l = int (length xs)"

lemma visit_seg: "seg l p xs None \<Longrightarrow> length xs \<le> fuel \<Longrightarrow> visit fuel l (first_or None xs) = Inr xs"
proof (induction xs arbitrary: p fuel)
  case Nil
  then show ?case by (cases fuel) simp_all
next
  case (Cons x xs)
  then obtain f where "fuel = Suc f" by (cases fuel) auto
  then show ?case using Cons.IH [of "Some x" f] Cons.prems by simp
qed

lemma foreach_holds: "holds l xs \<Longrightarrow> length xs \<le> fuel \<Longrightarrow> LIST_FOREACH fuel l = Inr xs"
  using visit_seg by (auto simp: holds_def LIST_FOREACH_def)

lemma init_holds: "holds (LIST_INIT l) []"
  by (simp add: holds_def LIST_INIT_def)

lemma append_holds:
  assumes "holds l xs" "n \<notin> set xs" "ln_next l n = None"
  shows "holds (LIST_APPEND n l) (xs @ [n])"
proof (cases "xs = []")
  case True
  then show ?thesis using assms by (simp add: holds_def LIST_APPEND_def Let_def)
next
  case False
  then have "last xs \<in> set xs" "first_or None xs \<noteq> None" "ls_terminal l = Some (last xs)"
    using assms(1) by (auto simp: holds_def last_or_def split: list.split) (auto simp: first_or_def split: list.splits)
  moreover have "seg (set_next (last xs) (Some n) (set_prev n (Some (last xs)) l)) None xs (Some n)"
    using assms(1,2) False by (intro seg_set_last [of _ _ _ None]) (simp_all add: holds_def)
  moreover have "first_or (Some n) xs = first_or None xs" using False by (simp add: first_or_def split: list.split)
  ultimately show ?thesis
    using assms False by (auto simp: holds_def LIST_APPEND_def Let_def last_or_def)
qed

lemma prepend_holds:
  assumes "holds l xs" "n \<notin> set xs" "xs = [] \<Longrightarrow> ln_next l n = None"
  shows "holds (LIST_PREPEND n l) (n # xs)"
proof (cases xs)
  case Nil
  then show ?thesis using assms by (simp add: holds_def LIST_PREPEND_def Let_def)
next
  case (Cons x ys)
  then show ?thesis using assms by (auto simp: holds_def LIST_PREPEND_def Let_def)
qed

text \<open>The links of the removed node stay as they were.\<close>

lemma remove_holds:
  assumes "holds l (a @ n # b)"
  shows "holds (LIST_REMOVE n l) (a @ b)" "ln_next (LIST_REMOVE n l) n = first_or None b"
    "ln_prev (LIST_REMOVE n l) n = last_or None a"
proof -
  have d: "distinct (a @ n # b)" and a: "seg l None a (Some n)" and b: "seg l (Some n) b None"
    and n: "ln_prev l n = last_or None a" "ln_next l n = first_or None b"
    and ends: "ls_next l = first_or (Some n) a" "ls_terminal l = last_or (Some n) b" "ls_length l = int (length a + length b + 1)"
    using assms by (auto simp: holds_def)
  let ?l1 = "l\<lparr>ls_terminal := last_or (last_or None a) b\<rparr>"
  let ?l2 = "?l1\<lparr>ls_next := first_or (first_or None b) a\<rparr>"
  let ?l3 = "if_some (first_or None b) (\<lambda>m. set_prev m (last_or None a)) ?l2"
  let ?l4 = "if_some (last_or None a) (\<lambda>m. set_next m (first_or None b)) ?l3"
  have t: "(ls_terminal l = Some n) = (b = [])" and h: "(ls_next l = Some n) = (a = [])"
    using d ends last_in_set [of b] by (auto simp: last_or_def first_or_def split: list.splits)
  have s1: "(if ls_terminal l = Some n then l\<lparr>ls_terminal := (if ln_next l n \<noteq> None then ln_next l n else ln_prev l n)\<rparr> else l) = ?l1"
    unfolding t n using ends(2) by (cases b) simp_all
  have s2: "(if ls_next ?l1 = Some n then ?l1\<lparr>ls_next := ln_next ?l1 n\<rparr> else ?l1) = ?l2"
    using h n(2) ends(1) by (cases a) simp_all
  have s3: "if_some (ln_next ?l2 n) (\<lambda>m. set_prev m (ln_prev ?l2 n)) ?l2 = ?l3" by (simp add: n)
  have s4: "if_some (ln_prev ?l3 n) (\<lambda>m. set_next m (ln_next ?l3 n)) ?l3 = ?l4" using n d by (cases b) auto
  have remove: "LIST_REMOVE n l = ?l4\<lparr>ls_length := ls_length ?l4 - 1\<rparr>"
    unfolding LIST_REMOVE_def Let_def s1 s2 s3 s4 ..
  have seg3: "seg ?l3 (last_or None a) b None" "seg ?l3 None a (Some n)"
    using a b d by (cases b; simp)+
  have "seg ?l4 (last_or None a) b None \<and> seg ?l4 None a (first_or None b)"
  proof (cases "a = []")
    case True
    then show ?thesis using seg3(1) by simp
  next
    case False
    then have l: "last_or None a = Some (last a)" "last a \<notin> set b"
      using d last_in_set [OF False] by (auto simp: last_or_def disjoint_iff)
    then have "seg (set_next (last a) (first_or None b) ?l3) None a (first_or None b)"
      using seg_set_last [OF seg3(2) False] d by simp
    then show ?thesis using seg3(1) l by simp
  qed
  then show "holds (LIST_REMOVE n l) (a @ b)"
    using d ends(3) unfolding remove by (simp add: holds_def if_some_def split: option.split)
  show "ln_next (LIST_REMOVE n l) n = first_or None b" "ln_prev (LIST_REMOVE n l) n = last_or None a"
    using n d last_in_set [of a] unfolding remove
    by (auto simp: if_some_def last_or_def first_or_def split: option.splits list.splits if_splits)
qed

end
