(* ===== verification/Lobby_Order.thy ===== *)
theory Lobby_Order
  imports Lobby_Cash Linked_List
begin

text \<open>
  The list of the sessions: the pointer operations of \<open>reorder_updated_session\<close> do to the links what
  \<open>Lobby\<close> says of the list, and keep it ordered by the number of players.
\<close>

section \<open>The pointer operations\<close>

text \<open>The node \<open>u\<close> is linked before \<open>t\<close>, or at the end.\<close>

definition insert_before :: "nat \<Rightarrow> nat \<Rightarrow> links \<Rightarrow> links" where
  "insert_before t u l =
    (let l = if_some (ln_prev l t) (\<lambda>p. set_next p (Some u)) l;
         l = set_prev u (ln_prev l t) l;
         l = set_next u (Some t) l;
         l = set_prev t (Some u) l
     in if ls_next l = Some t then l\<lparr>ls_next := Some u\<rparr> else l)"

definition insert_last :: "nat \<Rightarrow> links \<Rightarrow> links" where
  "insert_last u l =
    (let l = set_prev u (ls_terminal l) l;
         l = set_next u None l;
         l = if_some (ls_terminal l) (\<lambda>t. set_next t (Some u)) l;
         l = l\<lparr>ls_terminal := Some u\<rparr>
     in if ls_next l = None then l\<lparr>ls_next := Some u\<rparr> else l)"

text \<open>The first node from \<open>p\<close> on with no more players than \<open>u\<close>.\<close>

fun find_place :: "nat \<Rightarrow> (nat \<Rightarrow> nat) \<Rightarrow> nat \<Rightarrow> links \<Rightarrow> nat option \<Rightarrow> nat option outcome" where
  "find_place 0 players u l p = (if p = None then Inr None else Inl Diverges)"
| "find_place (Suc fuel) players u l p = (case p of None \<Rightarrow> Inr None
     | Some m \<Rightarrow> if players m \<le> players u then Inr (Some m) else find_place fuel players u l (ln_next l m))"

definition place_links :: "nat \<Rightarrow> (nat \<Rightarrow> nat) \<Rightarrow> nat \<Rightarrow> nat option \<Rightarrow> links \<Rightarrow> links outcome" where
  "place_links fuel players u from l = bindO (find_place fuel players u l from) (\<lambda>t.
     let l = (case t of Some t \<Rightarrow> insert_before t u l | None \<Rightarrow> insert_last u l)
     in Inr (l\<lparr>ls_length := ls_length l + 1\<rparr>))"

text \<open>When the number has fallen the search starts behind the node, whose own link is as it was before
  it was removed.\<close>

definition reorder_links :: "nat \<Rightarrow> (nat \<Rightarrow> nat) \<Rightarrow> nat \<Rightarrow> nat \<Rightarrow> links \<Rightarrow> links outcome" where
  "reorder_links fuel players u old l =
    (if players u = old then Inr l
     else if players u < old \<and> Some u \<noteq> ls_terminal l
     then let l = LIST_REMOVE u l in place_links fuel players u (ln_next l u) l
     else if players u > old \<and> Some u \<noteq> ls_next l
     then let l = LIST_REMOVE u l in place_links fuel players u (ls_next l) l
     else Inr l)"

section \<open>The list\<close>

definition place_list :: "(nat \<Rightarrow> nat) \<Rightarrow> nat \<Rightarrow> nat list \<Rightarrow> nat list" where
  "place_list players u xs = takeWhile (\<lambda>m. players u < players m) xs @ u # dropWhile (\<lambda>m. players u < players m) xs"

definition reorder_list :: "(nat \<Rightarrow> nat) \<Rightarrow> nat \<Rightarrow> nat \<Rightarrow> nat list \<Rightarrow> nat list" where
  "reorder_list players u old xs =
    (let n = players u; before = takeWhile (\<lambda>m. m \<noteq> u) xs; after = tl (dropWhile (\<lambda>m. m \<noteq> u) xs)
     in if n = old then xs
        else if n < old \<and> u \<noteq> last xs then before @ place_list players u after
        else if n > old \<and> u \<noteq> hd xs then place_list players u (before @ after)
        else xs)"

lemma lobby_reorder:
  "lb_sessions (reorder_updated_session s old lb) = reorder_list (\<lambda>o1. players_length o1 lb) s old (lb_sessions lb)"
  by (simp add: reorder_updated_session_def reorder_list_def place_def place_list_def Let_def)

lemma reorder_split:
  assumes "distinct (a @ u # b)"
  shows "takeWhile (\<lambda>m. m \<noteq> u) (a @ u # b) = a" "tl (dropWhile (\<lambda>m. m \<noteq> u) (a @ u # b)) = b"
proof -
  have "\<forall>x \<in> set a. x \<noteq> u" using assms by auto
  then show "takeWhile (\<lambda>m. m \<noteq> u) (a @ u # b) = a" "tl (dropWhile (\<lambda>m. m \<noteq> u) (a @ u # b)) = b"
    by (induction a) auto
qed

section \<open>Refinement\<close>

lemma find_place_seg:
  "seg l p xs None \<Longrightarrow> length xs \<le> fuel \<Longrightarrow>
    find_place fuel players u l (first_or None xs) = Inr (first_or None (dropWhile (\<lambda>m. players u < players m) xs))"
proof (induction xs arbitrary: p fuel)
  case Nil
  then show ?case by (cases fuel) simp_all
next
  case (Cons x xs)
  then obtain f where "fuel = Suc f" by (cases fuel) auto
  then show ?case using Cons.IH [of "Some x" f] Cons.prems by auto
qed

lemma insert_before_holds:
  assumes "holds l (c @ t # d)" "u \<notin> set (c @ t # d)"
  shows "holds ((insert_before t u l)\<lparr>ls_length := ls_length l + 1\<rparr>) (c @ u # t # d)"
proof -
  have ds: "distinct (c @ t # d)" and c: "seg l None c (Some t)" and d: "seg l (Some t) d None"
    and t: "ln_prev l t = last_or None c" "ln_next l t = first_or None d"
    and ends: "ls_next l = first_or (Some t) c" "ls_terminal l = last_or (Some t) d"
      "ls_length l = int (length c + length d + 1)"
    using assms(1) by (auto simp: holds_def)
  let ?l1 = "if_some (last_or None c) (\<lambda>p. set_next p (Some u)) l"
  have c1: "seg ?l1 None c (Some u)" "seg ?l1 (Some t) d None"
  proof -
    show "seg ?l1 None c (Some u)" using c ds seg_set_last [OF c] by (cases "c = []") (simp_all add: last_or_def)
    show "seg ?l1 (Some t) d None"
      using d ds last_in_set [of c] by (cases "c = []") (auto simp: last_or_def disjoint_iff)
  qed
  have f: "ln_prev ?l1 = ln_prev l" "ls_next ?l1 = ls_next l" "ls_terminal ?l1 = ls_terminal l" "ln_next ?l1 t = ln_next l t"
    using ds last_in_set [of c] by (auto simp: if_some_def last_or_def split: option.split)
  have h: "(first_or (Some t) c = Some t) = (c = [])" using ds by (cases c) auto
  let ?l2 = "set_prev t (Some u) (set_next u (Some t) (set_prev u (last_or None c) ?l1))"
  have l2: "insert_before t u l = (if c = [] then ?l2\<lparr>ls_next := Some u\<rparr> else ?l2)"
    using t f ends(1) h by (simp add: insert_before_def Let_def)
  have "seg ?l2 None (c @ u # t # d) None" using c1 assms(2) ds f t by simp
  then show ?thesis
    using ds assms(2) ends f unfolding l2 by (cases c) (simp_all add: holds_def)
qed

lemma insert_last_holds:
  assumes "holds l xs" "u \<notin> set xs"
  shows "holds ((insert_last u l)\<lparr>ls_length := ls_length l + 1\<rparr>) (xs @ [u])"
proof (cases "xs = []")
  case True
  then show ?thesis using assms by (simp add: holds_def insert_last_def Let_def)
next
  case False
  then have t: "ls_terminal l = Some (last xs)" "last xs \<in> set xs" "ls_next l \<noteq> None" "first_or (Some u) xs = first_or None xs"
    using assms(1) by (auto simp: holds_def last_or_def) (auto simp: first_or_def split: list.splits)
  let ?l1 = "set_next u None (set_prev u (Some (last xs)) l)"
  have "seg (set_next (last xs) (Some u) ?l1) None xs (Some u)"
    using assms False by (intro seg_set_last [of _ _ _ None]) (simp_all add: holds_def)
  then show ?thesis
    using assms False t by (auto simp: holds_def insert_last_def Let_def last_or_def)
qed

lemma place_links_holds:
  assumes "holds l (a @ b)" "u \<notin> set (a @ b)" "length b \<le> fuel"
  shows "\<exists>l'. place_links fuel players u (first_or None b) l = Inr l' \<and> holds l' (a @ place_list players u b)"
proof -
  let ?P = "\<lambda>m. players u < players m"
  have "seg l (last_or None a) b None" using assms(1) by (simp add: holds_def)
  note find = find_place_seg [OF this assms(3)]
  have b: "b = takeWhile ?P b @ dropWhile ?P b" by simp
  show ?thesis
  proof (cases "dropWhile ?P b")
    case Nil
    have place: "place_list players u b = b @ [u]" "find_place fuel players u l (first_or None b) = Inr None"
      unfolding place_list_def find Nil using b Nil by (metis append_Nil2, simp only: first_or_simps)
    have "insert_last u l\<lparr>ls_length := ls_length (insert_last u l) + 1\<rparr> = (insert_last u l)\<lparr>ls_length := ls_length l + 1\<rparr>"
      by (simp add: insert_last_def Let_def if_some_def split: option.split)
    then show ?thesis
      using insert_last_holds [OF assms(1,2)] place by (simp add: place_links_def)
  next
    case (Cons t d)
    have ab: "a @ b = (a @ takeWhile ?P b) @ t # d" using b Cons by (metis append.assoc)
    have "insert_before t u l\<lparr>ls_length := ls_length (insert_before t u l) + 1\<rparr> = (insert_before t u l)\<lparr>ls_length := ls_length l + 1\<rparr>"
      by (simp add: insert_before_def Let_def if_some_def split: option.split)
    then show ?thesis
      using insert_before_holds [of l "a @ takeWhile ?P b" t d u] assms(1,2) find Cons unfolding ab
      by (simp add: place_links_def place_list_def)
  qed
qed

text \<open>C9: \<open>reorder_updated_session\<close> on links that hold the list of the sessions makes them hold the list that
  the lobby's model gives, and its loop ends.\<close>

theorem reorder_links_refines:
  assumes "holds l (lb_sessions lb)" "s \<in> set (lb_sessions lb)" "length (lb_sessions lb) \<le> fuel"
  shows "\<exists>l'. reorder_links fuel (\<lambda>o1. players_length o1 lb) s old l = Inr l'
    \<and> holds l' (lb_sessions (reorder_updated_session s old lb))"
proof -
  let ?p = "\<lambda>o1. players_length o1 lb"
  obtain a b where xs: "lb_sessions lb = a @ s # b" using assms(2) by (auto simp: in_set_conv_decomp)
  have d: "distinct (a @ s # b)" and ends: "ls_next l = first_or (Some s) a" "ls_terminal l = last_or (Some s) b"
    using assms(1) by (auto simp: holds_def xs)
  note remove = remove_holds [OF assms(1) [unfolded xs]]
  have s: "s \<notin> set (a @ b)" and len: "length (a @ b) \<le> fuel" using d assms(3) xs by auto
  have last: "(Some s = ls_terminal l) = (s = last (a @ s # b))"
    using ends(2) by (auto simp: last_or_def)
  have first: "(Some s = ls_next l) = (s = hd (a @ s # b))"
    using ends(1) by (cases a) auto
  have fall: "\<exists>l'. place_links fuel ?p s (ln_next (LIST_REMOVE s l) s) (LIST_REMOVE s l) = Inr l' \<and> holds l' (a @ place_list ?p s b)"
    unfolding remove(2) by (rule place_links_holds [OF remove(1) s]) (use len in simp)
  have grow: "\<exists>l'. place_links fuel ?p s (ls_next (LIST_REMOVE s l)) (LIST_REMOVE s l) = Inr l' \<and> holds l' (place_list ?p s (a @ b))"
    using place_links_holds [of "LIST_REMOVE s l" "[]" "a @ b" s fuel ?p] remove(1) s len
    by (simp add: holds_def)
  show ?thesis
    using fall grow assms(1) unfolding lobby_reorder xs reorder_links_def reorder_list_def Let_def reorder_split [OF d] last first
    by auto
qed

definition two_links :: links where
  "two_links = \<lparr>ln_next = (\<lambda>n. if n = 0 then Some 1 else None), ln_prev = (\<lambda>n. if n = 1 then Some 0 else None),
     ls_next = Some 0, ls_terminal = Some 1, ls_length = 2\<rparr>"

definition two_sessions :: lobby where
  "two_sessions = (sample_lobby sample_store sample_game False)
     \<lparr>lb_sessions := [0, 1], lb_session := (\<lambda>s. sample_session (if s = 1 then sample_game else sample_game\<lparr>pk_players := [0]\<rparr>) False)\<rparr>"

theorem reorder_links_refines_witness:
  "\<exists>l'. reorder_links 2 (\<lambda>o1. players_length o1 two_sessions) 1 2 two_links = Inr l' \<and> LIST_FOREACH 2 l' = Inr [1, 0]"
proof -
  have "holds two_links (lb_sessions two_sessions)" "1 \<in> set (lb_sessions two_sessions)" "length (lb_sessions two_sessions) \<le> 2"
    by (simp_all add: two_links_def two_sessions_def holds_def last_or_def)
  then obtain l' where l': "reorder_links 2 (\<lambda>o1. players_length o1 two_sessions) 1 2 two_links = Inr l'"
    "holds l' (lb_sessions (reorder_updated_session 1 2 two_sessions))"
    using reorder_links_refines by blast
  moreover have "lb_sessions (reorder_updated_session 1 2 two_sessions) = [1, 0]"
    by (simp add: lobby_reorder reorder_list_def Let_def place_list_def players_length_def poker_of_def two_sessions_def sample_session_def)
  ultimately show ?thesis using foreach_holds [of l' "[1, 0]" 2] by auto
qed

section \<open>The order\<close>

lemma sorted_wrt_place:
  assumes "sorted_wrt (\<lambda>a b. players b \<le> players a) xs"
  shows "sorted_wrt (\<lambda>a b. players b \<le> players a) (place_list players u xs)"
  using assms
proof (induction xs)
  case (Cons x xs)
  show ?case
  proof (cases "players u < players x")
    case True
    then have "place_list players u (x # xs) = x # place_list players u xs" by (simp add: place_list_def)
    moreover have "set (place_list players u xs) \<subseteq> insert u (set xs)"
      by (auto simp: place_list_def dest: set_takeWhileD set_dropWhileD)
    then have "\<forall>y \<in> set (place_list players u xs). players y \<le> players x" using Cons.prems True by auto
    ultimately show ?thesis using Cons by simp
  next
    case False
    then show ?thesis using Cons.prems by (fastforce simp: place_list_def)
  qed
qed (simp add: place_list_def)

lemma mset_place: "mset (place_list players u xs) = add_mset u (mset xs)"
proof -
  have "mset xs = mset (takeWhile (\<lambda>m. players u < players m) xs) + mset (dropWhile (\<lambda>m. players u < players m) xs)"
    by (metis mset_append takeWhile_dropWhile_id)
  then show ?thesis by (simp add: place_list_def)
qed

lemma reorder_list_mset:
  assumes "distinct xs" "u \<in> set xs"
  shows "mset (reorder_list players u old xs) = mset xs"
proof -
  obtain a b where xs: "xs = a @ u # b" using assms(2) by (auto simp: in_set_conv_decomp)
  have d: "distinct (a @ u # b)" using assms(1) xs by simp
  show ?thesis unfolding reorder_list_def xs Let_def reorder_split [OF d] by (simp add: mset_place)
qed

text \<open>When the number of players of one session has changed and the list was in order before, it is in
  order afterwards, most players first, and lists the same sessions.\<close>

theorem reorder_keeps_order:
  assumes "distinct (lb_sessions lb)" "s \<in> set (lb_sessions lb)"
    and "sorted_wrt (\<lambda>a b. (if b = s then old else players_length b lb) \<le> (if a = s then old else players_length a lb)) (lb_sessions lb)"
  shows "sorted_wrt (\<lambda>a b. players_length b lb \<le> players_length a lb) (lb_sessions (reorder_updated_session s old lb))
    \<and> mset (lb_sessions (reorder_updated_session s old lb)) = mset (lb_sessions lb)"
proof -
  let ?n = "\<lambda>o1. players_length o1 lb"
  let ?R = "\<lambda>a b. ?n b \<le> ?n a"
  obtain a b where xs: "lb_sessions lb = a @ s # b" using assms(2) by (auto simp: in_set_conv_decomp)
  have d: "distinct (a @ s # b)" using assms(1) xs by simp
  let ?old = "\<lambda>a b. (if b = s then old else ?n b) \<le> (if a = s then old else ?n a)"
  have sorted: "sorted_wrt ?old (a @ b)" "\<forall>x \<in> set a. ?old x s" "\<forall>x \<in> set b. ?old s x"
    using assms(3) unfolding xs by (simp_all add: sorted_wrt_append)
  have ne: "x \<noteq> s" if "x \<in> set (a @ b)" for x using that d by auto
  have others: "sorted_wrt ?R (a @ b)"
    by (rule sorted_wrt_mono_rel [OF _ sorted(1)]) (use ne in simp)
  have above: "\<forall>x \<in> set a. old \<le> ?n x" and below: "\<forall>x \<in> set b. ?n x \<le> old"
    using sorted(2,3) ne by simp_all
  show ?thesis
  proof (cases "?n s" old rule: linorder_cases)
    case equal
    then show ?thesis using others above below unfolding lobby_reorder reorder_list_def xs
      by (auto simp: sorted_wrt_append)
  next
    case less
    have upper: "\<forall>x \<in> set a. ?n s \<le> ?n x" using above less by auto
    have "sorted_wrt ?R (a @ place_list ?n s b)"
      using others upper sorted_wrt_place [of ?n b s]
      by (auto simp: sorted_wrt_append place_list_def dest: set_takeWhileD set_dropWhileD)
    moreover have "sorted_wrt ?R (a @ [s])" using others upper by (auto simp: sorted_wrt_append)
    moreover have "b \<noteq> [] \<Longrightarrow> s \<noteq> last b" using d last_in_set [of b] by auto
    ultimately show ?thesis
      using less unfolding lobby_reorder reorder_list_def xs Let_def reorder_split [OF d]
      by (cases "b = []") (auto simp: mset_place last_append)
  next
    case greater
    have "sorted_wrt ?R (place_list ?n s (a @ b))" by (rule sorted_wrt_place [OF others])
    moreover have "sorted_wrt ?R (s # b)" using others below greater by (auto simp: sorted_wrt_append)
    moreover have "a \<noteq> [] \<Longrightarrow> s \<noteq> hd a" using d hd_in_set [of a] by auto
    ultimately show ?thesis
      using greater unfolding lobby_reorder reorder_list_def xs Let_def reorder_split [OF d]
      by (cases a) (auto simp: mset_place)
  qed
qed

theorem reorder_keeps_order_witness:
  "sorted_wrt (\<lambda>a b. players_length b two_sessions \<le> players_length a two_sessions)
     (lb_sessions (reorder_updated_session 1 0 two_sessions))"
proof -
  have "distinct (lb_sessions two_sessions)" "(1 :: nat) \<in> set (lb_sessions two_sessions)"
    "sorted_wrt (\<lambda>a b. (if b = 1 then 0 else players_length b two_sessions) \<le> (if a = 1 then 0 else players_length a two_sessions))
      (lb_sessions two_sessions)"
    by (simp_all add: two_sessions_def)
  then show ?thesis using reorder_keeps_order by blast
qed

end
