(* ===== verification/Poker_Same.thy ===== *)
theory Poker_Same
  imports Poker_Deal
begin

text \<open>
  A game keeps its table and its list of players through every action, timeout, start and restart:
  only \<open>players_add\<close> and \<open>players_remove\<close>, which the lobby calls, change them.
\<close>

definition game :: "poker \<Rightarrow> table \<times> pid list" where
  "game p = (pk_table p, pk_players p)"

lemma game_fields [simp]:
  "game (pk_playing_position_update f1 p) = game p" "game (pk_synced_update f2 p) = game p"
  "game (pk_state_update f3 p) = game p" "game (pk_playing_last_update f4 p) = game p"
  "game (pk_pot_update f5 p) = game p" "game (pk_winner_update f6 p) = game p"
  "game (pk_scores_update f7 p) = game p" "game (pk_sb_must_call_update f8 p) = game p"
  "game (pk_current_bet_update f9 p) = game p" "game (pk_current_raise_update g1 p) = game p"
  "game (pk_current_raise_total_update g2 p) = game p" "game (pk_last_raised_pos_update g3 p) = game p"
  "game (pk_last_pos_before_raise_update g4 p) = game p" "game (pk_action_time_update g5 p) = game p"
  "game (pk_posted_update g6 p) = game p" "game (pk_sb_update g7 p) = game p"
  "game (pk_bb_update g8 p) = game p" "game (pk_button_update g9 p) = game p"
  "game (pk_proceed_time_update h1 p) = game p" "game (pk_starter_num_update h2 p) = game p"
  "game (pk_history_update h3 p) = game p" "game (pk_draws_update h4 p) = game p"
  "game (pk_hands_update h5 p) = game p" "game (pk_hand_kind_update h6 p) = game p"
  "game (pk_sorted_update h7 p) = game p" "game (pk_is_dealt_update h8 p) = game p"
  "game (pk_starting_time_update h9 p) = game p"
  "game (upd_player i k p) = game p" "game (upd_hand h l p) = game p"
  "game (put_in i c p) = game p" "game (add_balance i c p) = game p"
  by (simp_all add: game_def upd_player_def upd_hand_def put_in_def add_balance_def)

definition stage_game :: "stage \<Rightarrow> table \<times> pid list" where
  "stage_game s = (case s of Reject q \<Rightarrow> game q | Continue q \<Rightarrow> game q)"

definition flow_game :: "flow \<Rightarrow> table \<times> pid list" where
  "flow_game f = (case f of Fall q \<Rightarrow> game q | Action_end q \<Rightarrow> game q | Showdown q \<Rightarrow> game q)"

lemma stage_game_simps [simp]:
  "stage_game (Reject q) = game q" "stage_game (Continue q) = game q"
  "flow_game (Fall q) = game q" "flow_game (Action_end q) = game q" "flow_game (Showdown q) = game q"
  by (simp_all add: stage_game_def flow_game_def)

section \<open>Betting\<close>

lemma take_balance_same: "take_balance i a p = Some q \<Longrightarrow> game q = game p"
  by (auto simp: take_balance_def split: option.splits)

lemma raise_effect_same [simp]: "game (raise_effect h i a b c p) = game p"
  by (simp add: raise_effect_def Let_def)

lemma call_effect_same [simp]: "game (call_effect i p) = game p"
  by (auto simp: call_effect_def Let_def dest!: take_balance_same split: option.split)

lemma bindS_same:
  assumes "bindS m f = Inr s" "\<And>s. m = Inr s \<Longrightarrow> stage_game s = g"
    and "\<And>q s. game q = g \<Longrightarrow> f q = Inr s \<Longrightarrow> stage_game s = g"
  shows "stage_game s = g"
  using assms by (cases m) (fastforce simp: bindS_def split: stage.splits)+

lemma small_blind_same: "small_blind_stage i a p = Inr s \<Longrightarrow> stage_game s = game p"
  by (auto simp: small_blind_stage_def split: if_splits option.splits dest!: take_balance_same)

lemma big_blind_same: "big_blind_stage h i a p = Inr s \<Longrightarrow> stage_game s = game p"
  by (auto simp: big_blind_stage_def split: if_splits option.splits dest!: take_balance_same)

lemma raise_stage_same: "raise_stage h i a p = Inr s \<Longrightarrow> stage_game s = game p"
  by (auto simp: raise_stage_def Let_def split: if_splits option.splits dest!: take_balance_same)

lemma check_stage_same: "check_stage h i p = Inr s \<Longrightarrow> stage_game s = game p"
  by (auto simp: check_stage_def split: if_splits option.splits dest!: take_balance_same)

lemma action_stage_same: "action_stage h i a p = Inr s \<Longrightarrow> stage_game s = game p"
  by (cases "act_kind a") (auto simp: action_stage_def fold_stage_def dest: raise_stage_same check_stage_same)

lemma betting_stages_same: "betting_stages h i a p = Inr s \<Longrightarrow> stage_game s = game p"
  unfolding betting_stages_def
  by (erule bindS_same, erule bindS_same)
    (auto dest: small_blind_same big_blind_same action_stage_same)

lemma record_stage_same [simp]: "game (record_stage h i a p) = game p"
  by (simp add: record_stage_def Let_def actions_add_def)

section \<open>After the betting\<close>

lemma draw_card_same: "draw_card p = Inr (c, q) \<Longrightarrow> game q = game p"
  by (auto simp: draw_card_def)

lemma deal_to_hand_same: "deal_to_hand h k p = Inr q \<Longrightarrow> game q = game p"
  by (auto simp: deal_to_hand_def dest!: draw_card_same)

lemma deals_same_game:
  "deal_flop p = Inr q \<Longrightarrow> game q = game p" "deal_turn p = Inr q \<Longrightarrow> game q = game p"
  "deal_river p = Inr q \<Longrightarrow> game q = game p"
  by (auto simp: deal_flop_def deal_turn_def deal_river_def dest!: deal_to_hand_same)

lemma next_player_same: "next_player p = Inr q \<Longrightarrow> game q = game p"
  by (auto simp: next_player_def Let_def)

lemma advance_street_same: "advance_street nxt p = Inr q \<Longrightarrow> game q = game p"
  by (auto simp: advance_street_def Let_def split: if_splits)

lemma award_last_same: "award_last p = Inr q \<Longrightarrow> game q = game p"
  by (auto simp: award_last_def Let_def)

lemma end_of_round_same:
  assumes "end_of_round nxt deal playing i p = Inr f" "\<And>p q. deal p = Inr q \<Longrightarrow> game q = game p"
  shows "flow_game f = game p"
  using assms by (auto simp: end_of_round_def dest!: advance_street_same split: if_splits)

lemma street_round_same:
  assumes "street_round nxt deal fc playing ingame i a p = Inr f" "\<And>p q. deal p = Inr q \<Longrightarrow> game q = game p"
  shows "flow_game f = game p"
  using assms(1)
  by (cases "act_kind a") (auto simp: street_round_def split: if_splits
      dest!: award_last_same end_of_round_same [OF _ assms(2)])

lemma river_round_same:
  assumes "river_round playing ingame i a p = Inr f"
  shows "flow_game f = game p"
proof -
  obtain g where g: "street_round DONE Inr False playing ingame i a p = Inr g"
    "(case g of Fall p \<Rightarrow> Inr (if pk_state p = DONE then Showdown p else Fall p) | _ \<Rightarrow> Inr g) = (Inr f :: flow outcome)"
    using assms by (auto simp: river_round_def)
  show ?thesis using street_round_same [OF g(1)] g(2) by (cases g) (auto split: if_splits)
qed

lemma round_stage_same: "round_stage playing ingame i a p = Inr f \<Longrightarrow> flow_game f = game p"
  by (auto simp: round_stage_def preflop_round_def flop_round_def turn_round_def split: if_splits
      dest: river_round_same street_round_same [OF _ deals_same_game(1)] street_round_same [OF _ deals_same_game(2)]
        street_round_same [OF _ deals_same_game(3)])

lemma runout_stage_same: "runout_stage playing p = Inr f \<Longrightarrow> flow_game f = game p"
  by (auto simp: runout_stage_def split: if_splits dest!: deals_same_game)

lemma pay_one_same: "game (snd (pay_one i j (rs, p))) = game p"
  by (simp add: pay_one_def Let_def)

lemma pay_row_same: "game (snd (pay_row i n (rs, p))) = game p"
proof -
  have "game (snd (fold (pay_one i) js s)) = game (snd s)" for js s
  proof (induction js arbitrary: s)
    case (Cons j js)
    then show ?case using pay_one_same [of i j "fst s" "snd s"] by simp
  qed simp
  then show ?thesis by (simp add: pay_row_def)
qed

lemma pay_loop_same: "pay_loop is n d rs p = Inr q \<Longrightarrow> game q = game p"
proof (induction "is" arbitrary: d rs p)
  case (Cons i "is")
  let ?p1 = "add_balance (rk_player (rs ! i)) (rk_bet (rs ! i)) p"
  obtain rs2 p2 where row: "pay_row i n (rs, ?p1) = (rs2, p2)" by force
  have "game p2 = game p" using pay_row_same [of i n rs ?p1] by (simp add: row)
  then show ?case using Cons.prems row by (auto simp: Let_def split: if_splits dest: Cons.IH)
qed simp

lemma showdown_same: "showdown p = Inr q \<Longrightarrow> game q = game p"
  by (auto simp: showdown_def Let_def split: if_splits dest!: pay_loop_same)

lemma finish_flow_same: "finish_flow f = Inr q \<Longrightarrow> game q = flow_game f"
  by (cases f) (auto simp: finish_flow_def dest: showdown_same)

lemma after_betting_same:
  assumes "after_betting h i a p = Inr q"
  shows "game q = game p"
proof -
  let ?p = "record_stage h i a p"
  obtain p1 f g where p1: "(if playing_count ?p = 0 then Inr ?p else next_player ?p) = Inr p1"
    and f: "round_stage (playing_count ?p) (ingame_count ?p) i a p1 = Inr f"
    and g: "(case f of Fall p \<Rightarrow> runout_stage (playing_count ?p) p | _ \<Rightarrow> Inr f) = Inr g" "finish_flow g = Inr q"
    using assms by (auto simp: after_betting_def Let_def)
  have "game p1 = game p" using p1 next_player_same by (auto split: if_splits)
  moreover have "flow_game f = game p1" by (rule round_stage_same [OF f])
  moreover have "flow_game g = flow_game f" using g(1) runout_stage_same by (cases f) auto
  ultimately show ?thesis using finish_flow_same [OF g(2)] by simp
qed

lemma do_action_same:
  assumes "do_action now p i a = Inr (q, b)"
  shows "game q = game p"
proof (cases "action_refused p i")
  case False
  then obtain h s where "betting_stages h i a p = Inr s"
    and "(case s of Reject p \<Rightarrow> Inr (p, False)
        | Continue p \<Rightarrow> bindO (after_betting h i a p) (\<lambda>p. Inr (action_end now i a p, True))) = Inr (q, b)"
    using assms by (auto simp: do_action_def)
  then show ?thesis
    by (cases s) (auto simp: action_end_def dest!: betting_stages_same after_betting_same)
qed (use assms in \<open>simp add: do_action_def\<close>)

section \<open>Timeout, start and restart\<close>

lemma poker_proceed_same: "poker_proceed now p = Inr q \<Longrightarrow> game q = game p"
  by (auto simp: poker_proceed_def Let_def split: if_splits dest!: do_action_same)

lemma fold_upd_player_same [simp]: "game (fold (\<lambda>i. upd_player i (f i)) is p) = game p"
  by (induction "is" arbitrary: p) simp_all

lemma player_deal_same: "player_deal i p = Inr q \<Longrightarrow> game q = game p"
  by (auto simp: player_deal_def Let_def dest!: draw_card_same)

lemma deal_all_same: "deal_all is p = Inr q \<Longrightarrow> game q = game p"
  by (induction "is" arbitrary: p) (auto dest!: player_deal_same)

lemma choose_blinds_same: "choose_blinds p = Inr q \<Longrightarrow> game q = game p"
  by (auto simp: choose_blinds_def Let_def)

lemma post_blinds_same: "post_blinds now p = Inr q \<Longrightarrow> game q = game p"
  by (auto simp: post_blinds_def Let_def dest!: do_action_same)

lemma open_betting_same: "open_betting p = Inr q \<Longrightarrow> game q = game p"
  by (auto simp: open_betting_def players_deal_def Let_def dest!: deal_all_same)

lemma poker_start_same: "poker_start now p = Inr (q, b) \<Longrightarrow> game q = game p"
  by (auto simp: poker_start_def Let_def split: if_splits
      dest!: choose_blinds_same post_blinds_same open_betting_same)

lemma prepare_restart_same [simp]: "game (prepare_restart p) = game p"
proof -
  have "game (leave_scores q) = game q" for q
  proof -
    have "game (fold (\<lambda>(i, _). leave_player i) xs q) = game q" for xs
      by (induction xs arbitrary: q) (auto simp: leave_player_def)
    then show ?thesis by (simp add: leave_scores_def)
  qed
  then show ?thesis by (simp add: prepare_restart_def restart_fields_def Let_def)
qed

lemma poker_restart_same: "poker_restart now p = Inr (q, b) \<Longrightarrow> game q = game p"
  by (auto simp: poker_restart_def dest!: poker_start_same)

end
