(* ===== verification/Lobby_Keeps.thy ===== *)
theory Lobby_Keeps
  imports Lobby_Return Lobby_Order Poker_Same
begin

text \<open>
  Steps of the lobby that open and close no session: how the functions of \<open>Lobby_Session\<close> leave the list
  of the sessions and their tables as they are. A session that is not listed has no clients and is not
  running, so that the functions that reach a session through its clients or its tasks reach a listed one.
\<close>

section \<open>The invariant\<close>

text \<open>A session that is not on the list has no clients and is not running, so that no task brings it back.\<close>

definition idle :: "session \<Rightarrow> bool" where
  "idle se \<longleftrightarrow> \<not> se_running se \<and> se_clients se = []"

definition sessions_ok :: "lobby \<Rightarrow> bool" where
  "sessions_ok lb \<longleftrightarrow> distinct (lb_sessions lb) \<and> (\<forall>s \<in> set (lb_sessions lb). s < lb_next lb)
     \<and> inj_on (\<lambda>s. table_id s lb) (set (lb_sessions lb))
     \<and> (\<forall>s. s \<notin> set (lb_sessions lb) \<longrightarrow> idle (lb_session lb s))"

text \<open>\<open>lb\<close> comes from \<open>base\<close> without a session being opened or closed.\<close>

definition keeps :: "lobby \<Rightarrow> lobby \<Rightarrow> bool" where
  "keeps base lb \<longleftrightarrow> sessions_ok base \<and> mset (lb_sessions lb) = mset (lb_sessions base) \<and> lb_next base \<le> lb_next lb
     \<and> (\<forall>s. table_id s lb = table_id s base) \<and> (\<forall>s. s \<notin> set (lb_sessions base) \<longrightarrow> idle (lb_session lb s))"

lemma keeps_refl: "sessions_ok lb \<Longrightarrow> keeps lb lb"
  by (simp add: keeps_def sessions_ok_def)

lemma keeps_listed: "keeps base lb \<Longrightarrow> set (lb_sessions lb) = set (lb_sessions base)"
  by (auto simp: keeps_def dest: mset_eq_setD)

lemma keeps_ok: "keeps base lb \<Longrightarrow> sessions_ok lb"
proof -
  assume k: "keeps base lb"
  have "distinct (lb_sessions lb)"
    using k by (auto simp: keeps_def sessions_ok_def dest: mset_eq_imp_distinct_iff)
  then show ?thesis using k keeps_listed [OF k] by (auto simp: keeps_def sessions_ok_def inj_on_def dest: bspec)
qed

lemma keeps_distinct: "keeps base lb \<Longrightarrow> distinct (lb_sessions lb)"
  by (drule keeps_ok) (simp add: sessions_ok_def)

lemma keeps_active:
  assumes "keeps base lb" "\<not> idle (lb_session lb s)"
  shows "s \<in> set (lb_sessions lb)"
  using assms by (auto simp: keeps_listed) (auto simp: keeps_def)

section \<open>Updates\<close>

lemma keeps_same:
  assumes "lb_sessions lb' = lb_sessions lb" "lb_session lb' = lb_session lb" "lb_next lb' = lb_next lb"
  shows "keeps base lb' = keeps base lb"
  using assms by (simp add: keeps_def table_id_def poker_of_def)

lemma keeps_irrelevant [simp]:
  "keeps base (upd_client c f lb) = keeps base lb" "keeps base (upd_list l g lb) = keeps base lb"
  "keeps base (upd_conn k h lb) = keeps base lb" "keeps base (on_loop i lb) = keeps base lb"
  "keeps base (lb_sent_update f1 lb) = keeps base lb" "keeps base (lb_redis_update f2 lb) = keeps base lb"
  "keeps base (lb_auth_update f3 lb) = keeps base lb" "keeps base (lb_authorized_update f4 lb) = keeps base lb"
  "keeps base (lb_listed_update f5 lb) = keeps base lb" "keeps base (lb_loop_update f6 lb) = keeps base lb"
  "keeps base (lb_conn_update f7 lb) = keeps base lb" "keeps base (lb_store_update f8 lb) = keeps base lb"
  "keeps base (set_store st lb) = keeps base lb" "keeps base (call t lb) = keeps base lb"
  by (rule keeps_same; simp add: on_loop_def quietD [OF call_quiet])+

lemma keeps_next [simp]: "keeps base lb \<Longrightarrow> lb_next lb \<le> n \<Longrightarrow> keeps base (lb\<lparr>lb_next := n\<rparr>)"
  by (simp add: keeps_def table_id_def)

lemma keeps_session:
  assumes "keeps base lb" "tb_id (pk_table (se_poker (f (lb_session lb s)))) = tb_id (pk_table (se_poker (lb_session lb s)))"
    "idle (lb_session lb s) \<longrightarrow> idle (f (lb_session lb s)) \<or> s \<in> set (lb_sessions lb)"
  shows "keeps base (upd_session s f lb)"
  using assms keeps_listed [OF assms(1)] by (auto simp: keeps_def table_id_def poker_of_def)

lemma keeps_fields [simp]:
  "keeps base lb \<Longrightarrow> keeps base (upd_session s (\<lambda>se. se\<lparr>se_proceed_task := f1 se\<rparr>) lb)"
  "keeps base lb \<Longrightarrow> keeps base (upd_session s (\<lambda>se. se\<lparr>se_start_task := f2 se\<rparr>) lb)"
  "keeps base lb \<Longrightarrow> keeps base (upd_session s (\<lambda>se. se\<lparr>se_restart_task := f3 se\<rparr>) lb)"
  "keeps base lb \<Longrightarrow> keeps base (upd_session s (\<lambda>se. se\<lparr>se_joined_count := f4 se\<rparr>) lb)"
  "keeps base lb \<Longrightarrow> keeps base (upd_session s (\<lambda>se. se\<lparr>se_running := False\<rparr>) lb)"
  "keeps base lb \<Longrightarrow> keeps base (upd_session s (\<lambda>se. se\<lparr>se_clients := set_client_joined k b (se_clients se)\<rparr>) lb)"
  "keeps base lb \<Longrightarrow> keeps base (upd_session s (\<lambda>se. se\<lparr>se_clients := map f5 (se_clients se)\<rparr>) lb)"
  "keeps base lb \<Longrightarrow> keeps base (upd_session s (\<lambda>se. se\<lparr>se_clients := filter f6 (se_clients se)\<rparr>) lb)"
  by (erule keeps_session; simp add: idle_def set_client_joined_def)+

text \<open>A change of a game keeps the table, as every operation of \<open>Poker\<close> does.\<close>

lemma keeps_poker:
  assumes "keeps base lb" "tb_id (pk_table (f (poker_of s lb))) = tb_id (pk_table (poker_of s lb))"
  shows "keeps base (upd_poker s f lb)"
  using assms unfolding upd_poker_def by (intro keeps_session) (auto simp: poker_of_def idle_def)

lemma keeps_game:
  assumes "keeps base lb" "game p = game (poker_of s lb)"
  shows "keeps base (upd_poker s (\<lambda>_. p) lb)"
  using assms by (intro keeps_poker) (simp_all add: game_def)

section \<open>Tasks and packets\<close>

lemma task_at_keeps: "task_at t lb = (i, lb') \<Longrightarrow> keeps base lb' = keeps base lb"
  by (rule keeps_same) (auto dest: task_at_quiet quietD)

lemma snd_task_at_keeps [simp]: "keeps base (snd (task_at t lb)) = keeps base lb"
  by (rule task_at_keeps [of t lb "fst (task_at t lb)"]) simp

lemma cancel_keeps [simp]:
  "keeps base (cancel_and_leave t lb) = keeps base lb" "keeps base (leave_and_cancel t lb) = keeps base lb"
  "keeps base (leave_task t lb) = keeps base lb"
  by (simp_all add: cancel_and_leave_def leave_and_cancel_def leave_task_def split: option.split)

lemma post_proceed_keeps [simp]: "keeps base lb \<Longrightarrow> keeps base (post_proceed s d lb)"
  by (auto simp: post_proceed_def task_at_keeps split: prod.split)

lemma session_stop_keeps [simp]: "keeps base lb \<Longrightarrow> keeps base (session_stop s lb)"
  by (auto simp: session_stop_def Let_def)

lemma schedule_start_keeps: "keeps base lb \<Longrightarrow> keeps base (schedule_start en s lb)"
proof -
  assume "keeps base lb"
  then have "keeps base (upd_poker s (poker_starting (en_now en)) lb)"
    by (rule keeps_poker) (simp add: poker_starting_def)
  then show ?thesis by (auto simp: schedule_start_def Let_def task_at_keeps split: prod.split)
qed

lemma schedule_restart_keeps [simp]: "keeps base lb \<Longrightarrow> keeps base (schedule_restart s lb)"
  by (auto simp: schedule_restart_def task_at_keeps split: prod.split)

lemma stop_waiting_keeps [simp]: "keeps base lb \<Longrightarrow> keeps base (stop_waiting s lb)"
  by (simp add: stop_waiting_def Let_def)

lemma post_actions_keeps [simp]: "keeps base lb \<Longrightarrow> keeps base (post_actions s acct lb)"
proof -
  have "keeps base (fold (\<lambda>(i, a). call (PokerActed s i a (acct i))) xs l) = keeps base l" for xs l
    by (induction xs arbitrary: l) (simp_all add: split_beta)
  moreover assume "keeps base lb"
  then have "keeps base (upd_poker s (\<lambda>p. p\<lparr>pk_posted := []\<rparr>) lb)" by (rule keeps_poker) simp
  ultimately show ?thesis unfolding post_actions_def by (simp only:)
qed

lemma send_packet_keeps: "send_packet k p lb = Inr (b, lb') \<Longrightarrow> keeps base lb' = keeps base lb"
  by (auto simp: send_packet_def disconnected_def split: if_splits)

lemma send_keeps: "send k p lb = Inr lb' \<Longrightarrow> keeps base lb' = keeps base lb"
  by (auto simp: send_def send_packet_keeps)

lemma each_keeps:
  assumes "each f xs lb = Inr lb'" "keeps base lb"
    and "\<And>x l l'. x \<in> set xs \<Longrightarrow> f x l = Inr l' \<Longrightarrow> keeps base l \<Longrightarrow> keeps base l'"
  shows "keeps base lb'"
  using assms
proof (induction xs arbitrary: lb)
  case (Cons x xs)
  obtain l where l: "f x lb = Inr l" "each f xs l = Inr lb'" using Cons.prems(1) by auto
  have "keeps base l" using Cons.prems(3) [OF _ l(1) Cons.prems(2)] by simp
  then show ?case by (rule Cons.IH [OF l(2)]) (rule Cons.prems(3), rule list.set_intros(2))
qed simp

lemma broadcast_keeps: "broadcast_sessions lb = Inr lb' \<Longrightarrow> keeps base lb \<Longrightarrow> keeps base lb'"
  unfolding broadcast_sessions_def by (erule each_keeps) (auto simp: send_keeps split: if_splits)

lemma send_state_keeps: "send_state s sc lb = Inr lb' \<Longrightarrow> keeps base lb' = keeps base lb"
  by (auto simp: send_state_def send_keeps)

lemma send_states_keeps: "send_states s lb = Inr lb' \<Longrightarrow> keeps base lb \<Longrightarrow> keeps base lb'"
  unfolding send_states_def by (erule each_keeps) (simp_all add: send_state_keeps)

lemma send_info_and_state_keeps: "send_info_and_state s sc lb = Inr lb' \<Longrightarrow> keeps base lb' = keeps base lb"
  by (auto simp: send_info_and_state_def send_keeps)

lemma send_infos_keeps: "each (send_info_and_state s) scs lb = Inr lb' \<Longrightarrow> keeps base lb \<Longrightarrow> keeps base lb'"
  by (erule each_keeps) (simp_all add: send_info_and_state_keeps)

section \<open>Accounts and counts\<close>

lemma with_store_keeps: "with_store f lb = (x, lb') \<Longrightarrow> keeps base lb' = keeps base lb"
  by (auto simp: with_store_def split: prod.splits)

lemma snd_with_store_keeps [simp]: "keeps base (snd (with_store f lb)) = keeps base lb"
  by (simp add: with_store_def split: prod.split)

lemma fetch_keeps: "fetch o1 lb = Inr lb' \<Longrightarrow> keeps base lb' = keeps base lb"
  by (auto simp: fetch_def)

lemma pay_out_keeps [simp]: "keeps base (pay_out o1 pl lb) = keeps base lb"
  by (simp add: pay_out_def Let_def with_store_keeps split: prod.split)

lemma set_num_keeps [simp]:
  assumes "keeps base lb"
  shows "keeps base (set_players_num s n lb)" "keeps base (set_watchers_num s n lb)"
  using assms
  by (auto simp: set_players_num_def set_watchers_num_def table_set_players_num_def table_set_watchers_num_def
      split: prod.splits intro!: keeps_poker)

lemma mark_joined_keeps [simp]: "keeps base lb \<Longrightarrow> keeps base (mark_joined c s sc cs b lb)"
  by (simp add: mark_joined_def Let_def)

section \<open>What a client does with a session\<close>

text \<open>Who is looked up among the clients of a session finds it open.\<close>

lemma found_listed:
  assumes "keeps base lb" "session_client_getby_account_id s i lb = Inr (Some sc)"
  shows "s \<in> set (lb_sessions lb)"
proof (rule keeps_active [OF assms(1)])
  have "se_clients (lb_session lb s) \<noteq> []" using assms(2) by (auto simp: session_client_getby_account_id_def)
  then show "\<not> idle (lb_session lb s)" by (simp add: idle_def)
qed

lemma reorder_keeps [simp]:
  assumes "keeps base lb" "s \<in> set (lb_sessions lb)"
  shows "keeps base (reorder_updated_session s old lb)"
proof -
  have r: "reorder_updated_session s old lb = lb\<lparr>lb_sessions := lb_sessions (reorder_updated_session s old lb)\<rparr>"
    by (simp add: reorder_updated_session_def Let_def)
  have "mset (reorder_list (\<lambda>o1. players_length o1 lb) s old (lb_sessions lb)) = mset (lb_sessions lb)"
    by (rule reorder_list_mset [OF keeps_distinct [OF assms(1)] assms(2)])
  then have m: "mset (lb_sessions (reorder_updated_session s old lb)) = mset (lb_sessions lb)"
    by (simp only: lobby_reorder)
  have "keeps base (lb\<lparr>lb_sessions := xs\<rparr>)" if "mset xs = mset (lb_sessions lb)" for xs
    using assms(1) that by (simp add: keeps_def table_id_def poker_of_def)
  from this [OF m] show ?thesis by (subst r)
qed

lemma players_remove_table [simp]: "pk_table (players_remove p i) = pk_table p"
  by (simp add: players_remove_def Let_def upd_player_def)

lemma players_addby_table: "players_addby_account p i a pos = (q, r) \<Longrightarrow> pk_table q = pk_table p"
  by (auto simp: players_addby_account_def players_add_def Let_def upd_player_def split: if_splits)

lemma upd_poker_listed: "lb_sessions (upd_poker s f lb) = lb_sessions lb"
  by (simp add: upd_poker_def)

lemma reorder_poker_keeps:
  assumes "keeps base lb" "s \<in> set (lb_sessions lb)" "tb_id (pk_table (f (poker_of s lb))) = tb_id (pk_table (poker_of s lb))"
  shows "keeps base (reorder_updated_session s old (upd_poker s f lb))"
  using assms by (intro reorder_keeps keeps_poker) (simp_all add: upd_poker_listed)

lemma remove_player_keeps:
  assumes "remove_player s i lb = Inr lb'" "keeps base lb" "s \<in> set (lb_sessions lb)"
  shows "keeps base lb'"
proof -
  let ?lb1 = "if pk_state (poker_of s lb) = DONE
    then upd_poker s (upd_player i (\<lambda>pl. pl\<lparr>pl_ref := ref_counted_use (pl_ref pl)\<rparr>)) lb else lb"
  have k1: "keeps base ?lb1" using assms(2) by (simp add: keeps_poker upd_player_def)
  have k2: "keeps base (reorder_updated_session s old (upd_poker s (\<lambda>p. players_remove p i) ?lb1))" for old
    by (rule reorder_poker_keeps [OF k1]) (use assms(3) in \<open>simp_all add: upd_poker_listed\<close>)
  obtain lb2 where lb2: "broadcast_sessions (reorder_updated_session s (players_length s ?lb1)
      (upd_poker s (\<lambda>p. players_remove p i) ?lb1)) = Inr lb2"
    "lb' = (if players_length s lb2 = 1 \<and> pk_state (poker_of s lb2) \<le> STARTING then upd_poker s (\<lambda>p. p\<lparr>pk_state := W4P\<rparr>) lb2 else lb2)"
    using assms(1) unfolding remove_player_def Let_def by auto
  have "keeps base lb2" by (rule broadcast_keeps [OF lb2(1) k2])
  then show ?thesis unfolding lb2(2) by (simp add: keeps_poker)
qed

lemma unjoin_keeps:
  assumes "unjoin_session c s lb = Inr (b, lb')" "keeps base lb"
  shows "keeps base lb'"
proof -
  obtain o1 where o1: "lc_account (lb_client lb c) = Some o1"
    using assms(1) by (auto simp: unjoin_session_def deref_def split: option.splits)
  obtain found where found: "session_client_getby_account_id s (account_id o1 lb) lb = Inr found"
    using assms(1) o1 by (auto simp: unjoin_session_def)
  show ?thesis
  proof (cases found)
    case None
    then show ?thesis using assms o1 found by (simp add: unjoin_session_def)
  next
    case (Some sc)
    have listed: "s \<in> set (lb_sessions base)"
      using found_listed [OF assms(2)] found Some keeps_listed [OF assms(2)] by auto
    have remove: "keeps base l'" if "remove_player s i l = Inr l'" "keeps base l" for i l l'
      using remove_player_keeps [OF that] listed keeps_listed [OF that(2)] by simp
    have left: "keeps base (upd_poker s (upd_player i (\<lambda>pl. pl\<lparr>pl_left := True\<rparr>)) l)" if "keeps base l" for i l
      using that by (rule keeps_poker) (simp add: upd_player_def)
    show ?thesis
      using assms o1 found Some
      by (auto simp: unjoin_session_def Let_def fetch_keeps send_keeps left split: if_splits option.splits
          dest!: remove send_infos_keeps [where base = base])
  qed
qed

lemma join_keeps:
  assumes "join_session en c s amount pos lb = Inr (b, lb')" "keeps base lb"
  shows "keeps base lb'"
proof (cases "lc_account (lb_client lb c)")
  case None
  then show ?thesis using assms by (simp add: join_session_def)
next
  case (Some o1)
  then obtain found where found: "session_client_getby_account_id s (account_id o1 lb) lb = Inr found"
    using assms(1) by (auto simp: join_session_def)
  show ?thesis
  proof (cases "\<exists>sc cs. found = Some sc \<and> client_session_getby_session_id c (se_id (lb_session lb s)) lb = Some cs \<and> \<not> cs_joined cs")
    case False
    then show ?thesis using assms Some found by (auto simp: join_session_def split: option.splits if_splits)
  next
    case True
    then obtain sc cs where sc: "found = Some sc" "client_session_getby_session_id c (se_id (lb_session lb s)) lb = Some cs"
      "\<not> cs_joined cs" by blast
    have listed: "s \<in> set (lb_sessions base)"
      using found_listed [OF assms(2)] found sc(1) keeps_listed [OF assms(2)] by auto
    let ?lb1 = "(mark_joined c s sc cs True lb)\<lparr>lb_next := lb_next (mark_joined c s sc cs True lb) + 1\<rparr>"
    obtain p player where add: "players_addby_account (poker_of s ?lb1) (lb_next (mark_joined c s sc cs True lb)) (account_id o1 ?lb1) pos
      = (p, player)" by fastforce
    have k1: "keeps base ?lb1" using assms(2) by simp
    have k2: "keeps base (reorder_updated_session s old (upd_poker s (\<lambda>_. p) ?lb1))" for old
      by (rule reorder_poker_keeps [OF k1]) (use listed keeps_listed [OF k1] players_addby_table [OF add] in simp_all)
    have pl: "keeps base (upd_poker s (upd_player i f) l)" if "keeps base l" for i f l
      using that by (rule keeps_poker) (simp add: upd_player_def)
    obtain lb2 i where lb2: "broadcast_sessions (reorder_updated_session s (players_length s (mark_joined c s sc cs True lb))
        (upd_poker s (\<lambda>_. p) ?lb1)) = Inr lb2"
      and result: "lb' = (let lb = set_players_num s (players_num s (upd_poker s (upd_player i (\<lambda>pl. pl\<lparr>pl_enterance_balance := amount,
            pl_balance := amount\<rparr>)) (snd (with_store (account_lock_balance o1 amount) lb2))) + 1)
          (upd_poker s (upd_player i (\<lambda>pl. pl\<lparr>pl_enterance_balance := amount, pl_balance := amount\<rparr>))
            (snd (with_store (account_lock_balance o1 amount) lb2)))
        in if starts s lb then schedule_start en s lb else lb)"
      using assms(1) Some found sc add unfolding join_session_def by (auto simp: Let_def split: prod.splits)
    have "keeps base lb2" by (rule broadcast_keeps [OF lb2 k2])
    then show ?thesis unfolding result Let_def by (simp add: pl schedule_start_keeps)
  qed
qed

lemma enter_keeps:
  assumes "enter_session c s lb = Inr (b, lb')" "keeps base lb" "s \<in> set (lb_sessions lb)"
  shows "keeps base lb'"
proof -
  have add: "keeps base (upd_session s (\<lambda>se. se\<lparr>se_clients := f se\<rparr>) l)" if "keeps base l" for f l
    using that by (rule keeps_session) (use assms(3) keeps_listed [OF assms(2)] keeps_listed [OF that] in simp_all)
  show ?thesis using assms(1,2)
    by (auto simp: enter_session_def session_client_new_def client_session_new_def Let_def add
        split: option.splits if_splits)
qed

lemma end_for_client_keeps:
  assumes "end_for_client s sc lb = Inr lb'" "keeps base lb"
  shows "keeps base lb'"
  using assms by (auto simp: end_for_client_def send_keeps split: option.splits if_splits dest!: unjoin_keeps [where base = base])

text \<open>The last client to leave closes the session.\<close>

lemma close_ok:
  assumes "sessions_ok lb" "idle (lb_session lb s)"
  shows "sessions_ok (lb\<lparr>lb_sessions := remove1 s (lb_sessions lb)\<rparr>)"
proof -
  have "set (remove1 s (lb_sessions lb)) = set (lb_sessions lb) - {s}"
    using assms(1) by (simp add: sessions_ok_def set_remove1_eq)
  then show ?thesis using assms by (auto simp: sessions_ok_def table_id_def poker_of_def inj_on_def)
qed

lemma session_stop_idle: "se_clients (lb_session lb s) = [] \<Longrightarrow> idle (lb_session (session_stop s lb) s)"
  by (simp add: session_stop_def Let_def idle_def post_proceed_def cancel_and_leave_def on_loop_def task_at_def with_loop_def
      split: option.split prod.split)

lemma close_if_empty_ok:
  assumes "close_if_empty s lb = Inr lb'" "sessions_ok lb"
  shows "sessions_ok lb'"
proof (cases "se_clients (lb_session lb s) = []")
  case True
  have "sessions_ok ((session_stop s lb)\<lparr>lb_sessions := remove1 s (lb_sessions (session_stop s lb))\<rparr>)"
    by (rule close_ok [OF keeps_ok [OF session_stop_keeps [OF keeps_refl [OF assms(2)]]] session_stop_idle [OF True]])
  then show ?thesis using assms(1) True by (auto simp: close_if_empty_def Let_def dest!: broadcast_keeps [OF _ keeps_refl] keeps_ok)
qed (use assms in \<open>simp add: close_if_empty_def\<close>)

lemma leave_ok:
  assumes "leave_session c cs lb = Inr lb'" "sessions_ok lb"
  shows "sessions_ok lb'"
proof -
  let ?s = "cs_session cs"
  obtain lb1 where lb1: "(if cs_joined cs then bindO (unjoin_session c ?s lb) (\<lambda>(_, lb). Inr lb) else Inr lb) = Inr lb1"
    and rest: "bindO (deref (lc_account (lb_client lb1 c))) (\<lambda>o1.
        bindO (session_client_getby_account_id ?s (account_id o1 lb1) lb1) (\<lambda>found.
        bindO (deref found) (\<lambda>sc.
        bindO (close_if_empty ?s (forget_client c cs sc lb1)) (\<lambda>lb.
        bindO (send_states ?s lb) (\<lambda>lb.
          Inr (set_watchers_num ?s (watchers ?s lb - 1) lb)))))) = Inr lb'"
    using assms(1) unfolding leave_session_def Let_def bindO_eq_Inr by blast
  obtain sc lb3 lb4 where lb3: "close_if_empty ?s (forget_client c cs sc lb1) = Inr lb3"
    and lb4: "send_states ?s lb3 = Inr lb4" "lb' = set_watchers_num ?s (watchers ?s lb4 - 1) lb4"
    using rest by auto
  have "keeps lb lb1" using lb1 keeps_refl [OF assms(2)]
    by (auto split: if_splits dest!: unjoin_keeps [where base = lb])
  then have "sessions_ok (forget_client c cs sc lb1)" by (intro keeps_ok [of lb]) (simp add: forget_client_def Let_def)
  then have "sessions_ok lb3" by (rule close_if_empty_ok [OF lb3])
  then have "keeps lb3 lb4" using send_states_keeps [OF lb4(1) keeps_refl] by simp
  then show ?thesis unfolding lb4(2) by (intro keeps_ok [of lb3]) simp
qed

section \<open>Tasks\<close>

text \<open>Every task of the loop keeps the invariant.\<close>

lemma run_poker_keeps:
  assumes "run_poker s f lb = Inr lb'" "keeps base lb" "\<And>q. f (poker_of s lb) = Inr q \<Longrightarrow> game q = game (poker_of s lb)"
  shows "keeps base lb'"
proof -
  obtain q where q: "f (poker_of s lb) = Inr q" "lb' = post_actions s (own_account s (upd_poker s (\<lambda>_. q) lb)) (upd_poker s (\<lambda>_. q) lb)"
    using assms(1) by (auto simp: run_poker_def Let_def)
  show ?thesis unfolding q(2) by (intro post_actions_keeps keeps_game [OF assms(2) assms(3) [OF q(1)]])
qed

lemma remove_left_table [simp]: "pk_table (remove_left p) = pk_table p"
proof -
  have "pk_table (fold (\<lambda>i p. if pl_left (the_player p i) then players_remove p i else p) is q) = pk_table q" for "is" q
    by (induction "is" arbitrary: q) auto
  then show ?thesis by (simp add: remove_left_def)
qed

lemma session_proceed_keeps:
  assumes "session_proceed en s lb = Inr lb'" "keeps base lb"
  shows "keeps base lb'"
proof -
  let ?lb1 = "upd_session s (\<lambda>se. se\<lparr>se_proceed_task := None\<rparr>) lb"
  have k1: "keeps base ?lb1" using assms(2) by simp
  consider "\<not> se_running (lb_session ?lb1 s)" | "se_running (lb_session ?lb1 s)" "pk_state (poker_of s ?lb1) \<noteq> DONE"
    | "se_running (lb_session ?lb1 s)" "pk_state (poker_of s ?lb1) = DONE" by blast
  then show ?thesis
  proof cases
    case 1
    then show ?thesis using assms k1 by (simp add: session_proceed_def)
  next
    case 2
    then have "run_poker s (poker_proceed (en_now en)) (post_proceed s (Some 1000) ?lb1) = Inr lb'"
      using assms(1) by (simp add: session_proceed_def)
    then show ?thesis by (rule run_poker_keeps [OF _ post_proceed_keeps [OF k1]]) (rule poker_proceed_same)
  next
    case 3
    have listed: "s \<in> set (lb_sessions base)"
      using keeps_active [OF k1, of s] 3(1) keeps_listed [OF k1] by (simp add: idle_def)
    let ?ordered = "\<lambda>lb. reorder_updated_session s (players_length s (upd_poker s remove_left lb)) (upd_poker s remove_left lb)"
    obtain lb2 lb3 lb4 where lb2: "each (end_for_client s) (se_clients (lb_session ?lb1 s)) ?lb1 = Inr lb2"
      and lb3: "broadcast_sessions (?ordered lb2) = Inr lb3"
      and lb4: "send_states s (upd_poker s (poker_starting (en_now en)) lb3) = Inr lb4"
      and lb5: "run_poker s (poker_proceed (en_now en)) (schedule_restart s lb4) = Inr lb'"
      using assms(1) 3 unfolding session_proceed_def Let_def by auto
    have k2: "keeps base lb2" by (rule each_keeps [OF lb2 k1]) (rule end_for_client_keeps)
    have "keeps base (?ordered lb2)"
      by (rule reorder_poker_keeps [OF k2]) (use listed keeps_listed [OF k2] in simp_all)
    then have "keeps base lb3" by (rule broadcast_keeps [OF lb3])
    then have "keeps base (upd_poker s (poker_starting (en_now en)) lb3)" by (rule keeps_poker) (simp add: poker_starting_def)
    then have "keeps base lb4" by (rule send_states_keeps [OF lb4])
    then have "keeps base (schedule_restart s lb4)" by simp
    then show ?thesis by (rule run_poker_keeps [OF lb5]) (rule poker_proceed_same)
  qed
qed

lemma session_poker_start_keeps:
  assumes "session_poker_start en s lb = Inr lb'" "keeps base lb"
  shows "keeps base lb'"
proof -
  let ?lb1 = "upd_session s (\<lambda>se. se\<lparr>se_start_task := None\<rparr>) (leave_task (se_start_task (lb_session lb s)) lb)"
  have k1: "keeps base ?lb1" using assms(2) by simp
  obtain p b where p: "poker_start (en_now en) (poker_of s ?lb1) = Inr (p, b)"
    "(let lb = post_actions s (own_account s (upd_poker s (\<lambda>_. p) ?lb1)) (upd_poker s (\<lambda>_. p) ?lb1)
      in if b then send_states s lb else Inr lb) = Inr lb'"
    using assms(1) by (auto simp: session_poker_start_def Let_def)
  have "keeps base (post_actions s a (upd_poker s (\<lambda>_. p) ?lb1))" for a
    by (intro post_actions_keeps keeps_game [OF k1] poker_start_same [OF p(1)])
  then show ?thesis using p(2) by (auto simp: Let_def split: if_splits dest!: send_states_keeps [where base = base])
qed

lemma session_poker_restart_keeps:
  assumes "session_poker_restart en s lb = Inr lb'" "keeps base lb"
  shows "keeps base lb'"
proof -
  let ?lb1 = "upd_session s (\<lambda>se. se\<lparr>se_restart_task := None\<rparr>) (leave_task (se_restart_task (lb_session lb s)) lb)"
  have k1: "keeps base ?lb1" using assms(2) by simp
  obtain p b lb3 where p: "poker_restart (en_now en) (poker_of s ?lb1) = Inr (p, b)"
    and lb3: "(let lb = post_actions s (own_account s (upd_poker s (\<lambda>_. p) ?lb1)) (upd_poker s (\<lambda>_. p) ?lb1)
      in each (send_restarted s) (se_clients (lb_session lb s)) lb) = Inr lb3" "lb' = post_proceed s (Some 1000) lb3"
    using assms(1) by (auto simp: session_poker_restart_def Let_def)
  have "keeps base (post_actions s a (upd_poker s (\<lambda>_. p) ?lb1))" for a
    by (intro post_actions_keeps keeps_game [OF k1] poker_restart_same [OF p(1)])
  then have "keeps base lb3" using lb3(1) unfolding Let_def
    by (rule_tac each_keeps) (auto simp: send_restarted_def send_keeps send_info_and_state_keeps)
  then show ?thesis unfolding lb3(2) by simp
qed

lemma game_done:
  assumes "keeps base lb" "do_action now (poker_of s lb) i a = Inr (p, b)"
  shows "keeps base (post_actions s acct (upd_poker s (\<lambda>_. p) lb))"
  by (intro post_actions_keeps keeps_game [OF assms(1)] do_action_same [OF assms(2)])

lemma on_poker_action_keeps:
  assumes "on_poker_action en s i a acct lb = Inr lb'" "keeps base lb"
  shows "keeps base lb'"
proof -
  obtain lb1 where lb1: "each (reflect s a acct) (se_clients (lb_session lb s)) lb = Inr lb1"
    using assms(1) by (auto simp: on_poker_action_def)
  have k1: "keeps base lb1" by (rule each_keeps [OF lb1 assms(2)]) (auto simp: reflect_def send_keeps send_state_keeps)
  show ?thesis using assms(1) lb1 k1
    by (auto simp: on_poker_action_def Let_def split: if_splits intro: game_done)
qed

end
