(* ===== verification/Lobby_Tables.thy ===== *)
theory Lobby_Tables
  imports Lobby_Keeps
begin

text \<open>
  One session for a table: whatever the clients ask and however the tasks of the event loop, the other
  threads and the clock interleave, no two sessions of the lobby's list play at the same table.
\<close>

section \<open>Handlers\<close>

lemma new_auth_keeps: "new_auth en o1 lb = (au, lb') \<Longrightarrow> keeps base lb \<Longrightarrow> keeps base lb'"
  by (auto simp: new_auth_def split: option.splits prod.splits)

lemma client_set_account_keeps [simp]: "keeps base lb \<Longrightarrow> keeps base (client_set_account en c o1 lb)"
  by (auto simp: client_set_account_def Let_def split: option.split prod.split if_splits dest!: new_auth_keeps [where base = base])

lemma send_sessions_keeps: "send_sessions k n lb = Inr lb' \<Longrightarrow> keeps base lb' = keeps base lb"
  by (simp add: send_sessions_def send_keeps)

lemma login_keeps:
  assumes "on_client_login en k u pw lb = Inr lb'" "keeps base lb"
  shows "keeps base lb'"
proof -
  obtain found lb1 where lb1: "with_store (account_getby_credentials (en_md5 en) u pw) lb = (found, lb1)" by fastforce
  have k1: "keeps base lb1" using with_store_keeps [OF lb1] assms(2) by simp
  show ?thesis
  proof (cases found)
    case None
    then show ?thesis using assms(1) lb1 k1 by (auto simp: on_client_login_def send_keeps)
  next
    case (Some o1)
    obtain c where c: "cn_owner (lb_conn lb1 k) = Some c"
      using assms(1) lb1 Some by (auto simp: on_client_login_def deref_def split: option.splits)
    let ?lb2 = "client_set_account en c o1 (set_store (account_owner o1 c (lb_store lb1)) lb1)"
    let ?au = "lc_auth_session (lb_client ?lb2 c)"
    obtain ok lb3 where lb3: "send_packet k (LoginRes 1 1 (account_of c ?lb2) (auth_packet ?au ?lb2)) ?lb2 = Inr (ok, lb3)"
      and rest: "(if \<not> ok then Inr lb3 else bindO (deref ?au) (\<lambda>a.
             let lb = lb3\<lparr>lb_authorized := (lb_authorized lb3)(sql_text (au_token (lb_auth lb3 a)) := Some c)\<rparr>
             in send_sessions k 0 lb)) = Inr lb'"
      using assms(1) unfolding on_client_login_def lb1 Some Let_def
      by (simp del: upd_client_simps add: c cong: if_cong) blast
    have "keeps base lb3" using send_packet_keeps [OF lb3] k1 by simp
    then show ?thesis using rest by (auto simp: Let_def send_sessions_keeps split: if_splits)
  qed
qed

lemma signup_keeps:
  assumes "on_client_signup en k u pw n av lb = Inr lb'" "keeps base lb"
  shows "keeps base lb'"
proof -
  obtain found twice st where created: "account_create (en_md5 en) (en_address en) (en_chosen en)
      \<lparr>na_id_token = u, na_password = pw, na_name = n, na_avatar = av, na_balance = starting_balance, na_address = None\<rparr>
      (lb_store lb) = Inr ((found, twice), st)"
    using assms(1) by (auto simp: on_client_signup_def)
  show ?thesis
  proof (cases found)
    case None
    then show ?thesis using assms created by (auto simp: on_client_signup_def send_keeps)
  next
    case (Some o1)
    let ?lb1 = "set_store st lb"
    obtain c where c: "cn_owner (lb_conn ?lb1 k) = Some c"
      using assms(1) created Some by (auto simp: on_client_signup_def deref_def split: option.splits)
    let ?lb2 = "client_set_account en c o1 (set_store (account_owner o1 c (lb_store ?lb1)) ?lb1)"
    obtain au lb3 where lb3: "new_auth en o1 ?lb2 = (au, lb3)" by fastforce
    have "keeps base lb3" by (rule new_auth_keeps [OF lb3]) (use assms(2) in simp)
    moreover have "bindO (send k (SignupRes 1 1 0 (account_of c lb3) (auth_packet au lb3)) lb3) (send_sessions k 0) = Inr lb'"
      using assms(1) created Some c lb3 by (simp add: on_client_signup_def Let_def)
    ultimately show ?thesis by (auto simp: send_keeps send_sessions_keeps)
  qed
qed

lemma retarget_keeps [simp]: "keeps base lb \<Longrightarrow> keeps base (retarget_sessions r a lb)"
proof -
  have "keeps base l \<Longrightarrow> keeps base (fold (\<lambda>cs lb. upd_session (cs_session cs)
      (\<lambda>se. se\<lparr>se_clients := map (\<lambda>sc. retarget r a sc lb) (se_clients se)\<rparr>) lb) xs l)" for xs l
    by (induction xs arbitrary: l) simp_all
  moreover assume "keeps base lb"
  ultimately show ?thesis by (simp add: retarget_sessions_def)
qed

lemma take_up_keeps [simp]: "keeps base lb \<Longrightarrow> keeps base (take_up c r a token lb)"
  by (simp add: take_up_def revive_def Let_def)

lemma accept_auth_keeps: "accept_auth en k c r a o1 token lb = Inr lb' \<Longrightarrow> keeps base lb \<Longrightarrow> keeps base lb'"
  by (auto simp: accept_auth_def Let_def send_packet_keeps send_sessions_keeps split: if_splits)

lemma auth_session_keeps:
  assumes "on_client_auth_session en k token lb = Inr lb'" "keeps base lb"
  shows "keeps base lb'"
proof -
  obtain c where c: "cn_owner (lb_conn lb k) = Some c" using assms(1) by (auto simp: on_client_auth_session_def)
  obtain found st where found: "auth_session_getby_token token (lb_store lb) (lb_redis lb) = (found, st)" by fastforce
  consider "lc_auth_session (lb_client lb c) \<noteq> None \<and> \<not> lc_tolerant_disconnected (lb_client lb c)"
    | "\<not> (lc_auth_session (lb_client lb c) \<noteq> None \<and> \<not> lc_tolerant_disconnected (lb_client lb c))" "found = None"
    | au where "\<not> (lc_auth_session (lb_client lb c) \<noteq> None \<and> \<not> lc_tolerant_disconnected (lb_client lb c))" "found = Some au"
    by (cases found) blast+
  then show ?thesis
  proof cases
    case 1
    then show ?thesis using assms c by (simp add: on_client_auth_session_def send_keeps)
  next
    case 2
    then show ?thesis using assms c found by (auto simp: on_client_auth_session_def refuse_auth_def send_keeps)
  next
    case 3
    show ?thesis
    proof (cases "lb_authorized lb (sql_text token)")
      case None
      then show ?thesis using assms(1) c found 3
        by (auto simp: on_client_auth_session_def Let_def refuse_auth_def send_keeps assms(2))
    next
      case (Some r)
      then show ?thesis using assms(1) c found 3
        by (auto simp: on_client_auth_session_def Let_def refuse_auth_def send_keeps assms(2) simp del: fun_upd_apply
            split: if_splits dest!: accept_auth_keeps [where base = base])
    qed
  qed
qed

lemma account_handlers_keep:
  "on_client_get_account k lb = Inr lb' \<Longrightarrow> keeps base lb \<Longrightarrow> keeps base lb'"
  "on_client_update_account beyond k name avatar lb = Inr lb' \<Longrightarrow> keeps base lb \<Longrightarrow> keeps base lb'"
  "account_updated o1 c lb = Inr lb' \<Longrightarrow> keeps base lb \<Longrightarrow> keeps base lb'"
  by (auto simp: on_client_get_account_def on_client_update_account_def account_updated_def Let_def send_keeps fetch_keeps
      split_beta split: option.splits if_splits)

lemma list_handlers_keep:
  "on_client_get_tables k off len lb = Inr lb' \<Longrightarrow> keeps base lb \<Longrightarrow> keeps base lb'"
  "on_client_get_sessions k off lb = Inr lb' \<Longrightarrow> keeps base lb \<Longrightarrow> keeps base lb'"
  "on_client_meowed en k lb = Inr lb' \<Longrightarrow> keeps base lb \<Longrightarrow> keeps base lb'"
  by (auto simp: on_client_get_tables_def on_client_get_sessions_def on_client_meowed_def send_keeps send_sessions_keeps
      with_store_keeps split: prod.splits)

lemma connection_handlers_keep:
  "keeps base lb \<Longrightarrow> keeps base (on_client_connected k lb)"
  "on_client_disconnected k lb = Inr lb' \<Longrightarrow> keeps base lb \<Longrightarrow> keeps base lb'"
  by (auto simp: on_client_connected_def on_client_disconnected_def Let_def split_beta)

lemma on_client_unjoin_keeps: "on_client_unjoin k i lb = Inr lb' \<Longrightarrow> keeps base lb \<Longrightarrow> keeps base lb'"
  by (auto simp: on_client_unjoin_def send_keeps dest!: unjoin_keeps [where base = base])

lemma on_client_join_keeps:
  assumes "on_client_join en k i amount pos lb = Inr lb'" "keeps base lb"
  shows "keeps base lb'"
proof -
  obtain c where c: "cn_owner (lb_conn lb k) = Some c" using assms(1) by (auto simp: on_client_join_def)
  show ?thesis
  proof (cases "lc_account (lb_client lb c)")
    case None
    then show ?thesis using assms c by (simp add: on_client_join_def send_keeps)
  next
    case (Some o1)
    obtain lb1 where lb1: "fetch o1 lb = Inr lb1" using assms(1) c Some by (auto simp: on_client_join_def)
    have k1: "keeps base lb1" using fetch_keeps [OF lb1] assms(2) by simp
    show ?thesis
    proof (cases "session_getby_table_id i lb1")
      case None
      then show ?thesis using assms(1) c Some lb1 k1 by (auto simp: on_client_join_def send_keeps split: if_splits)
    next
      case (Some s)
      then show ?thesis using assms(1) c \<open>lc_account (lb_client lb c) = Some o1\<close> lb1 k1
        by (auto simp: on_client_join_def send_keeps split: if_splits dest!: join_keeps [where base = base]
            send_infos_keeps [where base = base])
    qed
  qed
qed

lemma action_keeps:
  assumes "on_client_action en k i kind amount lb = Inr lb'" "keeps base lb"
  shows "keeps base lb'"
proof -
  obtain c where c: "cn_owner (lb_conn lb k) = Some c" using assms(1) by (auto simp: on_client_action_def)
  show ?thesis
  proof (cases "client_session_getby_table_id c i lb")
    case None
    then show ?thesis using assms c by (simp add: on_client_action_def)
  next
    case (Some cs)
    then obtain o1 where o1: "lc_account (lb_client lb c) = Some o1" using assms(1) c by (auto simp: on_client_action_def)
    show ?thesis
    proof (cases "getby_id (poker_of (cs_session cs) lb) (account_id o1 lb)")
      case None
      then show ?thesis using assms c Some o1 by (simp add: on_client_action_def)
    next
      case (Some pl)
      then show ?thesis using assms(1) c \<open>client_session_getby_table_id c i lb = Some cs\<close> o1
        by (auto simp: on_client_action_def Let_def) (rule game_done [OF assms(2)], assumption)
    qed
  qed
qed

text \<open>A session is opened for a table only when the list has none for it.\<close>

lemma find_or_open_ok:
  assumes "find_or_open en i lb = (r, lb')" "sessions_ok lb"
  shows "sessions_ok lb' \<and> (\<forall>s. r = Some s \<longrightarrow> s \<in> set (lb_sessions lb'))"
proof (cases "session_getby_table_id i lb")
  case (Some s)
  then have "s \<in> set (lb_sessions lb)" by (auto simp: session_getby_table_id_def find_Some_iff)
  then show ?thesis using assms Some by (auto simp: find_or_open_def)
next
  case None
  obtain t lb1 where lb1: "with_store (with_db (table_get i)) lb = (t, lb1)" by fastforce
  have ok1: "keeps lb lb1" using with_store_keeps [OF lb1] keeps_refl [OF assms(2)] by simp
  show ?thesis
  proof (cases t)
    case None
    then show ?thesis using assms(1) lb1 keeps_ok [OF ok1] \<open>session_getby_table_id i lb = None\<close> by (simp add: find_or_open_def)
  next
    case (Some tb)
    have tb: "tb_id tb = i" using lb1 Some
      by (auto simp: with_store_def with_db_def table_get_def sql_select_def find_table_def find_Some_iff table_of_row_def
          table_new_def split: if_splits prod.splits option.splits)
    let ?s = "lb_next lb1"
    let ?lb2 = "snd (session_new en (tb\<lparr>tb_players_count := 0, tb_watchers_count := 0\<rparr>) lb1)"
    have lb': "r = Some ?s" "lb' = session_start ?s (?lb2\<lparr>lb_sessions := lb_sessions ?lb2 @ [?s]\<rparr>)"
      using assms(1) lb1 Some None by (simp_all add: find_or_open_def session_new_def split_beta)
    have new: "lb_sessions lb' = lb_sessions lb1 @ [?s]" "lb_next lb' = lb_next lb1 + 1"
      "t \<noteq> ?s \<Longrightarrow> lb_session lb' t = lb_session lb1 t" "table_id ?s lb' = i" for t
      using tb unfolding lb'(2)
      by (simp_all add: session_start_def post_proceed_def task_at_def with_loop_def on_loop_def table_id_def poker_of_def
        session_new_def poker_new_def split_beta)
    have others: "table_id s lb' = table_id s lb1" if "s \<noteq> ?s" for s
      using new(3) [OF that] by (simp add: table_id_def poker_of_def)
    have free: "\<forall>s \<in> set (lb_sessions lb1). table_id s lb1 \<noteq> i"
      using None ok1 keeps_listed [OF ok1] by (auto simp: session_getby_table_id_def find_None_iff keeps_def)
    have ok: "distinct (lb_sessions lb1)" "\<forall>s \<in> set (lb_sessions lb1). s < ?s" "inj_on (\<lambda>s. table_id s lb1) (set (lb_sessions lb1))"
      "\<forall>s. s \<notin> set (lb_sessions lb1) \<longrightarrow> idle (lb_session lb1 s)"
      using keeps_ok [OF ok1] by (simp_all add: sessions_ok_def)
    have same: "table_id s lb' = table_id s lb1" "s \<noteq> ?s" if "s \<in> set (lb_sessions lb1)" for s
      using that ok(2) others by auto
    have "inj_on (\<lambda>s. table_id s lb') (set (lb_sessions lb1))"
      by (rule inj_on_cong [THEN iffD2, OF _ ok(3)]) (rule same(1))
    moreover have "table_id ?s lb' \<notin> (\<lambda>s. table_id s lb') ` set (lb_sessions lb1)"
      using free same(1) new(4) by (auto simp: image_iff)
    ultimately have "inj_on (\<lambda>s. table_id s lb') (set (lb_sessions lb'))" using same(2) by (simp add: new(1)) blast
    then show ?thesis using ok(1,2,4) same(2) lb'(1) new(3) unfolding sessions_ok_def new(1,2)
      by (auto simp: less_Suc_eq)
  qed
qed

lemma enter_ok:
  assumes "on_client_enter en k i lb = Inr lb'" "sessions_ok lb"
  shows "sessions_ok lb'"
proof -
  obtain c where c: "cn_owner (lb_conn lb k) = Some c" using assms(1) by (auto simp: on_client_enter_def)
  obtain r lb1 where lb1: "find_or_open en i lb = (r, lb1)" by fastforce
  have ok: "sessions_ok lb1" "r = Some s \<Longrightarrow> s \<in> set (lb_sessions lb1)" for s
    using find_or_open_ok [OF lb1 assms(2)] by auto
  have k1: "keeps lb1 lb1" by (rule keeps_refl [OF ok(1)])
  consider "lc_account (lb_client lb c) = None" | "lc_account (lb_client lb c) \<noteq> None" "r = None"
    | s where "lc_account (lb_client lb c) \<noteq> None" "r = Some s" by (cases r) blast+
  then show ?thesis
  proof cases
    case 1
    then have "send k (EnterRes i 0) lb = Inr lb'" using assms(1) c by (simp add: on_client_enter_def)
    then show ?thesis using send_keeps [of k _ lb lb' lb] keeps_refl [OF assms(2)] by (auto intro: keeps_ok)
  next
    case 2
    then have "send k (EnterRes i 0) lb1 = Inr lb'" using assms(1) c lb1 by (auto simp: on_client_enter_def)
    then show ?thesis using send_keeps [of k _ lb1 lb' lb1] k1 by (auto intro: keeps_ok)
  next
    case 3
    obtain b lb2 where lb2: "enter_session c s lb1 = Inr (b, lb2)"
      and rest: "bindO (send k (EnterRes (table_id s lb2) (of_bool b)) lb2) (\<lambda>lb.
          if b then send k (PokerInfo (poker_of s lb)) lb else Inr lb) = Inr lb'"
      using assms(1) c lb1 3 by (auto simp: on_client_enter_def)
    have "keeps lb1 lb2" by (rule enter_keeps [OF lb2 k1 ok(2) [OF 3(2)]])
    then have "keeps lb1 lb'" using rest by (auto simp: send_keeps split: if_splits)
    then show ?thesis by (rule keeps_ok)
  qed
qed

lemma each_ok:
  assumes "each f xs lb = Inr lb'" "sessions_ok lb" "\<And>x l l'. f x l = Inr l' \<Longrightarrow> sessions_ok l \<Longrightarrow> sessions_ok l'"
  shows "sessions_ok lb'"
  using assms(1,2) by (induction xs arbitrary: lb) (auto dest: assms(3))

lemma ok_same:
  assumes "lb_sessions lb' = lb_sessions lb" "lb_session lb' = lb_session lb" "lb_next lb' = lb_next lb"
  shows "sessions_ok lb' = sessions_ok lb"
  using assms by (simp add: sessions_ok_def table_id_def poker_of_def)

lemma tolerated_ok:
  assumes "on_client_disconnected_tolerated k lb = Inr lb'" "sessions_ok lb"
  shows "sessions_ok lb'"
proof -
  obtain c where c: "cn_owner (lb_conn lb k) = Some c" using assms(1) by (auto simp: on_client_disconnected_tolerated_def)
  show ?thesis
  proof (cases "\<not> lc_tolerant_disconnected (lb_client lb c) \<and> \<not> lc_disconnected (lb_client lb c) \<and> lc_connected (lb_client lb c)")
    case True
    then show ?thesis using assms c by (simp add: on_client_disconnected_tolerated_def)
  next
    case False
    obtain lb1 lb2 where lb1: "sessions_ok lb1"
      and lb2: "(if lc_revived (lb_client lb c) then Inr lb1 else each (leave_session c) (entered c lb1) lb1) = Inr lb2"
      and lb': "lb' = upd_client c (\<lambda>lc. lc\<lparr>lc_tolerated_task := None\<rparr>) lb2"
    proof -
      let ?lb1 = "upd_client c (\<lambda>lc. lc\<lparr>lc_disconnected := True\<rparr>) lb"
      let ?lb2 = "case lc_auth_session (lb_client lb c) of None \<Rightarrow> ?lb1
        | Some a \<Rightarrow> if lc_revived (lb_client lb c) then ?lb1
            else ?lb1\<lparr>lb_authorized := (lb_authorized ?lb1)(sql_text (au_token (lb_auth ?lb1 a)) := None)\<rparr>"
      have "sessions_ok ?lb2 = sessions_ok lb" by (rule ok_same) (simp_all split: option.split)
      moreover have "bindO (if lc_revived (lb_client lb c) then Inr ?lb2 else each (leave_session c) (entered c ?lb2) ?lb2)
        (\<lambda>lb. Inr (upd_client c (\<lambda>lc. lc\<lparr>lc_tolerated_task := None\<rparr>) lb)) = Inr lb'"
        using assms(1) False c unfolding on_client_disconnected_tolerated_def Let_def by (simp only: deref_def option.case bindO_Inr if_False)
      ultimately show thesis using that [of ?lb2] assms(2) by auto
    qed
    have "sessions_ok lb2" using lb2 lb1 by (auto split: if_splits dest!: each_ok intro: leave_ok)
    moreover have "sessions_ok lb' = sessions_ok lb2" unfolding lb' by (rule ok_same) simp_all
    ultimately show ?thesis by simp
  qed
qed

lemma on_client_leave_ok:
  assumes "on_client_leave k i lb = Inr lb'" "sessions_ok lb"
  shows "sessions_ok lb'"
proof -
  obtain c where c: "cn_owner (lb_conn lb k) = Some c" using assms(1) by (auto simp: on_client_leave_def)
  show ?thesis
  proof (cases "client_session_getby_table_id c i lb")
    case None
    then show ?thesis using assms c by (simp add: on_client_leave_def)
  next
    case (Some cs)
    then obtain lb1 where lb1: "leave_session c cs lb = Inr lb1" "send k (LeaveRes i 1) lb1 = Inr lb'"
      using assms(1) c by (auto simp: on_client_leave_def)
    have "keeps lb1 lb1" by (rule keeps_refl [OF leave_ok [OF lb1(1) assms(2)]])
    then have "keeps lb1 lb'" using send_keeps [OF lb1(2)] by simp
    then show ?thesis by (rule keeps_ok)
  qed
qed

section \<open>The loop\<close>

lemma run_task_ok:
  assumes "run_task en beyond t lb = Inr lb'" "sessions_ok lb"
  shows "sessions_ok lb'"
proof -
  have keep: "sessions_ok lb'" if "keeps lb lb \<Longrightarrow> keeps lb lb'" using that keeps_refl [OF assms(2)] keeps_ok by blast
  show ?thesis
  proof (cases t)
    case (ClientTask k ct)
    then have run: "run_client_task en beyond k ct lb = Inr lb'" using assms(1) by (simp add: run_task_def)
    show ?thesis
    proof (cases ct)
      case ClientConnected
      then have "lb' = on_client_connected k lb" using run by (simp add: run_client_task_def)
      then show ?thesis using keep connection_handlers_keep(1) by blast
    next
      case (ClientEnter i)
      then show ?thesis using run assms(2) by (auto simp: run_client_task_def intro: enter_ok)
    next
      case (ClientLeave i)
      then show ?thesis using run assms(2) by (auto simp: run_client_task_def intro: on_client_leave_ok)
    qed (use run in \<open>auto simp: run_client_task_def intro!: keep dest: login_keeps signup_keeps auth_session_keeps
        account_handlers_keep list_handlers_keep connection_handlers_keep on_client_join_keeps on_client_unjoin_keeps action_keeps\<close>)
  qed (use assms in \<open>auto simp: run_task_def intro: tolerated_ok keep dest: account_handlers_keep(3) session_proceed_keeps
      session_poker_start_keeps session_poker_restart_keeps on_poker_action_keeps\<close>)
qed

lemma lobby_turn_ok:
  assumes "lobby_turn en beyond lb = Inr lb'" "sessions_ok lb"
  shows "sessions_ok lb'"
proof (cases "fst (tasks_pop (lb_loop lb))")
  case None
  then show ?thesis using assms by (auto simp: lobby_turn_def split: prod.splits)
next
  case (Some i)
  then obtain el where el: "tasks_pop (lb_loop lb) = (Some i, el)" by (metis prod.collapse)
  let ?t = "the_task el i"
  obtain lb1 where lb1: "(if et_cancelled ?t then Inr (lb\<lparr>lb_loop := el\<rparr>) else run_task en beyond (et_what ?t) (lb\<lparr>lb_loop := el\<rparr>)) = Inr lb1"
    and lb': "lb' = on_loop (finish_task i (et_cancelled ?t)) lb1"
    using assms(1) el by (auto simp: lobby_turn_def Let_def)
  have "sessions_ok (lb\<lparr>lb_loop := el\<rparr>)" using assms(2) ok_same [of "lb\<lparr>lb_loop := el\<rparr>" lb] by simp
  then have "sessions_ok lb1" using lb1 by (auto split: if_splits dest: run_task_ok)
  then show ?thesis using ok_same [of lb' lb1] unfolding lb' by (simp add: on_loop_def)
qed

text \<open>What happens to the lobby: turns of its loop, under any clock; a task that the thread of a connection
  posts; a timer that runs out; a connection that is accepted or lost; and changes of the database and the
  cache from outside, as the deposit service makes them.\<close>

inductive lobby_step :: "lobby \<Rightarrow> lobby \<Rightarrow> bool" where
  turn: "lobby_turn en beyond lb = Inr lb' \<Longrightarrow> lobby_step lb lb'"
| posted: "lobby_step lb (call (ClientTask k t) lb)"
| woken: "lobby_step lb (on_loop (thread_wakes i immediate) lb)"
| accepted: "lobby_step lb (lb\<lparr>lb_conn := (lb_conn lb)(k := cn), lb_listed := lb_listed lb @ [k]\<rparr>)"
| lost: "lobby_step lb (disconnected k lb)"
| outside: "lobby_step lb (lb\<lparr>lb_store := st, lb_redis := rd\<rparr>)"

lemma quiet_ok: "quiet lb lb' \<Longrightarrow> sessions_ok lb' = sessions_ok lb"
  by (rule ok_same) (simp_all add: quietD)

lemma lobby_step_ok: "lobby_step lb lb' \<Longrightarrow> sessions_ok lb \<Longrightarrow> sessions_ok lb'"
proof (induction rule: lobby_step.induct)
  case (turn en beyond lb lb')
  then show ?case by (rule lobby_turn_ok)
next
  case (accepted lb k cn)
  then show ?case using ok_same [of "lb\<lparr>lb_conn := (lb_conn lb)(k := cn), lb_listed := lb_listed lb @ [k]\<rparr>" lb] by simp
next
  case (outside lb rd st)
  then show ?case using ok_same [of "lb\<lparr>lb_store := st, lb_redis := rd\<rparr>" lb] by simp
qed (simp_all add: quiet_ok [OF call_quiet] quiet_ok [OF on_loop_quiet] quiet_ok [OF disconnected_quiet])

lemma lobby_steps_ok: "lobby_step\<^sup>*\<^sup>* lb lb' \<Longrightarrow> sessions_ok lb \<Longrightarrow> sessions_ok lb'"
  by (induction rule: rtranclp_induct) (auto dest: lobby_step_ok)

text \<open>C4: From a new lobby on, the list never has two sessions that play at the same table, and a session that
  is not listed is not running and has no clients.\<close>

theorem one_session_per_table:
  assumes "\<forall>s. idle (lb_session memory s)" "lobby_step\<^sup>*\<^sup>* (lobby_new memory st rd) lb"
  shows "distinct (map (\<lambda>s. table_id s lb) (lb_sessions lb))
    \<and> (\<forall>s. s \<notin> set (lb_sessions lb) \<longrightarrow> \<not> se_running (lb_session lb s) \<and> se_clients (lb_session lb s) = [])"
proof -
  have "sessions_ok (lobby_new memory st rd)" using assms(1) by (simp add: sessions_ok_def lobby_new_def)
  then have "sessions_ok lb" by (rule lobby_steps_ok [OF assms(2)])
  then show ?thesis by (simp add: sessions_ok_def distinct_map idle_def)
qed

text \<open>Connection 5 asks to enter table 1.\<close>

definition table_store :: store where
  "table_store = sample_store\<lparr>st_db := (st_db sample_store)\<lparr>db_rows := ([sample_row],
     [\<lparr>tr_id = 1, tr_name = [], tr_sb = 10, tr_bb = 20, tr_action_timeout = 10, tr_max_players = 9,
       tr_enterance_min = 100, tr_enterance_max = 1000, tr_players_count = 0, tr_watchers_count = 0\<rparr>], [])\<rparr>\<rparr>"

definition blank_lobby :: lobby where
  "blank_lobby = (sample_lobby table_store sample_game False)
     \<lparr>lb_session := (\<lambda>_. (sample_session sample_game False)\<lparr>se_running := False, se_clients := []\<rparr>), lb_lists := (\<lambda>_. [])\<rparr>"

definition entering_lobby :: lobby where
  "entering_lobby = call (ClientTask 5 (ClientEnter 1)) (lobby_new blank_lobby table_store (lb_redis blank_lobby))"

lemma open_table:
  assumes "lb_store lb = table_store" "lb_sessions lb = []"
  shows "\<exists>lb2. find_or_open sample_env 1 lb = (Some (lb_next lb), lb2) \<and> lb_sessions lb2 = [lb_next lb] \<and> table_id (lb_next lb) lb2 = 1
    \<and> se_clients (lb_session lb2 (lb_next lb)) = [] \<and> pk_players (poker_of (lb_next lb) lb2) = []
    \<and> lb_client lb2 = lb_client lb \<and> lb_conn lb2 = lb_conn lb"
proof -
  have "\<exists>t. fst (with_db (table_get 1) table_store) = Some t \<and> tb_id t = 1"
    by (simp add: with_db_def table_get_def sql_select_def find_table_def table_store_def sample_store_def
        table_of_row_def table_new_def statement_fails_def after_statement_def)
  then obtain t lb1 where lb1: "with_store (with_db (table_get 1)) lb = (Some t, lb1)" "tb_id t = 1"
    using assms(1) by (auto simp: with_store_def split_beta)
  have same: "lb_next lb1 = lb_next lb" "lb_sessions lb1 = []" "lb_client lb1 = lb_client lb" "lb_conn lb1 = lb_conn lb"
    using assms(2) lb1(1) by (auto simp: with_store_def split_beta)
  show ?thesis
    using lb1(1,2) same assms(2)
    by (simp add: find_or_open_def session_getby_table_id_def session_new_def session_start_def post_proceed_def task_at_def
      with_loop_def on_loop_def split_beta table_id_def poker_of_def poker_new_def)
qed

lemma entering_turn:
  "\<exists>lb. lobby_turn sample_env [] entering_lobby = Inr lb \<and> lb_sessions lb = [0] \<and> table_id 0 lb = 1"
proof -
  have "\<exists>el. tasks_pop (lb_loop entering_lobby) = (Some 0, el) \<and> et_what (the_task el 0) = ClientTask 5 (ClientEnter 1)
    \<and> \<not> et_cancelled (the_task el 0)"
    by (simp add: entering_lobby_def call_def with_loop_def eventloop_call_def task_new_def lobby_new_def eventloop_new_def
      tasks_push_def task_use_def task_leave_def upd_task_def tasks_pop_def the_task_def Let_def)
  then obtain el where pop: "tasks_pop (lb_loop entering_lobby) = (Some 0, el)" "et_what (the_task el 0) = ClientTask 5 (ClientEnter 1)"
    "\<not> et_cancelled (the_task el 0)" by blast
  let ?lb = "entering_lobby\<lparr>lb_loop := el\<rparr>"
  have lb: "lb_store ?lb = table_store" "lb_sessions ?lb = []" "lb_next ?lb = 0" "lb_client ?lb = (\<lambda>_. sample_client)"
    "lb_conn ?lb 5 = \<lparr>cn_owner = Some 0, cn_alive = True, cn_determined = True, cn_websocket = False, cn_up = True\<rparr>"
    by (simp_all add: entering_lobby_def call_def with_loop_def split_beta lobby_new_def blank_lobby_def sample_lobby_def)
  obtain lb2 where lb2: "find_or_open sample_env 1 ?lb = (Some 0, lb2)" "lb_sessions lb2 = [0]" "table_id 0 lb2 = 1"
    "se_clients (lb_session lb2 0) = []" "pk_players (poker_of 0 lb2) = []" "lb_client lb2 = (\<lambda>_. sample_client)"
    "lb_conn lb2 5 = \<lparr>cn_owner = Some 0, cn_alive = True, cn_determined = True, cn_websocket = False, cn_up = True\<rparr>"
    using open_table [OF lb(1,2)] lb(3-5) by auto
  have "\<exists>lb3. enter_session 0 0 lb2 = Inr (True, lb3) \<and> lb_sessions lb3 = [0] \<and> table_id 0 lb3 = 1 \<and> lb_conn lb3 5 = lb_conn lb2 5"
    using lb2(2-6)
    by (simp add: enter_session_def sample_client_def session_client_getby_account_id_def getby_id_def session_client_new_def
        client_session_new_def set_watchers_num_def table_set_watchers_num_def table_id_def poker_of_def upd_poker_def split_beta Let_def)
  then obtain lb3 where lb3: "enter_session 0 0 lb2 = Inr (True, lb3)" "lb_sessions lb3 = [0]" "table_id 0 lb3 = 1"
    "lb_conn lb3 5 = lb_conn lb2 5" by blast
  have "\<exists>lb4. on_client_enter sample_env 5 1 ?lb = Inr lb4 \<and> lb_sessions lb4 = [0] \<and> table_id 0 lb4 = 1"
    using lb(4,5) lb2(1,7) lb3
    by (simp add: on_client_enter_def sample_client_def send_def send_packet_def table_id_def poker_of_def)
  then show ?thesis using pop
    by (auto simp: lobby_turn_def Let_def run_task_def run_client_task_def on_loop_def table_id_def poker_of_def)
qed

theorem one_session_per_table_witness:
  "\<exists>lb. lobby_step\<^sup>*\<^sup>* (lobby_new blank_lobby table_store (lb_redis blank_lobby)) lb \<and> lb_sessions lb = [0] \<and> table_id 0 lb = 1
    \<and> distinct (map (\<lambda>s. table_id s lb) (lb_sessions lb)) \<and> \<not> se_running (lb_session lb 1)"
proof -
  obtain lb where lb: "lobby_turn sample_env [] entering_lobby = Inr lb" "lb_sessions lb = [0]" "table_id 0 lb = 1"
    using entering_turn by blast
  have steps: "lobby_step\<^sup>*\<^sup>* (lobby_new blank_lobby table_store (lb_redis blank_lobby)) lb"
    using posted [of "lobby_new blank_lobby table_store (lb_redis blank_lobby)" 5 "ClientEnter 1"] turn [OF lb(1)]
    by (simp add: entering_lobby_def)
  have "\<forall>s. idle (lb_session blank_lobby s)" by (simp add: blank_lobby_def idle_def)
  from one_session_per_table [OF this steps] show ?thesis using steps lb(2,3) by auto
qed

end
