(* ===== verification/Wallet.thy ===== *)
theory Wallet
  imports Account_Store Websocket_Http
begin

text \<open>
  The calls of the Monero wallet in \<open>src/src/deposit.c\<close>: a method and its parameters are put into a
  JSON-RPC request, and the answer is read with the JSON library. The wallet, its network connection and
  the library are parameters: \<open>call\<close> gives for a request the answer, if there is one, and the next state of
  the wallet; \<open>js_items\<close> are the elements the library's iteration over an array yields until it
  returns a node without type. A node whose value is null has no text.
\<close>

record 'n jsonic =
  js_root :: "bytes \<Rightarrow> 'n"
  js_get :: "bytes \<Rightarrow> 'n \<Rightarrow> bytes \<Rightarrow> 'n"
  js_items :: "bytes \<Rightarrow> 'n \<Rightarrow> 'n list"
  js_none :: "'n \<Rightarrow> bool"
  js_val :: "'n \<Rightarrow> bytes option"

type_synonym 'w rpc = "bytes \<Rightarrow> 'w \<Rightarrow> bytes option \<times> 'w"

section \<open>Numbers in text\<close>

fun decimal :: "nat \<Rightarrow> bytes" where
  "decimal n = (if n < 10 then [48 + of_nat n] else decimal (n div 10) @ [48 + of_nat (n mod 10)])"

declare decimal.simps [simp del]

definition decimal_int :: "int \<Rightarrow> bytes" where
  "decimal_int i = (if i < 0 then 45 # decimal (nat (- i)) else decimal (nat i))"

definition is_digit :: "byte \<Rightarrow> bool" where
  "is_digit b \<longleftrightarrow> 48 \<le> b \<and> b \<le> 57"

fun digits_value :: "int \<Rightarrow> bytes \<Rightarrow> int" where
  "digits_value acc [] = acc"
| "digits_value acc (b # bs) = (if is_digit b then digits_value (acc * 10 + int (unat b - 48)) bs else acc)"

text \<open>\<open>strtoll\<close>: blanks, a sign, digits; what does not fit is the nearest bound.\<close>

definition strtoll :: "bytes \<Rightarrow> int" where
  "strtoll bs =
    (let v = (case dropWhile (\<lambda>b. b = 32 \<or> 9 \<le> b \<and> b \<le> 13) bs of [] \<Rightarrow> 0
        | b # ds \<Rightarrow> if b = 45 then - digits_value 0 ds else if b = 43 then digits_value 0 ds
            else digits_value 0 (b # ds))
     in max (- (2 ^ 63)) (min (2 ^ 63 - 1) v))"

definition atoll :: "bytes \<Rightarrow> 64 word" where
  "atoll bs = word_of_int (strtoll bs)"

text \<open>\<open>atoi\<close> stored into a 64-bit field.\<close>

definition atoi :: "bytes \<Rightarrow> 64 word" where
  "atoi bs = scast (word_of_int (strtoll bs) :: 32 word)"

section \<open>Calls\<close>

definition rpc_request :: "bytes \<Rightarrow> bytes \<Rightarrow> bytes" where
  "rpc_request name params = ascii ''{\"jsonrpc\":\"2.0\",\"id\":\"0\",\"method\":\"'' @ name
     @ ascii ''\",\"params\":'' @ params @ ascii ''}''"

definition wallet_rpc_call :: "'w rpc \<Rightarrow> string \<Rightarrow> bytes \<Rightarrow> 'w \<Rightarrow> bytes option \<times> 'w" where
  "wallet_rpc_call call name params w = call (rpc_request (ascii name) params) w"

text \<open>The answer to a call, when it is not an error.\<close>

definition rpc_answer :: "'n jsonic \<Rightarrow> bytes option \<Rightarrow> bytes option" where
  "rpc_answer js answer = (case answer of None \<Rightarrow> None
     | Some r \<Rightarrow> if js_none js (js_get js r (js_root js r) (ascii ''error'')) then Some r else None)"

definition rpc :: "'n jsonic \<Rightarrow> 'w rpc \<Rightarrow> string \<Rightarrow> bytes \<Rightarrow> 'w \<Rightarrow> bytes option \<times> 'w" where
  "rpc js call name params w = apfst (rpc_answer js) (wallet_rpc_call call name params w)"

text \<open>A field of the result, its number and its text.\<close>

definition result_field :: "'n jsonic \<Rightarrow> bytes \<Rightarrow> string \<Rightarrow> 'n" where
  "result_field js r name = js_get js r (js_get js r (js_root js r) (ascii ''result'')) (ascii name)"

definition number_of :: "'n jsonic \<Rightarrow> (bytes \<Rightarrow> 'a) \<Rightarrow> 'n \<Rightarrow> 'a outcome" where
  "number_of js read n = bindO (deref (js_val js n)) (\<lambda>v. Inr (read v))"

definition text_of :: "'n jsonic \<Rightarrow> 'n \<Rightarrow> bytes" where
  "text_of js n = (case js_val js n of None \<Rightarrow> [] | Some v \<Rightarrow> v)"

definition wallet_open :: "'n jsonic \<Rightarrow> 'w rpc \<Rightarrow> bytes \<Rightarrow> bytes \<Rightarrow> 'w \<Rightarrow> bool \<times> 'w" where
  "wallet_open js call name password w =
    (case rpc js call ''open_wallet'' (ascii ''{\"filename\":\"'' @ name @ ascii ''\",\"password\":\"'' @ password
        @ ascii ''\"}'') w of (r, w) \<Rightarrow> (r \<noteq> None, w))"

definition wallet_close :: "'n jsonic \<Rightarrow> 'w rpc \<Rightarrow> 'w \<Rightarrow> bool \<times> 'w" where
  "wallet_close js call w = (case rpc js call ''close_wallet'' (ascii ''{}'') w of (r, w) \<Rightarrow> (r \<noteq> None, w))"

definition wallet_create :: "'n jsonic \<Rightarrow> 'w rpc \<Rightarrow> bytes \<Rightarrow> bytes \<Rightarrow> 'w \<Rightarrow> bool \<times> 'w" where
  "wallet_create js call name password w =
    (case rpc js call ''create_wallet'' (ascii ''{\"filename\":\"'' @ name @ ascii ''\",\"password\":\"'' @ password
        @ ascii ''\",\"language\":\"English\"}'') w of (r, w) \<Rightarrow> (r \<noteq> None, w))"

definition get_main_address :: "'n jsonic \<Rightarrow> 'w rpc \<Rightarrow> 'w \<Rightarrow> bytes option \<times> 'w" where
  "get_main_address js call w = (case rpc js call ''getaddress'' (ascii ''{}'') w of (r, w) \<Rightarrow>
     (map_option (\<lambda>r. text_of js (result_field js r ''address'')) r, w))"

text \<open>The two balances of an answer.\<close>

definition read_balances :: "'n jsonic \<Rightarrow> bytes option \<Rightarrow> (bool \<times> 64 word \<times> 64 word) outcome" where
  "read_balances js r = (case r of None \<Rightarrow> Inr (False, 0, 0)
     | Some r \<Rightarrow>
         bindO (number_of js atoll (result_field js r ''balance'')) (\<lambda>b.
         bindO (number_of js atoll (result_field js r ''unlocked_balance'')) (\<lambda>u. Inr (True, b, u))))"

definition get_balance :: "'n jsonic \<Rightarrow> 'w rpc \<Rightarrow> 'w \<Rightarrow> (bool \<times> 64 word \<times> 64 word) outcome \<times> 'w" where
  "get_balance js call w = apfst (read_balances js) (rpc js call ''getbalance'' (ascii ''{}'') w)"

definition get_address_balance :: "'n jsonic \<Rightarrow> 'w rpc \<Rightarrow> bytes \<Rightarrow> 'w \<Rightarrow> (bool \<times> 64 word \<times> 64 word) outcome \<times> 'w" where
  "get_address_balance js call address w = apfst (read_balances js)
     (rpc js call ''getaddressbalance'' (ascii ''{\"address\":\"'' @ address @ ascii ''\"}'') w)"

text \<open>The account and the index are not given to the wallet, which chooses the next index itself; the
  account index of the object is never assigned.\<close>

record monero_address =
  ma_address :: bytes
  ma_account_index :: "int option"
  ma_index :: int
  ma_payment_id :: int

definition monero_address_new :: "bytes \<Rightarrow> int \<Rightarrow> int \<Rightarrow> int \<Rightarrow> monero_address" where
  "monero_address_new address account_index index payment_id =
    \<lparr>ma_address = address, ma_account_index = None, ma_index = index, ma_payment_id = payment_id\<rparr>"

definition create_address :: "'n jsonic \<Rightarrow> 'w rpc \<Rightarrow> int \<Rightarrow> int \<Rightarrow> 'w \<Rightarrow> monero_address option \<times> 'w" where
  "create_address js call acct index w = (case rpc js call ''create_address'' (ascii ''{}'') w of (r, w) \<Rightarrow>
     (map_option (\<lambda>r. monero_address_new (text_of js (result_field js r ''address'')) 0 index 0) r, w))"

text \<open>A height that cannot be read is 0.\<close>

definition get_height :: "'n jsonic \<Rightarrow> 'w rpc \<Rightarrow> 'w \<Rightarrow> 64 word outcome \<times> 'w" where
  "get_height js call w = (case rpc js call ''getheight'' (ascii ''{}'') w of (r, w) \<Rightarrow>
     (case r of None \<Rightarrow> Inr 0 | Some r \<Rightarrow> number_of js atoll (result_field js r ''height''), w))"

section \<open>Transfers\<close>

record tx =
  tx_txid :: bytes
  tx_address :: bytes
  tx_amount :: "64 word"
  tx_fee :: "64 word"
  tx_unlock_time :: "64 word"
  tx_timestamp :: "64 word"
  tx_height :: "64 word"
  tx_confirmed :: bool

definition MIN_CONFIRMATIONS :: int where "MIN_CONFIRMATIONS = 1"

definition tx_of_json :: "'n jsonic \<Rightarrow> bytes \<Rightarrow> 'n \<Rightarrow> tx outcome" where
  "tx_of_json js r n =
    (let field = (\<lambda>name. js_get js r n (ascii name))
     in bindO (number_of js atoll (field ''amount'')) (\<lambda>amount.
        bindO (number_of js atoll (field ''fee'')) (\<lambda>fee.
        bindO (number_of js atoi (field ''confirmations'')) (\<lambda>confirmations.
        bindO (number_of js atoi (field ''unlock_time'')) (\<lambda>unlock_time.
        bindO (number_of js atoi (field ''timestamp'')) (\<lambda>timestamp.
        bindO (number_of js atoi (field ''height'')) (\<lambda>height.
          Inr \<lparr>tx_txid = text_of js (field ''txid''), tx_address = text_of js (field ''address''),
            tx_amount = amount, tx_fee = fee, tx_unlock_time = unlock_time, tx_timestamp = timestamp,
            tx_height = height, tx_confirmed = (sint confirmations \<ge> MIN_CONFIRMATIONS)\<rparr>)))))))"

fun txs_of_json :: "'n jsonic \<Rightarrow> bytes \<Rightarrow> 'n list \<Rightarrow> tx list outcome" where
  "txs_of_json js r [] = Inr []"
| "txs_of_json js r (n # ns) = bindO (tx_of_json js r n) (\<lambda>t. bindO (txs_of_json js r ns) (\<lambda>ts. Inr (t # ts)))"

definition transfers_params :: "int \<Rightarrow> int \<Rightarrow> int \<Rightarrow> bytes" where
  "transfers_params acct address min_height =
     ascii ''{\"in\": true, \"account_index\": '' @ decimal_int acct @ ascii '', \"subaddress_indices\": [''
     @ decimal_int address @ ascii ''],\"filter_by_height\": true,\"min_height\": '' @ decimal_int min_height @ ascii ''}''"

definition get_txs :: "'n jsonic \<Rightarrow> 'w rpc \<Rightarrow> int \<Rightarrow> int \<Rightarrow> int \<Rightarrow> 'w \<Rightarrow> tx list option outcome \<times> 'w" where
  "get_txs js call acct address min_height w =
    (case rpc js call ''get_transfers'' (transfers_params acct address min_height) w of (r, w) \<Rightarrow>
       (case r of None \<Rightarrow> Inr None
        | Some r \<Rightarrow> bindO (txs_of_json js r (js_items js r (result_field js r ''in''))) (\<lambda>ts. Inr (Some ts)), w))"

section \<open>Printing and reading numbers\<close>

lemma digits_value_append:
  "list_all is_digit ds \<Longrightarrow> digits_value acc (ds @ bs) = digits_value (digits_value acc ds) bs"
  by (induction ds arbitrary: acc) simp_all

lemma digit_value: "n < 10 \<Longrightarrow> is_digit (48 + of_nat n) \<and> int (unat (48 + of_nat n :: byte) - 48) = int n"
proof -
  assume "n < 10"
  then have "n \<in> {0, 1, 2, 3, 4, 5, 6, 7, 8, 9}" by auto
  then show ?thesis by (auto simp: is_digit_def)
qed

lemma decimal_digits: "list_all is_digit (decimal n)"
proof (induction n rule: decimal.induct)
  case (1 n)
  then show ?case using digit_value [of n] digit_value [of "n mod 10"] by (simp add: decimal.simps [of n])
qed

lemma digits_value_decimal: "digits_value 0 (decimal n) = int n"
proof (induction n rule: decimal.induct)
  case (1 n)
  show ?case
  proof (cases "n < 10")
    case True
    then show ?thesis using digit_value [of n] by (simp add: decimal.simps [of n])
  next
    case False
    have "digits_value 0 (decimal (n div 10) @ [48 + of_nat (n mod 10)]) = digits_value (int (n div 10)) [48 + of_nat (n mod 10)]"
      using 1 False decimal_digits by (simp add: digits_value_append)
    also have "\<dots> = int (n div 10) * 10 + int (n mod 10)" using digit_value [of "n mod 10"] by simp
    also have "\<dots> = int n" by (metis div_mult_mod_eq of_nat_add of_nat_mult of_nat_numeral)
    finally show ?thesis using False by (simp add: decimal.simps [of n])
  qed
qed

lemma decimal_not_empty [simp]: "decimal n \<noteq> []"
  by (simp add: decimal.simps [of n])

lemma decimal_length: "n < 10 ^ k \<Longrightarrow> 0 < k \<Longrightarrow> length (decimal n) \<le> k"
proof (induction n arbitrary: k rule: decimal.induct)
  case (1 n)
  show ?case
  proof (cases "n < 10")
    case False
    then obtain j where j: "k = Suc j" "0 < j"
      using "1.prems" False by (cases k; cases "k = 1") auto
    have "n div 10 < 10 ^ j" using "1.prems"(1) j(1) by (simp add: less_mult_imp_div_less)
    then show ?thesis using "1.IH" [OF False _ j(2)] False j(1) by (simp add: decimal.simps [of n])
  qed (use "1.prems" in \<open>simp add: decimal.simps [of n]\<close>)
qed

lemma decimal_length_ge: "10 ^ k \<le> n \<Longrightarrow> k < length (decimal n)"
proof (induction k arbitrary: n)
  case (Suc k)
  have "10 ^ k \<le> n div 10" using Suc.prems by (simp add: less_eq_div_iff_mult_less_eq)
  then have "k < length (decimal (n div 10))" by (rule Suc.IH)
  moreover have "(1 :: nat) \<le> 10 ^ k" by simp
  then have "\<not> n < 10" using Suc.prems unfolding power_Suc by linarith
  ultimately show ?case by (simp add: decimal.simps [of n])
qed simp

lemma strtoll_decimal: "strtoll (decimal n) = min (2 ^ 63 - 1) (int n)"
proof -
  obtain b ds where d: "decimal n = b # ds" by (cases "decimal n") auto
  have digit: "is_digit b" using decimal_digits [of n] by (simp add: d)
  then have b: "\<not> (b = 32 \<or> 9 \<le> b \<and> b \<le> 13)" "b \<noteq> 45" "b \<noteq> 43"
    by (auto simp: is_digit_def word_le_nat_alt)
  have "digits_value 0 (b # ds) = int n" using digits_value_decimal [of n] by (simp only: d)
  moreover have "dropWhile (\<lambda>b. b = 32 \<or> 9 \<le> b \<and> b \<le> 13) (b # ds) = b # ds"
    using b(1) by (subst dropWhile.simps) auto
  ultimately show ?thesis using b(2,3) unfolding strtoll_def d by (simp add: Let_def del: digits_value.simps dropWhile.simps)
qed

text \<open>A 64-bit number printed with \<open>%llu\<close> is read back by \<open>atoll\<close> when its top bit is clear.\<close>

lemma atoll_decimal: "unat x < 2 ^ 63 \<Longrightarrow> atoll (decimal (unat x)) = x"
proof -
  assume "unat x < 2 ^ 63"
  then have "int (unat x) < 2 ^ 63" by (metis of_nat_less_numeral_power_cancel_iff)
  then have "min (2 ^ 63 - 1) (int (unat x)) = int (unat x)" by linarith
  then show ?thesis unfolding atoll_def strtoll_decimal by simp
qed

end
