(* ===== verification/Deposit.thy ===== *)
theory Deposit
  imports Wallet Account_Balance
begin

text \<open>
  The deposit service (\<open>src/src/deposit.c\<close>): for every account with a deposit address the wallet is
  asked for the incoming transfers, each of which becomes a row of \<open>monero_deposits\<close> and is added to
  the balance. \<open>new_id\<close> is the id the database gives a row that is inserted.
\<close>

section \<open>Rows of deposits\<close>

definition DEPOSIT_PENDING :: nat where "DEPOSIT_PENDING = 1"
definition DEPOSIT_CONFIRMED :: nat where "DEPOSIT_CONFIRMED = 2"

definition find_deposit :: "bytes \<Rightarrow> rows \<Rightarrow> deposit_row option" where
  "find_deposit txid rows = List.find (\<lambda>r. dr_txid r = sql_text txid) (snd (snd rows))"

definition add_deposit :: "deposit_row \<Rightarrow> rows \<Rightarrow> rows" where
  "add_deposit r = apsnd (apsnd (\<lambda>rs. rs @ [r]))"

definition set_deposit :: "64 word \<Rightarrow> (deposit_row \<Rightarrow> deposit_row) \<Rightarrow> rows \<Rightarrow> rows" where
  "set_deposit i f = apsnd (apsnd (map (\<lambda>r. if dr_id r = i then f r else r)))"

text \<open>The account of the row is read too, and must exist.\<close>

definition deposit_getby_txid :: "bytes \<Rightarrow> store \<Rightarrow> (deposit_row option \<times> store) outcome" where
  "deposit_getby_txid txid st =
    (case with_db (sql_select (find_deposit txid)) st of
      (Some (Some r), st) \<Rightarrow>
        (case account_getby_id (atoi_id (dr_account r)) st of
          (None, st) \<Rightarrow> Inl NullDeref | (Some _, st) \<Rightarrow> Inr (Some r, st))
    | (_, st) \<Rightarrow> Inr (None, st))"

text \<open>A number of twenty digits does not fit the buffers of twenty characters into which the time and the
  account are printed.\<close>

definition fits_20 :: "64 word \<Rightarrow> bool" where
  "fits_20 x \<longleftrightarrow> length (decimal (unat x)) + 1 \<le> 20"

definition deposit_create :: "64 word \<Rightarrow> nat \<Rightarrow> tx \<Rightarrow> nat \<Rightarrow> store \<Rightarrow> (64 word option \<times> store) outcome" where
  "deposit_create new_id o1 tx status st =
    (if \<not> fits_20 (tx_timestamp tx) \<or> \<not> fits_20 (ac_id (object o1 st)) then Inl OutOfRange
     else case with_db (sql_update (add_deposit \<lparr>dr_id = new_id, dr_txid = sql_text (tx_txid tx),
         dr_account = ac_id (object o1 st), dr_status = status, dr_amount = tx_amount tx,
         dr_to_address = sql_text (ac_xmr_deposit_address (object o1 st)), dr_timestamp = tx_timestamp tx\<rparr>)) st of
       (ok, st) \<Rightarrow> Inr (if ok then Some new_id else None, st))"

definition deposit_update_status :: "64 word \<Rightarrow> nat \<Rightarrow> store \<Rightarrow> bool \<times> store" where
  "deposit_update_status i status = with_db (sql_update (set_deposit i (\<lambda>r. r\<lparr>dr_status := status\<rparr>)))"

definition update_xmr_height :: "nat \<Rightarrow> 64 word \<Rightarrow> store \<Rightarrow> (bool \<times> store) outcome" where
  "update_xmr_height o1 height st =
    (if fits_20 height then Inr (account_update_xmr_height o1 height st) else Inl OutOfRange)"

section \<open>One transfer\<close>

definition roll_back :: "store \<Rightarrow> store" where "roll_back st = snd (with_db transaction_rollback st)"
definition commit :: "store \<Rightarrow> store" where "commit st = snd (with_db transaction_commit st)"

text \<open>The account is read again and the amount added to its balance.\<close>

definition credit :: "nat \<Rightarrow> 64 word \<Rightarrow> store \<Rightarrow> (bool \<times> store) outcome" where
  "credit o1 amount st = bindO (account_fetch o1 st) (\<lambda>st.
     Inr (account_update_balance o1 (ac_balance (object o1 st) + amount) st))"

definition end_deposit :: "nat \<Rightarrow> tx \<Rightarrow> store \<Rightarrow> store outcome" where
  "end_deposit o1 tx st = bindO (update_xmr_height o1 (tx_height tx - 1) st) (\<lambda>(ok, st).
     Inr (if ok then commit st else roll_back st))"

definition confirm_deposit :: "nat \<Rightarrow> tx \<Rightarrow> deposit_row \<Rightarrow> store \<Rightarrow> store outcome" where
  "confirm_deposit o1 tx d st =
    (let st = snd (with_db transaction_begin st)
     in case deposit_update_status (dr_id d) DEPOSIT_CONFIRMED st of
       (False, st) \<Rightarrow> Inr (roll_back st)
     | (True, st) \<Rightarrow> bindO (credit o1 (tx_amount tx) st) (\<lambda>(ok, st).
         if ok then end_deposit o1 tx st else Inr (roll_back st)))"

definition new_deposit :: "64 word \<Rightarrow> nat \<Rightarrow> tx \<Rightarrow> store \<Rightarrow> store outcome" where
  "new_deposit new_id o1 tx st =
    (let st = snd (with_db transaction_begin st)
     in bindO (credit o1 (tx_amount tx) st) (\<lambda>(ok, st).
        if \<not> ok then Inr (roll_back st)
        else bindO (deposit_create new_id o1 tx (if tx_confirmed tx then DEPOSIT_CONFIRMED else DEPOSIT_PENDING) st)
          (\<lambda>(created, st). if created = None then Inr (roll_back st) else end_deposit o1 tx st)))"

definition process_tx :: "64 word \<Rightarrow> nat \<Rightarrow> tx \<Rightarrow> store \<Rightarrow> store outcome" where
  "process_tx new_id o1 tx st =
    (if tx_address tx \<noteq> ac_xmr_deposit_address (object o1 st) then Inr st
     else if tx_height tx < ac_xmr_height (object o1 st) then Inr st
     else bindO (deposit_getby_txid (tx_txid tx) st) (\<lambda>(existing, st). case existing of
         None \<Rightarrow> new_deposit new_id o1 tx st
       | Some d \<Rightarrow>
           if dr_status d = DEPOSIT_CONFIRMED then Inr st
           else if dr_status d = DEPOSIT_PENDING \<and> tx_confirmed tx then confirm_deposit o1 tx d st
           else Inr st))"

section \<open>The service\<close>

text \<open>\<open>new_id\<close> gives the id for a row inserted into the deposits.\<close>

fun process_txs :: "(rows \<Rightarrow> 64 word) \<Rightarrow> nat \<Rightarrow> tx list \<Rightarrow> store \<Rightarrow> store outcome" where
  "process_txs new_id o1 [] st = Inr st"
| "process_txs new_id o1 (tx # txs) st =
    bindO (process_tx (new_id (db_rows (st_db st))) o1 tx st) (process_txs new_id o1 txs)"

definition check_account :: "(rows \<Rightarrow> 64 word) \<Rightarrow> 64 word \<Rightarrow> nat \<Rightarrow> tx list option \<Rightarrow> store \<Rightarrow> store outcome" where
  "check_account new_id height o1 txs st = (case txs of None \<Rightarrow> Inr st
    | Some txs \<Rightarrow> bindO (process_txs new_id o1 txs st) (\<lambda>st.
        if ac_xmr_height (object o1 st) < height - 1
        then bindO (update_xmr_height o1 (height - 1) st) (\<lambda>(_, st). Inr st) else Inr st))"

text \<open>\<open>pkrsrv_account_iterator_next\<close>: the object of the next row of the query.\<close>

definition iterator_next :: "accounts_row \<Rightarrow> store \<Rightarrow> nat \<times> store" where
  "iterator_next r = account_new (account_of_row (atoi_id (ar_id r)) r)"

definition as_int :: "64 word \<Rightarrow> int" where
  "as_int x = sint (ucast x :: 32 word)"

fun check_accounts ::
  "'n jsonic \<Rightarrow> 'w rpc \<Rightarrow> (rows \<Rightarrow> 64 word) \<Rightarrow> 64 word \<Rightarrow> accounts_row list \<Rightarrow> store \<Rightarrow> 'w \<Rightarrow> (store \<times> 'w) outcome" where
  "check_accounts js call new_id height [] st w = Inr (st, w)"
| "check_accounts js call new_id height (r # rs) st w =
    (let (o1, st) = iterator_next r st;
         (txs, w) = get_txs js call 0 (as_int (ac_xmr_deposit_address_index (object o1 st)))
           (as_int (ac_xmr_height (object o1 st))) w
     in bindO txs (\<lambda>txs. bindO (check_account new_id height o1 txs st) (\<lambda>st.
          check_accounts js call new_id height rs st w)))"

text \<open>Before its loop the service prints the main address of the wallet, which is null when the wallet does not
  answer, and reads the balance.\<close>

definition deposit_service_begin :: "'n jsonic \<Rightarrow> 'w rpc \<Rightarrow> 'w \<Rightarrow> 'w outcome" where
  "deposit_service_begin js call w = (case get_main_address js call w of (address, w) \<Rightarrow>
     bindO (deref address) (\<lambda>_. case get_balance js call w of (balance, w) \<Rightarrow> bindO balance (\<lambda>_. Inr w)))"

text \<open>One turn of the service's loop: the accounts with a deposit address, as they are when the turn begins.\<close>

definition deposit_service_turn :: "'n jsonic \<Rightarrow> 'w rpc \<Rightarrow> (rows \<Rightarrow> 64 word) \<Rightarrow> store \<Rightarrow> 'w \<Rightarrow> (store \<times> 'w) outcome" where
  "deposit_service_turn js call new_id st w =
    (case get_height js call w of (height, w) \<Rightarrow> bindO height (\<lambda>height.
       case with_db (sql_select (\<lambda>rows. filter (\<lambda>r. ar_xmr_deposit_address r \<noteq> []) (fst rows))) st of
         (None, st) \<Rightarrow> Inr (st, w)
       | (Some rs, st) \<Rightarrow> check_accounts js call new_id height rs st w))"

end
