(* ===== verification/Deposit_Credit.thy ===== *)
theory Deposit_Credit
  imports Deposit
begin

text \<open>
  What the deposit service does to the balance of an account: transfers that are confirmed when they are
  first seen are credited once each, however often they are listed; a transfer that is seen before it is
  confirmed is credited twice; and a height that cannot be read stops the service.
\<close>

section \<open>The statements\<close>

lemma deposit_rows [simp]:
  "account_row i (d\<lparr>db_rows := add_deposit r (db_rows d)\<rparr>) = account_row i d"
  "db_deposits (d\<lparr>db_rows := add_deposit r (db_rows d)\<rparr>) = db_deposits d @ [r]"
  "account_row i (d\<lparr>db_rows := set_deposit j f (db_rows d)\<rparr>) = account_row i d"
  "db_deposits (d\<lparr>db_rows := set_deposit j f (db_rows d)\<rparr>) = map (\<lambda>r. if dr_id r = j then f r else r) (db_deposits d)"
  by (simp_all add: account_row_def find_account_def add_deposit_def set_deposit_def db_deposits_def)

lemma find_deposit_rows: "find_deposit txid (db_rows d) = List.find (\<lambda>r. dr_txid r = sql_text txid) (db_deposits d)"
  by (simp add: find_deposit_def db_deposits_def)

lemma update_balance_steady:
  assumes "steady (st_db st)"
  shows "fst (account_update_balance o1 b st)"
    "st_db (snd (account_update_balance o1 b st)) =
       (st_db st)\<lparr>db_rows := set_account (ac_id (object o1 st)) (\<lambda>r. r\<lparr>ar_balance := b\<rparr>) (db_rows (st_db st))\<rparr>"
    "object o2 (snd (account_update_balance o1 b st)) = (if o2 = o1 then (object o1 st)\<lparr>ac_balance := b\<rparr> else object o2 st)"
    "st_next (snd (account_update_balance o1 b st)) = st_next st"
  using assms
  by (auto simp: account_update_balance_def Let_def account_set_balance_def split: option.splits)

lemma fetch_steady:
  assumes "steady (st_db st)" "row_of o1 st = Some r" "o1 < st_next st"
  shows "\<exists>st'. account_fetch o1 st = Inr st' \<and> st_db st' = st_db st \<and> st_next st < st_next st'
    \<and> ac_id (object o1 st') = ac_id (object o1 st) \<and> ac_balance (object o1 st') = ar_balance r
    \<and> ac_xmr_height (object o1 st') = ar_xmr_height r
    \<and> ac_xmr_deposit_address (object o1 st') = ar_xmr_deposit_address r"
  using assms
  by (auto simp: account_fetch_def account_getby_id_def account_read_def account_new_def Let_def row_of_def
      account_row_def account_of_row_def object_def upd_object_def)

text \<open>The account that a deposit is for, with its row, and what the service relies on.\<close>

definition service_ready :: "nat \<Rightarrow> store \<Rightarrow> bool" where
  "service_ready o1 st \<longleftrightarrow> steady (st_db st) \<and> o1 < st_next st \<and> fits_20 (ac_id (object o1 st))
     \<and> atoi_id (ac_id (object o1 st)) = ac_id (object o1 st)"

lemma credit_effect:
  assumes "service_ready o1 st" "row_of o1 st = Some r"
  shows "\<exists>st'. credit o1 amount st = Inr (True, st') \<and> service_ready o1 st' \<and> ac_id (object o1 st') = ac_id (object o1 st)
    \<and> row_of o1 st' = Some (r\<lparr>ar_balance := ar_balance r + amount\<rparr>) \<and> db_deposits (st_db st') = db_deposits (st_db st)
    \<and> db_saved (st_db st') = db_saved (st_db st) \<and> ac_xmr_height (object o1 st') = ar_xmr_height r
    \<and> ac_xmr_deposit_address (object o1 st') = ar_xmr_deposit_address r
    \<and> (\<forall>j. account_row j (st_db st) \<noteq> None \<longrightarrow> account_row j (st_db st') \<noteq> None)"
proof -
  obtain st1 where st1: "account_fetch o1 st = Inr st1" "st_db st1 = st_db st" "st_next st < st_next st1"
    "ac_id (object o1 st1) = ac_id (object o1 st)" "ac_balance (object o1 st1) = ar_balance r"
    "ac_xmr_height (object o1 st1) = ar_xmr_height r" "ac_xmr_deposit_address (object o1 st1) = ar_xmr_deposit_address r"
    using fetch_steady [OF _ assms(2)] assms(1) by (auto simp: service_ready_def)
  have "steady (st_db st1)" using assms(1) st1(2) by (simp add: service_ready_def)
  note u = update_balance_steady(1,2,4) [OF this, of o1 "ar_balance r + amount"]
    update_balance_steady(3) [OF this, of o1 o1 "ar_balance r + amount"]
  obtain st2 where st2: "account_update_balance o1 (ar_balance r + amount) st1 = (True, st2)"
    using u(1) by (metis prod.collapse)
  have "credit o1 amount st = Inr (True, st2)" using st1(1,5) st2 by (simp add: credit_def)
  then show ?thesis
    using u(2-) [unfolded st2] assms st1 by (auto simp: service_ready_def row_of_def)
qed

lemma end_deposit_effect:
  assumes "service_ready o1 st" "row_of o1 st = Some r" "fits_20 (tx_height tx - 1)"
  shows "\<exists>st'. end_deposit o1 tx st = Inr st' \<and> service_ready o1 st' \<and> object o1 st' = object o1 st
    \<and> row_of o1 st' = Some (r\<lparr>ar_xmr_height := tx_height tx - 1\<rparr>) \<and> db_deposits (st_db st') = db_deposits (st_db st)
    \<and> db_saved (st_db st') = None
    \<and> (\<forall>j. account_row j (st_db st) \<noteq> None \<longrightarrow> account_row j (st_db st') \<noteq> None)"
proof -
  let ?d = "(st_db st)\<lparr>db_rows := set_account (ac_id (object o1 st)) (\<lambda>r. r\<lparr>ar_xmr_height := tx_height tx - 1\<rparr>) (db_rows (st_db st)),
    db_saved := None\<rparr>"
  have "end_deposit o1 tx st = Inr (st\<lparr>st_db := ?d\<rparr>)"
    using assms(1,3)
    by (simp add: end_deposit_def update_xmr_height_def account_update_xmr_height_def commit_def service_ready_def with_db_def)
  then show ?thesis
    using assms(1,2) by (auto simp: service_ready_def row_of_def object_def)
qed

section \<open>One transfer\<close>

text \<open>Every deposit row belongs to an account that exists.\<close>

definition deposits_ok :: "store \<Rightarrow> bool" where
  "deposits_ok st \<longleftrightarrow> (\<forall>d \<in> set (db_deposits (st_db st)). account_row (atoi_id (dr_account d)) (st_db st) \<noteq> None)"

lemma begin_effect:
  assumes "service_ready o1 st" "db_saved (st_db st) = None"
  shows "\<exists>st'. snd (with_db transaction_begin st) = st' \<and> service_ready o1 st' \<and> row_of o1 st' = row_of o1 st
    \<and> object o1 st' = object o1 st \<and> db_deposits (st_db st') = db_deposits (st_db st)
    \<and> (\<forall>j. account_row j (st_db st') = account_row j (st_db st))"
  using assms by (simp add: with_db_def service_ready_def row_of_def object_def)

lemma getby_txid_none:
  assumes "service_ready o1 st" "sql_text (tx_txid tx) \<notin> dr_txid ` set (db_deposits (st_db st))"
  shows "deposit_getby_txid (tx_txid tx) st = Inr (None, st)"
proof -
  have "List.find (\<lambda>r. dr_txid r = sql_text (tx_txid tx)) (db_deposits (st_db st)) = None"
    using assms(2) by (force simp: find_None_iff)
  then show ?thesis
    using assms(1) by (simp add: deposit_getby_txid_def service_ready_def find_deposit_rows)
qed

lemma getby_txid_some:
  assumes "service_ready o1 st" "deposits_ok st"
    and "List.find (\<lambda>r. dr_txid r = sql_text (tx_txid tx)) (db_deposits (st_db st)) = Some d"
  shows "\<exists>st'. deposit_getby_txid (tx_txid tx) st = Inr (Some d, st') \<and> st_db st' = st_db st
    \<and> object o1 st' = object o1 st \<and> service_ready o1 st'"
proof -
  have "d \<in> set (db_deposits (st_db st))" using assms(3) by (auto simp: find_Some_iff)
  then obtain r where "account_row (atoi_id (dr_account d)) (st_db st) = Some r"
    using assms(2) by (auto simp: deposits_ok_def)
  then show ?thesis
    using assms(1,3)
    by (auto simp: deposit_getby_txid_def service_ready_def find_deposit_rows account_getby_id_def account_read_def
        account_row_def account_new_def object_def)
qed

definition acceptable :: "bytes \<Rightarrow> tx \<Rightarrow> bool" where
  "acceptable address tx \<longleftrightarrow> tx_address tx = address \<and> fits_20 (tx_timestamp tx)
     \<and> fits_20 (tx_height tx - 1) \<and> sql_text (tx_txid tx) = tx_txid tx"

definition deposit_row_of :: "64 word \<Rightarrow> 64 word \<Rightarrow> tx \<Rightarrow> bytes \<Rightarrow> deposit_row" where
  "deposit_row_of new_id i tx address = \<lparr>dr_id = new_id, dr_txid = tx_txid tx, dr_account = i,
     dr_status = (if tx_confirmed tx then DEPOSIT_CONFIRMED else DEPOSIT_PENDING), dr_amount = tx_amount tx,
     dr_to_address = sql_text address, dr_timestamp = tx_timestamp tx\<rparr>"

text \<open>The state between two transfers.\<close>

definition between :: "nat \<Rightarrow> accounts_row \<Rightarrow> bytes \<Rightarrow> store \<Rightarrow> bool" where
  "between o1 r address st \<longleftrightarrow> service_ready o1 st \<and> db_saved (st_db st) = None \<and> row_of o1 st = Some r
     \<and> deposits_ok st \<and> ac_xmr_deposit_address (object o1 st) = address \<and> ar_xmr_deposit_address r = address"

lemma new_deposit_effect:
  assumes "between o1 r address st" "acceptable address tx" "\<not> tx_height tx < ac_xmr_height (object o1 st)"
    and "tx_txid tx \<notin> dr_txid ` set (db_deposits (st_db st))"
  shows "\<exists>st'. process_tx new_id o1 tx st = Inr st'
    \<and> between o1 (r\<lparr>ar_balance := ar_balance r + tx_amount tx, ar_xmr_height := tx_height tx - 1\<rparr>) address st'
    \<and> ac_id (object o1 st') = ac_id (object o1 st) \<and> ac_xmr_height (object o1 st') = ar_xmr_height r
    \<and> db_deposits (st_db st') = db_deposits (st_db st) @ [deposit_row_of new_id (ac_id (object o1 st)) tx address]"
proof -
  have ready: "service_ready o1 st" and saved: "db_saved (st_db st) = None" and row: "row_of o1 st = Some r"
    and dok: "deposits_ok st" and addr: "ac_xmr_deposit_address (object o1 st) = address" "ar_xmr_deposit_address r = address"
    using assms(1) by (simp_all add: between_def)
  have known: "deposit_getby_txid (tx_txid tx) st = Inr (None, st)"
    using getby_txid_none [OF ready, of tx] assms(2,4) by (simp add: acceptable_def)
  obtain st1 where st1: "snd (with_db transaction_begin st) = st1" "service_ready o1 st1" "row_of o1 st1 = row_of o1 st"
    "object o1 st1 = object o1 st" "db_deposits (st_db st1) = db_deposits (st_db st)"
    "\<forall>j. account_row j (st_db st1) = account_row j (st_db st)"
    using begin_effect [OF ready saved] by blast
  obtain st2 where st2: "credit o1 (tx_amount tx) st1 = Inr (True, st2)" "service_ready o1 st2"
    "ac_id (object o1 st2) = ac_id (object o1 st1)" "row_of o1 st2 = Some (r\<lparr>ar_balance := ar_balance r + tx_amount tx\<rparr>)"
    "db_deposits (st_db st2) = db_deposits (st_db st1)" "ac_xmr_height (object o1 st2) = ar_xmr_height r"
    "ac_xmr_deposit_address (object o1 st2) = ar_xmr_deposit_address r"
    "\<forall>j. account_row j (st_db st1) \<noteq> None \<longrightarrow> account_row j (st_db st2) \<noteq> None"
    using credit_effect [OF st1(2) st1(3) [unfolded row], of "tx_amount tx"] by blast
  let ?row = "deposit_row_of new_id (ac_id (object o1 st)) tx address"
  let ?st3 = "st2\<lparr>st_db := (st_db st2)\<lparr>db_rows := add_deposit ?row (db_rows (st_db st2))\<rparr>\<rparr>"
  have create: "deposit_create new_id o1 tx (if tx_confirmed tx then DEPOSIT_CONFIRMED else DEPOSIT_PENDING) st2 = Inr (Some new_id, ?st3)"
    using assms(2) st2(2,3,7) st1(4) ready addr
    by (simp add: deposit_create_def acceptable_def service_ready_def deposit_row_of_def)
  have st3: "service_ready o1 ?st3" "row_of o1 ?st3 = row_of o1 st2" "object o1 ?st3 = object o1 st2"
    using st2(2) by (simp_all add: service_ready_def row_of_def object_def)
  obtain st4 where st4: "end_deposit o1 tx ?st3 = Inr st4" "service_ready o1 st4" "object o1 st4 = object o1 ?st3"
    "row_of o1 st4 = Some (r\<lparr>ar_balance := ar_balance r + tx_amount tx, ar_xmr_height := tx_height tx - 1\<rparr>)"
    "db_deposits (st_db st4) = db_deposits (st_db ?st3)" "db_saved (st_db st4) = None"
    "\<forall>j. account_row j (st_db ?st3) \<noteq> None \<longrightarrow> account_row j (st_db st4) \<noteq> None"
    using end_deposit_effect [OF st3(1) st3(2) [unfolded st2(4)], of tx] assms(2) by (auto simp: acceptable_def)
  have deposits: "db_deposits (st_db st4) = db_deposits (st_db st) @ [?row]"
    using st4(5) st2(5) st1(5) by simp
  have exists: "account_row j (st_db st4) \<noteq> None" if "account_row j (st_db st) \<noteq> None" for j
    using that st1(6) st2(8) st4(7) by simp
  have "account_row (ac_id (object o1 st)) (st_db st) \<noteq> None" using row by (simp add: row_of_def)
  then have "deposits_ok st4"
    using dok exists ready unfolding deposits_ok_def deposits by (auto simp: service_ready_def deposit_row_of_def)
  then have "between o1 (r\<lparr>ar_balance := ar_balance r + tx_amount tx, ar_xmr_height := tx_height tx - 1\<rparr>) address st4"
    using st4(2,3,4,6) st3(3) st2(7) addr(2) by (simp add: between_def)
  moreover have "process_tx new_id o1 tx st = Inr st4"
    using assms(2,3) addr(1) known st1(1) st2(1) create st4(1)
    by (simp add: process_tx_def acceptable_def new_deposit_def Let_def)
  ultimately show ?thesis using deposits st4(3) st3(3) st2(3,6) st1(4) by auto
qed

lemma known_deposit_effect:
  assumes "between o1 r address st" "acceptable address tx"
    and "List.find (\<lambda>d. dr_txid d = tx_txid tx) (db_deposits (st_db st)) = Some d" "dr_status d = DEPOSIT_CONFIRMED"
  shows "\<exists>st'. process_tx new_id o1 tx st = Inr st' \<and> between o1 r address st' \<and> st_db st' = st_db st
    \<and> object o1 st' = object o1 st"
proof -
  have ready: "service_ready o1 st" and dok: "deposits_ok st" using assms(1) by (simp_all add: between_def)
  obtain st' where st': "deposit_getby_txid (tx_txid tx) st = Inr (Some d, st')" "st_db st' = st_db st"
    "object o1 st' = object o1 st" "service_ready o1 st'"
    using getby_txid_some [OF ready dok, of tx d] assms(2,3) by (auto simp: acceptable_def)
  have same: "between o1 r address st'"
    using assms(1) st'(2-4) by (simp add: between_def row_of_def deposits_ok_def)
  show ?thesis
    using assms(1,2,4) st' same by (auto simp: process_tx_def acceptable_def between_def)
qed

section \<open>A list of transfers\<close>

text \<open>The transfers of a list that are not recorded yet, each once.\<close>

fun new_txs :: "bytes set \<Rightarrow> tx list \<Rightarrow> tx list" where
  "new_txs known [] = []"
| "new_txs known (tx # txs) =
    (if tx_txid tx \<in> known then new_txs known txs else tx # new_txs (insert (tx_txid tx) known) txs)"

lemma new_txs_known: "tx_txid ` set txs \<subseteq> known \<Longrightarrow> new_txs known txs = []"
  by (induction txs) auto

lemma new_txs_all: "known \<union> tx_txid ` set (new_txs known txs) = known \<union> tx_txid ` set txs"
proof (induction txs arbitrary: known)
  case (Cons tx txs)
  show ?case using Cons.IH [of known] Cons.IH [of "insert (tx_txid tx) known"] by auto
qed simp

definition all_confirmed :: "store \<Rightarrow> bool" where
  "all_confirmed st \<longleftrightarrow> (\<forall>d \<in> set (db_deposits (st_db st)). dr_status d = DEPOSIT_CONFIRMED)"

definition recorded :: "store \<Rightarrow> bytes set" where
  "recorded st = dr_txid ` set (db_deposits (st_db st))"

definition height_below :: "nat \<Rightarrow> 64 word \<Rightarrow> store \<Rightarrow> bool" where
  "height_below o1 h st \<longleftrightarrow> ac_xmr_height (object o1 st) \<le> h \<and> (\<forall>r. row_of o1 st = Some r \<longrightarrow> ar_xmr_height r \<le> h)"

lemma process_txs_effect:
  assumes "between o1 r address st" "all_confirmed st"
    and "\<forall>tx \<in> set txs. acceptable address tx \<and> tx_confirmed tx \<and> 0 < tx_height tx \<and> height_below o1 (tx_height tx) st"
    and "sorted (map tx_height txs)"
  shows "\<exists>st' r'. process_txs new_id o1 txs st = Inr st' \<and> between o1 r' address st' \<and> all_confirmed st'
    \<and> ar_balance r' = ar_balance r + sum_list (map tx_amount (new_txs (recorded st) txs))
    \<and> recorded st' = recorded st \<union> tx_txid ` set txs
    \<and> (\<forall>h. (\<forall>tx \<in> set txs. tx_height tx \<le> h) \<longrightarrow> height_below o1 h st \<longrightarrow> height_below o1 h st')"
  using assms
proof (induction txs arbitrary: st r)
  case (Cons tx txs)
  let ?id = "new_id (db_rows (st_db st))"
  have ok: "acceptable address tx" "tx_confirmed tx" "0 < tx_height tx" "height_below o1 (tx_height tx) st"
    using Cons.prems(3) by auto
  have row: "row_of o1 st = Some r" using Cons.prems(1) by (simp add: between_def)
  have sorted: "sorted (map tx_height txs)" and later: "\<forall>t \<in> set txs. tx_height tx \<le> tx_height t"
    using Cons.prems(4) by auto
  show ?case
  proof (cases "tx_txid tx \<in> recorded st")
    case True
    then obtain d where d: "List.find (\<lambda>d. dr_txid d = tx_txid tx) (db_deposits (st_db st)) = Some d"
      by (cases "List.find (\<lambda>d. dr_txid d = tx_txid tx) (db_deposits (st_db st))")
        (force simp: recorded_def find_None_iff)+
    then have "dr_status d = DEPOSIT_CONFIRMED"
      using Cons.prems(2) by (auto simp: all_confirmed_def find_Some_iff)
    then obtain st1 where st1: "process_tx ?id o1 tx st = Inr st1" "between o1 r address st1" "st_db st1 = st_db st"
      "object o1 st1 = object o1 st"
      using known_deposit_effect [OF Cons.prems(1) ok(1) d] by blast
    have rec1: "recorded st1 = recorded st" using st1(3) by (simp add: recorded_def)
    have below1: "height_below o1 h st1 = height_below o1 h st" for h
      using st1(3,4) by (simp add: height_below_def row_of_def)
    have "\<exists>st' r'. process_txs new_id o1 txs st1 = Inr st' \<and> between o1 r' address st' \<and> all_confirmed st'
      \<and> ar_balance r' = ar_balance r + sum_list (map tx_amount (new_txs (recorded st1) txs))
      \<and> recorded st' = recorded st1 \<union> tx_txid ` set txs
      \<and> (\<forall>h. (\<forall>tx \<in> set txs. tx_height tx \<le> h) \<longrightarrow> height_below o1 h st1 \<longrightarrow> height_below o1 h st')"
      by (rule Cons.IH [OF st1(2)]) (use Cons.prems st1(3) sorted in \<open>auto simp: all_confirmed_def below1\<close>)
    then show ?thesis using st1(1) rec1 below1 True by auto
  next
    case False
    then have new: "tx_txid tx \<notin> dr_txid ` set (db_deposits (st_db st))" by (simp add: recorded_def)
    have above: "\<not> tx_height tx < ac_xmr_height (object o1 st)" using ok(4) by (simp add: height_below_def not_less)
    obtain st1 where st1: "process_tx ?id o1 tx st = Inr st1"
      "between o1 (r\<lparr>ar_balance := ar_balance r + tx_amount tx, ar_xmr_height := tx_height tx - 1\<rparr>) address st1"
      "ac_xmr_height (object o1 st1) = ar_xmr_height r"
      "db_deposits (st_db st1) = db_deposits (st_db st) @ [deposit_row_of ?id (ac_id (object o1 st)) tx address]"
      using new_deposit_effect [OF Cons.prems(1) ok(1) above new, of ?id] by blast
    let ?r1 = "r\<lparr>ar_balance := ar_balance r + tx_amount tx, ar_xmr_height := tx_height tx - 1\<rparr>"
    have rec1: "recorded st1 = insert (tx_txid tx) (recorded st)"
      using st1(4) by (auto simp: recorded_def deposit_row_of_def)
    have "tx_height tx - 1 \<le> tx_height tx"
      using ok(3) by (intro word_sub_le) (metis linorder_not_less word_less_1 word_gt_0)
    then have below1: "height_below o1 h st1" if "tx_height tx \<le> h" for h
      using that st1(2,3) ok(4) row by (auto simp: height_below_def between_def)
    have "all_confirmed st1" using Cons.prems(2) st1(4) ok(2) by (auto simp: all_confirmed_def deposit_row_of_def)
    then have "\<exists>st' r'. process_txs new_id o1 txs st1 = Inr st' \<and> between o1 r' address st' \<and> all_confirmed st'
      \<and> ar_balance r' = ar_balance ?r1 + sum_list (map tx_amount (new_txs (recorded st1) txs))
      \<and> recorded st' = recorded st1 \<union> tx_txid ` set txs
      \<and> (\<forall>h. (\<forall>tx \<in> set txs. tx_height tx \<le> h) \<longrightarrow> height_below o1 h st1 \<longrightarrow> height_below o1 h st')"
      by (intro Cons.IH [OF st1(2)]) (use Cons.prems(3) sorted later below1 in auto)
    then show ?thesis using st1(1) rec1 below1 False by (fastforce simp: add.assoc)
  qed
qed auto

section \<open>Properties\<close>

text \<open>C6: Confirmed transfers to the address of an account that come in ascending order of their heights, which
  are positive and not below the height stored for the account, are credited exactly once: the balance grows by the
  sum of those that were not recorded, each transaction id counted once, all of them are recorded afterwards, and
  scanning the list again changes nothing. It is assumed that the ids and numbers fit the statements they are written
  into, that every recorded deposit is confirmed and belongs to an existing account, and that no transaction is open and
  the statements of the database succeed. An unconfirmed transfer is the case of \<open>pending_deposit_credited_twice\<close>,
  and transfers out of order that of \<open>earlier_transfer_is_skipped\<close>.\<close>

theorem confirmed_deposits_credited_once:
  assumes "between o1 r address st" "all_confirmed st" "sorted (map tx_height txs)"
    and "\<forall>tx \<in> set txs. acceptable address tx \<and> tx_confirmed tx \<and> 0 < tx_height tx \<and> height_below o1 (tx_height tx) st"
  shows "\<exists>st' r'. process_txs new_id o1 txs st = Inr st' \<and> row_of o1 st' = Some r'
    \<and> ar_balance r' = ar_balance r + sum_list (map tx_amount (new_txs (recorded st) txs))
    \<and> recorded st' = recorded st \<union> tx_txid ` set txs
    \<and> (\<exists>st''. process_txs new_id o1 txs st' = Inr st'' \<and> st_db st'' = st_db st')"
proof -
  obtain st' r' where st': "process_txs new_id o1 txs st = Inr st'" "between o1 r' address st'" "all_confirmed st'"
    "ar_balance r' = ar_balance r + sum_list (map tx_amount (new_txs (recorded st) txs))"
    "recorded st' = recorded st \<union> tx_txid ` set txs"
    using process_txs_effect [OF assms(1,2,4,3), of new_id] by blast
  have again: "\<exists>st2. process_txs new_id o1 ts st1 = Inr st2 \<and> st_db st2 = st_db st1"
    if "between o1 r' address st1" "st_db st1 = st_db st'" "\<forall>tx \<in> set ts. acceptable address tx" "tx_txid ` set ts \<subseteq> recorded st'"
    for ts st1
    using that
  proof (induction ts arbitrary: st1)
    case (Cons tx ts)
    then obtain d where d: "List.find (\<lambda>d. dr_txid d = tx_txid tx) (db_deposits (st_db st1)) = Some d"
      by (cases "List.find (\<lambda>d. dr_txid d = tx_txid tx) (db_deposits (st_db st1))")
        (force simp: recorded_def find_None_iff)+
    then have "dr_status d = DEPOSIT_CONFIRMED"
      using st'(3) Cons.prems(2) by (auto simp: all_confirmed_def find_Some_iff)
    then obtain st2 where "process_tx (new_id (db_rows (st_db st1))) o1 tx st1 = Inr st2" "between o1 r' address st2" "st_db st2 = st_db st1"
      using known_deposit_effect [OF Cons.prems(1) _ d] Cons.prems(3) by auto
    then show ?case using Cons.IH [of st2] Cons.prems by auto
  qed simp
  have "\<exists>st''. process_txs new_id o1 txs st' = Inr st'' \<and> st_db st'' = st_db st'"
    using again [OF st'(2) refl, of txs] assms(4) st'(5) by auto
  then show ?thesis using st' by (auto simp: between_def)
qed

text \<open>The store of the witnesses: account 7 with a deposit address.\<close>

definition depositor :: accounts_row where
  "depositor = sample_row\<lparr>ar_xmr_deposit_address := [90]\<rparr>"

definition deposit_store :: store where
  "deposit_store = \<lparr>st_db = \<lparr>db_rows = ([depositor], [], []), db_saved = None, db_aborted = False, db_faults = []\<rparr>,
     st_objects = (\<lambda>_. account_of_row 7 depositor), st_next = 1, st_notices = []\<rparr>"

definition sample_tx :: "byte \<Rightarrow> 64 word \<Rightarrow> 64 word \<Rightarrow> bool \<Rightarrow> tx" where
  "sample_tx k height amount confirmed = \<lparr>tx_txid = [k], tx_address = [90], tx_amount = amount, tx_fee = 0,
     tx_unlock_time = 0, tx_timestamp = 1000, tx_height = height, tx_confirmed = confirmed\<rparr>"

lemma fits_20_small: "unat x < 10 ^ 19 \<Longrightarrow> fits_20 x"
  using decimal_length [of "unat x" 19] by (simp add: fits_20_def)

lemma deposit_store_ready: "between 0 depositor [90] deposit_store" "all_confirmed deposit_store" "recorded deposit_store = {}"
  "ac_xmr_height (object 0 deposit_store) = 0"
  by (simp_all add: between_def service_ready_def deposit_store_def steady_def object_def account_of_row_def fits_20_small
      atoi_id_def row_of_def account_row_def find_account_def depositor_def sample_row_def new_row_def deposits_ok_def
      db_deposits_def all_confirmed_def recorded_def)

theorem confirmed_deposits_credited_once_witness:
  "\<exists>st'. process_txs (\<lambda>_. 1) 0 [sample_tx 1 10 5 True, sample_tx 2 11 6 True, sample_tx 1 11 5 True] deposit_store = Inr st'
    \<and> map_option ar_balance (row_of 0 st') = Some 111"
proof -
  let ?txs = "[sample_tx 1 10 5 True, sample_tx 2 11 6 True, sample_tx 1 11 5 True]"
  have row: "row_of 0 deposit_store = Some depositor" "ar_xmr_height depositor = 0" "ar_balance depositor = 100"
    using deposit_store_ready(1) by (simp_all add: between_def depositor_def sample_row_def new_row_def)
  have "\<forall>tx \<in> set ?txs. acceptable [90] tx \<and> tx_confirmed tx \<and> 0 < tx_height tx \<and> height_below 0 (tx_height tx) deposit_store"
    using deposit_store_ready(4) row by (simp add: acceptable_def sample_tx_def fits_20_small sql_text_def height_below_def)
  moreover have "sorted (map tx_height ?txs)" by (simp add: sample_tx_def)
  ultimately obtain st' r' where "process_txs (\<lambda>_. 1) 0 ?txs deposit_store = Inr st'" "row_of 0 st' = Some r'"
    "ar_balance r' = ar_balance depositor + sum_list (map tx_amount (new_txs {} ?txs))"
    using confirmed_deposits_credited_once [OF deposit_store_ready(1,2), of ?txs "\<lambda>_. 1"] unfolding deposit_store_ready(3) by blast
  moreover have "new_txs {} ?txs = [sample_tx 1 10 5 True, sample_tx 2 11 6 True]" by (simp add: sample_tx_def)
  ultimately show ?thesis using row(3) by (auto simp: sample_tx_def)
qed

text \<open>Transfers that do not come in the order of their heights: crediting the second of two new transfers reads back the
  height that was stored for the first, and a third one that lies further below is skipped, neither credited nor
  recorded.\<close>

theorem earlier_transfer_is_skipped:
  assumes "between o1 r address st" "\<forall>tx \<in> {tx1, tx2, tx3}. acceptable address tx \<and> tx_txid tx \<notin> recorded st"
    and "tx_txid tx1 \<noteq> tx_txid tx2" "tx_txid tx3 \<notin> {tx_txid tx1, tx_txid tx2}"
    and "\<not> tx_height tx1 < ac_xmr_height (object o1 st)" "\<not> tx_height tx2 < ar_xmr_height r"
    and "tx_height tx3 < tx_height tx1 - 1"
  shows "\<exists>st'. process_txs new_id o1 [tx1, tx2, tx3] st = Inr st'
    \<and> map_option ar_balance (row_of o1 st') = Some (ar_balance r + tx_amount tx1 + tx_amount tx2)
    \<and> tx_txid tx3 \<notin> recorded st'"
proof -
  let ?r1 = "r\<lparr>ar_balance := ar_balance r + tx_amount tx1, ar_xmr_height := tx_height tx1 - 1\<rparr>"
  let ?r2 = "?r1\<lparr>ar_balance := ar_balance ?r1 + tx_amount tx2, ar_xmr_height := tx_height tx2 - 1\<rparr>"
  have tx: "acceptable address tx1" "acceptable address tx2" "acceptable address tx3"
    "tx_txid tx1 \<notin> recorded st" "tx_txid tx2 \<notin> recorded st" "tx_txid tx3 \<notin> recorded st" using assms(2) by auto
  obtain st1 where st1: "process_tx (new_id (db_rows (st_db st))) o1 tx1 st = Inr st1" "between o1 ?r1 address st1"
    "ac_xmr_height (object o1 st1) = ar_xmr_height r" "recorded st1 = insert (tx_txid tx1) (recorded st)"
    using new_deposit_effect [OF assms(1) tx(1) assms(5), of "new_id (db_rows (st_db st))"] tx(4)
    by (auto simp: recorded_def deposit_row_of_def)
  have new2: "\<not> tx_height tx2 < ac_xmr_height (object o1 st1)" "tx_txid tx2 \<notin> dr_txid ` set (db_deposits (st_db st1))"
    using st1(3,4) tx(5) assms(3,6) by (simp_all add: recorded_def)
  obtain st2 where st2: "process_tx (new_id (db_rows (st_db st1))) o1 tx2 st1 = Inr st2" "between o1 ?r2 address st2"
    "ac_xmr_height (object o1 st2) = tx_height tx1 - 1" "recorded st2 = insert (tx_txid tx2) (recorded st1)"
    using new_deposit_effect [OF st1(2) tx(2) new2, of "new_id (db_rows (st_db st1))"]
    by (auto simp: recorded_def deposit_row_of_def)
  have "process_tx (new_id (db_rows (st_db st2))) o1 tx3 st2 = Inr st2"
    using st2(2,3) tx(3) assms(7) by (simp add: process_tx_def between_def acceptable_def)
  then have "process_txs new_id o1 [tx1, tx2, tx3] st = Inr st2" using st1(1) st2(1) by simp
  then show ?thesis using st2(2,4) st1(4) tx(6) assms(4) by (auto simp: between_def)
qed

theorem earlier_transfer_is_skipped_witness:
  "\<exists>st'. process_txs (\<lambda>_. 1) 0 [sample_tx 1 100 5 True, sample_tx 2 50 6 True, sample_tx 3 60 7 True] deposit_store = Inr st'
    \<and> map_option ar_balance (row_of 0 st') = Some 111"
  using earlier_transfer_is_skipped [OF deposit_store_ready(1), of "sample_tx 1 100 5 True" "sample_tx 2 50 6 True"
      "sample_tx 3 60 7 True" "\<lambda>_. 1"] deposit_store_ready(3,4)
  by (auto simp: acceptable_def sample_tx_def fits_20_small sql_text_def depositor_def sample_row_def new_row_def)

text \<open>C36: A transfer without confirmation is credited when it is first seen and once more when it is found
  confirmed.\<close>

theorem pending_deposit_credited_twice:
  assumes "between o1 r address st" "acceptable address tx" "\<not> tx_confirmed tx" "\<not> tx_height tx < ac_xmr_height (object o1 st)"
    and "tx_txid tx \<notin> recorded st" "\<not> tx_height tx < ar_xmr_height r"
  shows "\<exists>st1 st2. process_tx new_id o1 tx st = Inr st1 \<and> process_tx new_id2 o1 (tx\<lparr>tx_confirmed := True\<rparr>) st1 = Inr st2
    \<and> map_option ar_balance (row_of o1 st2) = Some (ar_balance r + 2 * tx_amount tx)"
proof -
  let ?r1 = "r\<lparr>ar_balance := ar_balance r + tx_amount tx, ar_xmr_height := tx_height tx - 1\<rparr>"
  let ?d = "deposit_row_of new_id (ac_id (object o1 st)) tx address"
  let ?tx = "tx\<lparr>tx_confirmed := True\<rparr>"
  obtain st1 where st1: "process_tx new_id o1 tx st = Inr st1" "between o1 ?r1 address st1"
    "ac_xmr_height (object o1 st1) = ar_xmr_height r" "db_deposits (st_db st1) = db_deposits (st_db st) @ [?d]"
    using new_deposit_effect [OF assms(1,2,4), of new_id] assms(5) unfolding recorded_def by blast
  have ready1: "service_ready o1 st1" and row1: "row_of o1 st1 = Some ?r1" and saved1: "db_saved (st_db st1) = None"
    and dok1: "deposits_ok st1" and addr1: "ac_xmr_deposit_address (object o1 st1) = address"
    using st1(2) by (simp_all add: between_def)
  have id: "dr_txid ?d = tx_txid tx" "dr_status ?d = DEPOSIT_PENDING" using assms(3) by (simp_all add: deposit_row_of_def)
  have "List.find (\<lambda>d. dr_txid d = tx_txid tx) (db_deposits (st_db st)) = None"
    using assms(5) by (force simp: recorded_def find_None_iff)
  then have "List.find (\<lambda>d. dr_txid d = sql_text (tx_txid ?tx)) (db_deposits (st_db st1)) = Some ?d"
    using assms(2) id(1) by (simp add: st1(4) find_append acceptable_def)
  then obtain st2 where st2: "deposit_getby_txid (tx_txid ?tx) st1 = Inr (Some ?d, st2)" "st_db st2 = st_db st1"
    "object o1 st2 = object o1 st1" "service_ready o1 st2"
    using getby_txid_some [OF ready1 dok1] by blast
  have row2: "row_of o1 st2 = Some ?r1" using row1 st2(2,3) by (simp add: row_of_def)
  obtain st3 where st3: "snd (with_db transaction_begin st2) = st3" "service_ready o1 st3" "row_of o1 st3 = row_of o1 st2"
    "object o1 st3 = object o1 st2"
    using begin_effect [OF st2(4)] saved1 st2(2) by auto
  obtain st4 where st4: "deposit_update_status (dr_id ?d) DEPOSIT_CONFIRMED st3 = (True, st4)" "service_ready o1 st4"
    "row_of o1 st4 = row_of o1 st3"
    using st3(2) by (simp add: deposit_update_status_def service_ready_def row_of_def)
  obtain st5 where st5: "credit o1 (tx_amount tx) st4 = Inr (True, st5)" "service_ready o1 st5"
    "row_of o1 st5 = Some (?r1\<lparr>ar_balance := ar_balance ?r1 + tx_amount tx\<rparr>)"
    using credit_effect [OF st4(2), of ?r1 "tx_amount tx"] st4(3) st3(3) row2 by auto
  obtain st6 where st6: "end_deposit o1 ?tx st5 = Inr st6"
    "row_of o1 st6 = Some (?r1\<lparr>ar_balance := ar_balance ?r1 + tx_amount tx, ar_xmr_height := tx_height tx - 1\<rparr>)"
    using end_deposit_effect [OF st5(2,3), of ?tx] assms(2) by (auto simp: acceptable_def)
  have "process_tx new_id2 o1 ?tx st1 = Inr st6"
    using assms(2,6) addr1 st1(3) st2(1) id(2) st3(1) st4(1) st5(1) st6(1)
    by (simp add: process_tx_def acceptable_def confirm_deposit_def Let_def DEPOSIT_PENDING_def DEPOSIT_CONFIRMED_def)
  then show ?thesis using st1(1) st6(2) by (auto simp: add.assoc)
qed

theorem pending_deposit_credited_twice_witness:
  "\<exists>st1 st2. process_tx 1 0 (sample_tx 1 10 5 False) deposit_store = Inr st1
    \<and> process_tx 2 0 (sample_tx 1 10 5 True) st1 = Inr st2 \<and> map_option ar_balance (row_of 0 st2) = Some 110"
proof -
  have "acceptable [90] (sample_tx 1 10 5 False)"
    by (simp add: acceptable_def sample_tx_def fits_20_small sql_text_def)
  then show ?thesis
    using pending_deposit_credited_twice [OF deposit_store_ready(1), of "sample_tx 1 10 5 False" 1 2] deposit_store_ready(3,4)
    by (simp add: sample_tx_def depositor_def sample_row_def new_row_def)
qed

text \<open>When the wallet does not tell its height, the height that is written for an account is the largest
  64-bit number, which does not fit the buffer it is printed into.\<close>

theorem unknown_height_overflows:
  assumes "process_txs new_id o1 txs st = Inr st'" "ac_xmr_height (object o1 st') \<noteq> - 1"
  shows "check_account new_id 0 o1 (Some txs) st = Inl OutOfRange"
proof -
  have "19 < length (decimal (unat (- 1 :: 64 word)))" by (rule decimal_length_ge) (simp add: unsigned_minus_1_eq_mask mask_eq_exp_minus_1)
  then have "\<not> fits_20 (- 1)" by (simp add: fits_20_def)
  moreover have "ac_xmr_height (object o1 st') < - 1" using assms(2) by (simp add: word_order.not_eq_extremum)
  ultimately show ?thesis using assms(1) by (simp add: check_account_def update_xmr_height_def)
qed

theorem unknown_height_overflows_witness: "check_account (\<lambda>_. 1) 0 0 (Some []) deposit_store = Inl OutOfRange"
  using unknown_height_overflows [of "\<lambda>_. 1" 0 "[]" deposit_store] deposit_store_ready(4) by simp

end
