(* ===== verification/Trie.thy ===== *)
theory Trie
  imports Bytes
begin

text \<open>
  The ASCII trie of \<open>src/src/trie.c\<close>, in which the lobby keeps the clients of its session tokens. The
  nodes lie in memory: they are named by number, and the operations change the arrays of children,
  the parents and the counts of children as the code does. A character is a signed byte: one above 127 is a
  negative index into the array of children.
\<close>

section \<open>Nodes\<close>

record tnode =
  tn_map :: "nat \<Rightarrow> nat option"
  tn_parent :: "nat option"
  tn_value :: "nat option"
  tn_len :: int
  tn_index :: nat

record trie =
  tr_root :: nat
  tr_node :: "nat \<Rightarrow> tnode"
  tr_next :: nat
  tr_freed :: "nat list"

definition trie_node_new :: tnode where
  "trie_node_new = \<lparr>tn_map = (\<lambda>_. None), tn_parent = None, tn_value = None, tn_len = 0, tn_index = 0\<rparr>"

definition trie_new :: "(nat \<Rightarrow> tnode) \<Rightarrow> trie" where
  "trie_new memory = \<lparr>tr_root = 0, tr_node = memory(0 := trie_node_new), tr_next = 1, tr_freed = []\<rparr>"

definition upd_node :: "nat \<Rightarrow> (tnode \<Rightarrow> tnode) \<Rightarrow> trie \<Rightarrow> trie" where
  "upd_node n f t = t\<lparr>tr_node := (tr_node t)(n := f (tr_node t n))\<rparr>"

section \<open>Operations\<close>

fun node_key :: "trie \<Rightarrow> nat \<Rightarrow> bytes \<Rightarrow> nat option outcome" where
  "node_key t n [] = Inr (Some n)"
| "node_key t n (c # cs) =
    (if 128 \<le> c then Inl OutOfRange
     else case tn_map (tr_node t n) (unat c) of None \<Rightarrow> Inr None | Some m \<Rightarrow> node_key t m cs)"

definition trie_get :: "trie \<Rightarrow> bytes \<Rightarrow> nat option outcome" where
  "trie_get t key = node_key t (tr_root t) key"

text \<open>From the node whose value was removed upwards, nodes without children and value are unlinked and
  freed. The fuel is the length of the key and one more, since every step goes to the parent.\<close>

fun unset_up :: "nat \<Rightarrow> nat option \<Rightarrow> trie \<Rightarrow> trie outcome" where
  "unset_up 0 n t = Inl Diverges"
| "unset_up (Suc fuel) None t = Inr t"
| "unset_up (Suc fuel) (Some n) t =
    (if n = tr_root t then Inr t
     else
       let parent = tn_parent (tr_node t n)
       in if tn_len (tr_node t n) = 0 \<and> tn_value (tr_node t n) = None
          then let t = (case parent of None \<Rightarrow> t
                 | Some p \<Rightarrow> upd_node p (\<lambda>nd. nd\<lparr>tn_len := tn_len nd - 1,
                     tn_map := (tn_map nd)(tn_index (tr_node t n) := None)\<rparr>) t)
               in unset_up fuel parent (t\<lparr>tr_freed := n # tr_freed t\<rparr>)
          else Inr t)"

definition trie_unset :: "trie \<Rightarrow> bytes \<Rightarrow> trie outcome" where
  "trie_unset t key = bindO (trie_get t key) (\<lambda>found. case found of None \<Rightarrow> Inr t
     | Some n \<Rightarrow> unset_up (length key + 1) (Some n) (upd_node n (\<lambda>nd. nd\<lparr>tn_value := None\<rparr>) t))"

text \<open>The path of the key is walked and the missing nodes are made.\<close>

definition add_child :: "nat \<Rightarrow> nat \<Rightarrow> trie \<Rightarrow> trie" where
  "add_child n c t =
    (let m = tr_next t;
         t = t\<lparr>tr_node := (tr_node t)(m := trie_node_new\<lparr>tn_index := c, tn_parent := Some n\<rparr>), tr_next := m + 1\<rparr>
     in upd_node n (\<lambda>nd. nd\<lparr>tn_map := (tn_map nd)(c := Some m), tn_len := tn_len nd + 1\<rparr>) t)"

fun set_path :: "nat \<Rightarrow> bytes \<Rightarrow> nat \<Rightarrow> trie \<Rightarrow> (nat \<times> trie) outcome" where
  "set_path n [] v t = Inr (n, upd_node n (\<lambda>nd. nd\<lparr>tn_value := Some v\<rparr>) t)"
| "set_path n (c # cs) v t =
    (if 128 \<le> c then Inl OutOfRange
     else case tn_map (tr_node t n) (unat c) of
         None \<Rightarrow> set_path (tr_next t) cs v (add_child n (unat c) t)
       | Some m \<Rightarrow> set_path m cs v t)"

definition trie_set :: "trie \<Rightarrow> bytes \<Rightarrow> nat \<Rightarrow> (nat \<times> trie) outcome" where
  "trie_set t key v = bindO (trie_unset t key) (\<lambda>t. set_path (tr_root t) key v t)"

section \<open>Walking\<close>

fun walk :: "(nat \<Rightarrow> tnode) \<Rightarrow> nat \<Rightarrow> nat list \<Rightarrow> nat option" where
  "walk nd n [] = Some n"
| "walk nd n (c # cs) = (case tn_map (nd n) c of None \<Rightarrow> None | Some m \<Rightarrow> walk nd m cs)"

definition ascii_key :: "bytes \<Rightarrow> bool" where
  "ascii_key key \<longleftrightarrow> list_all (\<lambda>c. c < 128) key"

definition path :: "bytes \<Rightarrow> nat list" where
  "path key = map unat key"

lemma path_simps [simp]: "path [] = []" "path (c # cs) = unat c # path cs" "length (path key) = length key"
  by (simp_all add: path_def)

lemma path_inj [simp]: "path a = path b \<longleftrightarrow> a = b"
proof -
  have "inj (unat :: byte \<Rightarrow> nat)" by (rule injI) (simp add: word_unat_eq_iff)
  then show ?thesis unfolding path_def by (rule inj_map_eq_map)
qed

lemma ascii_key_simps [simp]: "ascii_key []" "ascii_key (c # cs) \<longleftrightarrow> c < 128 \<and> ascii_key cs"
  by (simp_all add: ascii_key_def)

lemma node_key_walk: "ascii_key key \<Longrightarrow> node_key t n key = Inr (walk (tr_node t) n (path key))"
  by (induction key arbitrary: n) (auto split: option.split)

lemma walk_append: "walk nd n (xs @ ys) = Option.bind (walk nd n xs) (\<lambda>m. walk nd m ys)"
  by (induction xs arbitrary: n) (auto split: option.split)

lemma walk_snoc: "walk nd n (xs @ [c]) = Option.bind (walk nd n xs) (\<lambda>m. tn_map (nd m) c)"
  by (simp add: walk_append option.case_eq_if Option.bind_eq_None_conv split: Option.bind_split option.split)

section \<open>Well-formed tries\<close>

definition alive :: "trie \<Rightarrow> nat set" where
  "alive t = {n. n < tr_next t \<and> n \<notin> set (tr_freed t)}"

definition children :: "tnode \<Rightarrow> nat set" where
  "children nd = {c. tn_map nd c \<noteq> None}"

definition trie_ok :: "trie \<Rightarrow> bool" where
  "trie_ok t \<longleftrightarrow> tr_root t \<in> alive t \<and> tn_parent (tr_node t (tr_root t)) = None
     \<and> (\<forall>n \<in> alive t. \<forall>c m. tn_map (tr_node t n) c = Some m \<longrightarrow>
          c < 128 \<and> m \<in> alive t \<and> m \<noteq> tr_root t \<and> tn_parent (tr_node t m) = Some n \<and> tn_index (tr_node t m) = c)
     \<and> (\<forall>n \<in> alive t. tn_len (tr_node t n) = int (card (children (tr_node t n))))
     \<and> (\<forall>n \<in> alive t. n \<noteq> tr_root t \<longrightarrow> (\<exists>p \<in> alive t. tn_parent (tr_node t n) = Some p
          \<and> tn_map (tr_node t p) (tn_index (tr_node t n)) = Some n))
     \<and> distinct (tr_freed t) \<and> set (tr_freed t) \<subseteq> {..<tr_next t}"

text \<open>No node is kept for nothing, except \<open>n\<close>: every other leaf but the root has a value.\<close>

definition leaves_ok :: "nat option \<Rightarrow> trie \<Rightarrow> bool" where
  "leaves_ok except t \<longleftrightarrow> (\<forall>n \<in> alive t. n \<noteq> tr_root t \<longrightarrow> Some n \<noteq> except \<longrightarrow> tn_len (tr_node t n) = 0
     \<longrightarrow> tn_value (tr_node t n) \<noteq> None)"

lemma trie_okD:
  assumes "trie_ok t"
  shows "tr_root t \<in> alive t" "tn_parent (tr_node t (tr_root t)) = None"
    "n \<in> alive t \<Longrightarrow> tn_map (tr_node t n) c = Some m \<Longrightarrow> c < 128 \<and> m \<in> alive t \<and> m \<noteq> tr_root t
      \<and> tn_parent (tr_node t m) = Some n \<and> tn_index (tr_node t m) = c"
    "n \<in> alive t \<Longrightarrow> tn_len (tr_node t n) = int (card (children (tr_node t n)))"
    "n \<in> alive t \<Longrightarrow> n \<noteq> tr_root t \<Longrightarrow> \<exists>p \<in> alive t. tn_parent (tr_node t n) = Some p
      \<and> tn_map (tr_node t p) (tn_index (tr_node t n)) = Some n"
    "distinct (tr_freed t)" "set (tr_freed t) \<subseteq> {..<tr_next t}"
  using assms by (simp_all add: trie_ok_def)

lemma walk_alive: "trie_ok t \<Longrightarrow> n \<in> alive t \<Longrightarrow> walk (tr_node t) n ks = Some m \<Longrightarrow> m \<in> alive t"
proof (induction ks arbitrary: n)
  case (Cons k ks)
  then show ?case using trie_okD(3) [OF Cons.prems(1,2)] by (auto split: option.splits)
qed simp

text \<open>Two paths from the root do not meet.\<close>

lemma walk_inj:
  assumes "trie_ok t" "walk (tr_node t) (tr_root t) ks = Some m" "walk (tr_node t) (tr_root t) ks' = Some m"
  shows "ks = ks'"
  using assms(2,3)
proof (induction ks arbitrary: ks' m rule: rev_induct)
  case Nil
  show ?case
  proof (cases ks' rule: rev_cases)
    case (snoc xs c)
    then obtain p where "walk (tr_node t) (tr_root t) xs = Some p" "tn_map (tr_node t p) c = Some m"
      using Nil.prems(2) by (auto simp: walk_snoc Option.bind_eq_Some_conv)
    then show ?thesis
      using trie_okD(3) [OF assms(1)] walk_alive [OF assms(1) trie_okD(1) [OF assms(1)]] Nil.prems(1) by fastforce
  qed simp
next
  case (snoc k ks)
  obtain p where p: "walk (tr_node t) (tr_root t) ks = Some p" "tn_map (tr_node t p) k = Some m"
    using snoc.prems(1) by (auto simp: walk_snoc Option.bind_eq_Some_conv)
  have p_alive: "p \<in> alive t" by (rule walk_alive [OF assms(1) trie_okD(1) [OF assms(1)] p(1)])
  note m = trie_okD(3) [OF assms(1) p_alive p(2)]
  show ?case
  proof (cases ks' rule: rev_cases)
    case Nil
    then show ?thesis using snoc.prems(2) m by simp
  next
    case (snoc xs c)
    then obtain q where q: "walk (tr_node t) (tr_root t) xs = Some q" "tn_map (tr_node t q) c = Some m"
      using snoc.prems(2) by (auto simp: walk_snoc Option.bind_eq_Some_conv)
    have "q \<in> alive t" by (rule walk_alive [OF assms(1) trie_okD(1) [OF assms(1)] q(1)])
    then have "q = p" "c = k" using trie_okD(3) [OF assms(1) _ q(2)] m by auto
    then show ?thesis using snoc snoc.IH [OF p(1)] q(1) by simp
  qed
qed

text \<open>What is stored under a path.\<close>

definition value_at :: "trie \<Rightarrow> nat list \<Rightarrow> nat option" where
  "value_at t ks = Option.bind (walk (tr_node t) (tr_root t) ks) (\<lambda>n. tn_value (tr_node t n))"

definition trie_lookup :: "trie \<Rightarrow> bytes \<Rightarrow> nat option" where
  "trie_lookup t key = value_at t (path key)"

section \<open>Values\<close>

lemma walk_cong: "(\<And>n. tn_map (nd' n) = tn_map (nd n)) \<Longrightarrow> walk nd' n ks = walk nd n ks"
  by (induction ks arbitrary: n) (auto split: option.split)

lemma alive_upd [simp]: "alive (upd_node n f t) = alive t" "tr_root (upd_node n f t) = tr_root t"
  "tr_freed (upd_node n f t) = tr_freed t" "tr_next (upd_node n f t) = tr_next t"
  by (simp_all add: alive_def upd_node_def)

lemma upd_value_walk [simp]: "walk (tr_node (upd_node n (tn_value_update f) t)) a ks = walk (tr_node t) a ks"
  by (rule walk_cong) (simp add: upd_node_def)

lemma upd_value_ok [simp]: "trie_ok (upd_node n (tn_value_update f) t) = trie_ok t"
proof -
  have "tn_map (tr_node (upd_node n (tn_value_update f) t) a) = tn_map (tr_node t a)"
    "tn_parent (tr_node (upd_node n (tn_value_update f) t) a) = tn_parent (tr_node t a)"
    "tn_index (tr_node (upd_node n (tn_value_update f) t) a) = tn_index (tr_node t a)"
    "tn_len (tr_node (upd_node n (tn_value_update f) t) a) = tn_len (tr_node t a)"
    "children (tr_node (upd_node n (tn_value_update f) t) a) = children (tr_node t a)" for a
    by (simp_all add: upd_node_def children_def)
  then show ?thesis by (simp add: trie_ok_def)
qed

lemma value_at_upd:
  assumes "trie_ok t" "walk (tr_node t) (tr_root t) ks = Some n"
  shows "value_at (upd_node n (\<lambda>nd. nd\<lparr>tn_value := x\<rparr>) t) = (value_at t)(ks := x)"
proof
  fix ks'
  show "value_at (upd_node n (\<lambda>nd. nd\<lparr>tn_value := x\<rparr>) t) ks' = ((value_at t)(ks := x)) ks'"
    using walk_inj [OF assms(1) assms(2), of ks'] assms(2)
    by (cases "walk (tr_node t) (tr_root t) ks'") (auto simp: value_at_def, auto simp: upd_node_def)
qed

lemma children_finite: "trie_ok t \<Longrightarrow> n \<in> alive t \<Longrightarrow> finite (children (tr_node t n))"
  by (rule finite_subset [of _ "{..<128}"]) (auto simp: children_def dest: trie_okD(3))

lemma leaves_ok_child:
  assumes "trie_ok t" "leaves_ok (Some n) t" "n \<in> alive t" "tn_map (tr_node t n) c = Some m"
  shows "leaves_ok e t"
proof -
  have "c \<in> children (tr_node t n)" using assms(4) by (simp add: children_def)
  then have "card (children (tr_node t n)) \<noteq> 0" using children_finite [OF assms(1,3)] by auto
  then have "tn_len (tr_node t n) \<noteq> 0" using trie_okD(4) [OF assms(1,3)] by simp
  then show ?thesis using assms(2) by (auto simp: leaves_ok_def)
qed

section \<open>A new child\<close>

lemma add_child_node: "n \<noteq> tr_next t \<Longrightarrow> tr_node (add_child n c t) a =
  (if a = tr_next t then trie_node_new\<lparr>tn_index := c, tn_parent := Some n\<rparr>
   else if a = n then (tr_node t n)\<lparr>tn_map := (tn_map (tr_node t n))(c := Some (tr_next t)), tn_len := tn_len (tr_node t n) + 1\<rparr>
   else tr_node t a)"
  by (simp add: add_child_def Let_def upd_node_def)

lemma add_child_fields [simp]: "tr_root (add_child n c t) = tr_root t" "tr_freed (add_child n c t) = tr_freed t"
  "tr_next (add_child n c t) = tr_next t + 1"
  by (simp_all add: add_child_def Let_def)

text \<open>Node \<open>n\<close> has no child for the character \<open>c\<close>.\<close>

definition no_child :: "trie \<Rightarrow> nat \<Rightarrow> nat \<Rightarrow> bool" where
  "no_child t n c \<longleftrightarrow> trie_ok t \<and> n \<in> alive t \<and> tn_map (tr_node t n) c = None \<and> c < 128"

lemma no_childD:
  assumes "no_child t n c"
  shows "trie_ok t" "n \<in> alive t" "tn_map (tr_node t n) c = None" "c < 128"
  using assms by (simp_all add: no_child_def)

lemma add_child_fresh: "a \<in> alive t \<Longrightarrow> a \<noteq> tr_next t"
  by (auto simp: alive_def)

lemma add_child_nodes: "no_child t n c \<Longrightarrow> tr_node (add_child n c t) a =
  (if a = tr_next t then trie_node_new\<lparr>tn_index := c, tn_parent := Some n\<rparr>
   else if a = n then (tr_node t n)\<lparr>tn_map := (tn_map (tr_node t n))(c := Some (tr_next t)), tn_len := tn_len (tr_node t n) + 1\<rparr>
   else tr_node t a)"
  by (rule add_child_node) (auto simp: no_child_def alive_def)

lemma add_child_alive: "no_child t n c \<Longrightarrow> alive (add_child n c t) = insert (tr_next t) (alive t)"
proof -
  assume "no_child t n c"
  then have "tr_next t \<notin> set (tr_freed t)" by (auto simp: trie_ok_def no_child_def)
  then show ?thesis by (auto simp: alive_def)
qed

lemma add_child_walk:
  assumes nc: "no_child t n c"
  shows "a \<in> alive t \<Longrightarrow> walk (tr_node (add_child n c t)) a ks =
    (if ks \<noteq> [] \<and> last ks = c \<and> walk (tr_node t) a (butlast ks) = Some n then Some (tr_next t) else walk (tr_node t) a ks)"
proof (induction ks arbitrary: a)
  case (Cons k ks)
  note a = add_child_fresh [OF Cons.prems] and ok = no_childD(1) [OF nc] and free = no_childD(3) [OF nc]
  note add_child_nodes = add_child_nodes [OF nc]
  show ?case
  proof (cases "a = n \<and> k = c")
    case True
    have "tn_map (tr_node (add_child n c t) (tr_next t)) k' = None" for k' by (simp add: add_child_nodes trie_node_new_def)
    then have "walk (tr_node (add_child n c t)) (tr_next t) ks = (if ks = [] then Some (tr_next t) else None)"
      by (cases ks) simp_all
    moreover have "tn_map (tr_node (add_child n c t) n) c = Some (tr_next t)" using a True by (simp add: add_child_nodes)
    ultimately show ?thesis using True free by (cases "ks = []") auto
  next
    case False
    then have map: "tn_map (tr_node (add_child n c t) a) k = tn_map (tr_node t a) k" using a by (auto simp: add_child_nodes)
    show ?thesis
    proof (cases "tn_map (tr_node t a) k")
      case None
      then show ?thesis using False map by auto
    next
      case (Some b)
      then have "b \<in> alive t" using trie_okD(3) [OF ok Cons.prems] by blast
      then show ?thesis using Cons.IH [of b] Some map False by (cases "ks = []") auto
    qed
  qed
qed simp

lemma add_child_ok:
  assumes nc: "no_child t n c"
  shows "trie_ok (add_child n c t)"
proof -
  note ok = no_childD(1) [OF nc] and n = no_childD(2) [OF nc] and free = no_childD(3) [OF nc] and c = no_childD(4) [OF nc]
  note add_child_nodes = add_child_nodes [OF nc] and add_child_alive = add_child_alive [OF nc]
  let ?t = "add_child n c t"
  note fresh = add_child_fresh
  have map: "c' < 128 \<and> m \<in> alive ?t \<and> m \<noteq> tr_root t \<and> tn_parent (tr_node ?t m) = Some a \<and> tn_index (tr_node ?t m) = c'"
    if "a \<in> alive ?t" "tn_map (tr_node ?t a) c' = Some m" for a c' m
  proof (cases "a = n \<and> c' = c")
    case True
    then show ?thesis using that(2) fresh [OF n] fresh [OF trie_okD(1) [OF ok]] c by (auto simp: add_child_nodes add_child_alive)
  next
    case False
    then have "a \<in> alive t" "tn_map (tr_node t a) c' = Some m"
      using that by (auto simp: add_child_nodes add_child_alive trie_node_new_def split: if_splits)
    then show ?thesis using trie_okD(3) [OF ok] fresh by (auto simp: add_child_nodes add_child_alive)
  qed
  have children_n: "children (tr_node ?t n) = insert c (children (tr_node t n))"
    using fresh [OF n] by (auto simp: add_child_nodes children_def)
  have "c \<notin> children (tr_node t n)" using free by (simp add: children_def)
  then have card_n: "int (card (children (tr_node ?t n))) = tn_len (tr_node t n) + 1"
    using children_n children_finite [OF ok n] trie_okD(4) [OF ok n] by simp
  have len: "tn_len (tr_node ?t a) = int (card (children (tr_node ?t a)))" if "a \<in> alive ?t" for a
    using that trie_okD(4) [OF ok] card_n fresh [OF n]
    by (cases "a = n") (auto simp: add_child_nodes add_child_alive trie_node_new_def children_def)
  have parent: "\<exists>p \<in> alive ?t. tn_parent (tr_node ?t a) = Some p \<and> tn_map (tr_node ?t p) (tn_index (tr_node ?t a)) = Some a"
    if a_alive: "a \<in> alive ?t" and a_root: "a \<noteq> tr_root t" for a
  proof (cases "a = tr_next t")
    case True
    then show ?thesis using n fresh [OF n] by (auto simp: add_child_nodes add_child_alive)
  next
    case False
    then have a: "a \<in> alive t" using a_alive by (simp add: add_child_alive)
    then obtain p where p: "p \<in> alive t" "tn_parent (tr_node t a) = Some p" "tn_map (tr_node t p) (tn_index (tr_node t a)) = Some a"
      using trie_okD(5) [OF ok a a_root] by blast
    then have "\<not> (p = n \<and> tn_index (tr_node t a) = c)" using free by auto
    then show ?thesis using p fresh [OF p(1)] fresh [OF a] by (intro bexI [of _ p]) (auto simp: add_child_nodes add_child_alive)
  qed
  have "tn_parent (tr_node ?t (tr_root t)) = None"
    using trie_okD(1,2) [OF ok] fresh [OF trie_okD(1) [OF ok]] by (auto simp: add_child_nodes)
  moreover have "distinct (tr_freed t) \<and> set (tr_freed t) \<subseteq> {..<tr_next t + 1}" using ok by (auto simp: trie_ok_def)
  ultimately show ?thesis
    using map len parent trie_okD(1) [OF ok] unfolding trie_ok_def by (simp add: add_child_alive)
qed

lemma add_child_leaves:
  assumes nc: "no_child t n c" and "leaves_ok (Some n) t"
  shows "leaves_ok (Some (tr_next t)) (add_child n c t)"
proof -
  note n = no_childD(2) [OF nc]
  have "0 \<le> tn_len (tr_node t n)" using trie_okD(4) [OF no_childD(1) [OF nc] n] by simp
  then show ?thesis
    using assms(2) add_child_fresh [OF n] by (auto simp: leaves_ok_def add_child_nodes [OF nc] add_child_alive [OF nc])
qed

lemma add_child_values:
  assumes nc: "no_child t n c" and "walk (tr_node t) (tr_root t) ks = Some n"
  shows "value_at (add_child n c t) = value_at t"
    "walk (tr_node (add_child n c t)) (tr_root t) (ks @ [c]) = Some (tr_next t)"
proof -
  note ok = no_childD(1) [OF nc] and free = no_childD(3) [OF nc] and add_child_nodes = add_child_nodes [OF nc]
  note walk = add_child_walk [OF nc trie_okD(1) [OF ok]]
  show "walk (tr_node (add_child n c t)) (tr_root t) (ks @ [c]) = Some (tr_next t)" using assms(2) by (simp add: walk)
  have val: "tn_value (tr_node (add_child n c t) m) = (if m = tr_next t then None else tn_value (tr_node t m))" for m
    by (simp add: add_child_nodes trie_node_new_def)
  have "walk (tr_node t) (tr_root t) ks' = None"
    if "ks' \<noteq> []" "last ks' = c" "walk (tr_node t) (tr_root t) (butlast ks') = Some n" for ks'
    using that free by (cases ks' rule: rev_cases) (auto simp: walk_snoc)
  moreover have "m \<noteq> tr_next t" if "walk (tr_node t) (tr_root t) ks' = Some m" for ks' m
    using add_child_fresh walk_alive [OF ok trie_okD(1) [OF ok] that] by blast
  moreover have "tr_root t \<noteq> tr_next t" by (rule add_child_fresh [OF trie_okD(1) [OF ok]])
  ultimately show "value_at (add_child n c t) = value_at t"
    by (auto simp: value_at_def walk val fun_eq_iff Option.bind_eq_None_conv split: if_splits intro!: Option.bind_cong)
qed

end
