(* ===== verification/Trie_Map.thy ===== *)
theory Trie_Map
  imports Trie
begin

text \<open>
  The trie is a map: \<open>set\<close> updates it, \<open>unset\<close> removes, both keep the trie well formed and keep no node
  for nothing.
\<close>

lemma upd_node_node: "tr_node (upd_node n f t) a = (if a = n then f (tr_node t n) else tr_node t a)"
  by (simp add: upd_node_def)

section \<open>Setting\<close>

lemma set_path_effect:
  assumes "trie_ok t" "leaves_ok (Some n) t" "walk (tr_node t) (tr_root t) ks = Some n" "ascii_key cs"
  shows "\<exists>m t'. set_path n cs v t = Inr (m, t') \<and> trie_ok t' \<and> leaves_ok None t' \<and> tr_root t' = tr_root t
    \<and> value_at t' = (value_at t)(ks @ path cs := Some v) \<and> walk (tr_node t') (tr_root t') (ks @ path cs) = Some m"
  using assms
proof (induction cs arbitrary: n ks t)
  case Nil
  have "leaves_ok None (upd_node n (\<lambda>nd. nd\<lparr>tn_value := Some v\<rparr>) t)"
    using Nil.prems(2) unfolding leaves_ok_def by (simp add: upd_node_node)
  then show ?case using Nil.prems(1,3) value_at_upd [OF Nil.prems(1,3)] by (simp add: fun_upd_def)
next
  case (Cons c cs)
  have n: "n \<in> alive t" by (rule walk_alive [OF Cons.prems(1) trie_okD(1) [OF Cons.prems(1)] Cons.prems(3)])
  have c: "unat c < 128" "\<not> 128 \<le> c" using Cons.prems(4) by (simp_all add: word_less_nat_alt not_le)
  show ?case
  proof (cases "tn_map (tr_node t n) (unat c)")
    case None
    then have nc: "no_child t n (unat c)" using Cons.prems(1) n c(1) by (simp add: no_child_def)
    note vals = add_child_values [OF nc Cons.prems(3)]
    have "walk (tr_node (add_child n (unat c) t)) (tr_root (add_child n (unat c) t)) (ks @ [unat c]) = Some (tr_next t)"
      using vals(2) by simp
    from Cons.IH [OF add_child_ok [OF nc] add_child_leaves [OF nc Cons.prems(2)] this]
    show ?thesis using Cons.prems(4) None c(2) vals(1) by simp
  next
    case (Some m)
    have "walk (tr_node t) (tr_root t) (ks @ [unat c]) = Some m" using Cons.prems(3) Some by (simp add: walk_snoc)
    from Cons.IH [OF Cons.prems(1) leaves_ok_child [OF Cons.prems(1,2) n Some] this]
    show ?thesis using Cons.prems(4) Some c(2) by simp
  qed
qed

section \<open>Removing a leaf\<close>

definition unlink :: "nat \<Rightarrow> nat \<Rightarrow> trie \<Rightarrow> trie" where
  "unlink p n t = (upd_node p (\<lambda>nd. nd\<lparr>tn_len := tn_len nd - 1, tn_map := (tn_map nd)(tn_index (tr_node t n) := None)\<rparr>) t)
     \<lparr>tr_freed := n # tr_freed t\<rparr>"

text \<open>Node \<open>n\<close> is a leaf without a value and \<open>p\<close> is its parent.\<close>

definition bare_leaf :: "trie \<Rightarrow> nat \<Rightarrow> nat \<Rightarrow> bool" where
  "bare_leaf t p n \<longleftrightarrow> trie_ok t \<and> n \<in> alive t \<and> n \<noteq> tr_root t \<and> tn_len (tr_node t n) = 0 \<and> tn_value (tr_node t n) = None
     \<and> tn_parent (tr_node t n) = Some p"

lemma bare_leaf_parent:
  assumes "bare_leaf t p n"
  shows "p \<in> alive t" "tn_map (tr_node t p) (tn_index (tr_node t n)) = Some n" "p \<noteq> n" "tn_map (tr_node t n) c = None"
proof -
  have ok: "trie_ok t" "n \<in> alive t" "n \<noteq> tr_root t" "tn_parent (tr_node t n) = Some p" "tn_len (tr_node t n) = 0"
    using assms by (simp_all add: bare_leaf_def)
  obtain q where "q \<in> alive t" "tn_parent (tr_node t n) = Some q" "tn_map (tr_node t q) (tn_index (tr_node t n)) = Some n"
    using trie_okD(5) [OF ok(1-3)] by blast
  then show p: "p \<in> alive t" "tn_map (tr_node t p) (tn_index (tr_node t n)) = Some n" using ok(4) by simp_all
  have "children (tr_node t n) = {}"
    using trie_okD(4) [OF ok(1,2)] ok(5) children_finite [OF ok(1,2)] by simp
  then show none: "tn_map (tr_node t n) c = None" for c by (auto simp: children_def)
  show "p \<noteq> n" using p(2) none by auto
qed

lemma unlink_node:
  "tr_node (unlink p n t) a = (if a = p then (tr_node t p)\<lparr>tn_len := tn_len (tr_node t p) - 1,
     tn_map := (tn_map (tr_node t p))(tn_index (tr_node t n) := None)\<rparr> else tr_node t a)"
  "tr_root (unlink p n t) = tr_root t" "tr_next (unlink p n t) = tr_next t" "tr_freed (unlink p n t) = n # tr_freed t"
  "alive (unlink p n t) = alive t - {n}"
  by (auto simp: unlink_def upd_node_def alive_def)

lemma unlink_map: "tn_map (tr_node (unlink p n t) a) c =
    (if a = p \<and> c = tn_index (tr_node t n) then None else tn_map (tr_node t a) c)"
  by (simp add: unlink_node)

lemma unlink_walk:
  assumes leaf: "bare_leaf t p n"
  shows "a \<in> alive t \<Longrightarrow> a \<noteq> n \<Longrightarrow> walk (tr_node (unlink p n t)) a ks =
    (if walk (tr_node t) a ks = Some n then None else walk (tr_node t) a ks)"
proof (induction ks arbitrary: a)
  case (Cons c ks)
  note parent = bare_leaf_parent [OF leaf]
  have ok: "trie_ok t" using leaf by (simp add: bare_leaf_def)
  show ?case
  proof (cases "a = p \<and> c = tn_index (tr_node t n)")
    case True
    then have "walk (tr_node t) a (c # ks) = walk (tr_node t) n ks" using parent(2) by simp
    also have "\<dots> = (if ks = [] then Some n else None)" using parent(4) by (cases ks) simp_all
    finally show ?thesis using True unlink_map [of p n t a c] by simp
  next
    case False
    then have map: "tn_map (tr_node (unlink p n t) a) c = tn_map (tr_node t a) c" by (simp only: unlink_map if_False)
    show ?thesis
    proof (cases "tn_map (tr_node t a) c")
      case (Some b)
      note b = trie_okD(3) [OF ok Cons.prems(1) Some]
      have "tn_parent (tr_node t n) = Some p" using leaf by (simp add: bare_leaf_def)
      then have "b \<noteq> n" using b False by auto
      then show ?thesis using Cons.IH [of b] b Some map by simp
    qed (simp add: map)
  qed
qed simp

lemma unlink_ok:
  assumes leaf: "bare_leaf t p n"
  shows "trie_ok (unlink p n t)"
proof -
  let ?t = "unlink p n t"
  note parent = bare_leaf_parent [OF leaf]
  have ok: "trie_ok t" and n: "n \<in> alive t" "n \<noteq> tr_root t" "tn_parent (tr_node t n) = Some p"
    using leaf by (simp_all add: bare_leaf_def)
  have same: "tn_parent (tr_node ?t a) = tn_parent (tr_node t a)" "tn_index (tr_node ?t a) = tn_index (tr_node t a)" for a
    by (simp_all add: unlink_node)
  have map: "c < 128 \<and> m \<in> alive ?t \<and> m \<noteq> tr_root t \<and> tn_parent (tr_node ?t m) = Some a \<and> tn_index (tr_node ?t m) = c"
    if "a \<in> alive ?t" "tn_map (tr_node ?t a) c = Some m" for a c m
  proof -
    have "a \<in> alive t" "tn_map (tr_node t a) c = Some m" "\<not> (a = p \<and> c = tn_index (tr_node t n))"
      using that unlink_map [of p n t a c] by (auto simp: unlink_node split: if_splits)
    then show ?thesis using trie_okD(3) [OF ok, of a c m] n(3) by (auto simp: unlink_node(5) same)
  qed
  have children_p: "children (tr_node ?t p) = children (tr_node t p) - {tn_index (tr_node t n)}"
    by (auto simp: children_def unlink_node)
  have "tn_index (tr_node t n) \<in> children (tr_node t p)" using parent(2) by (simp add: children_def)
  then have "card (children (tr_node t p)) = Suc (card (children (tr_node ?t p)))"
    using card_Suc_Diff1 [OF children_finite [OF ok parent(1)]] children_p by simp
  then have "int (card (children (tr_node ?t p))) = tn_len (tr_node t p) - 1"
    using trie_okD(4) [OF ok parent(1)] by simp
  then have len: "tn_len (tr_node ?t a) = int (card (children (tr_node ?t a)))" if "a \<in> alive ?t" for a
    using that trie_okD(4) [OF ok, of a] by (cases "a = p") (auto simp: unlink_node children_def)
  have up: "\<exists>q \<in> alive ?t. tn_parent (tr_node ?t a) = Some q \<and> tn_map (tr_node ?t q) (tn_index (tr_node ?t a)) = Some a"
    if a: "a \<in> alive ?t" "a \<noteq> tr_root t" for a
  proof -
    have "a \<in> alive t" "a \<noteq> n" using a(1) by (simp_all add: unlink_node)
    then obtain q where q: "q \<in> alive t" "tn_parent (tr_node t a) = Some q" "tn_map (tr_node t q) (tn_index (tr_node t a)) = Some a"
      using trie_okD(5) [OF ok _ a(2)] by blast
    have "q \<noteq> n" using q(3) parent(4) by auto
    then have "q \<in> alive ?t" using q(1) by (simp add: unlink_node(5))
    moreover have "\<not> (q = p \<and> tn_index (tr_node t a) = tn_index (tr_node t n))" using q(3) parent(2) \<open>a \<noteq> n\<close> by auto
    then have "tn_map (tr_node ?t q) (tn_index (tr_node t a)) = Some a" using q(3) by (simp only: unlink_map if_False)
    ultimately show ?thesis using q(2) unfolding same by blast
  qed
  have "distinct (n # tr_freed t) \<and> set (n # tr_freed t) \<subseteq> {..<tr_next t}"
    using trie_okD(6,7) [OF ok] n(1) by (simp add: alive_def)
  moreover have "tr_root t \<in> alive ?t" "tn_parent (tr_node ?t (tr_root t)) = None"
    using trie_okD(1,2) [OF ok] n(2) by (simp_all add: unlink_node(5) same)
  ultimately show ?thesis
    unfolding trie_ok_def unlink_node(2,3,4) using map len up by blast
qed

lemma unlink_values:
  assumes leaf: "bare_leaf t p n"
  shows "value_at (unlink p n t) = value_at t"
proof
  fix ks
  have ok: "trie_ok t" and n: "n \<noteq> tr_root t" "tn_value (tr_node t n) = None" using leaf by (simp_all add: bare_leaf_def)
  have "tn_value (tr_node (unlink p n t) m) = tn_value (tr_node t m)" for m by (simp add: unlink_node)
  moreover have "walk (tr_node (unlink p n t)) (tr_root t) ks =
    (if walk (tr_node t) (tr_root t) ks = Some n then None else walk (tr_node t) (tr_root t) ks)"
    using n by (intro unlink_walk [OF leaf trie_okD(1) [OF ok]]) simp
  ultimately show "value_at (unlink p n t) ks = value_at t ks"
    using n(2) by (cases "walk (tr_node t) (tr_root t) ks") (simp_all add: value_at_def unlink_node(2))
qed

lemma unset_up_effect:
  assumes "trie_ok t" "leaves_ok (Some n) t" "walk (tr_node t) (tr_root t) ks = Some n" "length ks < fuel"
  shows "\<exists>t'. unset_up fuel (Some n) t = Inr t' \<and> trie_ok t' \<and> leaves_ok None t' \<and> value_at t' = value_at t
    \<and> tr_root t' = tr_root t"
  using assms
proof (induction fuel arbitrary: n ks t)
  case (Suc fuel)
  have n: "n \<in> alive t" by (rule walk_alive [OF Suc.prems(1) trie_okD(1) [OF Suc.prems(1)] Suc.prems(3)])
  consider "n = tr_root t" | "n \<noteq> tr_root t" "\<not> (tn_len (tr_node t n) = 0 \<and> tn_value (tr_node t n) = None)"
    | "n \<noteq> tr_root t" "tn_len (tr_node t n) = 0" "tn_value (tr_node t n) = None" by blast
  then show ?case
  proof cases
    case 1
    then have "leaves_ok None t" using Suc.prems(2) by (auto simp: leaves_ok_def)
    then show ?thesis using 1 Suc.prems(1) by simp
  next
    case 2
    then have "leaves_ok None t" using Suc.prems(2) by (auto simp: leaves_ok_def)
    moreover have "unset_up (Suc fuel) (Some n) t = Inr t" by (simp only: unset_up.simps 2 Let_def if_False)
    ultimately show ?thesis using Suc.prems(1) by simp
  next
    case 3
    obtain xs c where ks: "ks = xs @ [c]" using Suc.prems(3) 3(1) by (cases ks rule: rev_cases) auto
    then obtain p where p: "walk (tr_node t) (tr_root t) xs = Some p" "tn_map (tr_node t p) c = Some n"
      using Suc.prems(3) by (auto simp: walk_snoc Option.bind_eq_Some_conv)
    have p_alive: "p \<in> alive t" by (rule walk_alive [OF Suc.prems(1) trie_okD(1) [OF Suc.prems(1)] p(1)])
    have parent: "tn_parent (tr_node t n) = Some p" using trie_okD(3) [OF Suc.prems(1) p_alive p(2)] by simp
    have leaf: "bare_leaf t p n" using Suc.prems(1) n 3 parent by (simp add: bare_leaf_def)
    let ?t = "unlink p n t"
    have "leaves_ok (Some p) ?t"
      using Suc.prems(2) by (auto simp: leaves_ok_def unlink_node)
    moreover have "walk (tr_node ?t) (tr_root ?t) xs = Some p"
      using unlink_walk [OF leaf trie_okD(1) [OF Suc.prems(1)]] p(1) 3(1) bare_leaf_parent(3) [OF leaf]
      by (simp add: unlink_node(2))
    moreover have "length xs < fuel" using Suc.prems(4) ks by simp
    ultimately obtain t' where "unset_up fuel (Some p) ?t = Inr t'" "trie_ok t'" "leaves_ok None t'"
      "value_at t' = value_at ?t" "tr_root t' = tr_root ?t"
      using Suc.IH [OF unlink_ok [OF leaf]] by blast
    moreover have "unset_up (Suc fuel) (Some n) t = unset_up fuel (Some p) ?t"
      using 3 parent by (simp add: unlink_def upd_node_def Let_def)
    ultimately show ?thesis using unlink_values [OF leaf] by (simp add: unlink_node(2))
  qed
qed simp

section \<open>The trie as a map\<close>

lemma trie_unset_effect:
  assumes "trie_ok t" "leaves_ok None t" "ascii_key key"
  shows "\<exists>t'. trie_unset t key = Inr t' \<and> trie_ok t' \<and> leaves_ok None t' \<and> value_at t' = (value_at t)(path key := None)"
proof (cases "walk (tr_node t) (tr_root t) (path key)")
  case None
  then have "value_at t = (value_at t)(path key := None)" by (simp add: value_at_def fun_eq_iff)
  then show ?thesis using None assms by (simp add: trie_unset_def trie_get_def node_key_walk)
next
  case (Some n)
  let ?t = "upd_node n (\<lambda>nd. nd\<lparr>tn_value := None\<rparr>) t"
  have "leaves_ok (Some n) ?t" using assms(2) by (simp add: leaves_ok_def upd_node_node)
  then obtain t' where "unset_up (length key + 1) (Some n) ?t = Inr t'" "trie_ok t'" "leaves_ok None t'" "value_at t' = value_at ?t"
    using unset_up_effect [of ?t n "path key" "length key + 1"] assms(1) Some by auto
  then show ?thesis
    using Some assms(3) value_at_upd [OF assms(1) Some] by (simp add: trie_unset_def trie_get_def node_key_walk)
qed

text \<open>A trie between operations.\<close>

definition trie_inv :: "trie \<Rightarrow> bool" where
  "trie_inv t \<longleftrightarrow> trie_ok t \<and> leaves_ok None t"

lemma trie_new_inv: "trie_inv (trie_new memory)" "trie_lookup (trie_new memory) key = None"
proof -
  have "alive (trie_new memory) = {0}" by (auto simp: alive_def trie_new_def)
  then show "trie_inv (trie_new memory)"
    by (simp add: trie_inv_def trie_ok_def leaves_ok_def) (simp add: trie_new_def trie_node_new_def children_def)
  show "trie_lookup (trie_new memory) key = None"
    by (cases key) (simp_all add: trie_lookup_def value_at_def trie_new_def trie_node_new_def)
qed

section \<open>The interface\<close>

text \<open>What the lobby relies on: a store that behaves as a map on the keys it accepts.\<close>

datatype ('k, 'v) map_op = Put 'k 'v | Del 'k

primrec op_key :: "('k, 'v) map_op \<Rightarrow> 'k" where
  "op_key (Put k v) = k"
| "op_key (Del k) = k"

primrec map_step :: "('k, 'v) map_op \<Rightarrow> ('k \<Rightarrow> 'v option) \<Rightarrow> 'k \<Rightarrow> 'v option" where
  "map_step (Put k v) m = m(k := Some v)"
| "map_step (Del k) m = m(k := None)"

fun run_ops :: "('s \<Rightarrow> 'k \<Rightarrow> 'v \<Rightarrow> 's outcome) \<Rightarrow> ('s \<Rightarrow> 'k \<Rightarrow> 's outcome) \<Rightarrow> ('k, 'v) map_op list \<Rightarrow> 's \<Rightarrow> 's outcome" where
  "run_ops put del [] s = Inr s"
| "run_ops put del (Put k v # ops) s = bindO (put s k v) (run_ops put del ops)"
| "run_ops put del (Del k # ops) s = bindO (del s k) (run_ops put del ops)"

locale map_store =
  fixes ok :: "'s \<Rightarrow> bool" and look :: "'s \<Rightarrow> 'k \<Rightarrow> 'v option" and put :: "'s \<Rightarrow> 'k \<Rightarrow> 'v \<Rightarrow> 's outcome"
    and del :: "'s \<Rightarrow> 'k \<Rightarrow> 's outcome" and key_ok :: "'k \<Rightarrow> bool"
  assumes put_law: "ok s \<Longrightarrow> key_ok k \<Longrightarrow> \<exists>s'. put s k v = Inr s' \<and> ok s' \<and> look s' = (look s)(k := Some v)"
    and del_law: "ok s \<Longrightarrow> key_ok k \<Longrightarrow> \<exists>s'. del s k = Inr s' \<and> ok s' \<and> look s' = (look s)(k := None)"
begin

lemma run_refines:
  assumes "ok s" "\<forall>x \<in> set ops. key_ok (op_key x)"
  shows "\<exists>s'. run_ops put del ops s = Inr s' \<and> ok s' \<and> look s' = fold map_step ops (look s)"
  using assms
proof (induction ops arbitrary: s)
  case (Cons x ops)
  show ?case
  proof (cases x)
    case (Put k v)
    then obtain s1 where s1: "put s k v = Inr s1" "ok s1" "look s1 = (look s)(k := Some v)"
      using put_law [OF Cons.prems(1), of k v] Cons.prems(2) by auto
    show ?thesis using Cons.IH [OF s1(2), unfolded s1(3)] Cons.prems(2) unfolding Put by (simp add: s1(1) fun_upd_def)
  next
    case (Del k)
    then obtain s1 where s1: "del s k = Inr s1" "ok s1" "look s1 = (look s)(k := None)"
      using del_law [OF Cons.prems(1), of k] Cons.prems(2) by auto
    show ?thesis using Cons.IH [OF s1(2), unfolded s1(3)] Cons.prems(2) unfolding Del by (simp add: s1(1) fun_upd_def)
  qed
qed simp

end

definition trie_put :: "trie \<Rightarrow> bytes \<Rightarrow> nat \<Rightarrow> trie outcome" where
  "trie_put t key v = bindO (trie_set t key v) (\<lambda>(_, t). Inr t)"

lemma trie_lookup_upd: "value_at t' = (value_at t)(path key := x) \<Longrightarrow> trie_lookup t' = (trie_lookup t)(key := x)"
  by (simp add: trie_lookup_def fun_eq_iff)

interpretation tokens: map_store trie_inv trie_lookup trie_put trie_unset ascii_key
proof
  fix t :: trie and key :: bytes and v :: nat
  assume inv: "trie_inv t" and key: "ascii_key key"
  obtain t1 where t1: "trie_unset t key = Inr t1" "trie_ok t1" "leaves_ok None t1" "value_at t1 = (value_at t)(path key := None)"
    using trie_unset_effect [OF _ _ key] inv by (auto simp: trie_inv_def)
  then show "\<exists>s'. trie_unset t key = Inr s' \<and> trie_inv s' \<and> trie_lookup s' = (trie_lookup t)(key := None)"
    using trie_lookup_upd by (auto simp: trie_inv_def)
  have "leaves_ok (Some (tr_root t1)) t1" using t1(3) by (simp add: leaves_ok_def)
  then obtain m t2 where t2: "set_path (tr_root t1) key v t1 = Inr (m, t2)" "trie_ok t2" "leaves_ok None t2"
    "value_at t2 = (value_at t1)(path key := Some v)"
    using set_path_effect [of t1 "tr_root t1" "[]" key v] t1(2) key by auto
  have "value_at t2 = (value_at t)(path key := Some v)" unfolding t2(4) t1(4) by (rule fun_upd_upd)
  then show "\<exists>s'. trie_put t key v = Inr s' \<and> trie_inv s' \<and> trie_lookup s' = (trie_lookup t)(key := Some v)"
    using t1(1) t2(1-3) trie_lookup_upd by (auto simp: trie_inv_def trie_put_def trie_set_def)
qed

section \<open>Properties\<close>

text \<open>C10: Any sequence of \<open>set\<close> and \<open>unset\<close> on ASCII keys ends, and \<open>get\<close> then finds what a map would
  hold; no node is freed twice, and every node that is kept, the root apart, has a value or a child.\<close>

theorem trie_refines_map:
  assumes "\<forall>x \<in> set ops. ascii_key (op_key x)" "ascii_key key"
  shows "\<exists>t n. run_ops trie_put trie_unset ops (trie_new memory) = Inr t \<and> trie_get t key = Inr n
    \<and> Option.bind n (\<lambda>n. tn_value (tr_node t n)) = fold map_step ops (\<lambda>_. None) key
    \<and> distinct (tr_freed t)
    \<and> (\<forall>m < tr_next t. m \<notin> set (tr_freed t) \<longrightarrow> m = tr_root t \<or> tn_len (tr_node t m) > 0 \<or> tn_value (tr_node t m) \<noteq> None)"
proof -
  have "trie_lookup (trie_new memory) = (\<lambda>_. None)" using trie_new_inv(2) by blast
  then obtain t where t: "run_ops trie_put trie_unset ops (trie_new memory) = Inr t" "trie_inv t"
    "trie_lookup t = fold map_step ops (\<lambda>_. None)"
    using tokens.run_refines [OF trie_new_inv(1) assms(1)] by metis
  have inv: "trie_ok t" "leaves_ok None t" using t(2) by (simp_all add: trie_inv_def)
  have "tn_len (tr_node t m) \<ge> 0" if "m \<in> alive t" for m using trie_okD(4) [OF inv(1) that] by simp
  then have "m = tr_root t \<or> tn_len (tr_node t m) > 0 \<or> tn_value (tr_node t m) \<noteq> None" if "m < tr_next t" "m \<notin> set (tr_freed t)" for m
    using inv(2) that unfolding leaves_ok_def alive_def by (metis (mono_tags) mem_Collect_eq option.distinct(1) order_le_less)
  moreover have "Option.bind (walk (tr_node t) (tr_root t) (path key)) (\<lambda>n. tn_value (tr_node t n)) = trie_lookup t key"
    by (simp add: trie_lookup_def value_at_def)
  ultimately show ?thesis
    using t(1,3) trie_okD(6) [OF inv(1)] assms(2) by (auto simp: trie_get_def node_key_walk)
qed

theorem trie_refines_map_witness:
  "\<exists>t n. run_ops trie_put trie_unset [Put [97, 98] 1, Put [97] 2, Put [97, 98, 99] 3, Del [97, 98]] (trie_new (\<lambda>_. undefined)) = Inr t
    \<and> trie_get t [97] = Inr n \<and> Option.bind n (\<lambda>n. tn_value (tr_node t n)) = Some 2"
  using trie_refines_map [of "[Put [97, 98] 1, Put [97] 2, Put [97, 98, 99] 3, Del [97, 98]]" "[97]" "\<lambda>_. undefined"]
  by auto

end
