(* ===== verification/Websocket_Handshake.thy ===== *)
theory Websocket_Handshake
  imports Websocket_Http
begin

text \<open>
  The handshake reads a well-formed request to its end and answers it with the key it computes
  from the request; a header line that does not fit its buffer is written past the end of it.
\<close>

text \<open>A request after its first eight bytes: the rest of the request line, then the headers.\<close>

definition header_line :: "bytes \<times> bytes \<Rightarrow> bytes" where
  "header_line h = fst h @ [58, 32] @ snd h @ crlf"

definition request_bytes :: "bytes \<Rightarrow> (bytes \<times> bytes) list \<Rightarrow> bytes" where
  "request_bytes line hs = line @ crlf @ concat (map header_line hs) @ crlf"

definition line_ok :: "bytes \<Rightarrow> bool" where
  "line_ok line \<longleftrightarrow> 13 \<notin> set line \<and> length line < 990"

definition header_ok :: "bytes \<times> bytes \<Rightarrow> bool" where
  "header_ok h \<longleftrightarrow> set (fst h) \<inter> {0, 13, 58} = {} \<and> length (fst h) \<le> 40
     \<and> set (snd h) \<inter> {0, 13} = {} \<and> length (snd h) \<le> 40"

fun key_of :: "bytes option \<Rightarrow> (bytes \<times> bytes) list \<Rightarrow> bytes option" where
  "key_of key [] = key"
| "key_of key ((n, v) # hs) = key_of (if n = ascii ''Sec-WebSocket-Key'' then Some v else key) hs"

text \<open>The machine on a list of bytes.\<close>

fun http_run :: "bytes \<Rightarrow> http \<Rightarrow> http outcome" where
  "http_run [] h = Inr h"
| "http_run (b # bs) h =
    bindO (http_byte b h) (\<lambda>r. case r of Next h \<Rightarrow> http_run bs h | _ \<Rightarrow> Inl Diverges)"

lemma http_run_append: "http_run (xs @ ys) h = bindO (http_run xs h) (http_run ys)"
proof (induction xs arbitrary: h)
  case (Cons x xs)
  then show ?case by (cases "http_byte x h") (auto split: http_result.splits)
qed simp

lemma cstring_id: "0 \<notin> set bs \<Longrightarrow> cstring bs = bs"
  by (auto simp: cstring_def takeWhile_eq_all_conv)

lemma run_line:
  assumes "ht_state h = HTTP_METHOD" "\<not> ht_is_cr h"
  shows "13 \<notin> set line \<Longrightarrow> ht_header_i h + length line \<le> 1000 \<Longrightarrow>
    http_run line h = Inr (h\<lparr>ht_header_i := ht_header_i h + length line\<rparr>)"
  using assms
proof (induction line arbitrary: h)
  case (Cons b line)
  have "http_byte b h = Inr (Next (h\<lparr>ht_header_i := ht_header_i h + 1\<rparr>))"
    using Cons.prems by (cases h) (auto simp: http_byte_def http_method_def HTTP_HEADER_BUFF_SIZE_def)
  then show ?case using Cons.IH [of "h\<lparr>ht_header_i := ht_header_i h + 1\<rparr>"] Cons.prems by simp
qed simp

lemma run_name:
  "58 \<notin> set n \<Longrightarrow> 13 \<notin> set n \<Longrightarrow> ht_state h = HTTP_PROP \<Longrightarrow> length (ht_prop h) + length n \<le> 41 \<Longrightarrow>
    http_run n h = Inr (h\<lparr>ht_prop := ht_prop h @ n\<rparr>)"
proof (induction n arbitrary: h)
  case (Cons b n)
  then have "http_byte b h = Inr (Next (h\<lparr>ht_prop := ht_prop h @ [b]\<rparr>))"
    by (simp add: http_byte_def http_prop_def put_buffer_def HTTP_PROP_BUFF_SIZE_def)
  then show ?case using Cons.IH [of "h\<lparr>ht_prop := ht_prop h @ [b]\<rparr>"] Cons.prems by simp
qed simp

lemma run_value:
  "13 \<notin> set v \<Longrightarrow> ht_state h = HTTP_VAL \<Longrightarrow> length (ht_val h) + length v \<le> 41 \<Longrightarrow>
    http_run v h = Inr (h\<lparr>ht_val := ht_val h @ v\<rparr>)"
proof (induction v arbitrary: h)
  case (Cons b v)
  then have "http_byte b h = Inr (Next (h\<lparr>ht_val := ht_val h @ [b]\<rparr>))"
    by (simp add: http_byte_def http_val_def put_buffer_def HTTP_PROP_BUFF_SIZE_def)
  then show ?case using Cons.IH [of "h\<lparr>ht_val := ht_val h @ [b]\<rparr>"] Cons.prems by simp
qed simp

text \<open>Where the machine stands between two lines.\<close>

definition at_line :: "bytes option \<Rightarrow> http \<Rightarrow> bool" where
  "at_line key h \<longleftrightarrow> ht_state h = HTTP_PROP \<and> ht_prop h = [] \<and> ht_val h = [] \<and> ht_key h = key"

lemma run_header:
  assumes "at_line key h" "header_ok (n, v)"
  shows "\<exists>h'. http_run (header_line (n, v)) h = Inr h'
    \<and> at_line (if n = ascii ''Sec-WebSocket-Key'' then Some v else key) h'"
proof -
  have ok: "58 \<notin> set n" "13 \<notin> set n" "0 \<notin> set n" "13 \<notin> set v" "0 \<notin> set v" "length n \<le> 40" "length v \<le> 40"
    using assms(2) by (auto simp: header_ok_def)
  have h: "ht_state h = HTTP_PROP" "ht_prop h = []" "ht_val h = []" "ht_key h = key"
    using assms(1) by (simp_all add: at_line_def)
  let ?h1 = "h\<lparr>ht_prop := n\<rparr>"
  let ?h2 = "?h1\<lparr>ht_state := HTTP_VAL, ht_prop_done := n, ht_prop := []\<rparr>"
  let ?h3 = "?h2\<lparr>ht_val := v\<rparr>"
  have c1: "http_run n h = Inr ?h1" using run_name [of n h] ok h by simp
  have c2: "http_run [58, 32] ?h1 = Inr ?h2"
    using h ok by (simp add: http_byte_def http_prop_def end_buffer_def HTTP_PROP_BUFF_SIZE_def cstring_id)
  have c3: "http_run v ?h2 = Inr ?h3" using run_value [of v ?h2] ok h by simp
  have "\<exists>h'. http_run crlf ?h3 = Inr h'
      \<and> at_line (if n = ascii ''Sec-WebSocket-Key'' then Some v else key) h'"
    using h ok by (simp add: crlf_def http_byte_def http_val_def http_cr_def end_buffer_def
        HTTP_PROP_BUFF_SIZE_def cstring_id at_line_def)
  then show ?thesis
    unfolding header_line_def fst_conv snd_conv by (simp only: http_run_append c1 c2 c3 bindO_Inr)
qed

lemma run_headers:
  "at_line key h \<Longrightarrow> list_all header_ok hs \<Longrightarrow>
    \<exists>h'. http_run (concat (map header_line hs)) h = Inr h' \<and> at_line (key_of key hs) h'"
proof (induction hs arbitrary: key h)
  case (Cons x hs)
  obtain n v where x: "x = (n, v)" by fastforce
  then obtain h1 where "http_run (header_line x) h = Inr h1"
    "at_line (if n = ascii ''Sec-WebSocket-Key'' then Some v else key) h1"
    using run_header [OF Cons.prems(1), of n v] Cons.prems(2) by auto
  then show ?case using Cons.IH Cons.prems(2) x by (auto simp: http_run_append)
qed auto

lemma request_run:
  assumes "line_ok line" "list_all header_ok hs" "key_of None hs = Some key"
  shows "\<exists>h. http_run (butlast (request_bytes line hs)) http_init = Inr h
    \<and> ht_state h = HTTP_END \<and> ht_key h = Some key"
proof -
  have line: "13 \<notin> set line" "length line < 990" using assms(1) by (auto simp: line_ok_def)
  let ?h1 = "http_init\<lparr>ht_header_i := 8 + length line\<rparr>"
  have "http_run line http_init = Inr ?h1"
    using run_line [of http_init line] line by (simp add: http_init_def)
  moreover have "\<exists>h. http_run crlf ?h1 = Inr h \<and> at_line None h"
    using line by (simp add: crlf_def http_byte_def http_method_def http_init_def HTTP_HEADER_BUFF_SIZE_def at_line_def)
  then obtain h2 where "http_run crlf ?h1 = Inr h2" "at_line None h2" by blast
  moreover obtain h3 where "http_run (concat (map header_line hs)) h2 = Inr h3" "at_line (Some key) h3"
    using run_headers [OF \<open>at_line None h2\<close> assms(2)] assms(3) by auto
  moreover have "\<exists>h. http_run [13] h3 = Inr h \<and> ht_state h = HTTP_END \<and> ht_key h = Some key"
    using \<open>at_line (Some key) h3\<close>
    by (simp add: http_byte_def http_prop_def put_buffer_def HTTP_PROP_BUFF_SIZE_def at_line_def)
  moreover have "butlast (request_bytes line hs) = line @ crlf @ concat (map header_line hs) @ [13]"
    by (simp add: request_bytes_def crlf_def butlast_append)
  ultimately show ?thesis by (auto simp: http_run_append)
qed

context byte_stream
begin

lemma read_byte:
  assumes "pending s = b # rest"
  shows "\<exists>s'. ssl_read recv 1 s = (Some [b], s') \<and> pending s' = rest \<and> sent s' = sent s"
  using read_prefix [of s "[b]" rest 1] assms by simp

lemma http_loop_run:
  "http_run bs h = Inr h' \<Longrightarrow> pending s = bs @ rest \<Longrightarrow> received + length bs \<le> 1000 \<Longrightarrow>
    \<exists>s'. http_loop (ssl_read recv) wr sha1 received h s
        = http_loop (ssl_read recv) wr sha1 (received + length bs) h' s'
      \<and> pending s' = rest \<and> sent s' = sent s"
proof (induction bs arbitrary: h s received)
  case Nil
  then show ?case by auto
next
  case (Cons b bs)
  obtain r where r: "http_byte b h = Inr r" "(case r of Next h \<Rightarrow> http_run bs h | _ \<Rightarrow> Inl Diverges) = Inr h'"
    using Cons.prems(1) by auto
  then obtain h1 where h1: "http_byte b h = Inr (Next h1)" "http_run bs h1 = Inr h'"
    by (cases r) auto
  obtain s1 where s1: "ssl_read recv 1 s = (Some [b], s1)" "pending s1 = bs @ rest" "sent s1 = sent s"
    using read_byte [of s b "bs @ rest"] Cons.prems(2) by auto
  have "http_loop (ssl_read recv) wr sha1 received h s = http_loop (ssl_read recv) wr sha1 (received + 1) h1 s1"
    using s1(1) h1(1) Cons.prems(3)
    by (simp add: http_loop.simps [of _ _ _ received] HTTP_HEADER_BUFF_SIZE_def)
  then show ?case using Cons.IH [OF h1(2) s1(2), of "received + 1"] Cons.prems(3) s1(3) by auto
qed

end

text \<open>C40: A request of at most 1000 bytes, with a request line of less than 990 without a carriage return and with headers
  whose names and values have at most 40 bytes each (and none of the bytes that end them, nor a null byte), the
  websocket key among them, is read to its last byte, and the answer is the switch of protocols with the accept key
  of the request's last \<open>Sec-WebSocket-Key\<close>.\<close>

theorem handshake_accepts:
  assumes "reliable recv pending sent send"
    and "pending s = request_bytes line hs @ rest" "line_ok line" "list_all header_ok hs"
    and "key_of None hs = Some key" "length (request_bytes line hs) \<le> 1000"
  shows "\<exists>s'. read_http_header (ssl_read recv) send sha1 s = Inr (length (request_bytes line hs), s')
    \<and> pending s' = rest \<and> sent s' = sent s @ handshake_response (accept_key sha1 key)"
proof -
  let ?req = "request_bytes line hs"
  have d: "duplex recv pending sent send" using reliable.axioms(1) [OF assms(1)] .
  then have b: "byte_stream recv pending sent" by (rule duplex.axioms(1))
  obtain h where h: "http_run (butlast ?req) http_init = Inr h" "ht_state h = HTTP_END" "ht_key h = Some key"
    using request_run [OF assms(3-5)] by blast
  have req: "?req = butlast ?req @ [10]" by (simp add: request_bytes_def crlf_def butlast_append)
  then have len: "length ?req = length (butlast ?req) + 1" by (metis One_nat_def length_append_singleton Suc_eq_plus1)
  have "pending s = butlast ?req @ 10 # rest"
    using assms(2) req by (metis append_Cons append_Nil append_assoc)
  moreover have "0 + length (butlast ?req) \<le> 1000" using assms(6) len by linarith
  ultimately obtain s1 where "http_loop (ssl_read recv) send sha1 0 http_init s
      = http_loop (ssl_read recv) send sha1 (0 + length (butlast ?req)) h s1"
    "pending s1 = 10 # rest" "sent s1 = sent s"
    using byte_stream.http_loop_run [OF b h(1)] by metis
  then have s1: "read_http_header (ssl_read recv) send sha1 s
      = http_loop (ssl_read recv) send sha1 (length (butlast ?req)) h s1"
    "pending s1 = 10 # rest" "sent s1 = sent s"
    by (simp_all only: read_http_header_def add_0)
  obtain s2 where s2: "ssl_read recv 1 s1 = (Some [10], s2)" "pending s2 = rest" "sent s2 = sent s1"
    using byte_stream.read_byte [OF b s1(2)] by blast
  obtain r s3 where s3: "send (handshake_response (accept_key sha1 key)) s2 = (r, s3)" by fastforce
  have r: "0 < r" using reliable.send_succeeds [OF assms(1) s3] by (simp add: handshake_response_def crlf_def)
  have "http_loop (ssl_read recv) send sha1 (length (butlast ?req)) h s1 = Inr (length ?req, s3)"
  proof -
    have "\<not> HTTP_HEADER_BUFF_SIZE \<le> length (butlast ?req)"
      using assms(6) len unfolding HTTP_HEADER_BUFF_SIZE_def by linarith
    moreover have "http_byte 10 h = Inr (Accept key)" using h(2,3) by (simp add: http_byte_def http_end_def)
    ultimately show ?thesis
      using s2(1) s3 r len by (subst http_loop.simps) (simp only: if_False prod.case option.case list.sel
        bindO_Inr http_result.case s3 not_le if_not_P len)
  qed
  then show ?thesis using s1 s2 duplex.send_pending [OF d s3] duplex.send_all [OF d s3 r] by auto
qed

lemma value_overflow:
  assumes "ht_state h = HTTP_VAL" "ht_val h = []" "13 \<notin> set v" "41 < length v"
  shows "http_run v h = Inl OutOfRange"
proof -
  have v: "v = take 41 v @ v ! 41 # drop 42 v"
    using id_take_nth_drop [OF assms(4)] by simp
  have "13 \<notin> set (take 41 v)" using assms(3) by (meson in_set_takeD)
  moreover have "length (take 41 v) = 41" using assms(4) by simp
  ultimately have "http_run (take 41 v) h = Inr (h\<lparr>ht_val := take 41 v\<rparr>)"
    using run_value [of "take 41 v" h] assms(1,2) by simp
  moreover have "v ! 41 \<noteq> 13" using assms(3,4) nth_mem by metis
  then have "http_run (v ! 41 # drop 42 v) (h\<lparr>ht_val := take 41 v\<rparr>) = Inl OutOfRange"
    using assms(1,4) by (simp add: http_byte_def http_val_def put_buffer_def HTTP_PROP_BUFF_SIZE_def)
  ultimately show ?thesis by (subst v) (simp only: http_run_append bindO_Inr)
qed

lemma http_run_fault:
  assumes "http_run bs h = Inl e" "e \<noteq> Diverges"
  shows "\<exists>front b h1 later. bs = front @ b # later \<and> http_run front h = Inr h1 \<and> http_byte b h1 = Inl e"
  using assms(1)
proof (induction bs arbitrary: h)
  case (Cons b bs)
  show ?case
  proof (cases "http_byte b h")
    case (Inl e')
    then have "e' = e" using Cons.prems by simp
    then show ?thesis using Inl by (intro exI [of _ "[]"]) auto
  next
    case (Inr r)
    then obtain h1 where h1: "r = Next h1" "http_run bs h1 = Inl e"
      using Cons.prems assms(2) by (cases r) auto
    then obtain front x h2 later where "bs = front @ x # later" "http_run front h1 = Inr h2" "http_byte x h2 = Inl e"
      using Cons.IH by blast
    then show ?thesis using Inr h1 by (intro exI [of _ "b # front"]) auto
  qed
qed simp

text \<open>The overflow: a header value of 42 bytes or more, which browsers send in every request, makes
  the handshake write past the end of its buffer on the stack.\<close>

theorem long_header_overflows:
  assumes "byte_stream recv pending sent" "line_ok line" "list_all header_ok hs" "header_ok (n, [])"
    and "13 \<notin> set v" "41 < length v"
    and "request = line @ crlf @ concat (map header_line hs) @ n @ [58, 32] @ v" "length request \<le> 1000"
    and "pending s = request @ rest"
  shows "read_http_header (ssl_read recv) wr sha1 s = Inl OutOfRange"
proof -
  have line: "13 \<notin> set line" "length line < 990" using assms(2) by (auto simp: line_ok_def)
  have n: "58 \<notin> set n" "13 \<notin> set n" "0 \<notin> set n" "length n \<le> 40" using assms(4) by (auto simp: header_ok_def)
  let ?h1 = "http_init\<lparr>ht_header_i := 8 + length line\<rparr>"
  have c1: "http_run line http_init = Inr ?h1"
    using run_line [of http_init line] line by (simp add: http_init_def)
  have "\<exists>h. http_run crlf ?h1 = Inr h \<and> at_line None h"
    using line by (simp add: crlf_def http_byte_def http_method_def http_init_def HTTP_HEADER_BUFF_SIZE_def at_line_def)
  then obtain h2 where c2: "http_run crlf ?h1 = Inr h2" "at_line None h2" by blast
  obtain h3 where c3: "http_run (concat (map header_line hs)) h2 = Inr h3" "at_line (key_of None hs) h3"
    using run_headers [OF c2(2) assms(3)] by blast
  have h3: "ht_state h3 = HTTP_PROP" "ht_prop h3 = []" "ht_val h3 = []" using c3(2) by (simp_all add: at_line_def)
  let ?h4 = "h3\<lparr>ht_prop := n\<rparr>" and ?h5 = "h3\<lparr>ht_state := HTTP_VAL, ht_prop := [], ht_prop_done := n\<rparr>"
  have c4: "http_run n h3 = Inr ?h4" using run_name [of n h3] n h3 by simp
  have c5: "http_run [58, 32] ?h4 = Inr ?h5"
    using h3 n by (simp add: http_byte_def http_prop_def end_buffer_def HTTP_PROP_BUFF_SIZE_def cstring_id)
  have c6: "http_run v ?h5 = Inl OutOfRange" using value_overflow [of ?h5 v] assms(5,6) h3 by simp
  have "http_run request http_init = Inl OutOfRange"
    unfolding assms(7) by (simp only: http_run_append c1 c2(1) c3(1) c4 c5 c6 bindO_Inr)
  then obtain front b h later where f: "request = front @ b # later" "http_run front http_init = Inr h"
    "http_byte b h = Inl OutOfRange"
    using http_run_fault [of request http_init OutOfRange] by auto
  have len: "0 + length front \<le> 1000" "length front < 1000" using assms(8) f(1) by simp_all
  have "pending s = front @ b # later @ rest" using assms(9) f(1) by simp
  then obtain s1 where s1: "http_loop (ssl_read recv) wr sha1 0 http_init s
      = http_loop (ssl_read recv) wr sha1 (0 + length front) h s1" "pending s1 = b # later @ rest"
    using byte_stream.http_loop_run [OF assms(1) f(2) _ len(1)] by metis
  obtain s2 where s2: "ssl_read recv 1 s1 = (Some [b], s2)"
    using byte_stream.read_byte [OF assms(1) s1(2)] by blast
  have "http_loop (ssl_read recv) wr sha1 (length front) h s1 = Inl OutOfRange"
    using len(2) by (subst http_loop.simps)
      (simp add: HTTP_HEADER_BUFF_SIZE_def s2 [unfolded One_nat_def] f(3) del: http_loop.simps)
  then show ?thesis using s1(1) by (simp add: read_http_header_def)
qed

definition sample_headers :: "(bytes \<times> bytes) list" where
  "sample_headers = [(ascii ''Host'', ascii ''a''), (ascii ''Sec-WebSocket-Key'', ascii ''x3JJHMbDL1EzLkh9GBhXDw'')]"

lemma sample_headers_ok: "list_all header_ok sample_headers" "line_ok (ascii ''TTP/1.1'')"
  "key_of None sample_headers = Some (ascii ''x3JJHMbDL1EzLkh9GBhXDw'')"
  "length (request_bytes (ascii ''TTP/1.1'') sample_headers) \<le> 1000"
  by code_simp+

theorem handshake_accepts_witness:
  "\<exists>s'. read_http_header (ssl_read socket_recv) socket_send (\<lambda>bs. bs)
      ([request_bytes (ascii ''TTP/1.1'') sample_headers, [1]], []) =
      Inr (length (request_bytes (ascii ''TTP/1.1'') sample_headers), s')
    \<and> snd s' = handshake_response (accept_key (\<lambda>bs. bs) (ascii ''x3JJHMbDL1EzLkh9GBhXDw''))"
  using handshake_accepts [OF socket.reliable_axioms, of
      "([request_bytes (ascii ''TTP/1.1'') sample_headers, [1]], [])" "ascii ''TTP/1.1''" sample_headers "[1]",
      OF _ sample_headers_ok(2,1,3,4), of "\<lambda>bs. bs"]
  by auto

theorem long_header_overflows_witness:
  "read_http_header (ssl_read socket_recv) socket_send (\<lambda>bs. bs)
     ([ascii ''TTP/1.1'' @ crlf @ concat (map header_line sample_headers) @ ascii ''User-Agent'' @ [58, 32]
        @ replicate 42 97], []) = Inl OutOfRange"
proof -
  have "header_ok (ascii ''User-Agent'', [])" "(13 :: byte) \<notin> set (replicate 42 97)" by code_simp+
  moreover have "length (ascii ''TTP/1.1'' @ crlf @ concat (map header_line sample_headers) @ ascii ''User-Agent''
      @ [58, 32] @ replicate 42 (97 :: byte)) \<le> 1000" by code_simp
  ultimately show ?thesis
    using long_header_overflows [OF socket.byte_stream_axioms sample_headers_ok(2,1), of
        "ascii ''User-Agent''" "replicate 42 97"] by simp
qed

end
