(* ===== verification/Number_Facts.thy ===== *)
theory Number_Facts
  imports Prelude
begin

text \<open>
  The arithmetic behind the keys of \<open>src/src/rsa.c\<close>: primes, Fermat's little theorem, and that raising to
  two exponents inverse to each other modulo \<open>(p - 1) * (q - 1)\<close> gives back every number below \<open>p * q\<close>.
\<close>

section \<open>Primes\<close>

definition is_prime :: "nat \<Rightarrow> bool" where
  "is_prime p \<longleftrightarrow> 1 < p \<and> list_all (\<lambda>d. \<not> d dvd p) [2..<p]"

lemma is_primeD: "is_prime p \<Longrightarrow> d dvd p \<Longrightarrow> d = 1 \<or> d = p"
proof -
  assume p: "is_prime p" "d dvd p"
  then have "0 < d" "d \<le> p" by (auto simp: is_prime_def intro: dvd_imp_le Nat.gr0I)
  then show ?thesis using p by (cases "d = p") (auto simp: is_prime_def list_all_iff)
qed

lemma is_prime_gt: "is_prime p \<Longrightarrow> 1 < p"
  by (simp add: is_prime_def)

lemma prime_coprime: "is_prime p \<Longrightarrow> \<not> p dvd a \<Longrightarrow> coprime p a"
  using is_primeD [of p "gcd p a"] by (metis coprime_iff_gcd_eq_1 gcd_dvd1 gcd_dvd2)

lemma prime_dvd_mult: "is_prime p \<Longrightarrow> p dvd a * b \<longleftrightarrow> p dvd a \<or> p dvd b"
  by (metis coprime_dvd_mult_right_iff dvd_mult dvd_mult2 prime_coprime)

lemma distinct_primes_coprime: "is_prime p \<Longrightarrow> is_prime q \<Longrightarrow> p \<noteq> q \<Longrightarrow> coprime p q"
  using is_primeD [of q p] is_prime_gt [of p] by (auto intro: prime_coprime)

section \<open>Fermat's little theorem\<close>

lemma prime_dvd_fact: "is_prime p \<Longrightarrow> k < p \<Longrightarrow> \<not> p dvd fact k"
proof (induction k)
  case 0
  then show ?case using is_prime_gt [of p] by simp
next
  case (Suc k)
  then have "\<not> p dvd Suc k" by (auto dest: dvd_imp_le)
  then show ?case using Suc by (simp add: prime_dvd_mult del: mult_Suc)
qed

lemma prime_dvd_choose:
  assumes "is_prime p" "0 < k" "k < p"
  shows "p dvd (p choose k)"
proof -
  have eq: "fact k * fact (p - k) * (p choose k) = (fact p :: nat)"
    using assms(3) by (simp add: binomial_fact_lemma)
  have "p dvd fact p" using is_prime_gt [OF assms(1)] by (simp add: dvd_fact)
  then have "p dvd fact k * fact (p - k) * (p choose k)" by (simp add: eq)
  then show ?thesis using assms prime_dvd_fact [OF assms(1), of k] prime_dvd_fact [OF assms(1), of "p - k"]
    by (simp add: prime_dvd_mult)
qed

lemma little_fermat:
  assumes "is_prime p"
  shows "a ^ p mod p = a mod p"
proof (induction a)
  case 0
  then show ?case using is_prime_gt [OF assms] by (simp add: zero_power)
next
  case (Suc a)
  have split: "{..p} = insert 0 (insert p {0<..<p})" using is_prime_gt [OF assms] by auto
  have "p dvd (\<Sum>k\<in>{0<..<p}. (p choose k) * a ^ k)"
    by (rule dvd_sum) (simp add: prime_dvd_choose [OF assms])
  then have mid: "(\<Sum>k\<in>{0<..<p}. (p choose k) * a ^ k) mod p = 0" by simp
  have "(a + 1) ^ p = (\<Sum>k\<le>p. (p choose k) * a ^ k)"
    using binomial [of a 1 p] by simp
  also have "\<dots> = 1 + (a ^ p + (\<Sum>k\<in>{0<..<p}. (p choose k) * a ^ k))"
    unfolding split using is_prime_gt [OF assms] by simp
  finally have "(a + 1) ^ p mod p = (1 + (a ^ p + 0)) mod p"
    using mid by (metis mod_add_right_eq)
  then show ?case using Suc.IH by (metis Suc_eq_plus1 add.right_neutral add.commute mod_add_right_eq)
qed

lemma fermat:
  assumes "is_prime p" "\<not> p dvd a"
  shows "a ^ (p - 1) mod p = 1"
proof -
  have gt: "1 < p" by (rule is_prime_gt [OF assms(1)])
  then have "a ^ p = a * a ^ (p - 1)" by (cases p) simp_all
  then have "a * a ^ (p - 1) mod p = a * 1 mod p" using little_fermat [OF assms(1), of a] by simp
  moreover have "1 \<le> a ^ (p - 1)" using assms(2) by (cases "a = 0") auto
  ultimately have "p dvd a * (a ^ (p - 1) - 1)"
    by (simp add: mod_eq_dvd_iff_nat diff_mult_distrib2)
  then have "p dvd a ^ (p - 1) - 1" using assms by (simp add: prime_dvd_mult)
  then have "a ^ (p - 1) mod p = 1 mod p" using \<open>1 \<le> a ^ (p - 1)\<close> mod_eq_dvd_iff_nat by blast
  then show ?thesis using gt by simp
qed

section \<open>Exponents that undo each other\<close>

lemma power_suc_multiple:
  assumes "is_prime p" "(p - 1) dvd k"
  shows "m ^ Suc k mod p = m mod p"
proof (cases "p dvd m")
  case False
  obtain j where k: "k = (p - 1) * j" using assms(2) by blast
  have "(m ^ (p - 1)) ^ j mod p = 1"
    using fermat [OF assms(1) False] is_prime_gt [OF assms(1)] power_mod [of "m ^ (p - 1)" p j] by simp
  then have "m ^ k mod p = 1" by (simp add: k power_mult)
  then show ?thesis by (metis mod_mult_right_eq mult.right_neutral power_Suc)
next
  case True
  then have "m ^ Suc k mod p = 0" by (simp add: dvd_mult2)
  then show ?thesis using True by simp
qed

lemma int_mod_eq_dvd: "a mod n = b mod n \<longleftrightarrow> int n dvd int a - int b"
  using mod_eq_dvd_iff [of "int a" "int n" "int b"] by (simp add: of_nat_mod [symmetric])

theorem exponents_undo:
  assumes "is_prime p" "is_prime q" "p \<noteq> q" "m < p * q" "e * d mod ((p - 1) * (q - 1)) = 1"
  shows "(m ^ e mod (p * q)) ^ d mod (p * q) = m"
proof -
  let ?phi = "(p - 1) * (q - 1)"
  have "e * d = Suc (?phi * (e * d div ?phi))" using assms(5) by (metis Suc_eq_plus1 mult_div_mod_eq)
  then obtain k where ed: "e * d = Suc k" and k: "?phi dvd k" by (metis dvd_triv_left)
  have "(p - 1) dvd k" "(q - 1) dvd k" using dvd_mult_left [OF k] dvd_mult_right [OF k] by simp_all
  then have "m ^ (e * d) mod p = m mod p" "m ^ (e * d) mod q = m mod q"
    using power_suc_multiple [OF assms(1)] power_suc_multiple [OF assms(2)] unfolding ed by blast+
  then have "int p dvd int (m ^ (e * d)) - int m" "int q dvd int (m ^ (e * d)) - int m"
    using int_mod_eq_dvd by blast+
  moreover have "coprime (int p) (int q)" using distinct_primes_coprime [OF assms(1-3)] by simp
  ultimately have "int p * int q dvd int (m ^ (e * d)) - int m" by (rule divides_mult)
  then have "m ^ (e * d) mod (p * q) = m mod (p * q)" using int_mod_eq_dvd [of _ "p * q"] by simp
  then show ?thesis using assms(4) by (simp add: power_mod power_mult)
qed

end
