(* ===== verification/Rsa.thy ===== *)
theory Rsa
  imports Number_Facts Bytes RefCount
begin

text \<open>
  \<open>src/src/rsa.c\<close>: the server's own RSA, over the integers of GMP. The integers are natural numbers; the
  algorithms of the library that the code calls (modular powers, the big-endian bytes of a number, inverses,
  the test for primes) are the parameter \<open>gmp\<close>, and \<open>gmp_ok\<close> states what their documentation promises.
  A text is the bytes of a string object, which end in a null byte that its length does not count; the
  numbers drawn from \<open>/dev/urandom\<close> are a list of bytes, and the code ends the process when there are no more.
\<close>

section \<open>The integers of GMP\<close>

record gmp =
  gm_powm :: "nat \<Rightarrow> nat \<Rightarrow> nat \<Rightarrow> nat"
  gm_import :: "bytes \<Rightarrow> nat"
  gm_export :: "nat \<Rightarrow> bytes"
  gm_invert :: "nat \<Rightarrow> nat \<Rightarrow> nat option"
  gm_probab_prime :: "nat \<Rightarrow> nat \<Rightarrow> bool"

definition minimal :: "bytes \<Rightarrow> bool" where
  "minimal bs \<longleftrightarrow> bs = [] \<or> hd bs \<noteq> 0"

definition gmp_ok :: "gmp \<Rightarrow> bool" where
  "gmp_ok g \<longleftrightarrow> (\<forall>b e m. 0 < m \<longrightarrow> gm_powm g b e m = b ^ e mod m)
     \<and> (\<forall>bs. gm_import g bs = unbe bs)
     \<and> (\<forall>n. unbe (gm_export g n) = n \<and> minimal (gm_export g n))
     \<and> (\<forall>a m d. gm_invert g a m = Some d \<longrightarrow> a * d mod m = 1 mod m)
     \<and> (\<forall>a m. 1 < m \<and> coprime a m \<longrightarrow> gm_invert g a m \<noteq> None)
     \<and> (\<forall>n k. is_prime n \<longrightarrow> gm_probab_prime g n k)"

text \<open>A modulus of 0 is a division by zero.\<close>

definition mpz_powm :: "gmp \<Rightarrow> nat \<Rightarrow> nat \<Rightarrow> nat \<Rightarrow> nat outcome" where
  "mpz_powm g b e m = (if m = 0 then Inl DivByZero else Inr (gm_powm g b e m))"

section \<open>The hash of a text\<close>

text \<open>Signed arithmetic on \<open>int\<close>, for operands that are not negative.\<close>

definition int_mult :: "nat \<Rightarrow> nat \<Rightarrow> nat outcome" where
  "int_mult a b = (if a * b < 2 ^ 31 then Inr (a * b) else Inl SignedOverflow)"

definition int_plus :: "nat \<Rightarrow> nat \<Rightarrow> nat outcome" where
  "int_plus a b = (if a + b < 2 ^ 31 then Inr (a + b) else Inl SignedOverflow)"

definition int_rem :: "nat \<Rightarrow> nat \<Rightarrow> nat outcome" where
  "int_rem a b = (if b = 0 then Inl DivByZero else Inr (a mod b))"

text \<open>One character: the four bytes of the hash and the previous character's remainder.\<close>

definition hash_char :: "nat \<Rightarrow> byte \<Rightarrow> bytes \<times> nat \<Rightarrow> (bytes \<times> nat) outcome" where
  "hash_char i b = (\<lambda>(hash, prev).
    let c = unat (b AND 0x7F) in
    bindO (int_mult (if prev mod 2 \<noteq> 0 then prev else 1) i) (\<lambda>a.
    bindO (int_mult a c) (\<lambda>shift.
      let mask = of_nat (c mod 255 * 2 ^ (shift mod 7)) :: byte in
    bindO (int_mult i c) (\<lambda>ic.
    bindO (int_plus ic prev) (\<lambda>at.
      let new = (if prev mod 2 = 0 then mask OR of_nat prev else mask AND of_nat prev)
      in Inr (hash[at mod 3 := new], ic mod 7))))))"

fun hash_chars :: "nat \<Rightarrow> bytes \<times> nat \<Rightarrow> bytes \<Rightarrow> (nat \<times> bytes) outcome" where
  "hash_chars i st [] = Inl OutOfRange"
| "hash_chars i st (b # bs) =
    (if b = 0 then Inr (i, fst st) else bindO (hash_char i b st) (\<lambda>st. hash_chars (i + 1) st bs))"

text \<open>The bytes that a text of less than four characters leaves over.\<close>

fun hash_rest :: "nat \<Rightarrow> bytes \<Rightarrow> nat \<Rightarrow> bytes \<Rightarrow> bytes outcome" where
  "hash_rest 0 buf remaining hash = Inr hash"
| "hash_rest (Suc i) buf remaining hash =
    bindO (int_rem (4 - Suc i) (4 - remaining)) (\<lambda>r.
    bindO (int_rem (Suc i) r) (\<lambda>k.
    if length buf \<le> k then Inl OutOfRange
    else hash_rest i buf remaining (hash[(4 - Suc i) mod 4 := buf ! k])))"

text \<open>The length is only compared with -1: for any other length the text ends at its first null byte, and
  for -1 no character is read.\<close>

definition hash_h32__n :: "bytes \<Rightarrow> int \<Rightarrow> 32 word outcome" where
  "hash_h32__n buf len =
    bindO (if len = -1 then Inr (0, [0, 0, 0, 0]) else hash_chars 0 ([0, 0, 0, 0], 0) buf) (\<lambda>(i, hash).
    bindO (hash_rest (4 - i) buf (4 - i) hash) (\<lambda>hash. Inr (of_nat (unle hash))))"

definition hash_h32 :: "bytes \<Rightarrow> 32 word outcome" where
  "hash_h32 cstr = hash_h32__n cstr (-1)"

section \<open>Random primes\<close>

definition PRIME_BYTES :: nat where "PRIME_BYTES = 256"

definition random_seed :: "nat \<Rightarrow> bytes \<Rightarrow> (bytes \<times> bytes) outcome" where
  "random_seed k rs = (if length rs < k then Inl OutOfDraws else Inr (take k rs, drop k rs))"

text \<open>How many numbers are added up: a random byte, masked with 20, until it is not 0.\<close>

fun gen_adds :: "bytes \<Rightarrow> (nat \<times> bytes) outcome" where
  "gen_adds [] = Inl OutOfDraws"
| "gen_adds (b # rs) = (if b AND 20 = 0 then gen_adds rs else Inr (unat (b AND 20), rs))"

text \<open>A seed is drawn before the count is tested, so the last one is not used.\<close>

fun add_seeds :: "gmp \<Rightarrow> nat \<Rightarrow> nat \<Rightarrow> bytes \<Rightarrow> (nat \<times> bytes) outcome" where
  "add_seeds g 0 num rs = bindO (random_seed PRIME_BYTES rs) (\<lambda>(seed, rs). Inr (num, rs))"
| "add_seeds g (Suc adds) num rs =
    bindO (random_seed PRIME_BYTES rs) (\<lambda>(seed, rs). add_seeds g adds (num + gm_import g seed) rs)"

fun next_prime :: "gmp \<Rightarrow> nat \<Rightarrow> nat \<Rightarrow> nat outcome" where
  "next_prime g 0 num = Inl Diverges"
| "next_prime g (Suc fuel) num = (if gm_probab_prime g num 50 then Inr num else next_prime g fuel (num + 2))"

definition random_prime :: "gmp \<Rightarrow> nat \<Rightarrow> bytes \<Rightarrow> (nat \<times> bytes) outcome" where
  "random_prime g fuel rs =
    bindO (gen_adds rs) (\<lambda>(adds, rs).
    bindO (add_seeds g adds 0 rs) (\<lambda>(num, rs).
    bindO (next_prime g fuel (num OR 1)) (\<lambda>p. Inr (p, rs))))"

section \<open>Keys\<close>

record rsa_key =
  k_e :: nat
  k_n :: nat

record rsa_keypair =
  pubkey :: rsa_key
  privkey :: rsa_key

text \<open>When the exponent has no inverse, the assertion prints a message and the private exponent keeps a
  value that the library leaves undefined.\<close>

definition keypair_new :: "gmp \<Rightarrow> nat \<Rightarrow> bytes \<Rightarrow> (rsa_keypair \<times> bytes) outcome" where
  "keypair_new g fuel rs =
    bindO (random_prime g fuel rs) (\<lambda>(p, rs).
    bindO (random_prime g fuel rs) (\<lambda>(q, rs).
      let e = 65537; n = p * q; phi = (p - 1) * (q - 1)
      in case gm_invert g e phi of None \<Rightarrow> Inl UninitRead
       | Some d \<Rightarrow> Inr (\<lparr>pubkey = \<lparr>k_e = e, k_n = n\<rparr>, privkey = \<lparr>k_e = d, k_n = n\<rparr>\<rparr>, rs)))"

section \<open>Encryption and signatures\<close>

definition BLOCK_SIZE :: nat where "BLOCK_SIZE = 128"

definition pages :: "nat \<Rightarrow> nat" where
  "pages len = len div BLOCK_SIZE + (if len mod BLOCK_SIZE \<noteq> 0 then 1 else 0)"

definition page_size :: "nat \<Rightarrow> nat \<Rightarrow> nat" where
  "page_size len i = (if i = pages len - 1 then len mod BLOCK_SIZE else BLOCK_SIZE)"

text \<open>Each page becomes the length of its power, as a \<open>size_t\<close>, and the bytes of the power.\<close>

definition encrypt_page :: "gmp \<Rightarrow> rsa_key \<Rightarrow> bytes \<Rightarrow> bytes outcome" where
  "encrypt_page g key page =
    bindO (mpz_powm g (gm_import g page) (k_e key) (k_n key)) (\<lambda>c.
      let c_str = gm_export g c in Inr (le 8 (length c_str) @ c_str))"

fun encrypt_pages :: "gmp \<Rightarrow> rsa_key \<Rightarrow> bytes \<Rightarrow> nat list \<Rightarrow> nat \<Rightarrow> bytes \<Rightarrow> bytes outcome" where
  "encrypt_pages g key data [] offset acc = Inr acc"
| "encrypt_pages g key data (i # is) offset acc =
    (let size = page_size (length data) i in
     bindO (encrypt_page g key (take size (drop offset data))) (\<lambda>out.
     encrypt_pages g key data is (offset + size) (acc @ out)))"

definition rsa_encrypt :: "gmp \<Rightarrow> bytes \<Rightarrow> rsa_key \<Rightarrow> bytes outcome" where
  "rsa_encrypt g data key = encrypt_pages g key data [0..<pages (length data)] 0 []"

function decrypt_from :: "gmp \<Rightarrow> rsa_key \<Rightarrow> bytes \<Rightarrow> nat \<Rightarrow> nat \<Rightarrow> bytes \<Rightarrow> bytes outcome" where
  "decrypt_from g key buf len index acc =
    (if index < len then
       if length buf < index + 8 then Inl OutOfRange
       else let to_decrypt = unle (take 8 (drop index buf)) in
         if length buf < index + 8 + to_decrypt then Inl OutOfRange
         else bindO (mpz_powm g (gm_import g (take to_decrypt (drop (index + 8) buf))) (k_e key) (k_n key)) (\<lambda>m.
           decrypt_from g key buf len (index + 8 + to_decrypt) (acc @ gm_export g m))
     else Inr acc)"
  by pat_completeness auto
termination by (relation "measure (\<lambda>(g, key, buf, len, index, acc). len - index)") auto

declare decrypt_from.simps [simp del]

definition rsa_decrypt :: "gmp \<Rightarrow> bytes \<Rightarrow> rsa_key \<Rightarrow> bytes outcome" where
  "rsa_decrypt g data key = decrypt_from g key (data @ [0]) (length data) 0 []"

text \<open>A signature encrypts the four bytes of the hash. The code reads it from the object that holds it after
  freeing that object: \<open>kept\<close> tells whether the allocator has left its fields as they were.\<close>

definition rsa_sign :: "gmp \<Rightarrow> bool \<Rightarrow> bytes \<Rightarrow> rsa_key \<Rightarrow> bytes outcome" where
  "rsa_sign g kept data key =
    bindO (hash_h32__n (data @ [0]) (int (length data))) (\<lambda>hash.
    bindO (rsa_encrypt g (le 4 (unat hash)) key) (\<lambda>encrypted.
    if kept then Inr encrypted else Inl UseAfterFree))"

definition rsa_verify :: "gmp \<Rightarrow> bytes \<Rightarrow> bytes \<Rightarrow> rsa_key \<Rightarrow> bool outcome" where
  "rsa_verify g data signature key =
    bindO (rsa_decrypt g signature key) (\<lambda>decrypted.
    bindO (hash_h32__n (data @ [0]) (int (length data))) (\<lambda>hash.
    Inr (decrypted = le 4 (unat hash))))"

section \<open>Keys and signatures as text\<close>

definition key_to_bin :: "gmp \<Rightarrow> rsa_key \<Rightarrow> bytes" where
  "key_to_bin g key =
    (let exponent = gm_export g (k_e key); modulus = gm_export g (k_n key)
     in le 8 (length exponent) @ le 8 (length modulus) @ exponent @ modulus)"

definition key_from_bin :: "gmp \<Rightarrow> bytes \<Rightarrow> rsa_key outcome" where
  "key_from_bin g data =
    (let buf = data @ [0] in
     if length buf < 16 then Inl OutOfRange
     else let exponent_size = unle (take 8 buf); modulus_size = unle (take 8 (drop 8 buf)) in
       if length buf < 16 + exponent_size + modulus_size then Inl OutOfRange
       else Inr \<lparr>k_e = gm_import g (take exponent_size (drop 16 buf)),
         k_n = gm_import g (take modulus_size (drop (16 + exponent_size) buf))\<rparr>)"

definition hex_digit :: "nat \<Rightarrow> byte" where
  "hex_digit d = of_nat (if d < 10 then 48 + d else 87 + d)"

definition sprintf_02x :: "byte \<Rightarrow> bytes" where
  "sprintf_02x b = [hex_digit (unat b div 16), hex_digit (unat b mod 16)]"

definition to_hex :: "bytes \<Rightarrow> bytes" where
  "to_hex data = concat (map sprintf_02x data)"

text \<open>The value of a digit; \<open>sscanf\<close> on a text that does not start with two digits is the parameter
  \<open>scan\<close>.\<close>

definition hex_value :: "byte \<Rightarrow> nat option" where
  "hex_value b = (let c = unat b in
     if 48 \<le> c \<and> c < 58 then Some (c - 48) else if 97 \<le> c \<and> c < 103 then Some (c - 87)
     else if 65 \<le> c \<and> c < 71 then Some (c - 55) else None)"

definition sscanf_02x :: "(bytes \<Rightarrow> byte outcome) \<Rightarrow> bytes \<Rightarrow> byte outcome" where
  "sscanf_02x scan bs = (case bs of a # b # _ \<Rightarrow>
       (case (hex_value a, hex_value b) of (Some x, Some y) \<Rightarrow> Inr (of_nat (16 * x + y)) | _ \<Rightarrow> scan bs)
     | _ \<Rightarrow> scan bs)"

fun from_hex_at :: "(bytes \<Rightarrow> byte outcome) \<Rightarrow> nat \<Rightarrow> bytes \<Rightarrow> bytes outcome" where
  "from_hex_at scan 0 buf = Inr []"
| "from_hex_at scan (Suc n) buf =
    bindO (sscanf_02x scan buf) (\<lambda>b. bindO (from_hex_at scan n (drop 2 buf)) (\<lambda>bs. Inr (b # bs)))"

definition from_hex :: "(bytes \<Rightarrow> byte outcome) \<Rightarrow> bytes \<Rightarrow> bytes outcome" where
  "from_hex scan data = from_hex_at scan (length data div 2) (data @ [0])"

definition signature_to_hex :: "bytes \<Rightarrow> bytes" where
  "signature_to_hex signature = to_hex signature"

definition signature_from_hex :: "(bytes \<Rightarrow> byte outcome) \<Rightarrow> bytes \<Rightarrow> bytes outcome" where
  "signature_from_hex scan signature = from_hex scan signature"

definition key_to_hex :: "gmp \<Rightarrow> rsa_key \<Rightarrow> bytes" where
  "key_to_hex g key = to_hex (key_to_bin g key)"

definition key_from_hex :: "gmp \<Rightarrow> (bytes \<Rightarrow> byte outcome) \<Rightarrow> bytes \<Rightarrow> rsa_key outcome" where
  "key_from_hex g scan hex = bindO (from_hex scan hex) (\<lambda>bin. key_from_bin g bin)"

section \<open>Encrypted objects\<close>

text \<open>The data and the key of an encrypted object are counted references, to objects named by number:
  setting one leaves the object that was there and uses the new one, and freeing the encrypted object
  leaves both.\<close>

record rsa_encrypted =
  en_data :: "nat option"
  en_key :: "nat option"

definition rsa_encrypted_new :: rsa_encrypted where
  "rsa_encrypted_new = \<lparr>en_data = None, en_key = None\<rparr>"

definition leave_if :: "nat option \<Rightarrow> counters \<Rightarrow> counters" where
  "leave_if x cs = (case x of None \<Rightarrow> cs | Some i \<Rightarrow> cs(i := ref_counted_leave (cs i)))"

definition use_if :: "nat option \<Rightarrow> counters \<Rightarrow> counters" where
  "use_if x cs = (case x of None \<Rightarrow> cs | Some i \<Rightarrow> cs(i := ref_counted_use (cs i)))"

definition encrypted_set_key :: "nat option \<Rightarrow> rsa_encrypted \<times> counters \<Rightarrow> rsa_encrypted \<times> counters" where
  "encrypted_set_key key = (\<lambda>(en, cs). (en\<lparr>en_key := key\<rparr>, use_if key (leave_if (en_key en) cs)))"

definition encrypted_set_data :: "nat option \<Rightarrow> rsa_encrypted \<times> counters \<Rightarrow> rsa_encrypted \<times> counters" where
  "encrypted_set_data data = (\<lambda>(en, cs). (en\<lparr>en_data := data\<rparr>, use_if data (leave_if (en_data en) cs)))"

definition encrypted_free :: "rsa_encrypted \<times> counters \<Rightarrow> counters" where
  "encrypted_free = (\<lambda>(en, cs). leave_if (en_key en) (leave_if (en_data en) cs))"

end
