(* ===== verification/Rsa_Crypt.thy ===== *)
theory Rsa_Crypt
  imports Rsa
begin

text \<open>
  What the RSA of \<open>src/src/rsa.c\<close> does to a text: decryption after encryption gives back each of its pages
  without the null bytes at its start, and nothing of a last page that is full; a signature is accepted by
  the other key of the pair unless the first byte of the hash is 0; and keys and signatures survive their
  textual forms.
\<close>

section \<open>Numbers as bytes\<close>

lemma unbe_Nil [simp]: "unbe [] = 0"
  by (simp add: unbe_def)

lemma unbe_Cons: "unbe (c # bs) = unat c * 256 ^ length bs + unbe bs"
  by (simp add: unbe_def unle_append)

lemma unbe_less: "unbe bs < 256 ^ length bs"
  using unle_bound [of "rev bs"] by (simp add: unbe_def)

lemma be_unbe: "be (length bs) (unbe bs) = bs"
  by (simp add: be_def unbe_def le_unle)

lemma minimal_Cons [simp]: "minimal (c # bs) \<longleftrightarrow> c \<noteq> 0"
  and minimal_Nil [simp]: "minimal []"
  by (simp_all add: minimal_def)

lemma minimal_lower: "minimal bs \<Longrightarrow> bs \<noteq> [] \<Longrightarrow> 256 ^ (length bs - 1) \<le> unbe bs"
proof (cases bs)
  case (Cons c cs)
  moreover assume "minimal bs"
  ultimately have "unat c \<noteq> 0" by (simp add: unsigned_eq_0_iff)
  then show ?thesis by (simp add: Cons unbe_Cons trans_le_add1)
qed simp

lemma minimal_length: "minimal bs \<Longrightarrow> unbe bs < 256 ^ k \<Longrightarrow> length bs \<le> k"
proof (cases "bs = []")
  case False
  moreover assume "minimal bs" "unbe bs < 256 ^ k"
  ultimately have "(256 :: nat) ^ (length bs - 1) < 256 ^ k" using minimal_lower [of bs] le_less_trans by blast
  then have "length bs - 1 < k" using power_strict_increasing_iff [of "256 :: nat" "length bs - 1" k] by simp
  then show ?thesis by simp
qed simp

lemma minimal_unique:
  assumes "minimal as" "minimal bs" "unbe as = unbe bs"
  shows "as = bs"
proof -
  have "length as = length bs"
    using minimal_length [OF assms(1), of "length bs"] minimal_length [OF assms(2), of "length as"]
      unbe_less [of as] unbe_less [of bs] assms(3) by simp
  then have "be (length as) (unbe as) = be (length bs) (unbe bs)" by (simp only: assms(3))
  then show ?thesis by (simp only: be_unbe)
qed

definition strip_zeros :: "bytes \<Rightarrow> bytes" where
  "strip_zeros bs = dropWhile (\<lambda>b. b = 0) bs"

lemma unbe_strip_zeros: "unbe (strip_zeros bs) = unbe bs"
  by (induction bs) (simp_all add: strip_zeros_def unbe_Cons)

lemma minimal_strip_zeros: "minimal (strip_zeros bs)"
  using hd_dropWhile [of "\<lambda>b. b = 0" bs] by (auto simp: strip_zeros_def minimal_def)

lemma strip_zeros_minimal: "minimal bs \<Longrightarrow> strip_zeros bs = bs"
  by (rule minimal_unique) (simp_all add: minimal_strip_zeros unbe_strip_zeros)

lemma gmp_okD:
  assumes "gmp_ok g"
  shows "0 < m \<Longrightarrow> mpz_powm g b e m = Inr (b ^ e mod m)" "gm_import g bs = unbe bs"
    "unbe (gm_export g n) = n" "minimal (gm_export g n)"
    "gm_invert g a m = Some d \<Longrightarrow> a * d mod m = 1 mod m" "is_prime n \<Longrightarrow> gm_probab_prime g n k"
  using assms by (auto simp: gmp_ok_def mpz_powm_def)

lemma export_unbe: "gmp_ok g \<Longrightarrow> gm_export g (unbe bs) = strip_zeros bs"
  by (rule minimal_unique) (simp_all add: gmp_okD minimal_strip_zeros unbe_strip_zeros)

lemma export_length: "gmp_ok g \<Longrightarrow> n < 256 ^ k \<Longrightarrow> length (gm_export g n) \<le> k"
  by (rule minimal_length) (simp_all add: gmp_okD)

section \<open>Decryption of what was encrypted\<close>

text \<open>The two keys of a pair.\<close>

definition rsa_pair :: "nat \<Rightarrow> nat \<Rightarrow> rsa_key \<Rightarrow> rsa_key \<Rightarrow> bool" where
  "rsa_pair p q pub priv \<longleftrightarrow> is_prime p \<and> is_prime q \<and> p \<noteq> q \<and> k_n pub = p * q \<and> k_n priv = p * q
     \<and> k_e pub * k_e priv mod ((p - 1) * (q - 1)) = 1"

lemma rsa_pair_sym: "rsa_pair p q pub priv \<Longrightarrow> rsa_pair p q priv pub"
  by (simp add: rsa_pair_def mult.commute)

lemma rsa_pairD:
  assumes "rsa_pair p q pub priv"
  shows "0 < k_n pub" "k_n priv = k_n pub"
    "m < k_n pub \<Longrightarrow> (m ^ k_e pub mod k_n pub) ^ k_e priv mod k_n pub = m"
  using assms exponents_undo [of p q m "k_e pub" "k_e priv"] is_prime_gt [of p] is_prime_gt [of q]
  by (auto simp: rsa_pair_def)

definition rsa_blocks :: "bytes \<Rightarrow> bytes list" where
  "rsa_blocks data = map (\<lambda>i. take (page_size (length data) i) (drop (i * BLOCK_SIZE) data)) [0..<pages (length data)]"

definition cipher :: "gmp \<Rightarrow> rsa_key \<Rightarrow> bytes \<Rightarrow> bytes" where
  "cipher g key page = gm_export g (unbe page ^ k_e key mod k_n key)"

definition framed :: "bytes \<Rightarrow> bytes" where
  "framed c = le 8 (length c) @ c"

lemma encrypt_page_eq: "gmp_ok g \<Longrightarrow> 0 < k_n key \<Longrightarrow> encrypt_page g key page = Inr (framed (cipher g key page))"
  by (simp add: encrypt_page_def gmp_okD cipher_def framed_def Let_def)

lemma encrypt_pages_eq:
  assumes "gmp_ok g" "0 < k_n key" "i \<le> pages (length data)"
  shows "encrypt_pages g key data [i..<pages (length data)] (i * BLOCK_SIZE) acc = Inr (acc @ concat (map (\<lambda>i.
    framed (cipher g key (take (page_size (length data) i) (drop (i * BLOCK_SIZE) data)))) [i..<pages (length data)]))"
  using assms(3)
proof (induction i arbitrary: acc rule: inc_induct)
  case (step i)
  show ?case
  proof (cases "Suc i = pages (length data)")
    case True
    then have "[i..<pages (length data)] = [i]" by (simp add: upt_rec)
    then show ?thesis by (simp add: encrypt_page_eq [OF assms(1,2)] Let_def)
  next
    case False
    then have "page_size (length data) i = BLOCK_SIZE" using step by (auto simp: page_size_def)
    then show ?thesis using step.IH [of "acc @ framed (cipher g key (take BLOCK_SIZE (drop (i * BLOCK_SIZE) data)))"] step.hyps
      by (simp add: upt_conv_Cons encrypt_page_eq [OF assms(1,2)] Let_def add.commute)
  qed
qed simp

lemma rsa_encrypt_eq:
  "gmp_ok g \<Longrightarrow> 0 < k_n key \<Longrightarrow>
    rsa_encrypt g data key = Inr (concat (map (\<lambda>b. framed (cipher g key b)) (rsa_blocks data)))"
  using encrypt_pages_eq [of g key 0 data "[]"] by (simp add: rsa_encrypt_def rsa_blocks_def comp_def)

lemma decrypt_from_eq:
  assumes "gmp_ok g" "0 < k_n key" "\<forall>c\<in>set cs. length c < 2 ^ 64"
  shows "decrypt_from g key (pre @ concat (map framed cs) @ [0]) (length pre + length (concat (map framed cs)))
      (length pre) acc = Inr (acc @ concat (map (cipher g key) cs))"
  using assms(3)
proof (induction cs arbitrary: pre acc)
  case Nil
  then show ?case by (subst decrypt_from.simps) simp
next
  case (Cons c cs)
  have len: "unle (le 8 (length c)) = length c" using Cons.prems by (simp add: unle_le)
  have shift: "pre @ concat (map framed (c # cs)) @ [0] = (pre @ framed c) @ concat (map framed cs) @ [0]"
    "length pre + length (concat (map framed (c # cs))) = length (pre @ framed c) + length (concat (map framed cs))"
    by simp_all
  have "decrypt_from g key (pre @ concat (map framed (c # cs)) @ [0]) (length pre + length (concat (map framed (c # cs))))
      (length pre) acc = decrypt_from g key ((pre @ framed c) @ concat (map framed cs) @ [0])
        (length (pre @ framed c) + length (concat (map framed cs))) (length (pre @ framed c)) (acc @ cipher g key c)"
    unfolding shift by (subst decrypt_from.simps) (simp add: framed_def len gmp_okD [OF assms(1)] assms(2) cipher_def Let_def add.assoc)
  then show ?case using Cons.IH [of "pre @ framed c" "acc @ cipher g key c"] Cons.prems by simp
qed

lemma rsa_decrypt_eq:
  assumes "gmp_ok g" "0 < k_n key" "\<forall>c\<in>set cs. length c < 2 ^ 64"
  shows "rsa_decrypt g (concat (map framed cs)) key = Inr (concat (map (cipher g key) cs))"
  using decrypt_from_eq [OF assms, of "[]" "[]"] by (simp add: rsa_decrypt_def)

lemma cipher_undone:
  assumes "gmp_ok g" "rsa_pair p q pub priv" "unbe b < k_n pub"
  shows "cipher g priv (cipher g pub b) = strip_zeros b"
  using rsa_pairD [OF assms(2)] assms(1,3) by (simp add: cipher_def gmp_okD export_unbe)

lemma pages_arrive:
  assumes "gmp_ok g" "rsa_pair p q pub priv" "k_n pub < 256 ^ k" "k < 2 ^ 64"
    and "list_all (\<lambda>b. unbe b < k_n pub) (rsa_blocks data)"
  shows "bindO (rsa_encrypt g data pub) (\<lambda>c. rsa_decrypt g c priv) = Inr (concat (map strip_zeros (rsa_blocks data)))"
proof -
  note pair = rsa_pairD [OF assms(2)]
  let ?cs = "map (cipher g pub) (rsa_blocks data)"
  have "length (cipher g pub b) \<le> k" for b
    using assms(3) pair(1) by (simp add: cipher_def export_length [OF assms(1)] less_trans [of _ "k_n pub"])
  then have "\<forall>c\<in>set ?cs. length c < 2 ^ 64" using assms(4) by (auto intro: le_less_trans)
  then have "rsa_decrypt g (concat (map framed ?cs)) priv = Inr (concat (map (cipher g priv) ?cs))"
    using pair(1,2) by (intro rsa_decrypt_eq [OF assms(1)]) simp_all
  moreover have "map (cipher g priv) ?cs = map strip_zeros (rsa_blocks data)"
    using assms(5) by (simp add: cipher_undone [OF assms(1,2)] list_all_iff)
  ultimately show ?thesis using rsa_encrypt_eq [OF assms(1) pair(1), of data] by (simp add: comp_def cong: map_cong)
qed

section \<open>Which texts arrive whole\<close>

lemma rsa_blocks_below: "256 ^ BLOCK_SIZE \<le> n \<Longrightarrow> list_all (\<lambda>b. unbe b < n) (rsa_blocks data)"
proof -
  assume n: "256 ^ BLOCK_SIZE \<le> n"
  have "page_size len i \<le> BLOCK_SIZE" for len i
    using mod_less_divisor [of BLOCK_SIZE len] by (simp add: page_size_def BLOCK_SIZE_def)
  then have len: "length b \<le> BLOCK_SIZE" if "b \<in> set (rsa_blocks data)" for b
    using that by (auto simp: rsa_blocks_def min.coboundedI2 min_le_iff_disj)
  have "unbe b < 256 ^ BLOCK_SIZE" if "b \<in> set (rsa_blocks data)" for b
    using len [OF that] unbe_less [of b] power_increasing [of "length b" BLOCK_SIZE "256 :: nat"]
    by linarith
  then show ?thesis using n by (auto simp: list_all_iff intro: less_le_trans)
qed

lemma pages_before_last: "i < pages len - 1 \<Longrightarrow> page_size len i = BLOCK_SIZE"
  by (simp add: page_size_def)

lemma concat_pages:
  "j < pages (length data) \<Longrightarrow>
    concat (map (\<lambda>i. take (page_size (length data) i) (drop (i * BLOCK_SIZE) data)) [0..<j]) = take (j * BLOCK_SIZE) data"
proof (induction j)
  case (Suc j)
  then have "page_size (length data) j = BLOCK_SIZE" by (intro pages_before_last) simp
  then show ?case using Suc by (simp add: take_add [symmetric] add.commute)
qed simp

lemma concat_rsa_blocks:
  "concat (rsa_blocks data) = (if length data mod BLOCK_SIZE = 0 then take (length data - BLOCK_SIZE) data else data)"
proof (cases "pages (length data)")
  case 0
  then have "length data mod BLOCK_SIZE = 0" "length data div BLOCK_SIZE = 0" by (auto simp: pages_def split: if_splits)
  then have "data = []" by (metis div_mult_mod_eq length_0_conv mult_0 add_0)
  then show ?thesis by (simp add: rsa_blocks_def pages_def)
next
  case (Suc j)
  have "length data = length data div BLOCK_SIZE * BLOCK_SIZE + length data mod BLOCK_SIZE"
    by (simp only: div_mult_mod_eq)
  then have len: "length data = (if length data mod BLOCK_SIZE = 0 then j * BLOCK_SIZE + BLOCK_SIZE
      else j * BLOCK_SIZE + length data mod BLOCK_SIZE)"
    using Suc by (auto simp: pages_def div_mult_mod_eq add.commute split: if_splits)
  have "concat (rsa_blocks data) = take (j * BLOCK_SIZE) data @ take (length data mod BLOCK_SIZE) (drop (j * BLOCK_SIZE) data)"
    using concat_pages [of j data] Suc by (simp add: rsa_blocks_def page_size_def)
  also have "\<dots> = take (j * BLOCK_SIZE + length data mod BLOCK_SIZE) data" by (simp add: take_add)
  also have "\<dots> = (if length data mod BLOCK_SIZE = 0 then take (length data - BLOCK_SIZE) data else data)"
    using len by (auto split: if_splits)
  finally show ?thesis .
qed

lemma rsa_block_minimal:
  assumes "i < pages (length data)" "data ! (i * BLOCK_SIZE) \<noteq> 0"
  shows "minimal (take (page_size (length data) i) (drop (i * BLOCK_SIZE) data))"
proof (cases "i * BLOCK_SIZE < length data")
  case True
  then have "drop (i * BLOCK_SIZE) data = data ! (i * BLOCK_SIZE) # drop (Suc (i * BLOCK_SIZE)) data"
    by (simp add: Cons_nth_drop_Suc)
  then show ?thesis using assms(2) by (cases "page_size (length data) i") simp_all
qed simp

text \<open>A text arrives whole when its last page is not full and none of its pages starts with a null byte.\<close>

theorem rsa_roundtrip:
  assumes "gmp_ok g" "rsa_pair p q pub priv" "k_n pub < 256 ^ k" "k < 2 ^ 64"
    and "list_all (\<lambda>b. unbe b < k_n pub) (rsa_blocks data)"
    and "length data mod BLOCK_SIZE \<noteq> 0" "list_all (\<lambda>i. data ! (i * BLOCK_SIZE) \<noteq> 0) [0..<pages (length data)]"
  shows "bindO (rsa_encrypt g data pub) (\<lambda>c. rsa_decrypt g c priv) = Inr data"
proof -
  have "map strip_zeros (rsa_blocks data) = map (\<lambda>b. b) (rsa_blocks data)"
    using assms(7) rsa_block_minimal by (auto simp: rsa_blocks_def list_all_iff intro!: strip_zeros_minimal)
  then show ?thesis using pages_arrive [OF assms(1-5)] concat_rsa_blocks [of data] assms(6) by simp
qed

text \<open>C37: When the last page is full, its size is computed as 0: the last 128 bytes are lost.\<close>

theorem full_page_lost:
  assumes "gmp_ok g" "rsa_pair p q pub priv" "k_n pub < 256 ^ k" "k < 2 ^ 64"
    and "list_all (\<lambda>b. unbe b < k_n pub) (rsa_blocks data)"
    and "length data mod BLOCK_SIZE = 0" "data \<noteq> []"
  shows "\<exists>received. bindO (rsa_encrypt g data pub) (\<lambda>c. rsa_decrypt g c priv) = Inr received
    \<and> length received \<le> length data - BLOCK_SIZE \<and> received \<noteq> data"
proof -
  let ?r = "concat (map strip_zeros (rsa_blocks data))"
  have "length (concat (map strip_zeros bs)) \<le> length (concat bs)" for bs
    by (induction bs) (simp_all add: strip_zeros_def add_mono length_dropWhile_le)
  then have "length ?r \<le> length data - BLOCK_SIZE"
    using concat_rsa_blocks [of data] assms(6) by (metis length_take min.cobounded2 order_trans)
  moreover have "length data - BLOCK_SIZE < length data" using assms(7) by (simp add: BLOCK_SIZE_def)
  ultimately show ?thesis using pages_arrive [OF assms(1-5)] by (metis leD)
qed

section \<open>Keys and signatures as text\<close>

theorem key_bin_roundtrip:
  assumes "gmp_ok g" "k_e key < 256 ^ k" "k_n key < 256 ^ k" "k < 2 ^ 64"
  shows "key_from_bin g (key_to_bin g key) = Inr key"
proof -
  let ?e = "gm_export g (k_e key)" and ?n = "gm_export g (k_n key)"
  have "length ?e < 2 ^ 64" "length ?n < 2 ^ 64"
    using assms(4) export_length [OF assms(1,2)] export_length [OF assms(1,3)] by simp_all
  then have "unle (le 8 (length ?e)) = length ?e" "unle (le 8 (length ?n)) = length ?n" by (simp_all add: unle_le)
  then show ?thesis by (simp add: key_from_bin_def key_to_bin_def Let_def gmp_okD [OF assms(1)])
qed

lemma hex_value_digit: "d < 16 \<Longrightarrow> hex_value (hex_digit d) = Some d"
proof -
  assume "d < 16"
  then have "d \<in> set [0..<16]" by simp
  then show ?thesis by (auto simp: upt_rec hex_digit_def hex_value_def)
qed

lemma sscanf_sprintf: "sscanf_02x scan (sprintf_02x b @ bs) = Inr b"
proof -
  have "unat b < 256" using unsigned_less [of b] by simp
  then have "hex_value (hex_digit (unat b div 16)) = Some (unat b div 16)"
    "hex_value (hex_digit (unat b mod 16)) = Some (unat b mod 16)"
    by (simp_all add: hex_value_digit less_mult_imp_div_less)
  moreover have "(of_nat (16 * (unat b div 16) + unat b mod 16) :: byte) = b" by (simp only: mult_div_mod_eq) simp
  ultimately show ?thesis by (simp add: sscanf_02x_def sprintf_02x_def)
qed

lemma from_hex_at_to_hex: "from_hex_at scan (length bs) (to_hex bs @ rest) = Inr bs"
proof (induction bs)
  case (Cons b bs)
  have "from_hex_at scan (length bs) (drop 2 (to_hex (b # bs) @ rest)) = Inr bs"
    using Cons by (simp add: to_hex_def sprintf_02x_def)
  then show ?case using sscanf_sprintf [of scan b "to_hex bs @ rest"] by (simp add: to_hex_def)
qed simp

theorem hex_roundtrip: "from_hex scan (to_hex bs) = Inr bs"
proof -
  have "length (to_hex bs) = 2 * length bs" by (induction bs) (simp_all add: to_hex_def sprintf_02x_def)
  then show ?thesis using from_hex_at_to_hex [of scan bs "[0]"] by (simp add: from_hex_def)
qed

theorem key_hex_roundtrip:
  assumes "gmp_ok g" "k_e key < 256 ^ k" "k_n key < 256 ^ k" "k < 2 ^ 64"
  shows "key_from_hex g scan (key_to_hex g key) = Inr key"
  using key_bin_roundtrip [OF assms] by (simp add: key_from_hex_def key_to_hex_def hex_roundtrip)

section \<open>Transmission\<close>

text \<open>C12: A text that is encrypted with one key of a pair and decrypted with the other arrives as its pages, each
  without the null bytes at its start; the last page has the length of the text modulo 128.\<close>

theorem rsa_transmits:
  assumes "gmp_ok g" "rsa_pair p q pub priv" "k_n pub < 256 ^ k" "k < 2 ^ 64"
    and "list_all (\<lambda>b. unbe b < k_n pub) (rsa_blocks data)"
  shows "bindO (rsa_encrypt g data pub) (\<lambda>c. rsa_decrypt g c priv) = Inr (concat (map strip_zeros (rsa_blocks data)))"
  by (rule pages_arrive [OF assms])

end
