(* ===== verification/Rsa_Sign.thy ===== *)
theory Rsa_Sign
  imports Rsa_Crypt
begin

text \<open>
  The hash that \<open>src/src/rsa.c\<close> signs, which is a division by zero for a text of less than four characters,
  has three bytes instead of four and ignores the length of the text and the highest bit of its
  characters; the signatures made from it; and the generation of key pairs.
\<close>

section \<open>The hash\<close>

lemma int_ops: "a * b < 2 ^ 31 \<Longrightarrow> int_mult a b = Inr (a * b)" "a + b < 2 ^ 31 \<Longrightarrow> int_plus a b = Inr (a + b)"
  by (simp_all add: int_mult_def int_plus_def)

definition hash_state_ok :: "bytes \<times> nat \<Rightarrow> bool" where
  "hash_state_ok st \<longleftrightarrow> length (fst st) = 4 \<and> fst st ! 3 = 0 \<and> snd st < 7"

lemma hash_char_ok:
  assumes "hash_char i b st = Inr st'" "hash_state_ok st"
  shows "hash_state_ok st'"
proof -
  obtain hash prev where st: "st = (hash, prev)" by (cases st)
  obtain k new ic where st': "st' = (hash[k mod 3 := new], ic mod 7)"
    using assms(1) unfolding st hash_char_def by (auto simp: Let_def)
  have "k mod 3 \<noteq> 3" using mod_less_divisor [of 3 k] by linarith
  then show ?thesis using assms(2) by (simp add: hash_state_ok_def st st')
qed

lemma hash_chars_ok:
  "hash_chars i st bs = Inr (j, hash) \<Longrightarrow> hash_state_ok st \<Longrightarrow> length hash = 4 \<and> hash ! 3 = 0"
proof (induction bs arbitrary: i st)
  case (Cons b bs)
  show ?case
  proof (cases "b = 0")
    case False
    then obtain st' where "hash_char i b st = Inr st'" "hash_chars (i + 1) st' bs = Inr (j, hash)"
      using Cons.prems(1) by auto
    then show ?thesis using Cons.IH hash_char_ok Cons.prems(2) by blast
  qed (use Cons.prems in \<open>auto simp: hash_state_ok_def\<close>)
qed simp

text \<open>Whatever a text of less than four characters leaves over divides by zero.\<close>

lemma hash_rest_crashes: "0 < r \<Longrightarrow> hash_rest r buf r hash = Inl DivByZero"
  by (cases r) (auto simp: int_rem_def)

lemma init_ok [simp]: "hash_state_ok ([0, 0, 0, 0], 0)"
  by (simp add: hash_state_ok_def)

theorem hash_24_bits:
  assumes "hash_h32__n buf len = Inr hash"
  shows "unat hash < 2 ^ 24"
proof -
  obtain i bytes where c: "(if len = -1 then Inr (0, [0, 0, 0, 0]) else hash_chars 0 ([0, 0, 0, 0], 0) buf) = Inr (i, bytes)"
      and r: "bindO (hash_rest (4 - i) buf (4 - i) bytes) (\<lambda>hash. Inr (of_nat (unle hash))) = Inr hash"
    using assms unfolding hash_h32__n_def bindO_eq_Inr by (force simp: split_beta)
  have "4 - i = 0" using r hash_rest_crashes [of "4 - i" buf bytes] by (cases "4 - i = 0") simp_all
  then have hash: "hash = of_nat (unle bytes)" using r by simp
  from c have "length bytes = 4 \<and> bytes ! 3 = 0" using hash_chars_ok [of 0 "([0, 0, 0, 0], 0)"] by (auto split: if_splits)
  then obtain a b d where bytes: "bytes = [a, b, d, 0]"
    by (auto simp: length_Suc_conv numeral_eq_Suc)
  have "unle bytes = unle [a, b, d]" by (simp add: bytes)
  then have "unle bytes < 2 ^ 24" using unle_bound [of "[a, b, d]"] by simp
  then show ?thesis by (simp add: hash unat_of_nat)
qed

lemma hash_char_defined:
  assumes "hash_state_ok st" "i \<le> 2 ^ 21"
  shows "\<exists>st'. hash_char i b st = Inr st' \<and> hash_state_ok st'"
proof -
  obtain hash prev where st: "st = (hash, prev)" by (cases st)
  let ?f = "if prev mod 2 \<noteq> 0 then prev else 1" and ?c = "unat (b AND 0x7F)"
  have prev: "prev < 7" using assms(1) by (simp add: hash_state_ok_def st)
  have c: "?c \<le> 127" using word_and_le1 [of b 127] by (simp add: word_le_nat_alt)
  have "?f * i \<le> 6 * 2 ^ 21" using prev assms(2) by (intro mult_le_mono) auto
  moreover have "?f * i * ?c \<le> 6 * 2 ^ 21 * 127" by (rule mult_le_mono [OF calculation c])
  moreover have "i * ?c \<le> 2 ^ 21 * 127" by (rule mult_le_mono [OF assms(2) c])
  ultimately have "\<exists>st'. hash_char i b st = Inr st'"
    using prev unfolding st hash_char_def by (simp add: int_ops Let_def)
  then show ?thesis using hash_char_ok assms(1) by blast
qed

lemma hash_chars_defined:
  "hash_state_ok st \<Longrightarrow> 0 \<notin> set s \<Longrightarrow> i + length s \<le> 2 ^ 21 \<Longrightarrow>
    \<exists>hash. hash_chars i st (s @ 0 # rest) = Inr (i + length s, hash)"
proof (induction s arbitrary: i st)
  case (Cons b s)
  obtain st' where "hash_char i b st = Inr st'" "hash_state_ok st'"
    using hash_char_defined [of st i b] Cons.prems by auto
  then show ?case using Cons.IH [of st' "i + 1"] Cons.prems by auto
qed simp

text \<open>A text of at least four characters, and of at most two million, has a hash.\<close>

theorem hash_total:
  assumes "0 \<notin> set s" "4 \<le> length s" "length s \<le> 2 ^ 21" "len \<noteq> -1"
  shows "\<exists>hash. hash_h32__n (s @ 0 # rest) len = Inr hash"
  using hash_chars_defined [of "([0, 0, 0, 0], 0)" s 0 rest] assms by (auto simp: hash_h32__n_def)

theorem hash_of_short_text_crashes:
  assumes "0 \<notin> set s" "length s < 4"
  shows "hash_h32__n (s @ 0 # rest) len = Inl DivByZero \<and> hash_h32 (s @ 0 # rest) = Inl DivByZero"
proof -
  have "length s \<le> 2 ^ 21" using assms(2) by (rule order_trans [OF less_imp_le]) simp
  then show ?thesis
    using hash_chars_defined [of "([0, 0, 0, 0], 0)" s 0 rest] assms
    by (auto simp: hash_h32__n_def hash_h32_def hash_rest_crashes)
qed

text \<open>The hash sees the low seven bits of the characters before the first null byte.\<close>

lemma hash_char_masked: "a AND 0x7F = b AND 0x7F \<Longrightarrow> hash_char i a st = hash_char i b st"
  by (simp add: hash_char_def)

lemma hash_chars_masked:
  assumes "map (\<lambda>b. b AND 0x7F) s = map (\<lambda>b. b AND 0x7F) t" "0 \<notin> set s" "0 \<notin> set t"
  shows "hash_chars i st (s @ 0 # r) = hash_chars i st (t @ 0 # r')"
  using assms
proof (induction s arbitrary: t i st)
  case (Cons a s)
  then obtain b t' where "t = b # t'" by (cases t) auto
  then show ?case using Cons hash_char_masked [of a b i st] by (cases "hash_char i b st") auto
qed simp

lemma hash_chars_count: "hash_chars i st (s @ 0 # r) = Inr (j, hash) \<Longrightarrow> 0 \<notin> set s \<Longrightarrow> j = i + length s"
  by (induction s arbitrary: i st) fastforce+

theorem hash_ignores:
  assumes "map (\<lambda>b. b AND 0x7F) s = map (\<lambda>b. b AND 0x7F) t" "0 \<notin> set s" "0 \<notin> set t" "m \<noteq> -1" "n \<noteq> -1"
  shows "hash_h32__n (s @ 0 # r) m = hash_h32__n (t @ 0 # r') n"
proof -
  have rest: "hash_rest k buf k h = hash_rest k buf' k h" for k buf buf' h
    by (cases "k = 0") (simp_all add: hash_rest_crashes)
  show ?thesis using hash_chars_masked [OF assms(1-3), of 0 "([0, 0, 0, 0], 0)" r r'] assms(4,5)
    by (simp add: hash_h32__n_def rest [of _ "s @ 0 # r" _ "t @ 0 # r'"])
qed

section \<open>Signatures\<close>

text \<open>C31: A signature is accepted for every text that agrees with the signed one up to its first null byte, the
  highest bit of each character apart.\<close>

theorem signature_transfers:
  assumes "map (\<lambda>b. b AND 0x7F) s = map (\<lambda>b. b AND 0x7F) t" "0 \<notin> set s" "0 \<notin> set t"
  shows "rsa_verify g (s @ 0 # r) signature key = rsa_verify g t signature key"
proof -
  have "hash_h32__n ((s @ 0 # r) @ [0]) (int (length (s @ 0 # r))) = hash_h32__n (t @ [0]) (int (length t))"
    using hash_ignores [OF assms, of "int (length (s @ 0 # r))" "int (length t)" "r @ [0]" "[]"] by simp
  then show ?thesis by (simp add: rsa_verify_def)
qed

lemma minimal_le: "minimal (le (Suc n) v) \<longleftrightarrow> v mod 256 \<noteq> 0"
  by (metis le.simps(2) minimal_Cons unat_of_nat_byte unsigned_eq_0_iff)

lemma Suc_3: "Suc 3 = 4"
  by simp

text \<open>C30: A signature by one key of a pair is accepted by the other exactly when the first byte of the hash
  is not 0.\<close>

theorem signature_accepted:
  assumes "gmp_ok g" "rsa_pair p q pub priv" "k_n pub < 256 ^ k" "k < 2 ^ 64"
    and "hash_h32__n (data @ [0]) (int (length data)) = Inr hash" "unbe (le 4 (unat hash)) < k_n pub"
  shows "bindO (rsa_sign g True data priv) (\<lambda>s. rsa_verify g data s pub) = Inr (unat hash mod 256 \<noteq> 0)"
proof -
  let ?h = "le 4 (unat hash)"
  have n: "k_n priv = k_n pub" using rsa_pairD(2) [OF assms(2)] .
  have blocks: "rsa_blocks ?h = [?h]" by (simp add: rsa_blocks_def pages_def page_size_def BLOCK_SIZE_def upt_rec)
  have "list_all (\<lambda>b. unbe b < k_n priv) (rsa_blocks ?h)" using assms(6) n by (simp add: blocks)
  then have "bindO (rsa_encrypt g ?h priv) (\<lambda>c. rsa_decrypt g c pub) = Inr (strip_zeros ?h)"
    using pages_arrive [OF assms(1) rsa_pair_sym [OF assms(2)], of k ?h] assms(3,4) n by (simp add: blocks)
  then have "bindO (rsa_sign g True data priv) (\<lambda>s. rsa_verify g data s pub) = Inr (strip_zeros ?h = ?h)"
    using assms(5) by (auto simp: rsa_sign_def rsa_verify_def)
  moreover have "strip_zeros ?h = ?h \<longleftrightarrow> unat hash mod 256 \<noteq> 0"
  proof -
    have "minimal ?h \<longleftrightarrow> unat hash mod 256 \<noteq> 0" using minimal_le [of 3 "unat hash"] by (simp only: Suc_3)
    then show ?thesis using strip_zeros_minimal [of ?h] minimal_strip_zeros [of ?h] by metis
  qed
  ultimately show ?thesis by simp
qed

end
