(* ===== verification/Rsa_Keys.thy ===== *)
theory Rsa_Keys
  imports Rsa_Sign
begin

text \<open>
  The keys of \<open>src/src/rsa.c\<close>: the search for a prime ends, two different primes give a pair of keys, and
  the references of an encrypted object are given back when it is freed. At the end the theorems on
  encryption and signatures are applied to a pair of keys generated from given random bytes.
\<close>

section \<open>The search for a prime\<close>

lemma prime_divisor: "1 < n \<Longrightarrow> \<exists>p. is_prime p \<and> p dvd n"
proof (induction n rule: less_induct)
  case (less n)
  show ?case
  proof (cases "is_prime n")
    case False
    then obtain d where "2 \<le> d" "d < n" "d dvd n" using less.prems by (auto simp: is_prime_def list_all_iff)
    then show ?thesis using less.IH [of d] dvd_trans by fastforce
  qed auto
qed

lemma bigger_prime: "\<exists>p. is_prime p \<and> n < p"
proof -
  obtain p where p: "is_prime p" "p dvd fact n + 1" using prime_divisor [of "fact n + 1"] by (auto simp: fact_gt_zero)
  have "\<not> p \<le> n"
  proof
    assume "p \<le> n"
    then have "p dvd fact n" using is_prime_gt [OF p(1)] by (simp add: dvd_fact)
    then have "p dvd 1" using p(2) by (metis dvd_add_right_iff)
    then show False using is_prime_gt [OF p(1)] by simp
  qed
  then show ?thesis using p(1) by auto
qed

lemma odd_prime: "is_prime p \<Longrightarrow> 2 < p \<Longrightarrow> odd p"
  using is_primeD [of p 2] by auto

lemma next_prime_finds:
  "gm_probab_prime g (num + 2 * k) 50 \<Longrightarrow> k < fuel \<Longrightarrow>
    \<exists>j\<le>k. next_prime g fuel num = Inr (num + 2 * j) \<and> gm_probab_prime g (num + 2 * j) 50"
proof (induction fuel arbitrary: num k)
  case (Suc fuel)
  show ?case
  proof (cases "gm_probab_prime g num 50")
    case False
    then obtain k' where "k = Suc k'" using Suc.prems(1) by (cases k) auto
    then obtain j where "j \<le> k'" "next_prime g fuel (num + 2) = Inr (num + 2 + 2 * j)"
        "gm_probab_prime g (num + 2 + 2 * j) 50"
      using Suc.IH [of "num + 2" k'] Suc.prems by (auto simp: add.assoc)
    then show ?thesis using False \<open>k = Suc k'\<close> by (intro exI [of _ "Suc j"]) simp
  qed auto
qed simp

lemma next_prime_mono: "next_prime g fuel num = Inr p \<Longrightarrow> fuel \<le> fuel' \<Longrightarrow> next_prime g fuel' num = Inr p"
proof (induction fuel arbitrary: num fuel')
  case (Suc fuel)
  then show ?case by (cases fuel') (auto split: if_splits)
qed simp

lemma prime_search_ends:
  assumes "gmp_ok g" "odd num"
  shows "\<exists>fuel p. next_prime g fuel num = Inr p \<and> odd p \<and> num \<le> p \<and> gm_probab_prime g p 50"
proof -
  obtain r where r: "is_prime r" "num + 2 < r" using bigger_prime by blast
  then have "odd r" using odd_prime by simp
  then have "even (r - num)" using assms(2) r(2) by simp
  then obtain k where "r - num = 2 * k" by blast
  then have "num + 2 * k = r" using r(2) by linarith
  then have "gm_probab_prime g (num + 2 * k) 50" using gmp_okD(6) [OF assms(1) r(1)] by simp
  then show ?thesis using next_prime_finds [of g num k "Suc k"] assms(2) by fastforce
qed

lemma add_seeds_eq:
  "Suc adds * PRIME_BYTES \<le> length rs \<Longrightarrow>
    \<exists>num. add_seeds g adds n rs = Inr (num, drop (Suc adds * PRIME_BYTES) rs)"
proof (induction adds arbitrary: n rs)
  case (Suc adds)
  then show ?case using Suc.IH [of "drop PRIME_BYTES rs"] by (simp add: random_seed_def add.commute)
qed (simp add: random_seed_def)

text \<open>C32: With the random bytes it asks for, the search ends: from some fuel on it has the same result.\<close>

theorem random_prime_ends:
  assumes "gmp_ok g" "gen_adds rs = Inr (adds, rest)" "Suc adds * PRIME_BYTES \<le> length rest"
  shows "\<exists>fuel p. odd p \<and> gm_probab_prime g p 50
    \<and> (\<forall>more. random_prime g (fuel + more) rs = Inr (p, drop (Suc adds * PRIME_BYTES) rest))"
proof -
  obtain num where num: "add_seeds g adds 0 rest = Inr (num, drop (Suc adds * PRIME_BYTES) rest)"
    using add_seeds_eq [OF assms(3)] by blast
  have "odd (num OR 1)" by (simp add: even_or_iff)
  then obtain fuel p where "next_prime g fuel (num OR 1) = Inr p" "odd p" "gm_probab_prime g p 50"
    using prime_search_ends [OF assms(1)] by blast
  then show ?thesis using next_prime_mono [of g fuel "num OR 1" p "fuel + _"]
    by (intro exI [of _ fuel] exI [of _ p]) (auto simp: random_prime_def assms(2) num)
qed

lemma masked_20: "b AND 20 \<in> {0, 4, 16, 20 :: byte}"
proof -
  have "b AND 20 = (if bit b 2 then 4 else 0) OR (if bit b 4 then 16 else 0)"
    by (rule bit_word_eqI) (auto simp: bit_simps numeral_eq_Suc less_Suc_eq_0_disj nth_Cons' bit_0)
  then show ?thesis by (auto split: if_splits)
qed

section \<open>Key pairs\<close>

lemma two_primes: "is_prime p \<Longrightarrow> is_prime q \<Longrightarrow> p \<noteq> q \<Longrightarrow> 1 < (p - 1) * (q - 1)"
proof -
  assume "is_prime p" "is_prime q" "p \<noteq> q"
  then have "1 < p" "1 < q" "2 < p \<or> 2 < q" using is_prime_gt [of p] is_prime_gt [of q] by auto
  then have "2 \<le> p - 1 \<and> 1 \<le> q - 1 \<or> 1 \<le> p - 1 \<and> 2 \<le> q - 1" by auto
  then show ?thesis using mult_le_mono [of 2 "p - 1" 1 "q - 1"] mult_le_mono [of 1 "p - 1" 2 "q - 1"] by auto
qed

theorem keypair_new_pair:
  assumes "gmp_ok g" "random_prime g fuel rs = Inr (p, rs')" "random_prime g fuel rs' = Inr (q, rest)"
    and "is_prime p" "is_prime q" "p \<noteq> q" "coprime 65537 ((p - 1) * (q - 1))"
  shows "\<exists>keys. keypair_new g fuel rs = Inr (keys, rest) \<and> rsa_pair p q (pubkey keys) (privkey keys)
    \<and> k_e (pubkey keys) = 65537"
proof -
  have phi: "1 < (p - 1) * (q - 1)" by (rule two_primes [OF assms(4-6)])
  then obtain d where d: "gm_invert g 65537 ((p - 1) * (q - 1)) = Some d"
    using assms(1,7) unfolding gmp_ok_def by blast
  then have "65537 * d mod ((p - 1) * (q - 1)) = 1" using gmp_okD(5) [OF assms(1) d] phi by (metis mod_less)
  then show ?thesis using assms(2-6) d by (simp add: keypair_new_def Let_def rsa_pair_def)
qed

section \<open>References of an encrypted object\<close>

lemma use_leave: "0 < rc_count r \<Longrightarrow> ref_counted_leave (ref_counted_use r) = r"
  by (simp add: ref_counted_leave_def ref_counted_use_def Let_def)

text \<open>An object that others hold is not freed with the encrypted object, and its count is as before.\<close>

theorem encrypted_gives_back:
  assumes "0 < rc_count (cs key)" "0 < rc_count (cs data)" "key \<noteq> data"
  shows "encrypted_free (encrypted_set_key (Some key) (encrypted_set_data (Some data) (rsa_encrypted_new, cs))) = cs"
  using assms by (simp add: encrypted_free_def encrypted_set_key_def encrypted_set_data_def
    rsa_encrypted_new_def leave_if_def use_if_def use_leave fun_upd_twist fun_upd_idem)

text \<open>Setting the key that is already set, when nobody else holds it, frees it first.\<close>

theorem same_key_is_freed:
  assumes "rc_count (cs key) = 0" "rc_frees (cs key) = 0"
  shows "case encrypted_set_key (Some key) (encrypted_set_key (Some key) (rsa_encrypted_new, cs)) of (en, cs') \<Rightarrow>
    en_key en = Some key \<and> rc_frees (cs' key) = 1"
  using assms by (simp add: encrypted_set_key_def rsa_encrypted_new_def leave_if_def use_if_def
    ref_counted_leave_def ref_counted_use_def Let_def)

section \<open>The integers of the library\<close>

fun number_bytes :: "nat \<Rightarrow> bytes" where
  "number_bytes n = (if n = 0 then [] else number_bytes (n div 256) @ [of_nat n])"

declare number_bytes.simps [simp del]

definition gmp_reference :: gmp where
  "gmp_reference = \<lparr>gm_powm = (\<lambda>b e m. b ^ e mod m), gm_import = unbe, gm_export = number_bytes,
     gm_invert = (\<lambda>a m. find (\<lambda>d. a * d mod m = 1 mod m) [0..<m]), gm_probab_prime = (\<lambda>n k. is_prime n)\<rparr>"

lemma unbe_snoc: "unbe (bs @ [b]) = unbe bs * 256 + unat b"
  by (simp add: unbe_def)

lemma number_bytes_ok: "unbe (number_bytes n) = n \<and> minimal (number_bytes n)"
proof (induction n rule: number_bytes.induct)
  case (1 n)
  show ?case
  proof (cases "n < 256 \<and> 0 < n")
    case True
    then have "number_bytes n = [of_nat n]" by (simp add: number_bytes.simps [of n] number_bytes.simps [of 0])
    then show ?thesis using True by (simp add: unbe_Cons unat_of_nat_byte word_unat_eq_iff)
  next
    case False
    then have "n = 0 \<or> 0 < n div 256" by (auto simp: div_greater_zero_iff)
    then show ?thesis
    proof
      assume "n = 0"
      then show ?thesis by (simp add: number_bytes.simps [of 0])
    next
      assume pos: "0 < n div 256"
      then have "0 < n" by (cases n) auto
      then have eq: "number_bytes n = number_bytes (n div 256) @ [of_nat n]" by (subst number_bytes.simps) simp
      have IH: "unbe (number_bytes (n div 256)) = n div 256" "minimal (number_bytes (n div 256))"
        using 1 \<open>0 < n\<close> by simp_all
      then have "number_bytes (n div 256) \<noteq> []" using pos by auto
      then show ?thesis using IH by (simp add: eq unbe_snoc unat_of_nat_byte minimal_def div_mult_mod_eq)
    qed
  qed
qed

lemma inverse_exists:
  assumes "coprime a m" "1 < (m :: nat)"
  shows "\<exists>d<m. a * d mod m = 1"
proof -
  have "a \<noteq> 0" using assms by (auto intro: Nat.gr0I)
  then obtain x y where "a * x = m * y + gcd a m" using bezout_nat by blast
  then have "a * x mod m = 1 mod m" using assms(1) by (metis coprime_imp_gcd_eq_1 mod_mult_self3 mult.commute)
  then have "a * x mod m = 1" using assms(2) by simp
  then have "a * (x mod m) mod m = 1" by (simp add: mod_mult_right_eq)
  then show ?thesis using assms(2) by (intro exI [of _ "x mod m"]) simp
qed

lemma gmp_reference_ok: "gmp_ok gmp_reference"
  unfolding gmp_ok_def
proof (intro conjI allI impI)
  fix a m :: nat
  assume am: "1 < m \<and> coprime a m"
  then show "gm_invert gmp_reference a m \<noteq> None"
    using inverse_exists [of a m] by (auto simp: gmp_reference_def find_None_iff)
qed (auto simp: gmp_reference_def number_bytes_ok find_Some_iff)

section \<open>A pair of keys\<close>

lemma prime_by_trial:
  assumes "1 < p" "p < k * k" "list_all (\<lambda>d. \<not> d dvd p) [2..<k]"
  shows "is_prime p"
proof -
  have "\<not> d dvd p" if d: "2 \<le> d" "d < p" for d
  proof
    assume "d dvd p"
    then obtain c where c: "p = d * c" by blast
    then have "2 \<le> c" using d assms(1) by (cases c; cases "c - 1") auto
    moreover have "d < k \<or> c < k" using assms(2) c by (meson mult_le_mono not_le)
    moreover have "d dvd p" "c dvd p" using c by simp_all
    ultimately show False using assms(3) d(1) by (auto simp: list_all_iff)
  qed
  then show ?thesis using assms(1) by (auto simp: is_prime_def list_all_iff)
qed

lemma sample_primes: "is_prime 65539" "is_prime 65543" "is_prime 61" "is_prime 53"
  by (rule prime_by_trial [of _ 257], simp, simp, simp add: upt_rec)
    (rule prime_by_trial [of _ 257], simp, simp, simp add: upt_rec,
      (rule prime_by_trial [of _ 8], simp, simp, simp add: upt_rec)+)

definition sample_pub :: rsa_key where "sample_pub = \<lparr>k_e = 65537, k_n = 4295622677\<rparr>"
definition sample_priv :: rsa_key where "sample_priv = \<lparr>k_e = 2577281849, k_n = 4295622677\<rparr>"

lemma sample_pair: "rsa_pair 65539 65543 sample_pub sample_priv"
  using sample_primes by (simp add: rsa_pair_def sample_pub_def sample_priv_def)

lemmas block_defs = rsa_blocks_def pages_def page_size_def BLOCK_SIZE_def

lemma sample_n: "k_n sample_pub < 256 ^ 5" "(5 :: nat) < 2 ^ 64" "k_n sample_pub = 4295622677"
  by (simp_all add: sample_pub_def)

theorem rsa_transmits_witness:
  "bindO (rsa_encrypt gmp_reference [0, 72, 105] sample_pub) (\<lambda>c. rsa_decrypt gmp_reference c sample_priv) = Inr [72, 105]"
  using rsa_transmits [OF gmp_reference_ok sample_pair sample_n(1,2), of "[0, 72, 105]"]
  by (simp add: block_defs upt_rec unbe_Cons sample_n strip_zeros_def)

theorem rsa_roundtrip_witness:
  "bindO (rsa_encrypt gmp_reference [72, 105, 33] sample_pub) (\<lambda>c. rsa_decrypt gmp_reference c sample_priv) = Inr [72, 105, 33]"
  by (rule rsa_roundtrip [OF gmp_reference_ok sample_pair sample_n(1,2)])
    (simp_all add: block_defs upt_rec unbe_Cons sample_n)

theorem full_page_lost_witness:
  "bindO (rsa_encrypt gmp_reference (replicate 128 65) sample_pub) (\<lambda>c. rsa_decrypt gmp_reference c sample_priv) = Inr []"
  using full_page_lost [OF gmp_reference_ok sample_pair sample_n(1,2), of "replicate 128 65"]
  by (simp add: block_defs upt_rec sample_n)

text \<open>The texts \<open>poker\<close> and \<open>unicorn\<close>: a signature of the second is never accepted.\<close>

definition poker_text :: bytes where "poker_text = [112, 111, 107, 101, 114]"
definition unicorn_text :: bytes where "unicorn_text = [117, 110, 105, 99, 111, 114, 110]"

lemma sample_hashes:
  "hash_h32__n (poker_text @ [0]) (int (length poker_text)) = Inr 15111360"
  "hash_h32__n (unicorn_text @ [0]) (int (length unicorn_text)) = Inr 65536"
  by (simp_all add: poker_text_def unicorn_text_def hash_h32__n_def hash_char_def int_mult_def int_plus_def Let_def)

lemma four: "(4 :: nat) = Suc (Suc (Suc (Suc 0)))"
  by simp

lemma le_4: "le 4 v = [of_nat v, of_nat (v div 256), of_nat (v div 256 div 256), of_nat (v div 256 div 256 div 256)]"
  by (simp add: four)

theorem signature_accepted_witness:
  "bindO (rsa_sign gmp_reference True poker_text sample_priv) (\<lambda>s. rsa_verify gmp_reference poker_text s sample_pub) = Inr True
   \<and> bindO (rsa_sign gmp_reference True unicorn_text sample_priv) (\<lambda>s. rsa_verify gmp_reference unicorn_text s sample_pub)
     = Inr False"
  using signature_accepted [OF gmp_reference_ok sample_pair sample_n(1,2) sample_hashes(1)]
    signature_accepted [OF gmp_reference_ok sample_pair sample_n(1,2) sample_hashes(2)]
  by (simp add: le_4 unbe_Cons sample_n)

theorem signature_transfers_witness:
  "rsa_verify gmp_reference [240, 111, 107, 101, 114, 0, 33] [1, 2] sample_pub
    = rsa_verify gmp_reference [112, 239, 107, 101, 114] [1, 2] sample_pub"
  using signature_transfers [of "[240, 111, 107, 101, 114]" "[112, 239, 107, 101, 114]" gmp_reference "[33]" "[1, 2]" sample_pub]
  by simp

theorem hash_of_short_text_crashes_witness: "hash_h32__n [104, 105, 0] 2 = Inl DivByZero \<and> hash_h32 [104, 105, 0] = Inl DivByZero"
  using hash_of_short_text_crashes [of "[104, 105]" "[]" 2] by simp

theorem key_hex_roundtrip_witness:
  "key_from_hex gmp_reference (\<lambda>_. Inl UninitRead) (key_to_hex gmp_reference sample_pub) = Inr sample_pub"
  by (rule key_hex_roundtrip [OF gmp_reference_ok _ sample_n(1,2)]) (simp add: sample_pub_def)

text \<open>Random bytes for the primes 61 and 53.\<close>

definition seed_of :: "nat \<Rightarrow> bytes" where "seed_of n = replicate 255 0 @ [of_nat n]"

definition prime_draws :: "nat \<Rightarrow> bytes" where
  "prime_draws p = 4 # seed_of p @ concat (replicate 4 (seed_of 0))"

lemma random_seed_of: "random_seed PRIME_BYTES (seed_of n @ rest) = Inr (seed_of n, rest)"
  by (simp add: random_seed_def PRIME_BYTES_def seed_of_def)

lemma unle_replicate_0: "unle (replicate k 0) = 0"
  by (induction k) simp_all

lemma unbe_seed_of: "unbe (seed_of n) = n mod 256"
  by (simp add: seed_of_def unbe_def unle_replicate_0 unat_of_nat_byte)

lemma length_seed_of [simp]: "length (seed_of n) = 256"
  by (simp add: seed_of_def)

lemma random_prime_draws:
  "is_prime p \<Longrightarrow> odd p \<Longrightarrow> p < 256 \<Longrightarrow> random_prime gmp_reference (Suc fuel) (prime_draws p @ rest) = Inr (p, rest)"
proof -
  assume p: "is_prime p" "odd p" "p < 256"
  have "p OR 1 = p" using p(2) by (simp add: or_one_eq del: One_nat_def)
  moreover have "add_seeds gmp_reference 4 0 (seed_of p @ concat (replicate 4 (seed_of 0)) @ rest) = Inr (p, rest)"
    unfolding four using p(3) by (simp add: random_seed_of gmp_reference_def unbe_seed_of)
  ultimately show ?thesis using p(1)
    by (simp add: random_prime_def prime_draws_def gmp_reference_def)
qed

theorem random_prime_ends_witness:
  "\<exists>fuel p. odd p \<and> gm_probab_prime gmp_reference p 50 \<and> random_prime gmp_reference fuel (prime_draws 61) = Inr (p, [])"
  using random_prime_ends [OF gmp_reference_ok, of "prime_draws 61" 4 "seed_of 61 @ concat (replicate 4 (seed_of 0))"]
  by (auto simp: prime_draws_def PRIME_BYTES_def length_concat sum_list_replicate)

theorem keypair_new_pair_witness:
  "\<exists>keys. keypair_new gmp_reference 1 (prime_draws 61 @ prime_draws 53) = Inr (keys, [])
    \<and> rsa_pair 61 53 (pubkey keys) (privkey keys)"
  using keypair_new_pair [OF gmp_reference_ok, of 1 "prime_draws 61 @ prime_draws 53" 61 "prime_draws 53" 53 "[]"]
    random_prime_draws [OF sample_primes(3), of 0 "prime_draws 53"] random_prime_draws [OF sample_primes(4), of 0 "[]"]
    sample_primes(3,4)
  by (auto simp: coprime_iff_gcd_eq_1 gcd_non_0_nat)

end
