(* ===== verification/String_Object.thy ===== *)
theory String_Object
  imports RefCount Wallet
begin

text \<open>
  The string objects of \<open>src/src/string.c\<close> over an explicit memory: a list of blocks, each with the bytes
  written so far, whether it is still allocated, and whether it came from \<open>malloc\<close>. A pointer is a block and
  an offset. An allocation always succeeds, unless its size is a negative number made unsigned, and
  \<open>realloc\<close> always moves, so that a pointer to the old block is known to be invalid. An object is the record
  of its fields; what the code leaves unset is \<open>None\<close>.
\<close>

section \<open>Memory\<close>

record block =
  bk_bytes :: "byte option list"
  bk_live :: bool
  bk_heap :: bool

type_synonym memory = "block list"
type_synonym pointer = "(nat \<times> nat) option"

definition live_block :: "memory \<Rightarrow> nat \<Rightarrow> block outcome" where
  "live_block m b = (if b < length m \<and> bk_live (m ! b) then Inr (m ! b) else Inl UseAfterFree)"

definition read_bytes :: "pointer \<Rightarrow> int \<Rightarrow> memory \<Rightarrow> byte option list outcome" where
  "read_bytes p n m =
    (if n = 0 then Inr [] else if n < 0 then Inl OutOfRange
     else bindO (deref p) (\<lambda>(b, i). bindO (live_block m b) (\<lambda>k.
       if i + nat n \<le> length (bk_bytes k) then Inr (take (nat n) (drop i (bk_bytes k))) else Inl OutOfRange)))"

definition write_bytes :: "pointer \<Rightarrow> int \<Rightarrow> byte option list \<Rightarrow> memory \<Rightarrow> memory outcome" where
  "write_bytes p at bs m =
    (if bs = [] then Inr m
     else bindO (deref p) (\<lambda>(b, i). bindO (live_block m b) (\<lambda>k.
       let i = int i + at in
       if 0 \<le> i \<and> nat i + length bs \<le> length (bk_bytes k)
       then Inr (m[b := k\<lparr>bk_bytes := take (nat i) (bk_bytes k) @ bs @ drop (nat i + length bs) (bk_bytes k)\<rparr>])
       else Inl OutOfRange)))"

definition malloc :: "int \<Rightarrow> memory \<Rightarrow> pointer \<times> memory" where
  "malloc n m = (if n < 0 then (None, m)
     else (Some (length m, 0), m @ [\<lparr>bk_bytes = replicate (nat n) None, bk_live = True, bk_heap = True\<rparr>]))"

definition free :: "pointer \<Rightarrow> memory \<Rightarrow> memory outcome" where
  "free p m = (case p of None \<Rightarrow> Inr m
     | Some (b, i) \<Rightarrow> bindO (live_block m b) (\<lambda>k.
         if bk_heap k \<and> i = 0 then Inr (m[b := k\<lparr>bk_live := False\<rparr>]) else Inl BadFree))"

definition realloc :: "pointer \<Rightarrow> nat \<Rightarrow> memory \<Rightarrow> (pointer \<times> memory) outcome" where
  "realloc p n m = (case p of None \<Rightarrow> Inr (malloc (int n) m)
     | Some (b, i) \<Rightarrow> bindO (free p m) (\<lambda>m'.
         if n = 0 then Inr (None, m')
         else Inr (Some (length m, 0), m' @ [\<lparr>bk_bytes = take n (bk_bytes (m ! b) @ replicate n None),
           bk_live = True, bk_heap = True\<rparr>])))"

fun strlen_from :: "byte option list \<Rightarrow> nat outcome" where
  "strlen_from [] = Inl OutOfRange"
| "strlen_from (None # cs) = Inl UninitRead"
| "strlen_from (Some c # cs) = (if c = 0 then Inr 0 else bindO (strlen_from cs) (\<lambda>n. Inr (Suc n)))"

definition strlen :: "pointer \<Rightarrow> memory \<Rightarrow> nat outcome" where
  "strlen p m = bindO (deref p) (\<lambda>(b, i). bindO (live_block m b) (\<lambda>k. strlen_from (drop i (bk_bytes k))))"

text \<open>\<open>strndup\<close> stops at a null byte and after \<open>n\<close> bytes.\<close>

fun strn_from :: "nat \<Rightarrow> byte option list \<Rightarrow> bytes outcome" where
  "strn_from 0 cs = Inr []"
| "strn_from (Suc n) [] = Inl OutOfRange"
| "strn_from (Suc n) (None # cs) = Inl UninitRead"
| "strn_from (Suc n) (Some c # cs) = (if c = 0 then Inr [] else bindO (strn_from n cs) (\<lambda>bs. Inr (c # bs)))"

definition strndup :: "pointer \<Rightarrow> int \<Rightarrow> memory \<Rightarrow> (pointer \<times> memory) outcome" where
  "strndup p n m = bindO (deref p) (\<lambda>(b, i). bindO (live_block m b) (\<lambda>k.
     let cs = drop i (bk_bytes k) in
     bindO (strn_from (if n < 0 then Suc (length cs) else nat n) cs) (\<lambda>bs.
     Inr (Some (length m, 0), m @ [\<lparr>bk_bytes = map Some (bs @ [0]), bk_live = True, bk_heap = True\<rparr>]))))"

section \<open>String objects\<close>

record str =
  tx_value :: pointer
  tx_size :: "32 word"
  tx_length :: "32 word"
  tx_alloc :: bool
  tx_binary :: "bool option"
  tx_ref :: "ref_counted option"

text \<open>The value of an empty string has four bytes, the size of the constant 1.\<close>

definition string_new :: "memory \<Rightarrow> (str \<times> memory) outcome" where
  "string_new m = (case malloc 4 m of (v, m) \<Rightarrow>
     bindO (write_bytes v 0 [Some 0] m) (\<lambda>m.
     Inr (\<lparr>tx_value = v, tx_size = 1, tx_length = 0, tx_alloc = True, tx_binary = Some False,
       tx_ref = Some ref_counted_init\<rparr>, m)))"

definition string_new__n :: "int \<Rightarrow> memory \<Rightarrow> (str \<times> memory) outcome" where
  "string_new__n len m = (case malloc (len + 1) m of (v, m) \<Rightarrow>
     bindO (write_bytes v 0 [Some 0] m) (\<lambda>m.
     bindO (write_bytes v len [Some 0] m) (\<lambda>m.
     Inr (\<lparr>tx_value = v, tx_size = word_of_int (len + 1), tx_length = 0, tx_alloc = True, tx_binary = Some False,
       tx_ref = Some ref_counted_init\<rparr>, m))))"

definition string_from_cstr__copy :: "pointer \<Rightarrow> int \<Rightarrow> memory \<Rightarrow> (str \<times> memory) outcome" where
  "string_from_cstr__copy cstr len m =
    bindO (strndup cstr len m) (\<lambda>(v, m).
    bindO (write_bytes v len [Some 0] m) (\<lambda>m.
    Inr (\<lparr>tx_value = v, tx_size = word_of_int len + 1, tx_length = word_of_int len, tx_alloc = True,
      tx_binary = Some False, tx_ref = None\<rparr>, m)))"

definition string_new_from_binary__copy :: "pointer \<Rightarrow> nat \<Rightarrow> memory \<Rightarrow> (str \<times> memory) outcome" where
  "string_new_from_binary__copy data len m = (case malloc (int len) m of (v, m) \<Rightarrow>
     bindO (read_bytes data (int len) m) (\<lambda>bs.
     bindO (write_bytes v 0 bs m) (\<lambda>m.
     Inr (\<lparr>tx_value = v, tx_size = of_nat len, tx_length = of_nat len, tx_alloc = True, tx_binary = Some True,
       tx_ref = Some ref_counted_init\<rparr>, m))))"

definition string_new_from_cstr__copy :: "pointer \<Rightarrow> int \<Rightarrow> memory \<Rightarrow> (str \<times> memory) outcome" where
  "string_new_from_cstr__copy cstr len m = (case malloc (len + 1) m of (v, m) \<Rightarrow>
     bindO (read_bytes cstr len m) (\<lambda>bs.
     bindO (write_bytes v 0 bs m) (\<lambda>m.
     bindO (write_bytes v len [Some 0] m) (\<lambda>m.
     Inr (\<lparr>tx_value = v, tx_size = word_of_int len + 1, tx_length = word_of_int len, tx_alloc = True,
       tx_binary = Some False, tx_ref = Some ref_counted_init\<rparr>, m)))))"

definition string_from_cstr :: "pointer \<Rightarrow> int \<Rightarrow> memory \<Rightarrow> (str \<times> memory) outcome" where
  "string_from_cstr cstr len m =
    bindO (write_bytes cstr len [Some 0] m) (\<lambda>m.
    Inr (\<lparr>tx_value = cstr, tx_size = word_of_int len + 1, tx_length = word_of_int len, tx_alloc = False,
      tx_binary = Some False, tx_ref = None\<rparr>, m))"

definition string_from_binary :: "pointer \<Rightarrow> int \<Rightarrow> str" where
  "string_from_binary data len =
    \<lparr>tx_value = data, tx_size = word_of_int len + 1, tx_length = word_of_int len, tx_alloc = False,
      tx_binary = None, tx_ref = None\<rparr>"

definition string_new_from_cstr :: "pointer \<Rightarrow> int \<Rightarrow> str" where
  "string_new_from_cstr cstr len =
    \<lparr>tx_value = cstr, tx_size = word_of_int len + 1, tx_length = word_of_int len, tx_alloc = False,
      tx_binary = Some False, tx_ref = Some ref_counted_init\<rparr>"

text \<open>\<open>vasprintf\<close> gives the formatted text in a new block, or fails.\<close>

definition string_format_new :: "bytes option \<Rightarrow> memory \<Rightarrow> str option \<times> memory" where
  "string_format_new formatted m = (case formatted of None \<Rightarrow> (None, m)
     | Some bs \<Rightarrow> (Some ((string_new_from_cstr (Some (length m, 0)) (int (length bs)))\<lparr>tx_alloc := True\<rparr>),
         m @ [\<lparr>bk_bytes = map Some (bs @ [0]), bk_live = True, bk_heap = True\<rparr>]))"

definition string_free :: "str \<Rightarrow> memory \<Rightarrow> memory outcome" where
  "string_free s m = (if tx_alloc s then free (tx_value s) m else Inr m)"

text \<open>The old value is freed after the new one has been stored, and before the new one is used.\<close>

definition free_old :: "str \<Rightarrow> memory \<Rightarrow> memory outcome" where
  "free_old s m = (if tx_value s \<noteq> None \<and> tx_alloc s then free (tx_value s) m else Inr m)"

definition string_set_value :: "pointer \<Rightarrow> str \<times> memory \<Rightarrow> (str \<times> memory) outcome" where
  "string_set_value v = (\<lambda>(s, m).
    bindO (free_old s m) (\<lambda>m.
    bindO (strlen v m) (\<lambda>n.
    let s = s\<lparr>tx_value := v, tx_length := of_nat n, tx_size := of_nat n + 1\<rparr> in
    bindO (write_bytes v (uint (tx_length s)) [Some 0] m) (\<lambda>m. Inr (s, m)))))"

text \<open>The length and the size of a value that has been set, and its end.\<close>

definition end_value :: "nat \<Rightarrow> str \<times> memory \<Rightarrow> (str \<times> memory) outcome" where
  "end_value len = (\<lambda>(s, m).
    let s = s\<lparr>tx_length := of_nat len\<rparr> in
    (case tx_binary s of None \<Rightarrow> Inl UninitRead
     | Some True \<Rightarrow> Inr (s\<lparr>tx_size := tx_length s\<rparr>, m)
     | Some False \<Rightarrow> bindO (write_bytes (tx_value s) (int len) [Some 0] m) (\<lambda>m.
         Inr (s\<lparr>tx_size := tx_length s + 1\<rparr>, m))))"

definition string_set_value__n :: "pointer \<Rightarrow> nat \<Rightarrow> str \<times> memory \<Rightarrow> (str \<times> memory) outcome" where
  "string_set_value__n v len = (\<lambda>(s, m).
    bindO (free_old s m) (\<lambda>m. end_value len (s\<lparr>tx_value := v\<rparr>, m)))"

definition string_set_value__n__copy :: "pointer \<Rightarrow> nat \<Rightarrow> str \<times> memory \<Rightarrow> (str \<times> memory) outcome" where
  "string_set_value__n__copy v len = (\<lambda>(s, m).
    case malloc (int len) m of (new, m) \<Rightarrow>
    bindO (read_bytes v (int len) m) (\<lambda>bs.
    bindO (write_bytes new 0 bs m) (\<lambda>m.
    bindO (free_old s m) (\<lambda>m. end_value len (s\<lparr>tx_value := new\<rparr>, m)))))"

text \<open>The room for an append: the sum is computed with 64 bits and the size stored with 32.\<close>

definition ensure_room :: "int \<Rightarrow> str \<times> memory \<Rightarrow> (str \<times> memory) outcome" where
  "ensure_room len = (\<lambda>(s, m).
    let need = uint (tx_length s) + len + 1 in
    if uint (tx_size s) < need then
      let new = word_of_int need in
      bindO (realloc (tx_value s) (unat new) m) (\<lambda>(p, m). Inr (s\<lparr>tx_size := new, tx_value := p\<rparr>, m))
    else Inr (s, m))"

definition string_append__cstr__n :: "pointer \<Rightarrow> int \<Rightarrow> str \<times> memory \<Rightarrow> (str \<times> memory) outcome" where
  "string_append__cstr__n v len st =
    bindO (ensure_room len st) (\<lambda>(s, m).
    bindO (read_bytes v len m) (\<lambda>bs.
    bindO (write_bytes (tx_value s) (uint (tx_length s)) bs m) (\<lambda>m.
    let s = s\<lparr>tx_length := tx_length s + word_of_int len\<rparr> in
    bindO (write_bytes (tx_value s) (uint (tx_length s)) [Some 0] m) (\<lambda>m. Inr (s, m)))))"

definition string_append__cstr :: "pointer \<Rightarrow> str \<times> memory \<Rightarrow> (str \<times> memory) outcome" where
  "string_append__cstr v = (\<lambda>(s, m).
    bindO (strlen v m) (\<lambda>n. string_append__cstr__n v (int n) (s, m)))"

text \<open>A number is printed into an array of the function, which is gone when it returns.\<close>

definition append_buffer :: "bytes \<Rightarrow> str \<times> memory \<Rightarrow> (str \<times> memory) outcome" where
  "append_buffer printed = (\<lambda>(s, m).
    let b = length m;
        m = m @ [\<lparr>bk_bytes = map Some (printed @ [0]) @ replicate (31 - length printed) None, bk_live = True, bk_heap = False\<rparr>]
    in bindO (string_append__cstr__n (Some (b, 0)) (int (length printed)) (s, m)) (\<lambda>(s, m).
       Inr (s, m[b := (m ! b)\<lparr>bk_live := False\<rparr>])))"

definition string_append__int :: "32 word \<Rightarrow> str \<times> memory \<Rightarrow> (str \<times> memory) outcome" where
  "string_append__int n = append_buffer (decimal_int (sint n))"

definition string_append__uint :: "32 word \<Rightarrow> str \<times> memory \<Rightarrow> (str \<times> memory) outcome" where
  "string_append__uint n = append_buffer (decimal (unat n))"

definition string_append__uint64 :: "64 word \<Rightarrow> str \<times> memory \<Rightarrow> (str \<times> memory) outcome" where
  "string_append__uint64 n = append_buffer (decimal (unat n))"

definition string_append :: "str \<Rightarrow> str \<times> memory \<Rightarrow> (str \<times> memory) outcome" where
  "string_append other = string_append__cstr__n (tx_value other) (uint (tx_length other))"

definition initialised :: "byte option list \<Rightarrow> bytes outcome" where
  "initialised bs = (if list_all (\<lambda>b. b \<noteq> None) bs then Inr (map the bs) else Inl UninitRead)"

definition string_compare :: "str \<Rightarrow> str \<Rightarrow> memory \<Rightarrow> bool outcome" where
  "string_compare s other m =
    (if tx_length s \<noteq> tx_length other then Inr False
     else bindO (bindO (read_bytes (tx_value s) (uint (tx_length s)) m) initialised) (\<lambda>as.
       bindO (bindO (read_bytes (tx_value other) (uint (tx_length s)) m) initialised) (\<lambda>bs. Inr (as = bs))))"

definition string_set :: "str \<Rightarrow> str \<times> memory \<Rightarrow> (str \<times> memory) outcome" where
  "string_set other = string_set_value__n (tx_value other) (unat (tx_length other))"

definition string_set__copy :: "str \<Rightarrow> str \<times> memory \<Rightarrow> (str \<times> memory) outcome" where
  "string_set__copy other = string_set_value__n (tx_value other) (unat (tx_length other))"

text \<open>The value moves between two objects; the one it leaves keeps the pointer without owning it.\<close>

definition string_move :: "str \<Rightarrow> str \<Rightarrow> memory \<Rightarrow> (str \<times> str \<times> memory) outcome" where
  "string_move s other m =
    bindO (string_free s m) (\<lambda>m.
    Inr (s\<lparr>tx_alloc := tx_alloc other, tx_value := tx_value other, tx_length := tx_length other,
        tx_size := tx_size other, tx_binary := tx_binary other\<rparr>, other\<lparr>tx_alloc := False\<rparr>, m))"

text \<open>What the network library calls with every piece of an answer of the wallet.\<close>

definition curl_write_f :: "pointer \<Rightarrow> nat \<Rightarrow> nat \<Rightarrow> str \<times> memory \<Rightarrow> (nat \<times> str \<times> memory) outcome" where
  "curl_write_f contents k nmemb st =
    bindO (string_append__cstr__n contents (int (k * nmemb)) st) (\<lambda>st. Inr (k * nmemb, st))"

end
