(* ===== verification/String_Owned.thy ===== *)
theory String_Owned
  imports String_Object
begin

text \<open>
  The string objects of \<open>src/src/string.c\<close> that own their value: what the operations do to their
  contents, which memory they leave alone, and where an operation gives up the ownership that
  \<open>pkrsrv_string_free\<close> relies on.
\<close>

section \<open>Owned values\<close>

definition owns :: "memory \<Rightarrow> str \<Rightarrow> nat \<Rightarrow> bool" where
  "owns m s b \<longleftrightarrow> tx_value s = Some (b, 0) \<and> tx_alloc s \<and> b < length m \<and> bk_live (m ! b) \<and> bk_heap (m ! b)
     \<and> unat (tx_length s) \<le> unat (tx_size s) \<and> unat (tx_size s) \<le> length (bk_bytes (m ! b))
     \<and> list_all (\<lambda>c. c \<noteq> None) (take (unat (tx_length s)) (bk_bytes (m ! b)))"

definition contents :: "memory \<Rightarrow> str \<Rightarrow> bytes" where
  "contents m s = (case tx_value s of None \<Rightarrow> []
     | Some (b, i) \<Rightarrow> map the (take (unat (tx_length s)) (drop i (bk_bytes (m ! b)))))"

definition terminated :: "memory \<Rightarrow> str \<Rightarrow> bool" where
  "terminated m s \<longleftrightarrow> (case tx_value s of None \<Rightarrow> False
     | Some (b, i) \<Rightarrow> i + unat (tx_length s) < length (bk_bytes (m ! b))
         \<and> bk_bytes (m ! b) ! (i + unat (tx_length s)) = Some 0)"

text \<open>Bytes that can be read, outside the block of the string.\<close>

definition readable :: "memory \<Rightarrow> pointer \<Rightarrow> bytes \<Rightarrow> bool" where
  "readable m p bs \<longleftrightarrow> (case p of None \<Rightarrow> bs = []
     | Some (b, i) \<Rightarrow> b < length m \<and> bk_live (m ! b) \<and> i + length bs \<le> length (bk_bytes (m ! b))
         \<and> take (length bs) (drop i (bk_bytes (m ! b))) = map Some bs)"

definition apart :: "pointer \<Rightarrow> nat \<Rightarrow> bool" where
  "apart p b \<longleftrightarrow> (case p of None \<Rightarrow> True | Some (c, i) \<Rightarrow> c \<noteq> b)"

text \<open>Every block but those of a set is as it was, and new blocks outside the set are not allocated any more.\<close>

definition same_but :: "nat set \<Rightarrow> memory \<Rightarrow> memory \<Rightarrow> bool" where
  "same_but B m m' \<longleftrightarrow> length m \<le> length m' \<and> (\<forall>b<length m'. b \<notin> B \<longrightarrow>
     (if b < length m then m' ! b = m ! b else \<not> bk_live (m' ! b)))"

lemma ownsD:
  assumes "owns m s b"
  shows "tx_value s = Some (b, 0)" "tx_alloc s" "b < length m" "bk_live (m ! b)" "bk_heap (m ! b)"
    "unat (tx_length s) \<le> unat (tx_size s)" "unat (tx_size s) \<le> length (bk_bytes (m ! b))"
  using assms by (simp_all add: owns_def)

lemma owned_bytes:
  "owns m s b \<Longrightarrow> take (unat (tx_length s)) (bk_bytes (m ! b)) = map Some (contents m s)"
  by (auto simp: owns_def contents_def list_all_iff intro!: map_idI [symmetric])

lemma length_contents: "owns m s b \<Longrightarrow> length (contents m s) = unat (tx_length s)"
  by (auto simp: owns_def contents_def)

text \<open>To show that an object owns a block it is enough to know how the block starts.\<close>

lemma ownsI:
  assumes "tx_value s = Some (b, 0)" "tx_alloc s" "b < length m" "bk_live (m ! b)" "bk_heap (m ! b)"
    and "bk_bytes (m ! b) = map Some bs @ rest" "unat (tx_length s) = length bs"
    and "length bs \<le> unat (tx_size s)" "unat (tx_size s) \<le> length (bk_bytes (m ! b))"
  shows "owns m s b \<and> contents m s = bs"
  using assms by (simp add: owns_def contents_def list_all_iff)

lemma read_readable:
  assumes "readable m p bs"
  shows "read_bytes p (int (length bs)) m = Inr (map Some bs)"
proof (cases p)
  case (Some a)
  then show ?thesis using assms by (cases a) (auto simp: readable_def read_bytes_def live_block_def)
qed (use assms in \<open>simp add: readable_def read_bytes_def\<close>)

lemma write_in_block:
  assumes "b < length m" "bk_live (m ! b)" "bk_bytes (m ! b) = xs @ ys @ zs" "length ys = length bs"
  shows "write_bytes (Some (b, 0)) (int (length xs)) bs m = Inr (m[b := (m ! b)\<lparr>bk_bytes := xs @ bs @ zs\<rparr>])"
proof -
  have "m[b := (m ! b)\<lparr>bk_bytes := xs @ zs\<rparr>] = m" if "bs = []"
  proof -
    have "(m ! b)\<lparr>bk_bytes := xs @ zs\<rparr> = m ! b" using assms(3,4) that by (intro block.equality) simp_all
    then show ?thesis by (metis list_update_id)
  qed
  then show ?thesis using assms by (auto simp: write_bytes_def live_block_def Let_def)
qed

section \<open>Appending\<close>

lemma unat_sum:
  fixes w :: "32 word"
  assumes "unat w + n < 2 ^ 32"
  shows "unat (w + word_of_int (int n)) = unat w + n"
proof -
  have "unat (of_nat n :: 32 word) = n" using assms by (simp add: unat_of_nat)
  then show ?thesis using assms by (simp add: unat_word_ariths)
qed

text \<open>A value that starts with given bytes and has room for more of them and a terminator.\<close>

definition has_room :: "memory \<Rightarrow> str \<Rightarrow> nat \<Rightarrow> bytes \<Rightarrow> nat \<Rightarrow> bool" where
  "has_room m s b bs n \<longleftrightarrow> tx_value s = Some (b, 0) \<and> tx_alloc s \<and> b < length m \<and> bk_live (m ! b) \<and> bk_heap (m ! b)
     \<and> unat (tx_length s) = length bs \<and> length bs + n < unat (tx_size s) \<and> unat (tx_size s) \<le> length (bk_bytes (m ! b))
     \<and> take (length bs) (bk_bytes (m ! b)) = map Some bs"

lemma room_in_place:
  "owns m s b \<Longrightarrow> unat (tx_length s) + n < unat (tx_size s) \<Longrightarrow> has_room m s b (contents m s) n"
  using owned_bytes [of m s b] length_contents [of m s b] by (simp add: has_room_def ownsD)

lemma ensure_room_ok:
  assumes "owns m s b" "unat (tx_length s) + n + 1 < 2 ^ 32"
  shows "\<exists>s' m' b'. ensure_room (int n) (s, m) = Inr (s', m') \<and> has_room m' s' b' (contents m s) n
    \<and> same_but {b, b'} m m' \<and> (b' = b \<or> length m \<le> b' \<and> \<not> bk_live (m' ! b))"
proof -
  note own = ownsD [OF assms(1)]
  define need where "need = uint (tx_length s) + int n + 1"
  define new :: "32 word" where "new = word_of_int need"
  have new: "unat new = unat (tx_length s) + n + 1"
  proof -
    have "new = tx_length s + word_of_int (int (n + 1))" by (simp add: new_def need_def)
    then show ?thesis using unat_sum [of "tx_length s" "n + 1"] assms(2) by simp
  qed
  have grow: "uint (tx_size s) < need \<longleftrightarrow> unat (tx_size s) < unat (tx_length s) + n + 1"
    unfolding need_def uint_nat by linarith
  show ?thesis
  proof (cases "uint (tx_size s) < need")
    case False
    then have "ensure_room (int n) (s, m) = Inr (s, m)" by (simp add: ensure_room_def need_def)
    moreover have "has_room m s b (contents m s) n" using False grow by (intro room_in_place [OF assms(1)]) simp
    ultimately show ?thesis by (auto simp: same_but_def)
  next
    case True
    let ?k = "\<lparr>bk_bytes = take (unat new) (bk_bytes (m ! b) @ replicate (unat new) None), bk_live = True, bk_heap = True\<rparr>"
    let ?m = "m[b := (m ! b)\<lparr>bk_live := False\<rparr>] @ [?k]"
    let ?s = "s\<lparr>tx_size := new, tx_value := Some (length m, 0)\<rparr>"
    have "realloc (tx_value s) (unat new) m = Inr (Some (length m, 0), ?m)"
      using own new by (simp add: realloc_def free_def live_block_def)
    then have run: "ensure_room (int n) (s, m) = Inr (?s, ?m)"
      using True unfolding ensure_room_def Let_def prod.case need_def [symmetric] new_def [symmetric] by simp
    have last: "?m ! length m = ?k" using own(3) by (simp add: nth_append)
    have "take (unat (tx_length s)) (bk_bytes ?k) = map Some (contents m s)"
      using own(6,7) new by (simp add: owned_bytes [OF assms(1), symmetric] min_def)
    then have "has_room ?m ?s (length m) (contents m s) n"
      unfolding has_room_def last using own new length_contents [OF assms(1)] by simp
    moreover have "same_but {b, length m} m ?m" by (auto simp: same_but_def nth_append nth_list_update)
    moreover have "\<not> bk_live (?m ! b)" using own by (simp add: nth_append)
    ultimately show ?thesis using run by blast
  qed
qed

lemma write_room:
  assumes "has_room m s b bs n" "length cs = n" "length bs + n + 1 < 2 ^ 32"
  shows "\<exists>m'. bindO (write_bytes (tx_value s) (uint (tx_length s)) (map Some cs) m) (\<lambda>m.
      let s = s\<lparr>tx_length := tx_length s + word_of_int (int n)\<rparr> in
      bindO (write_bytes (tx_value s) (uint (tx_length s)) [Some 0] m) (\<lambda>m. Inr (s, m)))
      = Inr (s\<lparr>tx_length := tx_length s + word_of_int (int n)\<rparr>, m')
    \<and> owns m' (s\<lparr>tx_length := tx_length s + word_of_int (int n)\<rparr>) b
    \<and> contents m' (s\<lparr>tx_length := tx_length s + word_of_int (int n)\<rparr>) = bs @ cs
    \<and> terminated m' (s\<lparr>tx_length := tx_length s + word_of_int (int n)\<rparr>) \<and> same_but {b} m m'"
proof -
  let ?s = "s\<lparr>tx_length := tx_length s + word_of_int (int n)\<rparr>"
  note room = assms(1) [unfolded has_room_def]
  let ?bytes = "bk_bytes (m ! b)"
  define ys where "ys = take n (drop (length bs) ?bytes)"
  define z where "z = ?bytes ! (length bs + n)"
  define zs where "zs = drop (length bs + n + 1) ?bytes"
  have long: "length bs + n < length ?bytes" using room by simp
  have "?bytes = take (length bs + n) ?bytes @ z # zs"
    using id_take_nth_drop [OF long] unfolding z_def zs_def by simp
  then have split: "?bytes = map Some bs @ ys @ z # zs"
    using room unfolding take_add ys_def by simp
  have ys: "length ys = n" using long by (simp add: ys_def)
  have len: "unat (tx_length ?s) = length bs + n" using unat_sum [of "tx_length s" n] room assms(3) by simp
  let ?m = "m[b := (m ! b)\<lparr>bk_bytes := map Some bs @ map Some cs @ z # zs\<rparr>]"
  let ?m' = "m[b := (m ! b)\<lparr>bk_bytes := map Some (bs @ cs) @ [Some 0] @ zs\<rparr>]"
  have "write_bytes (Some (b, 0)) (int (length (map Some bs))) (map Some cs) m = Inr ?m"
    by (rule write_in_block [of b m _ ys]) (use room split ys assms(2) in simp_all)
  moreover have "write_bytes (Some (b, 0)) (int (length (map Some (bs @ cs)))) [Some 0] ?m = Inr ?m'"
    using write_in_block [of b ?m "map Some (bs @ cs)" "[z]" zs "[Some 0]"] room by simp
  ultimately have run: "bindO (write_bytes (tx_value s) (uint (tx_length s)) (map Some cs) m) (\<lambda>m.
      bindO (write_bytes (tx_value ?s) (uint (tx_length ?s)) [Some 0] m) (\<lambda>m. Inr (?s, m))) = Inr (?s, ?m')"
    using room len assms(2) by (simp add: uint_nat)
  have block: "?m' ! b = (m ! b)\<lparr>bk_bytes := map Some (bs @ cs) @ [Some 0] @ zs\<rparr>" using room by simp
  have "length (bk_bytes (?m' ! b)) = length ?bytes" unfolding block by (subst split) (simp add: ys assms(2))
  then have "owns ?m' ?s b \<and> contents ?m' ?s = bs @ cs"
    by (intro ownsI [of _ _ _ _ "[Some 0] @ zs"]) (use room block len assms(2) in simp_all)
  moreover have "terminated ?m' ?s"
    using room block len assms(2) by (simp add: terminated_def nth_append)
  moreover have "same_but {b} m ?m'" by (auto simp: same_but_def)
  ultimately show ?thesis using run by (auto simp: Let_def)
qed

text \<open>Where the value is after some operations: in its block, or in a new one, the old one being freed;
  nothing else has changed, and nothing new is still allocated.\<close>

definition moved :: "memory \<Rightarrow> nat \<Rightarrow> memory \<Rightarrow> nat \<Rightarrow> bool" where
  "moved m b m' b' \<longleftrightarrow> same_but {b, b'} m m' \<and> (b' = b \<or> length m \<le> b' \<and> \<not> bk_live (m' ! b))"

lemma moved_refl [simp]: "moved m b m b"
  by (simp add: moved_def same_but_def)

lemma moved_trans:
  assumes "moved m b m' c" "moved m' c m'' d" "b < length m" "c < length m'"
  shows "moved m b m'' d"
proof -
  have len: "length m \<le> length m'" "length m' \<le> length m''" using assms(1,2) by (simp_all add: moved_def same_but_def)
  have old: "m'' ! i = m' ! i" if "i < length m'" "i \<noteq> c" "i \<noteq> d" for i
    using that assms(2) len by (auto simp: moved_def same_but_def)
  have first: "if i < length m then m' ! i = m ! i else \<not> bk_live (m' ! i)" if "i < length m'" "i \<noteq> b" "i \<noteq> c" for i
    using that assms(1) by (auto simp: moved_def same_but_def)
  have fresh: "\<not> bk_live (m'' ! i)" if "length m' \<le> i" "i < length m''" "i \<noteq> c" "i \<noteq> d" for i
    using that assms(2) by (auto simp: moved_def same_but_def)
  have "if i < length m then m'' ! i = m ! i else \<not> bk_live (m'' ! i)" if i: "i < length m''" "i \<noteq> b" "i \<noteq> d" for i
  proof (cases "i < length m'")
    case True
    show ?thesis
    proof (cases "i = c")
      case True
      then have "length m \<le> i" "\<not> bk_live (m'' ! i)" using assms(1,2) i by (auto simp: moved_def)
      then show ?thesis by simp
    qed (use first [OF True] old [OF True] i in auto)
  qed (use fresh [of i] i len assms(4) in auto)
  moreover have "d = b \<or> length m \<le> d \<and> \<not> bk_live (m'' ! b)"
  proof (cases "d = b")
    case False
    then show ?thesis using assms(1,2) old [of b] assms(3) len by (auto simp: moved_def)
  qed simp
  ultimately show ?thesis using len by (auto simp: moved_def same_but_def)
qed

lemma moved_readable:
  assumes "moved m b m' b'" "readable m p bs" "apart p b"
  shows "readable m' p bs"
proof (cases p)
  case (Some a)
  obtain c i where a: "a = (c, i)" by (cases a)
  have c: "c < length m" "c \<noteq> b" "c \<noteq> b'" using assms by (auto simp: Some a readable_def apart_def moved_def)
  then have "c < length m'" "m' ! c = m ! c" using assms(1) by (auto simp: moved_def same_but_def)
  then show ?thesis using assms(2) by (simp add: Some a readable_def)
qed (use assms(2) in \<open>simp add: readable_def\<close>)

lemma moved_write: "moved m b m' c \<Longrightarrow> same_but {c} m' m'' \<Longrightarrow> b < length m \<Longrightarrow> c < length m' \<Longrightarrow> moved m b m'' c"
  by (erule moved_trans) (simp_all add: moved_def)

text \<open>Appending bytes that lie elsewhere: the contents grow by them and stay terminated.\<close>

lemma append_ok:
  assumes "owns m s b" "readable m v bs" "apart v b" "unat (tx_length s) + length bs + 1 < 2 ^ 32"
  shows "\<exists>s' m' b'. string_append__cstr__n v (int (length bs)) (s, m) = Inr (s', m') \<and> owns m' s' b'
    \<and> contents m' s' = contents m s @ bs \<and> terminated m' s' \<and> moved m b m' b'"
proof -
  obtain s1 m1 b1 where room: "ensure_room (int (length bs)) (s, m) = Inr (s1, m1)"
      "has_room m1 s1 b1 (contents m s) (length bs)" and mv: "moved m b m1 b1"
    using ensure_room_ok [OF assms(1,4)] by (auto simp: moved_def)
  have read: "read_bytes v (int (length bs)) m1 = Inr (map Some bs)"
    by (rule read_readable [OF moved_readable [OF mv assms(2,3)]])
  have "length (contents m s) + length bs + 1 < 2 ^ 32" using assms(4) length_contents [OF assms(1)] by simp
  from write_room [OF room(2) refl this] obtain m2 where w:
      "bindO (write_bytes (tx_value s1) (uint (tx_length s1)) (map Some bs) m1) (\<lambda>m.
        let s = s1\<lparr>tx_length := tx_length s1 + word_of_int (int (length bs))\<rparr> in
        bindO (write_bytes (tx_value s) (uint (tx_length s)) [Some 0] m) (\<lambda>m. Inr (s, m)))
        = Inr (s1\<lparr>tx_length := tx_length s1 + word_of_int (int (length bs))\<rparr>, m2)"
      "owns m2 (s1\<lparr>tx_length := tx_length s1 + word_of_int (int (length bs))\<rparr>) b1"
      "contents m2 (s1\<lparr>tx_length := tx_length s1 + word_of_int (int (length bs))\<rparr>) = contents m s @ bs"
      "terminated m2 (s1\<lparr>tx_length := tx_length s1 + word_of_int (int (length bs))\<rparr>)" "same_but {b1} m1 m2"
    by blast
  have "moved m b m2 b1" by (rule moved_write [OF mv w(5)]) (use ownsD(3) [OF assms(1)] room(2) in \<open>simp_all add: has_room_def\<close>)
  then show ?thesis using room(1) read w(1-4) by (auto simp: string_append__cstr__n_def)
qed

text \<open>The same for bytes in a block that lives only during the call.\<close>

definition drop_block :: "nat \<Rightarrow> memory \<Rightarrow> memory" where
  "drop_block b m = m[b := (m ! b)\<lparr>bk_live := False\<rparr>]"

lemma owns_add: "owns m s b \<Longrightarrow> owns (m @ ks) s b \<and> contents (m @ ks) s = contents m s"
  by (auto simp: owns_def contents_def nth_append)

lemma owns_drop_block: "owns m s b \<Longrightarrow> c \<noteq> b \<Longrightarrow> owns (drop_block c m) s b \<and> contents (drop_block c m) s = contents m s"
  by (auto simp: owns_def contents_def drop_block_def)

lemma bytes_drop_block [simp]: "bk_bytes (drop_block c m ! a) = bk_bytes (m ! a)"
  by (cases "c < length m"; cases "a = c") (simp_all add: drop_block_def list_update_beyond)

lemma length_drop_block [simp]: "length (drop_block c m) = length m"
  by (simp add: drop_block_def)

lemma terminated_drop_block: "terminated m s \<Longrightarrow> terminated (drop_block c m) s"
  by (auto simp: terminated_def split: option.splits)

lemma moved_drop_block:
  assumes "moved (m @ [k]) b m' b'" "b < length m"
  shows "moved m b (drop_block (length m) m') b' \<and> b' \<noteq> length m"
proof -
  have b': "b' \<noteq> length m" using assms by (auto simp: moved_def)
  have "same_but {b, b'} (m @ [k]) m'" using assms(1) by (simp add: moved_def)
  then have "same_but {b, b'} m (drop_block (length m) m')"
    by (auto simp: same_but_def drop_block_def nth_list_update nth_append split: if_splits)
  then show ?thesis using assms b' by (auto simp: moved_def drop_block_def)
qed

lemma append_temporary:
  assumes "owns m s b" "bk_live k" "take (length bs) (bk_bytes k) = map Some bs" "unat (tx_length s) + length bs + 1 < 2 ^ 32"
  shows "\<exists>s' m' b'. string_append__cstr__n (Some (length m, 0)) (int (length bs)) (s, m @ [k]) = Inr (s', m')
    \<and> owns (drop_block (length m) m') s' b' \<and> contents (drop_block (length m) m') s' = contents m s @ bs
    \<and> terminated (drop_block (length m) m') s' \<and> moved m b (drop_block (length m) m') b'"
proof -
  have "length bs \<le> length (bk_bytes k)" using arg_cong [OF assms(3), of length] by simp
  then have "readable (m @ [k]) (Some (length m, 0)) bs" using assms(2,3) by (simp add: readable_def)
  moreover have "apart (Some (length m, 0)) b" using ownsD(3) [OF assms(1)] by (simp add: apart_def)
  ultimately obtain s' m' b' where r: "string_append__cstr__n (Some (length m, 0)) (int (length bs)) (s, m @ [k]) = Inr (s', m')"
      "owns m' s' b'" "contents m' s' = contents m s @ bs" "terminated m' s'" "moved (m @ [k]) b m' b'"
    using append_ok [of "m @ [k]" s b "Some (length m, 0)" bs] owns_add [OF assms(1), of "[k]"] assms(4) by auto
  then show ?thesis using moved_drop_block [OF r(5) ownsD(3) [OF assms(1)]] owns_drop_block [OF r(2)] terminated_drop_block
    by metis
qed

text \<open>Numbers.\<close>

lemma append_buffer_ok:
  assumes "owns m s b" "unat (tx_length s) + length printed + 1 < 2 ^ 32"
  shows "\<exists>s' m' b'. append_buffer printed (s, m) = Inr (s', m') \<and> owns m' s' b'
    \<and> contents m' s' = contents m s @ printed \<and> terminated m' s' \<and> moved m b m' b'"
proof -
  let ?k = "\<lparr>bk_bytes = map Some (printed @ [0]) @ replicate (31 - length printed) None, bk_live = True, bk_heap = False\<rparr>"
  have "take (length printed) (bk_bytes ?k) = map Some printed" by simp
  from append_temporary [OF assms(1) _ this assms(2)] obtain s' m' b' where
    "string_append__cstr__n (Some (length m, 0)) (int (length printed)) (s, m @ [?k]) = Inr (s', m')"
    "owns (drop_block (length m) m') s' b'" "contents (drop_block (length m) m') s' = contents m s @ printed"
    "terminated (drop_block (length m) m') s'" "moved m b (drop_block (length m) m') b'" by auto
  then show ?thesis by (auto simp: append_buffer_def Let_def drop_block_def)
qed

section \<open>An answer received in pieces\<close>

text \<open>The pieces of an answer of the wallet, each in memory of the network library during its call.\<close>

fun receive_pieces :: "bytes list \<Rightarrow> str \<times> memory \<Rightarrow> (str \<times> memory) outcome" where
  "receive_pieces [] st = Inr st"
| "receive_pieces (c # cs) (s, m) =
    bindO (curl_write_f (Some (length m, 0)) 1 (length c)
      (s, m @ [\<lparr>bk_bytes = map Some c, bk_live = True, bk_heap = False\<rparr>])) (\<lambda>(n, s, m').
    receive_pieces cs (s, drop_block (length m) m'))"

lemma receive_pieces_ok:
  "owns m s b \<Longrightarrow> terminated m s \<Longrightarrow> unat (tx_length s) + length (concat cs) + 1 < 2 ^ 32 \<Longrightarrow>
    \<exists>s' m' b'. receive_pieces cs (s, m) = Inr (s', m') \<and> owns m' s' b'
      \<and> contents m' s' = contents m s @ concat cs \<and> terminated m' s' \<and> moved m b m' b'"
proof (induction cs arbitrary: s m b)
  case (Cons c cs)
  let ?k = "\<lparr>bk_bytes = map Some c, bk_live = True, bk_heap = False\<rparr>"
  obtain s1 m1 b1 where r: "string_append__cstr__n (Some (length m, 0)) (int (length c)) (s, m @ [?k]) = Inr (s1, m1)"
    "owns (drop_block (length m) m1) s1 b1" "contents (drop_block (length m) m1) s1 = contents m s @ c"
    "terminated (drop_block (length m) m1) s1" "moved m b (drop_block (length m) m1) b1"
    using append_temporary [OF Cons.prems(1), of ?k c] Cons.prems(3) by auto
  have "unat (tx_length s1) = unat (tx_length s) + length c"
    using length_contents [OF r(2)] length_contents [OF Cons.prems(1)] r(3) by simp
  then have "unat (tx_length s1) + length (concat cs) + 1 < 2 ^ 32" using Cons.prems(3) by simp
  from Cons.IH [OF r(2,4) this] obtain s2 m2 b2 where r2: "receive_pieces cs (s1, drop_block (length m) m1) = Inr (s2, m2)"
    "owns m2 s2 b2" "contents m2 s2 = contents m s @ c @ concat cs" "terminated m2 s2"
    "moved (drop_block (length m) m1) b1 m2 b2" using r(3) by auto
  have "moved m b m2 b2" by (rule moved_trans [OF r(5) r2(5)]) (use ownsD(3) [OF Cons.prems(1)] ownsD(3) [OF r(2)] in simp_all)
  then show ?case using r(1) r2(1-4) by (auto simp: curl_write_f_def)
qed auto

lemma string_new_ok:
  "\<exists>s m'. string_new m = Inr (s, m') \<and> owns m' s (length m) \<and> contents m' s = [] \<and> terminated m' s
    \<and> tx_length s = 0 \<and> length m' = Suc (length m) \<and> (\<forall>i<length m. m' ! i = m ! i)"
  by (auto simp: string_new_def malloc_def write_bytes_def live_block_def owns_def contents_def terminated_def
      nth_append Let_def eval_nat_numeral)

lemma free_owned:
  assumes "owns m s b"
  shows "string_free s m = Inr (drop_block b m) \<and> \<not> bk_live (drop_block b m ! b)"
  using ownsD [OF assms] by (simp add: string_free_def free_def live_block_def drop_block_def)

lemma same_but_new:
  assumes "length m0 = Suc (length m)" "\<forall>i<length m. m0 ! i = m ! i" "moved m0 (length m) m' b"
  shows "same_but {} m (drop_block b m')"
proof -
  have mv: "Suc (length m) \<le> length m'" "b = length m \<or> Suc (length m) \<le> b \<and> \<not> bk_live (m' ! length m)"
    "\<And>i. i < length m' \<Longrightarrow> i \<noteq> length m \<Longrightarrow> i \<noteq> b \<Longrightarrow> if i < Suc (length m) then m' ! i = m0 ! i else \<not> bk_live (m' ! i)"
    using assms(1,3) by (simp_all add: moved_def same_but_def)
  have "if i < length m then drop_block b m' ! i = m ! i else \<not> bk_live (drop_block b m' ! i)" if "i < length m'" for i
    using mv(3) [OF that] mv(2) assms(2) that by (cases "i = b"; cases "i = length m") (auto simp: drop_block_def less_Suc_eq)
  then show ?thesis using mv(1) by (simp add: same_but_def)
qed

text \<open>C11: An answer of the wallet is the concatenation of its pieces, with a null byte after it, however it
  is cut; freeing it afterwards gives back all the memory and touches nothing else.\<close>

theorem answer_is_concat:
  assumes "length (concat pieces) + 1 < 2 ^ 32"
  shows "\<exists>s m' freed. bindO (string_new m) (receive_pieces pieces) = Inr (s, m')
    \<and> contents m' s = concat pieces \<and> terminated m' s
    \<and> string_free s m' = Inr freed \<and> same_but {} m freed"
proof -
  obtain s0 m0 where n: "string_new m = Inr (s0, m0)" "owns m0 s0 (length m)" "contents m0 s0 = []" "terminated m0 s0"
    "tx_length s0 = 0" "length m0 = Suc (length m)" "\<forall>i<length m. m0 ! i = m ! i"
    using string_new_ok by blast
  have "unat (tx_length s0) + length (concat pieces) + 1 < 2 ^ 32" using assms n(5) by simp
  from receive_pieces_ok [OF n(2,4) this] obtain s m' b where r: "receive_pieces pieces (s0, m0) = Inr (s, m')"
    "owns m' s b" "contents m' s = concat pieces" "terminated m' s" "moved m0 (length m) m' b" using n(3) by auto
  note fr = free_owned [OF r(2)]
  have "same_but {} m (drop_block b m')"
    using same_but_new [OF n(6,7) r(5)] by simp
  then show ?thesis using n(1) r(1,3,4) fr by auto
qed

section \<open>Comparing and moving\<close>

lemma read_contents:
  assumes "owns m s b"
  shows "bindO (read_bytes (tx_value s) (uint (tx_length s)) m) initialised = Inr (contents m s)"
proof -
  have "readable m (tx_value s) (contents m s)"
    using ownsD [OF assms] owned_bytes [OF assms] length_contents [OF assms] by (simp add: readable_def)
  then have "read_bytes (tx_value s) (uint (tx_length s)) m = Inr (map Some (contents m s))"
    using read_readable [of m "tx_value s" "contents m s"] length_contents [OF assms] by simp
  then show ?thesis by (simp add: initialised_def list_all_iff comp_def)
qed

theorem compare_is_equality:
  assumes "owns m s b" "owns m t c"
  shows "string_compare s t m = Inr (contents m s = contents m t)"
proof (cases "tx_length s = tx_length t")
  case True
  then show ?thesis using read_contents [OF assms(1)] read_contents [OF assms(2)] by (simp add: string_compare_def del: bindO_eq_Inr)
next
  case False
  then have "contents m s \<noteq> contents m t"
    using length_contents [OF assms(1)] length_contents [OF assms(2)] by (metis word_unat_eq_iff)
  then show ?thesis using False by (simp add: string_compare_def)
qed

text \<open>Moving frees the old value and hands the other one over: each value is then freed once.\<close>

theorem move_hands_over:
  assumes "owns m s b" "owns m t c" "b \<noteq> c"
  shows "\<exists>s' t' m'. string_move s t m = Inr (s', t', m') \<and> owns m' s' c \<and> contents m' s' = contents m t
    \<and> bindO (string_free s' m') (string_free t') = Inr (drop_block c (drop_block b m))"
proof -
  let ?s = "s\<lparr>tx_alloc := tx_alloc t, tx_value := tx_value t, tx_length := tx_length t,
        tx_size := tx_size t, tx_binary := tx_binary t\<rparr>"
  have "owns (drop_block b m) t c" "contents (drop_block b m) t = contents m t"
    using owns_drop_block [OF assms(2), of b] assms(3) by simp_all
  then have o: "owns (drop_block b m) ?s c" "contents (drop_block b m) ?s = contents m t"
    by (simp_all add: owns_def contents_def)
  moreover have "string_move s t m = Inr (?s, t\<lparr>tx_alloc := False\<rparr>, drop_block b m)"
    using free_owned [OF assms(1)] by (simp add: string_move_def)
  moreover have "bindO (string_free ?s (drop_block b m)) (string_free (t\<lparr>tx_alloc := False\<rparr>)) = Inr (drop_block c (drop_block b m))"
    using free_owned [OF o(1)] by (simp add: string_free_def)
  ultimately show ?thesis by blast
qed

section \<open>Values without an owner, or with two\<close>

text \<open>C39: \<open>pkrsrv_string_set__copy\<close> copies the pointer: both objects own the value and the second one to be
  freed frees it again.\<close>

theorem set__copy_frees_twice:
  assumes "owns m s b" "owns m t c" "b \<noteq> c" "terminated m t" "tx_binary s = Some False"
  shows "\<exists>s' m'. string_set__copy t (s, m) = Inr (s', m') \<and> tx_value s' = tx_value t
    \<and> bindO (string_free s' m') (string_free t) = Inl UseAfterFree"
proof -
  note s = ownsD [OF assms(1)] and t = ownsD [OF assms(2)]
  let ?m = "drop_block b m"
  let ?s = "s\<lparr>tx_value := tx_value t, tx_length := tx_length t, tx_size := tx_length t + 1\<rparr>"
  obtain m' where w: "write_bytes (Some (c, 0)) (int (unat (tx_length t))) [Some 0] ?m = Inr m'"
    "m' = ?m[c := (?m ! c)\<lparr>bk_bytes := bk_bytes (m' ! c)\<rparr>]"
  proof -
    have "unat (tx_length t) < length (bk_bytes (?m ! c))" using assms(4) t(1) by (simp add: terminated_def)
    moreover have "c < length ?m" "bk_live (?m ! c)" using t(3,4) assms(3) by (simp_all add: drop_block_def)
    ultimately show ?thesis using that by (simp add: write_bytes_def live_block_def Let_def)
  qed
  have "free_old s m = Inr ?m" using s by (simp add: free_old_def free_def live_block_def drop_block_def)
  then have run: "string_set__copy t (s, m) = Inr (?s, m')"
    using w(1) assms(5) t(1) by (simp add: string_set__copy_def string_set_value__n_def end_value_def Let_def)
  have c: "c < length m'" "bk_live (m' ! c)" "bk_heap (m' ! c)"
    using t(3-5) assms(3) by (subst w(2), simp add: drop_block_def)+
  have "bindO (string_free ?s m') (string_free t) = Inl UseAfterFree"
    using s(2) t(1,2) c by (simp add: string_free_def free_def live_block_def)
  then show ?thesis using run by (intro exI conjI) simp_all
qed

text \<open>\<open>pkrsrv_string_set_value__n__copy\<close> of a text writes its end after the copy, which has no room for it.\<close>

theorem set_value__n__copy_overflows:
  assumes "owns m s b" "tx_binary s = Some False" "readable m v bs" "apart v b"
  shows "string_set_value__n__copy v (length bs) (s, m) = Inl OutOfRange"
proof -
  let ?k = "\<lparr>bk_bytes = replicate (length bs) None, bk_live = True, bk_heap = True\<rparr>"
  let ?m = "m @ [?k]" and ?m' = "m @ [?k\<lparr>bk_bytes := map Some bs\<rparr>]"
  note s = ownsD [OF assms(1)]
  have "readable ?m v bs" using assms(3) by (auto simp: readable_def nth_append split: option.splits)
  then have "read_bytes v (int (length bs)) ?m = Inr (map Some bs)" by (rule read_readable)
  moreover have "write_bytes (Some (length m, 0)) 0 (map Some bs) ?m = Inr ?m'"
    using write_in_block [of "length m" ?m "[]" "replicate (length bs) None" "[]" "map Some bs"] by simp
  moreover have "free_old s ?m' = Inr (drop_block b ?m')"
    using s by (simp add: free_old_def free_def live_block_def drop_block_def nth_append)
  moreover have "write_bytes (Some (length m, 0)) (int (length bs)) [Some 0] (drop_block b ?m') = Inl OutOfRange"
    using s(3) by (simp add: write_bytes_def live_block_def drop_block_def nth_append Let_def nth_list_update)
  ultimately show ?thesis using assms(2)
    by (simp add: string_set_value__n__copy_def malloc_def end_value_def Let_def)
qed

text \<open>Appending to an object made around an array that did not come from \<open>malloc\<close> resizes that array.\<close>

theorem append_to_borrowed:
  assumes "b < length m" "bk_live (m ! b)" "\<not> bk_heap (m ! b)" "0 < n" "unat (of_nat k :: 32 word) + n + 1 < 2 ^ 32"
  shows "string_append__cstr__n v (int n) (string_new_from_cstr (Some (b, 0)) (int k), m) = Inl BadFree"
proof -
  let ?s = "string_new_from_cstr (Some (b, 0)) (int k)"
  have "uint (tx_size ?s) \<le> uint (tx_length ?s) + 1" 
    by (simp add: string_new_from_cstr_def uint_plus_if_size)
  then have "uint (tx_size ?s) < uint (tx_length ?s) + int n + 1" using assms(4) by simp
  then show ?thesis using assms(1-3)
    by (simp add: string_append__cstr__n_def ensure_room_def realloc_def free_def live_block_def string_new_from_cstr_def Let_def)
qed

text \<open>Appending a string to itself reads the block that was given up to make room.\<close>

theorem append_to_itself:
  assumes "owns m s b" "contents m s \<noteq> []" "unat (tx_size s) \<le> 2 * unat (tx_length s)" "2 * unat (tx_length s) + 1 < 2 ^ 32"
  shows "string_append s (s, m) = Inl UseAfterFree"
proof -
  let ?n = "unat (tx_length s)"
  obtain s' m' b' where r: "ensure_room (int ?n) (s, m) = Inr (s', m')" "has_room m' s' b' (contents m s) ?n"
      "b' = b \<or> length m \<le> b' \<and> \<not> bk_live (m' ! b)"
    using ensure_room_ok [OF assms(1), of ?n] assms(4) by auto
  have "\<not> bk_live (m' ! b)"
  proof (rule ccontr)
    assume "\<not> \<not> bk_live (m' ! b)"
    then have "b' = b" using r(3) by blast
    have grow: "uint (tx_size s) < uint (tx_length s) + int ?n + 1" using assms(3) unfolding uint_nat by linarith
    then have "realloc (tx_value s) (unat (word_of_int (uint (tx_length s) + int ?n + 1) :: 32 word)) m
        = Inr (tx_value s', m')"
      using r(1) by (auto simp: ensure_room_def Let_def)
    then have "tx_value s' \<noteq> Some (b, 0)" using ownsD [OF assms(1)]
      by (auto simp: realloc_def free_def live_block_def split: if_splits)
    then show False using r(2) \<open>b' = b\<close> by (simp add: has_room_def)
  qed
  moreover have "0 < ?n" using assms(2) length_contents [OF assms(1)] by (metis length_greater_0_conv)
  moreover from this have "0 < uint (tx_length s)" unfolding uint_nat by linarith
  ultimately have "read_bytes (tx_value s) (int ?n) m' = Inl UseAfterFree"
    using ownsD(1) [OF assms(1)] by (auto simp: read_bytes_def live_block_def)
  then show ?thesis using r(1) by (simp add: string_append_def string_append__cstr__n_def)
qed

section \<open>The avatar of an account\<close>

lemma strlen_from_text: "0 \<notin> set as \<Longrightarrow> strlen_from (map Some (as @ 0 # bs) @ rest) = Inr (length as)"
  by (induction as) auto

lemma strlen_from_unended: "0 \<notin> set as \<Longrightarrow> strlen_from (map Some as @ None # rest) = Inl UninitRead"
  by (induction as) auto

text \<open>C38: An avatar arrives in a block of one byte more than it has, whose last byte is never written, and is
  measured with \<open>strlen\<close>: it is cut at its first null byte, and without one the byte that was never
  written is read.\<close>

theorem avatar_is_measured:
  assumes "owns m s b" "c < length m" "c \<noteq> b" "bk_live (m ! c)" "bk_bytes (m ! c) = map Some avatar @ [None]"
    and "length avatar < 2 ^ 32"
  shows "0 \<notin> set avatar \<and> string_set_value (Some (c, 0)) (s, m) = Inl UninitRead
    \<or> (\<exists>shown hidden s' m'. avatar = shown @ 0 # hidden \<and> string_set_value (Some (c, 0)) (s, m) = Inr (s', m')
        \<and> contents m' s' = shown)"
proof -
  let ?m = "drop_block b m"
  have free: "free_old s m = Inr ?m"
    using ownsD [OF assms(1)] by (simp add: free_old_def free_def live_block_def drop_block_def)
  have c: "c < length ?m" "?m ! c = m ! c" using assms(2,3) by (simp_all add: drop_block_def)
  show ?thesis
  proof (cases "0 \<in> set avatar")
    case False
    then have "strlen (Some (c, 0)) ?m = Inl UninitRead"
      using c assms(4,5) strlen_from_unended [of avatar "[]"] by (simp add: strlen_def live_block_def)
    then show ?thesis using False free by (simp add: string_set_value_def)
  next
    case True
    then obtain shown hidden where av: "avatar = shown @ 0 # hidden" "0 \<notin> set shown" by (metis split_list_first)
    then have len: "strlen (Some (c, 0)) ?m = Inr (length shown)"
      using c assms(4,5) strlen_from_text [of shown hidden "[None]"] by (simp add: strlen_def live_block_def)
    have n: "unat (of_nat (length shown) :: 32 word) = length shown"
      using av(1) assms(6) by (simp add: unat_of_nat)
    then have n': "uint (of_nat (length shown) :: 32 word) = int (length shown)" unfolding uint_nat by (simp only:)
    let ?m' = "?m[c := (?m ! c)\<lparr>bk_bytes := map Some shown @ [Some 0] @ map Some hidden @ [None]\<rparr>]"
    have "write_bytes (Some (c, 0)) (int (length shown)) [Some 0] ?m = Inr ?m'"
      using write_in_block [of c ?m "map Some shown" "[Some 0]" "map Some hidden @ [None]" "[Some 0]"] c assms(4,5) av(1) by simp
    then have "string_set_value (Some (c, 0)) (s, m) = Inr (s\<lparr>tx_value := Some (c, 0), tx_length := of_nat (length shown),
        tx_size := of_nat (length shown) + 1\<rparr>, ?m')"
      using free len n' by (simp add: string_set_value_def Let_def)
    moreover have "contents ?m' (s\<lparr>tx_value := Some (c, 0), tx_length := of_nat (length shown),
        tx_size := of_nat (length shown) + 1\<rparr>) = shown"
      using n c(1) by (simp add: contents_def comp_def)
    ultimately show ?thesis using av(1) by blast
  qed
qed

section \<open>Examples\<close>

definition two_texts :: memory where
  "two_texts = [\<lparr>bk_bytes = map Some [104, 105, 0], bk_live = True, bk_heap = True\<rparr>,
     \<lparr>bk_bytes = map Some [112, 111, 0], bk_live = True, bk_heap = True\<rparr>,
     \<lparr>bk_bytes = map Some [255, 216] @ [None], bk_live = True, bk_heap = True\<rparr>,
     \<lparr>bk_bytes = map Some [71, 0, 9] @ [None], bk_live = True, bk_heap = True\<rparr>]"

definition text_at :: "nat \<Rightarrow> str" where
  "text_at b = \<lparr>tx_value = Some (b, 0), tx_size = 3, tx_length = 2, tx_alloc = True, tx_binary = Some False,
     tx_ref = Some ref_counted_init\<rparr>"

lemma texts_owned: "owns two_texts (text_at 0) 0" "owns two_texts (text_at 1) 1" "terminated two_texts (text_at 1)"
  by (simp_all add: owns_def terminated_def two_texts_def text_at_def)

theorem answer_is_concat_witness:
  "\<exists>s m' freed. bindO (string_new two_texts) (receive_pieces [[123], [125, 10]]) = Inr (s, m')
    \<and> contents m' s = [123, 125, 10] \<and> string_free s m' = Inr freed \<and> same_but {} two_texts freed"
  using answer_is_concat [of "[[123], [125, 10]]" two_texts] by auto

theorem compare_is_equality_witness: "string_compare (text_at 0) (text_at 1) two_texts = Inr False"
  using compare_is_equality [OF texts_owned(1,2)] by (simp add: contents_def two_texts_def text_at_def)

theorem move_hands_over_witness:
  "\<exists>s' t' m'. string_move (text_at 0) (text_at 1) two_texts = Inr (s', t', m') \<and> contents m' s' = [112, 111]"
  using move_hands_over [OF texts_owned(1,2)] by (auto simp: contents_def two_texts_def text_at_def)

theorem set__copy_frees_twice_witness:
  "\<exists>s' m'. string_set__copy (text_at 1) (text_at 0, two_texts) = Inr (s', m')
    \<and> bindO (string_free s' m') (string_free (text_at 1)) = Inl UseAfterFree"
  using set__copy_frees_twice [OF texts_owned(1,2) _ texts_owned(3)] by (auto simp: text_at_def)

theorem set_value__n__copy_overflows_witness:
  "string_set_value__n__copy (Some (1, 0)) (length [112, 111 :: byte]) (text_at 0, two_texts) = Inl OutOfRange"
  by (rule set_value__n__copy_overflows [OF texts_owned(1)])
    (simp_all add: text_at_def readable_def apart_def two_texts_def)

theorem append_to_itself_witness: "string_append (text_at 0) (text_at 0, two_texts) = Inl UseAfterFree"
  by (rule append_to_itself [OF texts_owned(1)]) (simp_all add: contents_def two_texts_def text_at_def)

theorem avatar_is_measured_witness:
  "string_set_value (Some (2, 0)) (text_at 0, two_texts) = Inl UninitRead
   \<and> (\<exists>s' m'. string_set_value (Some (3, 0)) (text_at 0, two_texts) = Inr (s', m') \<and> contents m' s' = [71])"
  using avatar_is_measured [OF texts_owned(1), of 2 "[255, 216]"] avatar_is_measured [OF texts_owned(1), of 3 "[71, 0, 9]"]
  by (auto simp: two_texts_def Cons_eq_append_conv)

end
