(* ===== verification/Spec2Isabelle.thy ===== *)
theory Spec2Isabelle
  imports Card_Best Poker_Gaps Poker_Showdown Poker_Rounds Poker_Rules Poker_Chips Poker_Deal Poker_Seats RefCount
    Server_Framing Server_Receive Server_Dispatch Server_Lifecycle Server_Privacy Account_Balance Eventloop_Safety
    Lobby_Faults Lobby_Tables Deposit_Credit Trie_Map Websocket_Handshake Websocket_Messages
    Rsa_Keys String_Owned
begin

text \<open>
  A model of the PokerUnicorn server (the C program under \<open>src/\<close>): a server that accepts clients over TLS,
  plain or as websockets, reads their packets, posts a task for each to an event loop, and a lobby whose
  handlers run there and let the clients log in, enter tables and play poker for chips that are kept in
  PostgreSQL and paid in from a Monero wallet.

  The parts, from the bottom up, with the theories that hold them. Functions have the name of the C function
  without its prefix \<open>pkrsrv_\<close> and the name of its module where that is clear; records have a short prefix for
  each structure (\<open>pl_\<close> player, \<open>pk_\<close> poker, \<open>cl_\<close> client of the server, \<open>lc_\<close> lobby client, \<open>se_\<close> session, ...).

  \<^item> \<open>Prelude\<close>, \<open>Bytes\<close>: \<open>fault\<close> and \<open>outcome\<close>, which say that the C code would dereference NULL, leave an array, read
    what it has not written or not return; \<open>bindO\<close>, their sequence; the exchange sort that several files of the
    program use; frames as bytes.
  \<^item> \<open>RefCount\<close> (\<open>src/ref.c\<close>): counters and reference objects. \<open>Linked_List\<close> (\<open>include/sugar.h\<close>): the macros of
    intrusive lists on the links of the nodes, with the HOL list that the links hold. \<open>Trie\<close>, \<open>Trie_Map\<close>
    (\<open>src/trie.c\<close>): the ASCII trie on a heap of nodes, which refines a map.
  \<^item> \<open>String_Object\<close>, \<open>String_Owned\<close> (\<open>src/string.c\<close>): string objects over a memory of blocks that are allocated
    and freed. What an owned string holds after each operation, that an answer of the wallet is the
    concatenation of its pieces and leaves no memory behind, and which operations break ownership.
  \<^item> \<open>Number_Facts\<close>, \<open>Rsa\<close>, \<open>Rsa_Crypt\<close>, \<open>Rsa_Sign\<close>, \<open>Rsa_Keys\<close> (\<open>src/rsa.c\<close>): primes and Fermat's little theorem;
    the hash, key pairs, encryption, signatures and their textual forms; what arrives of an encrypted text,
    which signatures are accepted, and that the search for a prime ends.
  \<^item> \<open>Card\<close>, \<open>Card_Draw\<close>, \<open>Card_Hands\<close>, \<open>Card_Best\<close> (\<open>src/card.c\<close>, \<open>src/random.c\<close>): cards, drawing, and the score of
    hands, compared with a reference definition of the categories.
  \<^item> \<open>Table\<close>, \<open>Poker\<close>, \<open>Poker_Action\<close>, \<open>Poker_Game\<close> (\<open>src/poker.c\<close>): the game, with \<open>do_action\<close>, timeouts, start and
    restart. What is shown of it is in \<open>Poker_Turn\<close>, \<open>Poker_Flow\<close>, \<open>Poker_Rounds\<close> (the state machine, whose turn
    it is, what ends a street), \<open>Poker_Rules\<close> (the effect of raises, calls and folds), \<open>Poker_Chips\<close> (no action
    changes the sum of chips), \<open>Poker_Showdown\<close> (who is paid), \<open>Poker_Deal\<close> (every card that is dealt is fresh,
    recorded, and in a hand or on the table), \<open>Poker_Seats\<close>, \<open>Poker_Same\<close>, \<open>Poker_Gaps\<close>; \<open>Poker_Samples\<close> has games for the witnesses.
  \<^item> \<open>Transport\<close>, \<open>Base64\<close>, \<open>Websocket\<close>, \<open>Websocket_Http\<close> (\<open>src/websocket.c\<close>, \<open>src/util.c\<close>): frames and the opening
    handshake over a reader and a writer of bytes; \<open>Websocket_Frames\<close>, \<open>Websocket_Messages\<close>,
    \<open>Websocket_Handshake\<close> read back what a peer writes.
  \<^item> \<open>Server_Frames\<close>, \<open>Server_Packet\<close>, \<open>Server_Client\<close>, \<open>Server_Send\<close>, \<open>Server_Receive\<close> (\<open>src/server.c\<close>,
    \<open>include/server.h\<close>): the packed structures, the packets in both directions, the life of a client, the table
    of opcodes and both receive loops. \<open>Server_Framing\<close> shows that a packet has the length its header says,
    \<open>Server_Dispatch\<close> that a packet of a client posts its task, but for the kinds whose handlers post none, \<open>Server_Lifecycle\<close> that a client is disconnected
    once, \<open>Server_Privacy\<close> that a packet tells nobody the cards of another player.
  \<^item> \<open>Database\<close>, \<open>Account\<close>, \<open>Account_Store\<close>, \<open>Account_Balance\<close> (\<open>src/account.c\<close>, \<open>src/db.c\<close>) and \<open>Table_Store\<close>
    (\<open>src/table.c\<close>, \<open>src/auth.c\<close>): account objects in memory and rows in a database with transactions; the
    counters and the tokens in Redis.
  \<^item> \<open>Eventloop\<close>, \<open>Eventloop_Safety\<close> (\<open>src/eventloop.c\<close>): the queue of tasks with their reference counts, timers and
    cancellation; the steps of all threads as a relation and its invariants.
  \<^item> \<open>Lobby\<close>, \<open>Lobby_Session\<close>, \<open>Lobby_Handlers\<close> (\<open>src/lobby.c\<close>): the state of the lobby, what a client does with a
    session, the tasks that drive a game, all handlers and the turn of the loop that runs them. \<open>Lobby_Frames\<close>,
    \<open>Lobby_Money\<close>, \<open>Lobby_Join\<close>, \<open>Lobby_Unjoin\<close>, \<open>Lobby_Cash\<close> follow the money; \<open>Lobby_Order\<close> refines the list of
    sessions to its links; \<open>Lobby_Return\<close> is about clients that come back; \<open>Lobby_Faults\<close> has the requests that
    crash the server; \<open>Lobby_Keeps\<close> and \<open>Lobby_Tables\<close> prove an invariant over all steps of the lobby.
  \<^item> \<open>Wallet\<close>, \<open>Deposit\<close>, \<open>Deposit_Credit\<close> (\<open>src/deposit.c\<close>): the calls of the Monero wallet and the service that
    turns transfers into deposits; which transfers are credited once, twice or not at all.

  How the parts meet: \<open>Server_Receive\<close> posts values of \<open>task\<close>, which \<open>run_client_task\<close> of the lobby runs;
  \<open>Poker\<close> records the actions it would post, which \<open>post_actions\<close> gives to the loop; the packets that the lobby
  sends are values of \<open>server_packet\<close>, whose bytes \<open>server_send\<close> makes; \<open>Account_Store\<close> records the calls of
  \<open>on_updated\<close>, which \<open>set_store\<close> turns into tasks. The stages between them are locales: \<open>map_store\<close> is what the
  lobby needs of the trie, interpreted by the trie of the program, and others are found where they are provided.

  What is a parameter: the random draws, the clock, which stands still within one handler, MD5 and SHA-1,
  the tokens and ids that are drawn, what the database chooses, the reads and writes of sockets, the wallet, the
  JSON library, and the algorithms of GMP, whose documented laws are the hypothesis \<open>gmp_ok\<close>. Whether a
  statement of the database fails is a list in the state of the database, and
  whether Redis answers is a flag. An object is named by a number; what lies in memory before is a parameter
  where the code can read it.

  Words have the width of the C types where wrap-around can matter (chips are 64 bits, lengths 16 or 32) and are
  integers elsewhere, where the bounds exclude an overflow. Messages are shorter than 2 GiB.

  Fuel: \<open>next_player\<close> has two turns around the table, in which a seat that can act is found if there is one;
  \<open>find_seat\<close> tries the ten positions; \<open>read_header\<close> has more than the number of frames that the peer has sent;
  \<open>receive_loop\<close> one unit for each packet; \<open>unset_up\<close> of the trie the length of the key and one, since each step
  goes to the parent; \<open>visit\<close> and \<open>find_place\<close> the length of the list; \<open>next_prime\<close> one unit for each number it
  tests, and \<open>random_prime_ends\<close> shows that some fuel is enough and more does not change the result. Where fuel runs out the result is
  \<open>Diverges\<close>, and the theorems show that it does not where the code returns.

  The components other than \<open>String_Object\<close> use lists of bytes for strings, as \<open>String_Owned\<close> justifies for
  strings that are made by copying, appended to and freed by their owner.

  Not modelled: the start of the program and its options, identifiers, the connections to PostgreSQL and Redis, the unicode and index
  tries and \<open>pkrsrv_deposit_monero_get_deposits\<close>, which nothing uses, the functions of \<open>table.c\<close> that read tables
  from Redis, the handler of JSON packets, which only prints, the creation of sockets, TLS contexts and
  threads, and freeing: the objects of the lobby have no reference counts in the model. The lobby has one
  connection to the database for all clients, since its handlers run one after another.
\<close>

end
